(* ===== verification/Rango_Prelude.thy ===== *)
theory Rango_Prelude
  imports Complex_Main "HOL-Library.Word" "HOL-Library.Char_ord" "HOL-Library.List_Lexorder"
    "HOL-Library.Multiset"
begin

text \<open>
  Generic material that every component uses: results and the \<open>?\<close> operator, the orderings that
  \<open>Ord::cmp\<close> returns and the stable sort that \<open>slice::sort_by\<close> performs, association lists for
  the ordered and hashed maps of the source, and the decimal and hexadecimal text of unsigned
  integers. Nothing here models a line of the repository; it is the standard library of the code.
\<close>

named_theorems result_simps \<open>rewrite rules for results and early returns\<close>
named_theorems alist_simps \<open>rewrite rules for association lists\<close>
named_theorems text_simps \<open>rewrite rules for printed and parsed text\<close>

section \<open>Machine integers\<close>

type_synonym u8 = "8 word"
type_synonym u16 = "16 word"
type_synonym u32 = "32 word"
type_synonym u64 = "64 word"
type_synonym i32 = "32 word"
type_synonym i64 = "64 word"
type_synonym bytes = "8 word list"

text \<open>An increment below an upper bound does not wrap.\<close>

lemma unat_plus_1_below:
  fixes x y :: "'a::len word"
  assumes "x < y"
  shows "unat (x + 1) = Suc (unat x)"
proof -
  have "unat x < unat y" using assms by (simp add: word_less_nat_alt)
  moreover have "unat y < 2 ^ LENGTH('a)" using unsigned_less [of y, where ?'a = nat] by simp
  ultimately have "Suc (unat x) < 2 ^ LENGTH('a)" by (rule order.strict_trans1 [OF Suc_leI])
  then show ?thesis by (simp add: unat_word_ariths)
qed

section \<open>Results and early returns\<close>

text \<open>\<open>try_r m k\<close> is \<open>let x = m?; k x\<close>: an error returns at once.\<close>

definition try_r :: "'e + 'a \<Rightarrow> ('a \<Rightarrow> 'e + 'b) \<Rightarrow> 'e + 'b" where
  "try_r m k = (case m of Inl e \<Rightarrow> Inl e | Inr x \<Rightarrow> k x)"

lemma try_r_simps [simp, result_simps]:
  "try_r (Inl e) k = Inl e"
  "try_r (Inr x) k = k x"
  by (simp_all add: try_r_def)

lemma try_r_eq_Inr [result_simps]: "try_r m k = Inr y \<longleftrightarrow> (\<exists>x. m = Inr x \<and> k x = Inr y)"
  by (cases m) simp_all

lemma try_r_eq_Inl [result_simps]:
  "try_r m k = Inl e \<longleftrightarrow> m = Inl e \<or> (\<exists>x. m = Inr x \<and> k x = Inl e)"
  by (cases m) simp_all

lemma try_r_cong [fundef_cong]:
  "m = m' \<Longrightarrow> (\<And>x. m' = Inr x \<Longrightarrow> k x = k' x) \<Longrightarrow> try_r m k = try_r m' k'"
  by (cases m') simp_all

definition map_err :: "('e \<Rightarrow> 'f) \<Rightarrow> 'e + 'a \<Rightarrow> 'f + 'a" where
  "map_err f m = (case m of Inl e \<Rightarrow> Inl (f e) | Inr x \<Rightarrow> Inr x)"

lemma map_err_simps [simp, result_simps]:
  "map_err f (Inl e) = Inl (f e)"
  "map_err f (Inr x) = Inr x"
  by (simp_all add: map_err_def)

definition ok_or :: "'a option \<Rightarrow> 'e \<Rightarrow> 'e + 'a" where
  "ok_or m e = (case m of None \<Rightarrow> Inl e | Some x \<Rightarrow> Inr x)"

lemma ok_or_simps [simp, result_simps]: "ok_or None e = Inl e" "ok_or (Some x) e = Inr x"
  by (simp_all add: ok_or_def)

definition unwrap_or :: "'a option \<Rightarrow> 'a \<Rightarrow> 'a" where
  "unwrap_or m d = (case m of None \<Rightarrow> d | Some x \<Rightarrow> x)"

lemma unwrap_or_simps [simp, result_simps]: "unwrap_or None d = d" "unwrap_or (Some x) d = x"
  by (simp_all add: unwrap_or_def)

text \<open>\<open>Result::ok\<close>, and \<open>iter.filter_map(|r| r.ok())\<close>.\<close>

definition ok_of :: "'e + 'a \<Rightarrow> 'a option" where
  "ok_of m = (case m of Inl e \<Rightarrow> None | Inr x \<Rightarrow> Some x)"

lemma ok_of_simps [simp, result_simps]: "ok_of (Inl e) = None" "ok_of (Inr x) = Some x"
  by (simp_all add: ok_of_def)

definition oks :: "('e + 'a) list \<Rightarrow> 'a list" where
  "oks rs = List.map_filter ok_of rs"

lemma oks_simps [simp, result_simps]:
  "oks [] = []" "oks (Inl e # rs) = oks rs" "oks (Inr x # rs) = x # oks rs"
  by (simp_all add: oks_def map_filter_simps)

lemma oks_map_Inr [simp]: "oks (map Inr xs) = xs"
  by (induction xs) simp_all

section \<open>Orderings\<close>

datatype rust_ordering = Less | Equal | Greater

fun reverse_ord :: "rust_ordering \<Rightarrow> rust_ordering" where
  "reverse_ord Less = Greater"
| "reverse_ord Equal = Equal"
| "reverse_ord Greater = Less"

definition cmp_of :: "'a::linorder \<Rightarrow> 'a \<Rightarrow> rust_ordering" where
  "cmp_of x y = (if x < y then Less else if x = y then Equal else Greater)"

fun then_ord :: "rust_ordering \<Rightarrow> rust_ordering \<Rightarrow> rust_ordering" where
  "then_ord Equal q = q"
| "then_ord p q = p"

lemma reverse_ord_idem [simp]: "reverse_ord (reverse_ord q) = q"
  by (cases q) simp_all

lemma reverse_ord_iff [simp]:
  "reverse_ord q = Less \<longleftrightarrow> q = Greater"
  "reverse_ord q = Equal \<longleftrightarrow> q = Equal"
  "reverse_ord q = Greater \<longleftrightarrow> q = Less"
  by (cases q; simp)+

lemma cmp_of_iff [simp]:
  "cmp_of x y = Less \<longleftrightarrow> x < y"
  "cmp_of x y = Equal \<longleftrightarrow> x = y"
  "cmp_of x y = Greater \<longleftrightarrow> y < x"
  by (auto simp: cmp_of_def)

lemma cmp_of_eqs [simp]:
  "cmp_of x x = Equal"
  "x < y \<Longrightarrow> cmp_of x y = Less"
  "y < x \<Longrightarrow> cmp_of x y = Greater"
  by simp_all

lemma cmp_of_swap: "cmp_of y x = reverse_ord (cmp_of x y)"
  by (auto simp: cmp_of_def)

lemma then_ord_iff [simp]:
  "then_ord p q = Less \<longleftrightarrow> p = Less \<or> p = Equal \<and> q = Less"
  "then_ord p q = Equal \<longleftrightarrow> p = Equal \<and> q = Equal"
  "then_ord p q = Greater \<longleftrightarrow> p = Greater \<or> p = Equal \<and> q = Greater"
  by (cases p; simp)+

lemma then_ord_Equal [simp]: "then_ord p Equal = p"
  by (cases p) simp_all

lemma reverse_then_ord: "reverse_ord (then_ord p q) = then_ord (reverse_ord p) (reverse_ord q)"
  by (cases p) simp_all

section \<open>Stable sorting\<close>

text \<open>
  \<open>slice::sort_by\<close> is a stable sort. Under a comparator that is a total preorder its result is
  determined, so the model fixes the simplest stable algorithm. For a comparator that is not a
  total preorder the standard library promises no order, and no theorem here claims one.
\<close>

fun insort_by :: "('a \<Rightarrow> 'a \<Rightarrow> rust_ordering) \<Rightarrow> 'a \<Rightarrow> 'a list \<Rightarrow> 'a list" where
  "insort_by cmp x [] = [x]"
| "insort_by cmp x (y # ys) =
     (if cmp x y = Greater then y # insort_by cmp x ys else x # y # ys)"

definition sort_by :: "('a \<Rightarrow> 'a \<Rightarrow> rust_ordering) \<Rightarrow> 'a list \<Rightarrow> 'a list" where
  "sort_by cmp xs = foldr (insort_by cmp) xs []"

lemma sort_by_simps [simp]:
  "sort_by cmp [] = []"
  "sort_by cmp (x # xs) = insort_by cmp x (sort_by cmp xs)"
  by (simp_all add: sort_by_def)

lemma mset_insort_by [simp]: "mset (insort_by cmp x xs) = add_mset x (mset xs)"
  by (induction xs) auto

lemma mset_sort_by [simp]: "mset (sort_by cmp xs) = mset xs"
  by (induction xs) auto

lemma set_sort_by [simp]: "set (sort_by cmp xs) = set xs"
  by (metis mset_sort_by set_mset_mset)

lemma length_sort_by [simp]: "length (sort_by cmp xs) = length xs"
  by (metis mset_sort_by size_mset)

locale total_comparator =
  fixes cmp :: "'a \<Rightarrow> 'a \<Rightarrow> rust_ordering" and dom_ok :: "'a \<Rightarrow> bool"
  assumes cmp_refl: "dom_ok x \<Longrightarrow> cmp x x = Equal"
    and cmp_swap: "dom_ok x \<Longrightarrow> dom_ok y \<Longrightarrow> cmp y x = reverse_ord (cmp x y)"
    and cmp_trans: "dom_ok x \<Longrightarrow> dom_ok y \<Longrightarrow> dom_ok z \<Longrightarrow>
      cmp x y \<noteq> Greater \<Longrightarrow> cmp y z \<noteq> Greater \<Longrightarrow> cmp x z \<noteq> Greater"
begin

definition le :: "'a \<Rightarrow> 'a \<Rightarrow> bool" where
  "le x y \<longleftrightarrow> cmp x y \<noteq> Greater"

lemma le_total: "dom_ok x \<Longrightarrow> dom_ok y \<Longrightarrow> le x y \<or> le y x"
  using cmp_swap [of x y] by (auto simp: le_def)

lemma sorted_insort_by:
  "dom_ok x \<Longrightarrow> (\<And>y. y \<in> set xs \<Longrightarrow> dom_ok y) \<Longrightarrow> sorted_wrt le xs \<Longrightarrow>
   sorted_wrt le (insort_by cmp x xs)"
proof (induction xs)
  case Nil
  then show ?case by simp
next
  case (Cons y ys)
  have set_eq: "set (insort_by cmp x ys) = insert x (set ys)"
    by (metis mset_insort_by set_mset_mset set_mset_add_mset_insert)
  show ?case
  proof (cases "cmp x y = Greater")
    case True
    then have "le y x" using Cons.prems cmp_swap [of x y] by (simp add: le_def)
    with True Cons show ?thesis by (simp add: set_eq)
  next
    case False
    have "le x z" if "z \<in> set ys" for z
    proof -
      have "le y z" using that Cons.prems(3) by simp
      with False that Cons.prems show ?thesis
        unfolding le_def using cmp_trans by (metis list.set_intros(1,2))
    qed
    with False Cons.prems(3) show ?thesis by (simp add: le_def)
  qed
qed

lemma sorted_sort_by: "(\<And>y. y \<in> set xs \<Longrightarrow> dom_ok y) \<Longrightarrow> sorted_wrt le (sort_by cmp xs)"
  by (induction xs) (auto intro: sorted_insort_by)

text \<open>A sorted list is left alone, so sorting twice changes nothing.\<close>

lemma insort_by_least: "(\<And>y. y \<in> set xs \<Longrightarrow> le x y) \<Longrightarrow> insort_by cmp x xs = x # xs"
  by (cases xs) (auto simp: le_def)

lemma sort_by_sorted: "sorted_wrt le xs \<Longrightarrow> sort_by cmp xs = xs"
  by (induction xs) (auto intro: insort_by_least)

lemma sort_by_idem:
  "(\<And>y. y \<in> set xs \<Longrightarrow> dom_ok y) \<Longrightarrow> sort_by cmp (sort_by cmp xs) = sort_by cmp xs"
  by (rule sort_by_sorted) (rule sorted_sort_by)

text \<open>Two sorted arrangements of the same elements agree when only equal elements compare equal.\<close>

lemma sorted_arrangement_unique:
  assumes "mset xs = mset ys" "sorted_wrt le xs" "sorted_wrt le ys"
    and "\<And>x. x \<in> set xs \<Longrightarrow> dom_ok x"
    and "\<And>x y. x \<in> set xs \<Longrightarrow> y \<in> set xs \<Longrightarrow> cmp x y = Equal \<Longrightarrow> x = y"
  shows "xs = ys"
  using assms
proof (induction xs arbitrary: ys)
  case Nil
  then show ?case by simp
next
  case (Cons x xs)
  then obtain y ys' where ys: "ys = y # ys'" by (cases ys) auto
  have sets: "set (x # xs) = set ys" using Cons.prems(1) by (metis set_mset_mset)
  have in_x: "x \<in> set ys" using sets by auto
  have in_y: "y \<in> set (x # xs)" unfolding sets ys by simp
  have ok: "dom_ok x" "dom_ok y" using Cons.prems(4) in_y by auto
  have "le x y" using in_y Cons.prems(2) ok by (auto simp: le_def cmp_refl)
  moreover have "le y x" using in_x ys Cons.prems(3) ok by (auto simp: le_def cmp_refl)
  ultimately have "cmp x y = Equal"
    using cmp_swap [OF ok] by (cases "cmp x y") (auto simp: le_def)
  then have "x = y" using Cons.prems(5) in_y by auto
  moreover have "xs = ys'"
  proof (rule Cons.IH)
    show "mset xs = mset ys'" using Cons.prems(1) ys \<open>x = y\<close> by simp
    show "sorted_wrt le ys'" using Cons.prems(3) ys by simp
  qed (use Cons.prems in auto)
  ultimately show ?case using ys by simp
qed

lemma sort_by_mset_eq:
  assumes "mset xs = mset ys"
    and "\<And>x. x \<in> set xs \<Longrightarrow> dom_ok x"
    and "\<And>x y. x \<in> set xs \<Longrightarrow> y \<in> set xs \<Longrightarrow> cmp x y = Equal \<Longrightarrow> x = y"
  shows "sort_by cmp xs = sort_by cmp ys"
proof (rule sorted_arrangement_unique)
  have sets: "set xs = set ys" using assms(1) by (metis set_mset_mset)
  show "mset (sort_by cmp xs) = mset (sort_by cmp ys)" using assms(1) by simp
  show "sorted_wrt le (sort_by cmp xs)" using assms(2) by (rule sorted_sort_by)
  show "sorted_wrt le (sort_by cmp ys)" using assms(2) sets by (auto intro: sorted_sort_by)
qed (use assms in auto)

end

section \<open>Association lists\<close>

text \<open>
  An insertion-ordered map: \<open>al_put\<close> replaces a present key's value in place and appends an
  absent key at the end, \<open>al_del\<close> removes a key and keeps the order of the others.
\<close>

fun al_get :: "('k \<times> 'v) list \<Rightarrow> 'k \<Rightarrow> 'v option" where
  "al_get [] k = None"
| "al_get ((j, v) # m) k = (if j = k then Some v else al_get m k)"

fun al_put :: "('k \<times> 'v) list \<Rightarrow> 'k \<Rightarrow> 'v \<Rightarrow> ('k \<times> 'v) list" where
  "al_put [] k v = [(k, v)]"
| "al_put ((j, u) # m) k v = (if j = k then (k, v) # m else (j, u) # al_put m k v)"

fun al_del :: "('k \<times> 'v) list \<Rightarrow> 'k \<Rightarrow> ('k \<times> 'v) list" where
  "al_del [] k = []"
| "al_del ((j, u) # m) k = (if j = k then m else (j, u) # al_del m k)"

definition al_keys :: "('k \<times> 'v) list \<Rightarrow> 'k list" where
  "al_keys m = map fst m"

definition al_wf :: "('k \<times> 'v) list \<Rightarrow> bool" where
  "al_wf m \<longleftrightarrow> distinct (map fst m)"

lemma al_wf_Nil [simp]: "al_wf []"
  by (simp add: al_wf_def)

lemma al_get_put [simp, alist_simps]:
  "al_get (al_put m k v) k' = (if k' = k then Some v else al_get m k')"
  by (induction m) auto

lemma al_get_map_of: "al_get m k = map_of m k"
  by (induction m) auto

lemma set_fst_al_put [simp, alist_simps]: "fst ` set (al_put m k v) = insert k (fst ` set m)"
  by (induction m k v rule: al_put.induct) (simp_all add: insert_commute)

lemma al_get_None_iff [alist_simps]: "al_get m k = None \<longleftrightarrow> k \<notin> fst ` set m"
  by (simp add: al_get_map_of map_of_eq_None_iff)

lemma al_get_SomeD: "al_get m k = Some v \<Longrightarrow> (k, v) \<in> set m"
  by (simp add: al_get_map_of map_of_SomeD)

lemma al_wf_get_iff: "al_wf m \<Longrightarrow> al_get m k = Some v \<longleftrightarrow> (k, v) \<in> set m"
  by (simp add: al_get_map_of al_wf_def)

lemma set_al_del_subset: "set (al_del m k) \<subseteq> set m"
  by (induction m k rule: al_del.induct) auto

lemma al_wf_Cons [simp]: "al_wf ((k, v) # m) \<longleftrightarrow> k \<notin> fst ` set m \<and> al_wf m"
  by (simp add: al_wf_def)

lemma al_wf_put [simp, intro]: "al_wf m \<Longrightarrow> al_wf (al_put m k v)"
  by (induction m) auto

lemma al_wf_del [simp, intro]: "al_wf m \<Longrightarrow> al_wf (al_del m k)"
proof (induction m k rule: al_del.induct)
  case (2 j u m k)
  then show ?case using set_al_del_subset [of m k] by auto
qed simp

lemma al_get_del_other [simp]: "k' \<noteq> k \<Longrightarrow> al_get (al_del m k) k' = al_get m k'"
  by (induction m k rule: al_del.induct) simp_all

lemma al_get_del_same: "al_wf m \<Longrightarrow> al_get (al_del m k) k = None"
  by (induction m k rule: al_del.induct) (auto simp: al_get_None_iff image_iff)

lemma al_get_del [alist_simps]:
  "al_wf m \<Longrightarrow> al_get (al_del m k) k' = (if k' = k then None else al_get m k')"
  by (simp add: al_get_del_same)

lemma al_put_absent: "al_get m k = None \<Longrightarrow> al_put m k v = m @ [(k, v)]"
  by (induction m) (auto split: if_splits)

lemma al_put_same: "al_get m k = Some v \<Longrightarrow> al_put m k v = m"
  by (induction m) (auto split: if_splits)

lemma al_put_put [simp]: "al_put (al_put m k u) k v = al_put m k v"
  by (induction m) auto

lemma set_al_put:
  "al_wf m \<Longrightarrow> set (al_put m k v) = insert (k, v) {p \<in> set m. fst p \<noteq> k}"
proof (induction m)
  case (Cons p m)
  then show ?case by (cases p) (auto simp: image_iff split: if_splits)
qed simp

lemma set_al_del: "al_wf m \<Longrightarrow> set (al_del m k) = {p \<in> set m. fst p \<noteq> k}"
proof (induction m)
  case (Cons p m)
  then show ?case by (cases p) (auto simp: image_iff)
qed simp

end
