(* ===== verification/Rango_Text.thy ===== *)
theory Rango_Text
  imports Rango_Prelude
begin

text \<open>
  Text as the code handles it: a Rust \<open>String\<close> is its UTF-8 bytes, a list of characters here, and
  compares bytewise. This theory holds the standard library's decimal printer and parser of
  unsigned integers, the sixteen-digit hexadecimal format, \<open>split\<close>/\<open>splitn\<close> at a separator, and
  their round trips.
\<close>

definition starts_with :: "'a list \<Rightarrow> 'a list \<Rightarrow> bool" where
  "starts_with pre s \<longleftrightarrow> take (length pre) s = pre"

definition strip_prefix :: "'a list \<Rightarrow> 'a list \<Rightarrow> 'a list option" where
  "strip_prefix pre s = (if starts_with pre s then Some (drop (length pre) s) else None)"

lemma starts_with_append [simp]: "starts_with pre (pre @ s)"
  by (simp add: starts_with_def)

lemma strip_prefix_append [simp]: "strip_prefix pre (pre @ s) = Some s"
  by (simp add: strip_prefix_def)

lemma starts_with_iff: "starts_with pre s \<longleftrightarrow> (\<exists>t. s = pre @ t)"
  unfolding starts_with_def by (metis append_eq_conv_conj append_take_drop_id)

lemma strip_prefix_Some: "strip_prefix pre s = Some t \<longleftrightarrow> s = pre @ t"
  by (auto simp: strip_prefix_def starts_with_iff)

section \<open>Splitting at a separator\<close>

fun split_at :: "'a \<Rightarrow> 'a list \<Rightarrow> ('a list \<times> 'a list) option" where
  "split_at c [] = None"
| "split_at c (x # xs) =
     (if x = c then Some ([], xs)
      else case split_at c xs of None \<Rightarrow> None | Some (p, q) \<Rightarrow> Some (x # p, q))"

lemma split_at_append [simp]: "c \<notin> set p \<Longrightarrow> split_at c (p @ c # q) = Some (p, q)"
  by (induction p) auto

lemma split_at_SomeD: "split_at c s = Some (p, q) \<Longrightarrow> s = p @ c # q \<and> c \<notin> set p"
  by (induction s arbitrary: p) (auto split: option.splits if_splits)

lemma split_at_Some: "split_at c s = Some (p, q) \<longleftrightarrow> s = p @ c # q \<and> c \<notin> set p"
  using split_at_SomeD split_at_append by metis

lemma split_at_None: "split_at c s = None \<longleftrightarrow> c \<notin> set s"
  by (induction s) (auto split: option.splits)

text \<open>\<open>s.splitn(3, c).collect()\<close>: at most three parts, the last one unsplit.\<close>

definition splitn3 :: "'a \<Rightarrow> 'a list \<Rightarrow> 'a list list" where
  "splitn3 c s =
     (case split_at c s of
        None \<Rightarrow> [s]
      | Some (p, r) \<Rightarrow> (case split_at c r of None \<Rightarrow> [p, r] | Some (q, t) \<Rightarrow> [p, q, t]))"

lemma splitn3_parts [simp, text_simps]:
  "c \<notin> set p \<Longrightarrow> c \<notin> set q \<Longrightarrow> splitn3 c (p @ c # q @ c # t) = [p, q, t]"
  by (simp add: splitn3_def)

lemma splitn3_three:
  "splitn3 c s = [p, q, t] \<longleftrightarrow> s = p @ c # q @ c # t \<and> c \<notin> set p \<and> c \<notin> set q"
proof
  assume "splitn3 c s = [p, q, t]"
  then show "s = p @ c # q @ c # t \<and> c \<notin> set p \<and> c \<notin> set q"
    by (auto simp: splitn3_def split_at_Some split: option.splits)
qed simp

section \<open>Decimal text\<close>

definition digit_char :: "nat \<Rightarrow> char" where
  "digit_char d = char_of (48 + d)"

definition char_digit :: "char \<Rightarrow> nat option" where
  "char_digit c = (if 48 \<le> (of_char c :: nat) \<and> (of_char c :: nat) \<le> 57
     then Some (of_char c - 48) else None)"

fun show_nat :: "nat \<Rightarrow> string" where
  "show_nat n = (if n < 10 then [digit_char n] else show_nat (n div 10) @ [digit_char (n mod 10)])"

declare show_nat.simps [simp del]

fun digits_value :: "nat \<Rightarrow> string \<Rightarrow> nat option" where
  "digits_value acc [] = Some acc"
| "digits_value acc (c # cs) =
     (case char_digit c of None \<Rightarrow> None | Some d \<Rightarrow> digits_value (10 * acc + d) cs)"

text \<open>
  \<open>str::parse\<close> at an unsigned type with values below \<open>bound\<close>: an optional plus sign and at least one
  digit; the digits are read from the left, and the first fault, a wrong character or an overflow,
  is the one reported. \<open>ParseIntError\<close> carries only its kind.
\<close>

datatype parse_int_error = EmptyText | InvalidDigit | PosOverflow | NegOverflow

fun parse_digits :: "nat \<Rightarrow> nat \<Rightarrow> string \<Rightarrow> parse_int_error + nat" where
  "parse_digits bound acc [] = Inr acc"
| "parse_digits bound acc (c # cs) =
     (case char_digit c of
        None \<Rightarrow> Inl InvalidDigit
      | Some d \<Rightarrow> if 10 * acc + d < bound then parse_digits bound (10 * acc + d) cs else Inl PosOverflow)"

definition parse_uint :: "nat \<Rightarrow> string \<Rightarrow> parse_int_error + nat" where
  "parse_uint bound s =
     (if s = [] then Inl EmptyText
      else let ds = (if hd s = CHR ''+'' then tl s else s)
        in if ds = [] then Inl InvalidDigit else parse_digits bound 0 ds)"

lemma char_digit_digit_char [simp]: "d < 10 \<Longrightarrow> char_digit (digit_char d) = Some d"
  by (simp add: char_digit_def digit_char_def)

lemma digit_char_inject [simp]: "d < 10 \<Longrightarrow> e < 10 \<Longrightarrow> digit_char d = digit_char e \<longleftrightarrow> d = e"
  by (metis char_digit_digit_char option.inject)

lemma digits_value_append:
  "digits_value acc (s @ t) =
     (case digits_value acc s of None \<Rightarrow> None | Some v \<Rightarrow> digits_value v t)"
  by (induction s arbitrary: acc) (auto split: option.splits)

lemma digits_value_show_nat [simp, text_simps]: "digits_value 0 (show_nat n) = Some n"
proof (induction n rule: show_nat.induct)
  case (1 n)
  show ?case
  proof (cases "n < 10")
    case True
    then show ?thesis by (subst show_nat.simps) simp
  next
    case False
    with 1 show ?thesis by (subst show_nat.simps) (simp add: digits_value_append)
  qed
qed

lemma show_nat_nonempty [simp]: "show_nat n \<noteq> []"
  by (subst show_nat.simps) simp

definition is_digit :: "char \<Rightarrow> bool" where
  "is_digit c \<longleftrightarrow> char_digit c \<noteq> None"

lemma show_nat_digits: "c \<in> set (show_nat n) \<Longrightarrow> is_digit c"
proof (induction n rule: show_nat.induct)
  case (1 n)
  then show ?case
    by (subst (asm) (2) show_nat.simps) (auto simp: is_digit_def split: if_splits)
qed

lemma not_digit [simp]: "\<not> is_digit (CHR ''-'')" "\<not> is_digit (CHR ''+'')"
  by (simp_all add: is_digit_def char_digit_def)

lemma dash_notin_show_nat [simp]: "CHR ''-'' \<notin> set (show_nat n)"
  using show_nat_digits not_digit(1) by blast

lemma hd_show_nat_plus [simp]: "hd (show_nat n) \<noteq> CHR ''+''"
  by (metis hd_in_set not_digit(2) show_nat_digits show_nat_nonempty)

lemma digits_value_mono: "digits_value acc s = Some v \<Longrightarrow> acc \<le> v"
proof (induction s arbitrary: acc)
  case (Cons c cs)
  then obtain d where "digits_value (10 * acc + d) cs = Some v" by (auto split: option.splits)
  from Cons.IH [OF this] show ?case by simp
qed simp

lemma parse_digits_value: "digits_value acc s = Some v \<Longrightarrow> v < bound \<Longrightarrow> parse_digits bound acc s = Inr v"
proof (induction s arbitrary: acc)
  case (Cons c cs)
  then obtain d where d: "char_digit c = Some d" "digits_value (10 * acc + d) cs = Some v"
    by (auto split: option.splits)
  with digits_value_mono [OF d(2)] Cons.prems(2) Cons.IH [OF d(2)] show ?case by simp
qed simp

lemma parse_digits_bound: "acc < bound \<Longrightarrow> parse_digits bound acc s = Inr v \<Longrightarrow> v < bound"
  by (induction s arbitrary: acc) (auto split: option.splits if_splits)

theorem parse_show_nat [simp, text_simps]: "n < bound \<Longrightarrow> parse_uint bound (show_nat n) = Inr n"
  by (simp add: parse_uint_def parse_digits_value)

lemma parse_uint_bound:
  assumes "parse_uint bound s = Inr v" "0 < bound"
  shows "v < bound"
  using assms by (auto simp: parse_uint_def Let_def dest: parse_digits_bound [OF assms(2)] split: if_splits)

lemma show_nat_inject [simp]: "show_nat m = show_nat n \<longleftrightarrow> m = n"
  by (metis digits_value_show_nat option.inject)

section \<open>Hexadecimal text\<close>

definition hex_char :: "nat \<Rightarrow> char" where
  "hex_char d = (if d < 10 then char_of (48 + d) else char_of (87 + d))"

text \<open>\<open>format!("{:016x}", w)\<close>: sixteen lower-case digits, most significant first.\<close>

definition hex16 :: "u64 \<Rightarrow> string" where
  "hex16 w = map (\<lambda>i. hex_char (unat w div 16 ^ (15 - i) mod 16)) [0..<16]"

lemma length_hex16 [simp, text_simps]: "length (hex16 w) = 16"
  by (simp add: hex16_def)

lemma hex16_nonempty [simp]: "hex16 w \<noteq> []"
  using length_hex16 [of w] by force

lemma hex_char_dash: "d < 16 \<Longrightarrow> hex_char d \<noteq> CHR ''-''"
proof -
  assume "d < 16"
  then have "of_char (hex_char d) \<noteq> (45::nat)" by (simp add: hex_char_def)
  moreover have "of_char (CHR ''-'') = (45::nat)" by simp
  ultimately show ?thesis by metis
qed

lemma dash_notin_hex16 [simp]: "CHR ''-'' \<notin> set (hex16 w)"
proof
  assume "CHR ''-'' \<in> set (hex16 w)"
  then obtain i where "CHR ''-'' = hex_char (unat w div 16 ^ (15 - i) mod 16)"
    by (auto simp: hex16_def)
  then show False using hex_char_dash [of "unat w div 16 ^ (15 - i) mod 16"] by simp
qed

end
