(* ===== verification/Rango_Float.thy ===== *)
theory Rango_Float
  imports Rango_Prelude "HOL-Library.Log_Nat"
begin

text \<open>
  The \<open>f64\<close> of the language. A finite value is the rational it stands for; arithmetic and the
  casts from integers round the exact result to the nearest representable value, ties to even, and
  overflow to an infinity. The two zeros are one value: every comparison of the source treats them
  alike.
\<close>

datatype f64 = NaN | NegInf | Fin rat | PosInf

section \<open>Rounding to 53 significant bits\<close>

definition ulp_exp :: "rat \<Rightarrow> int" where
  "ulp_exp x = (case quotient_of x of (n, d) \<Rightarrow>
     let k = bitlen \<bar>n\<bar> - bitlen d;
         e = (if \<bar>n\<bar> * 2 ^ nat (- k) < d * 2 ^ nat k then k - 1 else k)
     in max (- 1074) (e - 52))"

definition round_half_even :: "rat \<Rightarrow> int" where
  "round_half_even q =
     (let r = \<lfloor>q\<rfloor>; f = q - of_int r
      in if f < 1 / 2 then r else if 1 / 2 < f then r + 1 else if even r then r else r + 1)"

definition two_pow :: "int \<Rightarrow> rat" where
  "two_pow e = (if 0 \<le> e then 2 ^ nat e else 1 / 2 ^ nat (- e))"

definition f64_max :: rat where
  "f64_max = (2 ^ 53 - 1) * 2 ^ 971"

definition round_f64 :: "rat \<Rightarrow> f64" where
  "round_f64 x =
     (if x = 0 then Fin 0
      else let u = two_pow (ulp_exp x); y = of_int (round_half_even (x / u)) * u
        in if f64_max < y then PosInf else if y < - f64_max then NegInf else Fin y)"

definition f64_of_int :: "int \<Rightarrow> f64" where
  "f64_of_int z = round_f64 (of_int z)"

section \<open>Comparison\<close>

text \<open>\<open>PartialOrd::partial_cmp\<close>: none when either side is not a number.\<close>

fun f64_cmp :: "f64 \<Rightarrow> f64 \<Rightarrow> rust_ordering option" where
  "f64_cmp NaN y = None"
| "f64_cmp x NaN = None"
| "f64_cmp (Fin x) (Fin y) = Some (cmp_of x y)"
| "f64_cmp NegInf NegInf = Some Equal"
| "f64_cmp PosInf PosInf = Some Equal"
| "f64_cmp NegInf y = Some Less"
| "f64_cmp x NegInf = Some Greater"
| "f64_cmp PosInf y = Some Greater"
| "f64_cmp x PosInf = Some Less"

definition f64_eq :: "f64 \<Rightarrow> f64 \<Rightarrow> bool" where
  "f64_eq x y \<longleftrightarrow> f64_cmp x y = Some Equal"

definition f64_lt :: "f64 \<Rightarrow> f64 \<Rightarrow> bool" where
  "f64_lt x y \<longleftrightarrow> f64_cmp x y = Some Less"

definition f64_le :: "f64 \<Rightarrow> f64 \<Rightarrow> bool" where
  "f64_le x y \<longleftrightarrow> f64_cmp x y = Some Less \<or> f64_cmp x y = Some Equal"

definition is_finite :: "f64 \<Rightarrow> bool" where
  "is_finite x = (case x of Fin q \<Rightarrow> True | _ \<Rightarrow> False)"

text \<open>\<open>(0.0..=1.0).contains(&x)\<close>.\<close>

definition in_unit :: "f64 \<Rightarrow> bool" where
  "in_unit x \<longleftrightarrow> f64_le (Fin 0) x \<and> f64_le x (Fin 1)"

lemma f64_cmp_refl: "x \<noteq> NaN \<Longrightarrow> f64_cmp x x = Some Equal"
  by (cases x) auto

lemma f64_cmp_None_iff: "f64_cmp x y = None \<longleftrightarrow> x = NaN \<or> y = NaN"
  by (cases x; cases y) auto

lemma f64_cmp_NaN [simp]: "f64_cmp x NaN = None"
  by (cases x) auto

lemma f64_cmp_swap: "f64_cmp y x = map_option reverse_ord (f64_cmp x y)"
  by (cases x; cases y) (auto simp: cmp_of_def)

lemma f64_cmp_Equal_iff: "f64_cmp x y = Some Equal \<longleftrightarrow> x = y \<and> x \<noteq> NaN"
  by (cases x; cases y) auto

lemma f64_eq_iff [simp]: "f64_eq x y \<longleftrightarrow> x = y \<and> x \<noteq> NaN"
  by (simp add: f64_eq_def f64_cmp_Equal_iff)

lemma in_unit_iff: "in_unit x \<longleftrightarrow> (\<exists>q. x = Fin q \<and> 0 \<le> q \<and> q \<le> 1)"
  by (cases x) (auto simp: in_unit_def f64_le_def)

lemma in_unit_Fin [simp]: "in_unit (Fin q) \<longleftrightarrow> 0 \<le> q \<and> q \<le> 1"
  by (simp add: in_unit_iff)

lemma in_unit_special [simp]: "\<not> in_unit NaN" "\<not> in_unit NegInf" "\<not> in_unit PosInf"
  by (simp_all add: in_unit_iff)

lemma in_unit_finite: "in_unit x \<Longrightarrow> is_finite x"
  by (auto simp: in_unit_iff is_finite_def)

section \<open>Arithmetic\<close>

fun f64_neg :: "f64 \<Rightarrow> f64" where
  "f64_neg NaN = NaN"
| "f64_neg NegInf = PosInf"
| "f64_neg PosInf = NegInf"
| "f64_neg (Fin x) = Fin (- x)"

fun f64_add :: "f64 \<Rightarrow> f64 \<Rightarrow> f64" where
  "f64_add (Fin x) (Fin y) = round_f64 (x + y)"
| "f64_add NaN y = NaN"
| "f64_add x NaN = NaN"
| "f64_add PosInf NegInf = NaN"
| "f64_add NegInf PosInf = NaN"
| "f64_add PosInf y = PosInf"
| "f64_add NegInf y = NegInf"
| "f64_add x PosInf = PosInf"
| "f64_add x NegInf = NegInf"

definition inf_signed :: "bool \<Rightarrow> f64" where
  "inf_signed pos = (if pos then PosInf else NegInf)"

fun f64_mul :: "f64 \<Rightarrow> f64 \<Rightarrow> f64" where
  "f64_mul (Fin x) (Fin y) = round_f64 (x * y)"
| "f64_mul NaN y = NaN"
| "f64_mul x NaN = NaN"
| "f64_mul (Fin x) PosInf = (if x = 0 then NaN else inf_signed (0 < x))"
| "f64_mul (Fin x) NegInf = (if x = 0 then NaN else inf_signed (x < 0))"
| "f64_mul PosInf (Fin y) = (if y = 0 then NaN else inf_signed (0 < y))"
| "f64_mul NegInf (Fin y) = (if y = 0 then NaN else inf_signed (y < 0))"
| "f64_mul PosInf PosInf = PosInf"
| "f64_mul PosInf NegInf = NegInf"
| "f64_mul NegInf PosInf = NegInf"
| "f64_mul NegInf NegInf = PosInf"

text \<open>A decimal literal of the source is the value its digits round to.\<close>

definition f64_lit :: "rat \<Rightarrow> f64" where
  "f64_lit q = round_f64 q"

lemma round_f64_zero [simp]: "round_f64 0 = Fin 0"
  by (simp add: round_f64_def)

lemma round_f64_not_NaN [simp]: "round_f64 x \<noteq> NaN"
  by (simp add: round_f64_def Let_def)

lemma f64_of_int_not_NaN [simp]: "f64_of_int z \<noteq> NaN"
  by (simp add: f64_of_int_def)

lemma round_half_even_int [simp]: "round_half_even (of_int z) = z"
  by (simp add: round_half_even_def)

end
