(* ===== verification/Rango_Types.thy ===== *)
theory Rango_Types
  imports Rango_Text Rango_Float
begin

text \<open>
  The data of the crate \<open>types\<close>: BSON values and documents, the error type, mutations and their
  metadata, oplog entries, snapshots, the memory tiers and governance decisions, the retrieval
  types. Newtypes that only wrap a value (\<open>CollectionName\<close>, \<open>DocumentId\<close>, \<open>Checkpoint\<close>) are
  synonyms. A \<open>bson::Document\<close> is the ordered map it is documented to be, an association list
  with \<open>al_get\<close>, \<open>al_put\<close> and \<open>al_del\<close> for \<open>get\<close>, \<open>insert\<close> and \<open>remove\<close>; the accessors
  below are the typed getters the code calls.
\<close>

section \<open>BSON values\<close>

datatype bson =
    Double f64
  | String string
  | Array "bson list"
  | Document "(string \<times> bson) list"
  | Boolean bool
  | Null
  | RegularExpression string string
  | JavaScriptCode string
  | JavaScriptCodeWithScope string "(string \<times> bson) list"
  | Int32 i32
  | Int64 i64
  | Timestamp u32 u32
  | Binary u8 bytes
  | ObjectId bytes
  | DateTime int
  | Symbol string
  | Decimal128 bytes
  | Undefined
  | MaxKey
  | MinKey
  | DbPointer string bytes

type_synonym doc = "(string \<times> bson) list"
type_synonym millis = int
type_synonym collection_name = string
type_synonym document_id = bson
type_synonym checkpoint = u64

text \<open>The binary subtype of a UUID.\<close>

abbreviation uuid_subtype :: u8 where
  "uuid_subtype \<equiv> 4"

fun as_i32 :: "bson \<Rightarrow> i32 option" where
  "as_i32 (Int32 i) = Some i"
| "as_i32 _ = None"

fun as_i64 :: "bson \<Rightarrow> i64 option" where
  "as_i64 (Int64 i) = Some i"
| "as_i64 _ = None"

fun as_f64 :: "bson \<Rightarrow> f64 option" where
  "as_f64 (Double x) = Some x"
| "as_f64 _ = None"

fun as_bool :: "bson \<Rightarrow> bool option" where
  "as_bool (Boolean b) = Some b"
| "as_bool _ = None"

fun as_str :: "bson \<Rightarrow> string option" where
  "as_str (String s) = Some s"
| "as_str _ = None"

fun as_array :: "bson \<Rightarrow> bson list option" where
  "as_array (Array xs) = Some xs"
| "as_array _ = None"

fun as_document :: "bson \<Rightarrow> doc option" where
  "as_document (Document d) = Some d"
| "as_document _ = None"

fun as_datetime :: "bson \<Rightarrow> millis option" where
  "as_datetime (DateTime t) = Some t"
| "as_datetime _ = None"

text \<open>A match with one constructor and a default is a match on the accessor.\<close>

lemma as_array_Some [simp]: "as_array v = Some xs \<longleftrightarrow> v = Array xs"
  by (cases v) auto

lemma as_document_Some [simp]: "as_document v = Some d \<longleftrightarrow> v = Document d"
  by (cases v) auto

lemma as_str_Some [simp]: "as_str v = Some s \<longleftrightarrow> v = String s"
  by (cases v) auto

lemma case_Array:
  "(case v of Array xs \<Rightarrow> f xs | _ \<Rightarrow> e) = (case as_array v of Some xs \<Rightarrow> f xs | None \<Rightarrow> e)"
  by (cases v) auto

lemma case_Document:
  "(case v of Document d \<Rightarrow> f d | _ \<Rightarrow> e) = (case as_document v of Some d \<Rightarrow> f d | None \<Rightarrow> e)"
  by (cases v) auto

text \<open>The typed getters \<open>get_bool\<close>, \<open>get_str\<close>, ...: a present value of that type, or an error.\<close>

definition get_as :: "(bson \<Rightarrow> 'a option) \<Rightarrow> doc \<Rightarrow> string \<Rightarrow> 'a option" where
  "get_as f d k = Option.bind (al_get d k) f"

lemma get_as_put [simp]: "get_as f (al_put d k v) k' = (if k' = k then f v else get_as f d k')"
  by (simp add: get_as_def)

lemma get_as_del_other [simp]: "k' \<noteq> k \<Longrightarrow> get_as f (al_del d k) k' = get_as f d k'"
  by (simp add: get_as_def)

section \<open>Errors\<close>

datatype rango_error =
    DocumentNotFound string
  | CollectionNotFound string
  | InvalidQueryOperator string
  | Storage string
  | Sync string
  | Conflict string
  | DocumentTooLarge nat nat

type_synonym 'a result = "rango_error + 'a"

section \<open>Documents, checkpoints and configuration\<close>

record rango_document =
  doc_data :: doc

definition doc_id_of :: "rango_document \<Rightarrow> bson option" where
  "doc_id_of d = al_get (doc_data d) ''_id''"

definition doc_revision :: "rango_document \<Rightarrow> i64 option" where
  "doc_revision d = get_as as_i64 (doc_data d) ''_rev''"

definition doc_updated_at :: "rango_document \<Rightarrow> millis option" where
  "doc_updated_at d = get_as as_datetime (doc_data d) ''_updated_at''"

definition doc_is_deleted :: "rango_document \<Rightarrow> bool" where
  "doc_is_deleted d = unwrap_or (get_as as_bool (doc_data d) ''_deleted'') False"

definition doc_source_node :: "rango_document \<Rightarrow> string option" where
  "doc_source_node d = get_as as_str (doc_data d) ''_source_node''"

definition checkpoint_initial :: checkpoint where
  "checkpoint_initial = 0"

definition checkpoint_next :: "checkpoint \<Rightarrow> checkpoint" where
  "checkpoint_next c = c + 1"

record rango_config =
  cfg_max_document_size_bytes :: nat
  cfg_memory_budget_bytes :: nat

definition default_config :: rango_config where
  "default_config = \<lparr>cfg_max_document_size_bytes = 16 * 1024 * 1024,
     cfg_memory_budget_bytes = 128 * 1024 * 1024\<rparr>"

record snapshot_unit =
  snap_id :: string
  snap_tenant_id :: string
  snap_namespace :: string
  snap_base_seq :: u64
  snap_created_at :: millis
  snap_state :: "doc list"

record rollback_unit =
  rb_snapshot_id :: string
  rb_target_seq :: u64
  rb_requested_at :: millis
  rb_reason :: string

record rollback_audit =
  ra_rollback :: rollback_unit
  ra_applied_at :: millis

record index_definition =
  index_name :: string
  index_fields :: "string list"
  index_unique :: bool

section \<open>Memory tiers and governance decisions\<close>

datatype memory_tier = State | Episodic | Semantic | Artifact

datatype trust_level = Low | Medium | High

datatype policy_decision = Allow | Sanitize | Reject

record governance_decision =
  gd_decision :: policy_decision
  gd_reason :: string

record semantic_read_view =
  view_tier :: memory_tier
  view_derived :: bool
  view_canonical :: bool
  view_payload :: doc

definition semantic_read_view_new :: "memory_tier \<Rightarrow> doc \<Rightarrow> semantic_read_view" where
  "semantic_read_view_new tier payload =
     \<lparr>view_tier = tier, view_derived = True, view_canonical = False, view_payload = payload\<rparr>"

section \<open>Mutations and the operation log's entries\<close>

type_synonym revision = string

datatype mutation_op = Insert | Update | Delete

record mutation_metadata =
  md_id :: document_id
  md_namespace :: string
  md_tenant_id :: string
  md_type :: string
  md_rev :: revision
  md_created_at :: millis
  md_updated_at :: millis
  md_source :: string
  md_actor :: string
  md_lineage :: string
  md_schema_version :: u32
  md_trust_score :: f64
  md_verified :: "bool option"
  md_expires_at :: "millis option"

record mutation =
  mut_op :: mutation_op
  mut_collection :: string
  mut_doc_id :: document_id
  mut_patch :: "doc option"
  mut_seq :: u64
  mut_timestamp :: millis
  mut_rev :: revision
  mut_write_id :: string
  mut_metadata :: mutation_metadata

datatype oplog_origin = Local | Remote | Replay

record oplog_entry =
  entry_seq :: u64
  entry_timestamp :: millis
  entry_mutation :: mutation
  entry_origin :: oplog_origin
  entry_applied :: bool
  entry_snapshot_anchor :: "string option"

record restore_plan =
  plan_snapshot :: snapshot_unit
  replay_from_seq :: u64

text \<open>
  \<open>MutationMetadata::validate\<close>: the checks in the order of the source, each an early return.
\<close>

definition validate_mutation_metadata :: "mutation_metadata \<Rightarrow> string + unit" where
  "validate_mutation_metadata m =
     (if md_namespace m = [] then Inl ''namespace must be non-empty''
      else if md_tenant_id m = [] then Inl ''tenant_id must be non-empty''
      else if md_type m = [] then Inl ''type must be non-empty''
      else if md_source m = [] then Inl ''source must be non-empty''
      else if md_actor m = [] then Inl ''actor must be non-empty''
      else if md_lineage m = [] then Inl ''lineage must be non-empty''
      else if md_schema_version m < 1 then Inl ''schema_version must be >= 1''
      else if \<not> in_unit (md_trust_score m) then Inl ''trust_score must be between 0.0 and 1.0''
      else if md_updated_at m < md_created_at m then Inl ''updated_at must be >= created_at''
      else Inr ())"

definition validate_metadata :: "mutation \<Rightarrow> string + unit" where
  "validate_metadata m = validate_mutation_metadata (mut_metadata m)"

text \<open>What the validator decides, as a predicate.\<close>

definition metadata_valid :: "mutation_metadata \<Rightarrow> bool" where
  "metadata_valid m \<longleftrightarrow>
     md_namespace m \<noteq> [] \<and> md_tenant_id m \<noteq> [] \<and> md_type m \<noteq> [] \<and> md_source m \<noteq> [] \<and>
     md_actor m \<noteq> [] \<and> md_lineage m \<noteq> [] \<and> md_schema_version m \<noteq> 0 \<and>
     in_unit (md_trust_score m) \<and> md_created_at m \<le> md_updated_at m"

lemma validate_mutation_metadata_ok:
  "validate_mutation_metadata m = Inr () \<longleftrightarrow> metadata_valid m"
  by (simp add: validate_mutation_metadata_def metadata_valid_def word_less_1 not_less)

lemma validate_metadata_ok: "validate_metadata m = Inr () \<longleftrightarrow> metadata_valid (mut_metadata m)"
  by (simp add: validate_metadata_def validate_mutation_metadata_ok)

lemma validate_metadata_cases:
  obtains (ok) "validate_metadata m = Inr ()" "metadata_valid (mut_metadata m)"
  | (err) e where "validate_metadata m = Inl e" "\<not> metadata_valid (mut_metadata m)"
  by (cases "validate_metadata m") (use validate_metadata_ok [of m] in auto)

section \<open>Retrieval\<close>

datatype retrieval_source = Canonical | Vector | Graph

datatype retrieval_status = Healthy | Disabled | Degraded

record retrieval_request =
  rq_tenant_id :: string
  rq_namespace :: string
  rq_query :: string
  rq_limit :: nat
  rq_vector_limit :: nat
  rq_graph_limit :: nat

definition retrieval_request_new :: "string \<Rightarrow> string \<Rightarrow> string \<Rightarrow> retrieval_request" where
  "retrieval_request_new tenant ns query =
     \<lparr>rq_tenant_id = tenant, rq_namespace = ns, rq_query = query, rq_limit = 20,
      rq_vector_limit = 20, rq_graph_limit = 20\<rparr>"

definition with_limit :: "retrieval_request \<Rightarrow> nat \<Rightarrow> retrieval_request" where
  "with_limit r n = r\<lparr>rq_limit := n\<rparr>"

record ranking_signals =
  sig_relevance :: f64
  sig_trust :: f64
  sig_recency :: f64
  sig_provenance :: f64

record ranking_explainability =
  ex_formula_version :: string
  ex_relevance_weight :: f64
  ex_trust_weight :: f64
  ex_recency_weight :: f64
  ex_provenance_weight :: f64
  ex_relevance_component :: f64
  ex_trust_component :: f64
  ex_recency_component :: f64
  ex_provenance_component :: f64
  ex_total_score :: f64

record retrieval_candidate =
  cand_id :: string
  cand_tenant_id :: string
  cand_namespace :: string
  cand_source :: retrieval_source
  cand_lineage :: string
  cand_timestamp_ms :: int
  cand_payload :: doc
  cand_signals :: ranking_signals
  cand_score :: f64
  cand_explainability :: "ranking_explainability option"

record retrieval_response =
  rs_status :: retrieval_status
  rs_status_reason :: string
  rs_canonical_fallback :: bool
  rs_candidates :: "retrieval_candidate list"

definition deterministic_score_v1 :: "ranking_signals \<Rightarrow> f64" where
  "deterministic_score_v1 s =
     f64_add (f64_add (f64_add (f64_mul (f64_lit (35 / 100)) (sig_relevance s))
       (f64_mul (f64_lit (30 / 100)) (sig_trust s)))
       (f64_mul (f64_lit (20 / 100)) (sig_recency s)))
       (f64_mul (f64_lit (15 / 100)) (sig_provenance s))"

section \<open>Sync queue entries\<close>

datatype queue_state = Pending | Inflight | Acked | Failed

record sync_queue_entry =
  q_seq :: u64
  q_state :: queue_state
  q_retries :: u32
  q_last_error :: "string option"

end
