(* ===== verification/Rango_Deps.thy ===== *)
theory Rango_Deps
  imports Rango_Types
begin

text \<open>
  What the code calls and the repository does not define. \<open>deps\<close> collects the operations of the
  crates \<open>bson\<close> and \<open>uuid\<close>, the standard hasher, the float formatter and the iteration order of
  a hash map; every definition that uses one takes the record as its first argument, and a property
  that relies on documented behaviour of one says so as a hypothesis over the record. \<open>world\<close> is
  the outside the code reads: clocks, fresh UUIDs and the process-wide revision counter. Each read
  takes the next element of a stream, about which nothing is assumed unless a property says so.
\<close>

record deps =
  bson_eq :: "bson \<Rightarrow> bson \<Rightarrow> bool"
  bson_display :: "bson \<Rightarrow> string"
  bson_debug :: "bson \<Rightarrow> string"
  uuid_display :: "bytes \<Rightarrow> string option"
  oid_display :: "bytes \<Rightarrow> string"
  bytes_debug :: "bytes \<Rightarrow> string"
  to_writer :: "doc \<Rightarrow> string + bytes"
  from_reader :: "bytes \<Rightarrow> string + doc"
  hash_str :: "string \<Rightarrow> u64"
  hash_mutation :: "mutation_op \<Rightarrow> string \<Rightarrow> document_id \<Rightarrow> doc option \<Rightarrow> revision \<Rightarrow> u64"
  f64_display :: "f64 \<Rightarrow> string"
  f64_display2 :: "f64 \<Rightarrow> string"
  hash_order :: "(bytes \<times> bytes) list \<Rightarrow> (bytes \<times> bytes) list"

text \<open>Documented behaviour: what a writer wrote, the reader reads back.\<close>

definition codec_ok :: "deps \<Rightarrow> bool" where
  "codec_ok D \<longleftrightarrow> (\<forall>d bs. to_writer D d = Inr bs \<longrightarrow> from_reader D bs = Inr d)"

text \<open>A hash map yields each of its pairs once, in some order.\<close>

definition hash_order_ok :: "deps \<Rightarrow> bool" where
  "hash_order_ok D \<longleftrightarrow> (\<forall>m. mset (hash_order D m) = mset m)"

lemma codec_okD: "codec_ok D \<Longrightarrow> to_writer D d = Inr bs \<Longrightarrow> from_reader D bs = Inr d"
  by (simp add: codec_ok_def)

lemma hash_order_okD: "hash_order_ok D \<Longrightarrow> mset (hash_order D m) = mset m"
  by (simp add: hash_order_ok_def)

lemma set_hash_order: "hash_order_ok D \<Longrightarrow> set (hash_order D m) = set m"
  by (metis hash_order_okD set_mset_mset)

text \<open>
  A codec that knows a finite list of documents: it writes a document's position as one byte. It
  satisfies \<open>codec_ok\<close> for any list, so a closed instance can be built around the documents that
  occur in it.
\<close>

fun index_of :: "'a list \<Rightarrow> 'a \<Rightarrow> nat option" where
  "index_of [] x = None"
| "index_of (y # ys) x = (if y = x then Some 0 else map_option Suc (index_of ys x))"

definition table_writer :: "doc list \<Rightarrow> doc \<Rightarrow> string + bytes" where
  "table_writer ds d =
     (case index_of ds d of
        Some i \<Rightarrow> if i < 256 then Inr [of_nat i] else Inl ''table full''
      | None \<Rightarrow> Inl ''unknown document'')"

definition table_reader :: "doc list \<Rightarrow> bytes \<Rightarrow> string + doc" where
  "table_reader ds bs =
     (case bs of
        [b] \<Rightarrow> if unat b < length ds then Inr (ds ! unat b) else Inl ''unknown position''
      | _ \<Rightarrow> Inl ''malformed'')"

lemma index_of_Some: "index_of xs x = Some i \<Longrightarrow> i < length xs \<and> xs ! i = x"
  by (induction xs arbitrary: i) (auto split: if_splits)

lemma table_codec: "table_writer ds d = Inr bs \<Longrightarrow> table_reader ds bs = Inr d"
  by (auto simp: table_writer_def table_reader_def unat_of_nat dest!: index_of_Some
      split: option.splits if_splits)

text \<open>The dependencies with a table codec, used by the closed instances of the properties.\<close>

definition sample_deps :: "doc list \<Rightarrow> deps" where
  "sample_deps ds =
     \<lparr>bson_eq = (=), bson_display = (\<lambda>b. case b of String s \<Rightarrow> s | _ \<Rightarrow> ''?''),
      bson_debug = (\<lambda>b. ''?''), uuid_display = (\<lambda>bs. Some (map (\<lambda>b. char_of (unat b)) bs)),
      oid_display = map (\<lambda>b. char_of (unat b)), bytes_debug = (\<lambda>bs. ''[..]''),
      to_writer = table_writer ds, from_reader = table_reader ds,
      hash_str = (\<lambda>s. of_nat (length s)), hash_mutation = (\<lambda>op c i p r. of_nat (length c)),
      f64_display = (\<lambda>x. ''?''), f64_display2 = (\<lambda>x. ''?''), hash_order = (\<lambda>m. m)\<rparr>"

lemma sample_deps_simps [simp]:
  "bson_eq (sample_deps ds) = (=)"
  "bson_display (sample_deps ds) = (\<lambda>b. case b of String s \<Rightarrow> s | _ \<Rightarrow> ''?'')"
  "bson_debug (sample_deps ds) = (\<lambda>b. ''?'')"
  "uuid_display (sample_deps ds) = (\<lambda>bs. Some (map (\<lambda>b. char_of (unat b)) bs))"
  "oid_display (sample_deps ds) = map (\<lambda>b. char_of (unat b))"
  "bytes_debug (sample_deps ds) = (\<lambda>bs. ''[..]'')"
  "to_writer (sample_deps ds) = table_writer ds"
  "from_reader (sample_deps ds) = table_reader ds"
  "hash_str (sample_deps ds) = (\<lambda>s. of_nat (length s))"
  "hash_mutation (sample_deps ds) = (\<lambda>op c i p r. of_nat (length c))"
  "f64_display (sample_deps ds) = (\<lambda>x. ''?'')"
  "f64_display2 (sample_deps ds) = (\<lambda>x. ''?'')"
  "hash_order (sample_deps ds) = (\<lambda>m. m)"
  by (simp_all add: sample_deps_def)

lemma sample_codec_ok [simp]: "codec_ok (sample_deps ds)"
  by (simp add: codec_ok_def table_codec)

lemma sample_hash_order_ok [simp]: "hash_order_ok (sample_deps ds)"
  by (simp add: hash_order_ok_def)

section \<open>The outside world\<close>

record world =
  w_datetimes :: "nat \<Rightarrow> millis"
  w_unix_millis :: "nat \<Rightarrow> u64"
  w_instants :: "nat \<Rightarrow> nat"
  w_uuids :: "nat \<Rightarrow> bytes"
  w_counter :: u16
  w_tick :: nat

definition datetime_now :: "world \<Rightarrow> millis \<times> world" where
  "datetime_now w = (w_datetimes w (w_tick w), w\<lparr>w_tick := Suc (w_tick w)\<rparr>)"

definition instant_now :: "world \<Rightarrow> nat \<times> world" where
  "instant_now w = (w_instants w (w_tick w), w\<lparr>w_tick := Suc (w_tick w)\<rparr>)"

definition unix_now :: "world \<Rightarrow> u64 \<times> world" where
  "unix_now w = (w_unix_millis w (w_tick w), w\<lparr>w_tick := Suc (w_tick w)\<rparr>)"

definition uuid_now_v7 :: "world \<Rightarrow> bytes \<times> world" where
  "uuid_now_v7 w = (w_uuids w (w_tick w), w\<lparr>w_tick := Suc (w_tick w)\<rparr>)"

definition fetch_add_counter :: "world \<Rightarrow> u16 \<times> world" where
  "fetch_add_counter w = (w_counter w, w\<lparr>w_counter := w_counter w + 1\<rparr>)"

text \<open>The wall clock never goes back.\<close>

definition clock_monotone :: "world \<Rightarrow> bool" where
  "clock_monotone w \<longleftrightarrow> mono (w_datetimes w)"

definition sample_world :: world where
  "sample_world = \<lparr>w_datetimes = (\<lambda>n. 1000 + int n), w_unix_millis = (\<lambda>n. 1000 + of_nat n),
     w_instants = (\<lambda>n. n), w_uuids = (\<lambda>n. [of_nat n]), w_counter = 0, w_tick = 0\<rparr>"

lemma sample_clock_monotone [simp]: "clock_monotone sample_world"
  by (simp add: clock_monotone_def sample_world_def mono_def)

section \<open>Document identifiers\<close>

definition document_id_new_uuid_v7 :: "world \<Rightarrow> document_id \<times> world" where
  "document_id_new_uuid_v7 w =
     (case uuid_now_v7 w of (bs, w') \<Rightarrow> (Binary uuid_subtype bs, w'))"

definition document_id_from_bson :: "bson \<Rightarrow> document_id" where
  "document_id_from_bson b = b"

text \<open>\<open>Display for DocumentId\<close>: the text storage keys and lineage use.\<close>

definition document_id_to_string :: "deps \<Rightarrow> document_id \<Rightarrow> string" where
  "document_id_to_string D i =
     (case i of
        ObjectId oid \<Rightarrow> oid_display D oid
      | Binary subtype bs \<Rightarrow>
          if subtype = uuid_subtype
          then (case uuid_display D bs of Some s \<Rightarrow> s | None \<Rightarrow> bytes_debug D bs)
          else bson_display D i
      | other \<Rightarrow> bson_display D i)"

end
