(* ===== verification/Rango_Revision.thy ===== *)
theory Rango_Revision
  imports Rango_Deps
begin

text \<open>
  Revisions (\<open>types/src/revision.rs\<close>): the hybrid logical clock \<open>timestamp-counter-node\<close> kept as
  text. Printing, parsing, the accessors and the order, with the panics of the unchecked slices as
  \<open>None\<close>. The lemmas give the round trip of printing and parsing and the laws of the order on the
  revisions that \<open>from_str\<close> accepts.
\<close>

definition short_node_id :: "deps \<Rightarrow> string \<Rightarrow> string" where
  "short_node_id D node_id = take 4 (hex16 (hash_str D node_id))"

definition revision_new :: "deps \<Rightarrow> u64 \<Rightarrow> u16 \<Rightarrow> string \<Rightarrow> revision" where
  "revision_new D timestamp_ms counter node_id =
     show_nat (unat timestamp_ms) @ CHR ''-'' # show_nat (unat counter) @ CHR ''-'' #
       short_node_id D node_id"

definition revision_now :: "deps \<Rightarrow> string \<Rightarrow> world \<Rightarrow> revision \<times> world" where
  "revision_now D node_id w =
     (case unix_now w of (timestamp_ms, w1) \<Rightarrow>
      case fetch_add_counter w1 of (counter, w2) \<Rightarrow>
        (revision_new D timestamp_ms counter node_id, w2))"

definition revision_initial :: "deps \<Rightarrow> string \<Rightarrow> revision" where
  "revision_initial D node_id = revision_new D 0 0 node_id"

definition parse_u64 :: "string \<Rightarrow> parse_int_error + u64" where
  "parse_u64 s = map_sum id of_nat (parse_uint (2 ^ 64) s)"

definition parse_u16 :: "string \<Rightarrow> parse_int_error + u16" where
  "parse_u16 s = map_sum id of_nat (parse_uint (2 ^ 16) s)"

text \<open>The infallible \<open>parse\<close>: a missing or malformed component counts as zero.\<close>

definition revision_parse :: "revision \<Rightarrow> u64 \<times> u16" where
  "revision_parse r =
     (let parts = splitn3 (CHR ''-'') r;
          ts = unwrap_or (case parts of p # _ \<Rightarrow> ok_of (parse_u64 p) | [] \<Rightarrow> None) 0;
          cnt = unwrap_or (case parts of _ # p # _ \<Rightarrow> ok_of (parse_u16 p) | _ \<Rightarrow> None) 0
      in (ts, cnt))"

definition revision_timestamp_ms :: "revision \<Rightarrow> u64" where
  "revision_timestamp_ms r = fst (revision_parse r)"

definition revision_counter :: "revision \<Rightarrow> u16" where
  "revision_counter r = snd (revision_parse r)"

text \<open>\<open>str::find\<close> with a character, and the slice \<open>&s[i..]\<close>, which panics past the end.\<close>

fun find_char :: "char \<Rightarrow> string \<Rightarrow> nat option" where
  "find_char c [] = None"
| "find_char c (x # xs) = (if x = c then Some 0 else map_option Suc (find_char c xs))"

definition slice_from :: "nat \<Rightarrow> string \<Rightarrow> string option" where
  "slice_from i s = (if i \<le> length s then Some (drop i s) else None)"

text \<open>
  A slice outside the text is a panic, \<open>None\<close>. The bounds are no problem inside a character of several
  bytes: they are one byte after a dash, except in a text without a dash, and there the last slice starts
  beyond the end, so the result is a panic in any case.
\<close>

definition revision_node_id_short :: "revision \<Rightarrow> string option" where
  "revision_node_id_short r =
     (let first = unwrap_or (find_char (CHR ''-'') r) 0
      in case slice_from (first + 1) r of
           None \<Rightarrow> None
         | Some rest \<Rightarrow>
             let second = unwrap_or (map_option (\<lambda>i. first + 1 + i) (find_char (CHR ''-'') rest))
                   (length r)
             in slice_from (second + 1) r)"

definition parse_int_error_text :: "parse_int_error \<Rightarrow> string" where
  "parse_int_error_text e =
     (case e of
        EmptyText \<Rightarrow> ''cannot parse integer from empty string''
      | InvalidDigit \<Rightarrow> ''invalid digit found in string''
      | PosOverflow \<Rightarrow> ''number too large to fit in target type''
      | NegOverflow \<Rightarrow> ''number too small to fit in target type'')"

definition revision_from_str :: "string \<Rightarrow> string + revision" where
  "revision_from_str s =
     (case splitn3 (CHR ''-'') s of
        [p, q, t] \<Rightarrow>
          try_r (map_err (\<lambda>e. ''Invalid timestamp: '' @ parse_int_error_text e) (parse_u64 p)) (\<lambda>_.
          try_r (map_err (\<lambda>e. ''Invalid counter: '' @ parse_int_error_text e) (parse_u16 q)) (\<lambda>_.
          Inr s))
      | _ \<Rightarrow> Inl (''Invalid revision format: '' @ s))"

text \<open>\<open>Ord::cmp\<close>: \<open>then_with\<close> looks at the node text only when both numbers agree.\<close>

definition revision_cmp :: "revision \<Rightarrow> revision \<Rightarrow> rust_ordering option" where
  "revision_cmp a b =
     (case revision_parse a of (a_ts, a_cnt) \<Rightarrow>
      case revision_parse b of (b_ts, b_cnt) \<Rightarrow>
      case then_ord (cmp_of a_ts b_ts) (cmp_of a_cnt b_cnt) of
        Equal \<Rightarrow>
          (case (revision_node_id_short a, revision_node_id_short b) of
             (Some x, Some y) \<Rightarrow> Some (cmp_of x y)
           | _ \<Rightarrow> None)
      | q \<Rightarrow> Some q)"

section \<open>Lemmas\<close>

lemma parse_u64_show [simp]: "parse_u64 (show_nat (unat (w::u64))) = Inr w"
  using unsigned_less [of w, where ?'a = nat] by (simp add: parse_u64_def)

lemma parse_u16_show [simp]: "parse_u16 (show_nat (unat (w::u16))) = Inr w"
  using unsigned_less [of w, where ?'a = nat] by (simp add: parse_u16_def)

lemma find_char_append: "c \<notin> set p \<Longrightarrow> find_char c (p @ c # q) = Some (length p)"
  by (induction p) auto

lemma find_char_None: "find_char c s = None \<longleftrightarrow> c \<notin> set s"
  by (induction s) auto

lemma node_id_short_parts:
  assumes "CHR ''-'' \<notin> set p" "CHR ''-'' \<notin> set q"
  shows "revision_node_id_short (p @ CHR ''-'' # q @ CHR ''-'' # t) = Some t"
  using assms by (simp add: revision_node_id_short_def find_char_append slice_from_def Let_def)

lemma revision_from_str_Inr:
  "revision_from_str s = Inr r \<longleftrightarrow>
     r = s \<and> (\<exists>p q t ts cnt. s = p @ CHR ''-'' # q @ CHR ''-'' # t \<and>
       CHR ''-'' \<notin> set p \<and> CHR ''-'' \<notin> set q \<and> parse_u64 p = Inr ts \<and> parse_u16 q = Inr cnt)"
  (is "?l \<longleftrightarrow> ?r")
proof
  assume ?l
  then obtain p q t where three: "splitn3 (CHR ''-'') s = [p, q, t]"
    by (auto simp: revision_from_str_def split: list.splits)
  with \<open>?l\<close> show ?r unfolding splitn3_three
    by (cases "parse_u64 p"; cases "parse_u16 q") (auto simp: revision_from_str_def)
next
  assume ?r
  then show ?l by (auto simp: revision_from_str_def)
qed

definition revision_ok :: "revision \<Rightarrow> bool" where
  "revision_ok r \<longleftrightarrow> revision_from_str r = Inr r"

lemma revision_okE:
  assumes "revision_ok r"
  obtains p q t where "r = p @ CHR ''-'' # q @ CHR ''-'' # t"
    "CHR ''-'' \<notin> set p" "CHR ''-'' \<notin> set q"
    "parse_u64 p = Inr (fst (revision_parse r))" "parse_u16 q = Inr (snd (revision_parse r))"
    "revision_node_id_short r = Some t"
proof -
  from assms obtain p q t ts cnt where r: "r = p @ CHR ''-'' # q @ CHR ''-'' # t"
    and d: "CHR ''-'' \<notin> set p" "CHR ''-'' \<notin> set q"
    and n: "parse_u64 p = Inr ts" "parse_u16 q = Inr cnt"
    unfolding revision_ok_def revision_from_str_Inr by blast
  have "revision_parse r = (ts, cnt)" using r d n by (simp add: revision_parse_def)
  with r d n node_id_short_parts [OF d, of t] show ?thesis using that by simp
qed

lemma revision_ok_from_str: "revision_from_str s = Inr r \<Longrightarrow> revision_ok r"
  by (auto simp: revision_ok_def revision_from_str_Inr)

definition revision_key :: "revision \<Rightarrow> u64 \<times> u16 \<times> string" where
  "revision_key r = (fst (revision_parse r), snd (revision_parse r), the (revision_node_id_short r))"

lemma revision_cmp_ok:
  assumes "revision_ok a" "revision_ok b"
  shows "revision_cmp a b =
    (case revision_key a of (t, c, n) \<Rightarrow> case revision_key b of (t', c', n') \<Rightarrow>
       Some (then_ord (cmp_of t t') (then_ord (cmp_of c c') (cmp_of n n'))))"
proof -
  from assms obtain x y where "revision_node_id_short a = Some x" "revision_node_id_short b = Some y"
    by (meson revision_okE)
  then show ?thesis
    by (auto simp: revision_cmp_def revision_key_def split: prod.splits rust_ordering.splits)
qed

definition revision_order :: "revision \<Rightarrow> revision \<Rightarrow> rust_ordering" where
  "revision_order a b = the (revision_cmp a b)"

lemma revision_cmp_total: "revision_ok a \<Longrightarrow> revision_ok b \<Longrightarrow> revision_cmp a b = Some (revision_order a b)"
  by (auto simp: revision_order_def revision_cmp_ok split: prod.splits)

lemma revision_order_key:
  assumes "revision_ok a" "revision_ok b"
  shows "revision_order a b =
    (case revision_key a of (t, c, n) \<Rightarrow> case revision_key b of (t', c', n') \<Rightarrow>
       then_ord (cmp_of t t') (then_ord (cmp_of c c') (cmp_of n n')))"
  using assms by (auto simp: revision_order_def revision_cmp_ok split: prod.splits)

interpretation rev_order: total_comparator revision_order revision_ok
proof unfold_locales
  show "revision_order x x = Equal" if "revision_ok x" for x
    using that by (simp add: revision_order_key split: prod.splits)
  show "revision_order y x = reverse_ord (revision_order x y)" if "revision_ok x" "revision_ok y" for x y
    using that
    by (simp add: revision_order_key reverse_then_ord cmp_of_swap [symmetric] split: prod.splits)
  show "revision_order x z \<noteq> Greater"
    if "revision_ok x" "revision_ok y" "revision_ok z"
      "revision_order x y \<noteq> Greater" "revision_order y z \<noteq> Greater" for x y z
    using that by (auto simp: revision_order_key split: prod.splits)
qed

lemma revision_new_ok [simp]: "revision_ok (revision_new D ts cnt node)"
  unfolding revision_ok_def revision_from_str_Inr revision_new_def
  by (intro conjI refl exI [of _ "show_nat (unat ts)"] exI [of _ "show_nat (unat cnt)"]
      exI [of _ "short_node_id D node"] exI [of _ ts] exI [of _ cnt]) simp_all

lemma revision_parse_new [simp]: "revision_parse (revision_new D ts cnt node) = (ts, cnt)"
  by (simp add: revision_parse_def revision_new_def)

lemma revision_node_new [simp]: "revision_node_id_short (revision_new D ts cnt node) = Some (short_node_id D node)"
  by (simp add: revision_new_def node_id_short_parts)

lemma revision_key_new [simp]: "revision_key (revision_new D ts cnt node) = (ts, cnt, short_node_id D node)"
  by (simp add: revision_key_def)

lemma length_short_node_id [simp]: "length (short_node_id D node) = 4"
  by (simp add: short_node_id_def)

section \<open>Properties\<close>

text \<open>
  A revision printed from a timestamp, a counter and a node is accepted by \<open>from_str\<close>
  unchanged, and the accessors read back exactly the timestamp, the counter and the four-character
  node text, for every value of the two machine integers.
\<close>

theorem revision_round_trip:
  "revision_from_str (revision_new D ts cnt node) = Inr (revision_new D ts cnt node) \<and>
   revision_timestamp_ms (revision_new D ts cnt node) = ts \<and>
   revision_counter (revision_new D ts cnt node) = cnt \<and>
   revision_node_id_short (revision_new D ts cnt node) = Some (short_node_id D node) \<and>
   length (short_node_id D node) = 4"
  using revision_new_ok [of D ts cnt node]
  by (simp add: revision_ok_def revision_timestamp_ms_def revision_counter_def)

text \<open>
  On revisions that \<open>from_str\<close> accepted, comparison never panics and is a total order:
  swapping the arguments reverses the answer, it is transitive, and a later timestamp or, at the
  same timestamp, a larger counter is greater whatever the node.
\<close>

theorem revision_cmp_total_order:
  assumes "revision_from_str sa = Inr a" "revision_from_str sb = Inr b" "revision_from_str sc = Inr c"
  shows "(\<exists>q. revision_cmp a b = Some q \<and> revision_cmp b a = Some (reverse_ord q)) \<and>
    (revision_cmp a b \<noteq> Some Greater \<longrightarrow> revision_cmp b c \<noteq> Some Greater \<longrightarrow>
      revision_cmp a c \<noteq> Some Greater) \<and>
    (revision_timestamp_ms a < revision_timestamp_ms b \<or>
      revision_timestamp_ms a = revision_timestamp_ms b \<and> revision_counter a < revision_counter b
      \<longrightarrow> revision_cmp a b = Some Less)"
proof (intro conjI impI)
  note ok = assms [THEN revision_ok_from_str]
  show "\<exists>q. revision_cmp a b = Some q \<and> revision_cmp b a = Some (reverse_ord q)"
    using ok rev_order.cmp_swap [of a b] by (simp add: revision_cmp_total)
  show "revision_cmp a c \<noteq> Some Greater"
    if "revision_cmp a b \<noteq> Some Greater" "revision_cmp b c \<noteq> Some Greater"
    using that ok rev_order.cmp_trans [of a b c] by (simp add: revision_cmp_total)
  show "revision_cmp a b = Some Less"
    if "revision_timestamp_ms a < revision_timestamp_ms b \<or>
      revision_timestamp_ms a = revision_timestamp_ms b \<and> revision_counter a < revision_counter b"
    using that ok by (auto simp: revision_cmp_ok revision_key_def revision_timestamp_ms_def
        revision_counter_def)
qed

theorem revision_cmp_total_order_witness:
  "revision_cmp (revision_new (sample_deps []) 5 0 ''a'') (revision_new (sample_deps []) 5 1 ''b'') =
     Some Less"
proof -
  have ok: "revision_from_str (revision_new (sample_deps []) t c n) =
      Inr (revision_new (sample_deps []) t c n)" for t c n
    using revision_new_ok by (simp add: revision_ok_def)
  show ?thesis
    using revision_cmp_total_order [OF ok [of 5 0 "''a''"] ok [of 5 1 "''b''"] ok [of 5 1 "''b''"]]
    by (simp add: revision_timestamp_ms_def revision_counter_def)
qed

text \<open>
  The order of revisions is not the order of their text: for every node, the revision of
  millisecond 9 is smaller than the revision of millisecond 10, and its text is larger.
\<close>

theorem revision_order_is_not_text_order:
  "revision_cmp (revision_new D 9 0 node) (revision_new D 10 0 node) = Some Less \<and>
   revision_new D 10 0 node < revision_new D 9 0 node"
proof -
  have nine: "show_nat 9 = [digit_char 9]" and ten: "show_nat 10 = [digit_char 1, digit_char 0]"
    by (simp_all add: show_nat.simps)
  have "digit_char 1 < digit_char 9" by (simp add: digit_char_def less_char_def)
  then show ?thesis by (simp add: revision_cmp_ok) (simp add: revision_new_def nine ten)
qed

end
