(* ===== verification/Rango_Query_Filter.thy ===== *)
theory Rango_Query_Filter
  imports Rango_Deps
begin

text \<open>
  The filter language of \<open>query/src/filter.rs\<close>: \<open>matches\<close> with \<open>$and\<close>, \<open>$or\<close> and the field
  operators, the early returns and errors of every branch, and the comparisons across numeric
  types with the casts of the source. The lemmas relate the evaluator to a denotational reading of
  filters and give the laws of the comparisons.
\<close>

section \<open>Comparisons\<close>

abbreviation op_err :: "string \<Rightarrow> 'a result" where
  "op_err s \<equiv> Inl (InvalidQueryOperator s)"

text \<open>\<open>*a as i64\<close> and \<open>*a as f64\<close>.\<close>

definition i32_as_i64 :: "i32 \<Rightarrow> i64" where
  "i32_as_i64 a = scast a"

definition i32_as_f64 :: "i32 \<Rightarrow> f64" where
  "i32_as_f64 a = f64_of_int (sint a)"

definition i64_as_f64 :: "i64 \<Rightarrow> f64" where
  "i64_as_f64 a = f64_of_int (sint a)"

fun compare_eq :: "deps \<Rightarrow> bson option \<Rightarrow> bson option \<Rightarrow> bool" where
  "compare_eq D (Some a) (Some b) =
     (if bson_eq D a b then True
      else case (a, b) of
          (Int32 a, Int64 b) \<Rightarrow> i32_as_i64 a = b
        | (Int64 a, Int32 b) \<Rightarrow> a = i32_as_i64 b
        | (Int32 a, Double b) \<Rightarrow> f64_eq (i32_as_f64 a) b
        | (Double a, Int32 b) \<Rightarrow> f64_eq a (i32_as_f64 b)
        | (Int64 a, Double b) \<Rightarrow> f64_eq (i64_as_f64 a) b
        | (Double a, Int64 b) \<Rightarrow> f64_eq a (i64_as_f64 b)
        | _ \<Rightarrow> False)"
| "compare_eq D None None = True"
| "compare_eq D _ _ = False"

abbreviation nan_err :: rango_error where
  "nan_err \<equiv> InvalidQueryOperator ''Cannot compare NaN values''"

definition compare_values :: "deps \<Rightarrow> bson \<Rightarrow> bson \<Rightarrow> rust_ordering result" where
  "compare_values D a b =
     (case (a, b) of
        (Int32 x, Int32 y) \<Rightarrow> Inr (cmp_of (sint x) (sint y))
      | (Int64 x, Int64 y) \<Rightarrow> Inr (cmp_of (sint x) (sint y))
      | (Double x, Double y) \<Rightarrow> ok_or (f64_cmp x y) nan_err
      | (String x, String y) \<Rightarrow> Inr (cmp_of x y)
      | (DateTime x, DateTime y) \<Rightarrow> Inr (cmp_of x y)
      | (Int32 x, Int64 y) \<Rightarrow> Inr (cmp_of (sint (i32_as_i64 x)) (sint y))
      | (Int64 x, Int32 y) \<Rightarrow> Inr (cmp_of (sint x) (sint (i32_as_i64 y)))
      | (Int32 x, Double y) \<Rightarrow> ok_or (f64_cmp (i32_as_f64 x) y) nan_err
      | (Double x, Int32 y) \<Rightarrow> ok_or (f64_cmp x (i32_as_f64 y)) nan_err
      | (Int64 x, Double y) \<Rightarrow> ok_or (f64_cmp (i64_as_f64 x) y) nan_err
      | (Double x, Int64 y) \<Rightarrow> ok_or (f64_cmp x (i64_as_f64 y)) nan_err
      | _ \<Rightarrow> op_err (''Cannot compare '' @ bson_debug D a @ '' with '' @ bson_debug D b))"

text \<open>The four ordered operators share the treatment of a missing field.\<close>

definition compare_where ::
  "deps \<Rightarrow> (rust_ordering \<Rightarrow> bool) \<Rightarrow> bson option \<Rightarrow> bson option \<Rightarrow> bool result" where
  "compare_where D p a b =
     (case (a, b) of
        (Some a, Some b) \<Rightarrow> try_r (compare_values D a b) (\<lambda>q. Inr (p q))
      | _ \<Rightarrow> Inr False)"

definition compare_gt :: "deps \<Rightarrow> bson option \<Rightarrow> bson option \<Rightarrow> bool result" where
  "compare_gt D = compare_where D (\<lambda>q. q = Greater)"

definition compare_gte :: "deps \<Rightarrow> bson option \<Rightarrow> bson option \<Rightarrow> bool result" where
  "compare_gte D = compare_where D (\<lambda>q. q \<noteq> Less)"

definition compare_lt :: "deps \<Rightarrow> bson option \<Rightarrow> bson option \<Rightarrow> bool result" where
  "compare_lt D = compare_where D (\<lambda>q. q = Less)"

definition compare_lte :: "deps \<Rightarrow> bson option \<Rightarrow> bson option \<Rightarrow> bool result" where
  "compare_lte D = compare_where D (\<lambda>q. q \<noteq> Greater)"

definition compare_in :: "deps \<Rightarrow> bson option \<Rightarrow> bson \<Rightarrow> bool result" where
  "compare_in D field_value arr =
     (case as_array arr of
        Some xs \<Rightarrow> Inr (\<exists>x\<in>set xs. compare_eq D field_value (Some x))
      | None \<Rightarrow> op_err ''$in expects array'')"

section \<open>Field operators\<close>

definition field_op :: "deps \<Rightarrow> bson option \<Rightarrow> string \<Rightarrow> bson \<Rightarrow> bool result" where
  "field_op D v oper arg =
     (if oper = ''$eq'' then Inr (compare_eq D v (Some arg))
      else if oper = ''$gt'' then compare_gt D v (Some arg)
      else if oper = ''$gte'' then compare_gte D v (Some arg)
      else if oper = ''$lt'' then compare_lt D v (Some arg)
      else if oper = ''$lte'' then compare_lte D v (Some arg)
      else if oper = ''$in'' then compare_in D v arg
      else op_err oper)"

text \<open>The loop over an operator document: the first false or failing operator returns.\<close>

fun field_ops :: "deps \<Rightarrow> bson option \<Rightarrow> (string \<times> bson) list \<Rightarrow> bool result" where
  "field_ops D v [] = Inr True"
| "field_ops D v ((oper, arg) # ops) =
     try_r (field_op D v oper arg) (\<lambda>b. if b then field_ops D v ops else Inr False)"

definition match_field :: "deps \<Rightarrow> doc \<Rightarrow> string \<Rightarrow> bson \<Rightarrow> bool result" where
  "match_field D d field value =
     (case value of
        Document op_doc \<Rightarrow> field_ops D (al_get d field) op_doc
      | _ \<Rightarrow> Inr (compare_eq D (al_get d field) (Some value)))"

section \<open>Filters\<close>

text \<open>
  \<open>matches\<close>, \<open>match_operator\<close>, \<open>match_array\<close> and \<open>match_array_or\<close> call one another through the
  nesting of the filter document; the recursion is on the filter.
\<close>

fun matches :: "deps \<Rightarrow> doc \<Rightarrow> doc \<Rightarrow> bool result"
  and match_operator :: "deps \<Rightarrow> doc \<Rightarrow> string \<Rightarrow> bson \<Rightarrow> bool result"
  and match_array :: "deps \<Rightarrow> doc \<Rightarrow> bson list \<Rightarrow> bool result"
  and match_array_or :: "deps \<Rightarrow> doc \<Rightarrow> bson list \<Rightarrow> bool result" where
  "matches D d [] = Inr True"
| "matches D d ((key, value) # rest) =
     try_r (match_operator D d key value) (\<lambda>b. if b then matches D d rest else Inr False)"
| "match_operator D d key value =
     (if key = ''$and'' then
        (case value of Array arr \<Rightarrow> match_array D d arr | _ \<Rightarrow> op_err ''$and/$or expects array'')
      else if key = ''$or'' then
        (case value of
           Array arr \<Rightarrow> if arr = [] then Inr True else match_array_or D d arr
         | _ \<Rightarrow> op_err ''$or expects array'')
      else if starts_with ''$'' key then op_err key
      else match_field D d key value)"
| "match_array D d [] = Inr True"
| "match_array D d (item # items) =
     (case item of
        Document f \<Rightarrow> try_r (matches D d f) (\<lambda>b. if b then match_array D d items else Inr False)
      | _ \<Rightarrow> op_err ''$and/$or expects array of documents'')"
| "match_array_or D d [] = Inr False"
| "match_array_or D d (item # items) =
     (case item of
        Document f \<Rightarrow> try_r (matches D d f) (\<lambda>b. if b then Inr True else match_array_or D d items)
      | _ \<Rightarrow> op_err ''$or expects array of documents'')"

section \<open>What a filter means\<close>

text \<open>
  The reading of a filter without evaluation order: a filter is the conjunction of its keys,
  \<open>$and\<close> of its parts, \<open>$or\<close> the disjunction (true when empty), a field operator holds when it
  returns true. \<open>filter_ok\<close> says that no part of it is malformed or incomparable.
\<close>

fun filter_holds :: "deps \<Rightarrow> doc \<Rightarrow> doc \<Rightarrow> bool"
  and operator_holds :: "deps \<Rightarrow> doc \<Rightarrow> string \<Rightarrow> bson \<Rightarrow> bool"
  and all_hold :: "deps \<Rightarrow> doc \<Rightarrow> bson list \<Rightarrow> bool"
  and some_holds :: "deps \<Rightarrow> doc \<Rightarrow> bson list \<Rightarrow> bool" where
  "filter_holds D d [] \<longleftrightarrow> True"
| "filter_holds D d ((key, value) # rest) \<longleftrightarrow> operator_holds D d key value \<and> filter_holds D d rest"
| "operator_holds D d key value \<longleftrightarrow>
     (if key = ''$and'' then (case value of Array arr \<Rightarrow> all_hold D d arr | _ \<Rightarrow> False)
      else if key = ''$or'' then
        (case value of Array arr \<Rightarrow> arr = [] \<or> some_holds D d arr | _ \<Rightarrow> False)
      else case value of
          Document ops \<Rightarrow> (\<forall>(oper, arg)\<in>set ops. field_op D (al_get d key) oper arg = Inr True)
        | _ \<Rightarrow> compare_eq D (al_get d key) (Some value))"
| "all_hold D d [] \<longleftrightarrow> True"
| "all_hold D d (item # items) \<longleftrightarrow>
     (case item of Document f \<Rightarrow> filter_holds D d f | _ \<Rightarrow> False) \<and> all_hold D d items"
| "some_holds D d [] \<longleftrightarrow> False"
| "some_holds D d (item # items) \<longleftrightarrow>
     (case item of Document f \<Rightarrow> filter_holds D d f | _ \<Rightarrow> False) \<or> some_holds D d items"

fun filter_ok :: "deps \<Rightarrow> doc \<Rightarrow> doc \<Rightarrow> bool"
  and operator_ok :: "deps \<Rightarrow> doc \<Rightarrow> string \<Rightarrow> bson \<Rightarrow> bool"
  and all_ok :: "deps \<Rightarrow> doc \<Rightarrow> bson list \<Rightarrow> bool" where
  "filter_ok D d [] \<longleftrightarrow> True"
| "filter_ok D d ((key, value) # rest) \<longleftrightarrow> operator_ok D d key value \<and> filter_ok D d rest"
| "operator_ok D d key value \<longleftrightarrow>
     (if key = ''$and'' \<or> key = ''$or'' then (case value of Array arr \<Rightarrow> all_ok D d arr | _ \<Rightarrow> False)
      else \<not> starts_with ''$'' key \<and>
        (case value of
           Document ops \<Rightarrow> (\<forall>(oper, arg)\<in>set ops. \<exists>b. field_op D (al_get d key) oper arg = Inr b)
         | _ \<Rightarrow> True))"
| "all_ok D d [] \<longleftrightarrow> True"
| "all_ok D d (item # items) \<longleftrightarrow>
     (case item of Document f \<Rightarrow> filter_ok D d f | _ \<Rightarrow> False) \<and> all_ok D d items"

lemma filter_holds_all: "filter_holds D d f \<longleftrightarrow> (\<forall>(k, v)\<in>set f. operator_holds D d k v)"
  by (induction f) (auto simp del: operator_holds.simps)

lemma filter_ok_all: "filter_ok D d f \<longleftrightarrow> (\<forall>(k, v)\<in>set f. operator_ok D d k v)"
  by (induction f) (auto simp del: operator_ok.simps)

lemma field_ops_verdict:
  "field_ops D v ops = Inr b \<Longrightarrow> b \<longleftrightarrow> (\<forall>(oper, arg)\<in>set ops. field_op D v oper arg = Inr True)"
  by (induction ops) (auto simp: try_r_eq_Inr split: if_splits)

lemma field_ops_total:
  "\<forall>(oper, arg)\<in>set ops. \<exists>b. field_op D v oper arg = Inr b \<Longrightarrow> \<exists>b. field_ops D v ops = Inr b"
proof (induction ops)
  case (Cons p ops)
  then obtain b c where "field_op D v (fst p) (snd p) = Inr b" "field_ops D v ops = Inr c" by fastforce
  then show ?case by (cases p; cases "b = True") auto
qed auto

lemma try_and_eq_Inr:
  "try_r m (\<lambda>b. if b then k else Inr False) = Inr c \<longleftrightarrow>
     m = Inr False \<and> \<not> c \<or> m = Inr True \<and> k = Inr c"
  by (cases m) auto

lemma try_or_eq_Inr:
  "try_r m (\<lambda>b. if b then Inr True else k) = Inr c \<longleftrightarrow>
     m = Inr True \<and> c \<or> m = Inr False \<and> k = Inr c"
  by (cases m) auto

lemmas filter_cases = case_Array case_Document try_and_eq_Inr try_or_eq_Inr

lemma matches_sound:
  "matches D d f = Inr b \<Longrightarrow> b = filter_holds D d f"
  "match_operator D d k v = Inr b \<Longrightarrow> b = operator_holds D d k v"
  "match_array D d xs = Inr b \<Longrightarrow> b = all_hold D d xs"
  "match_array_or D d xs = Inr b \<Longrightarrow> b = some_holds D d xs"
proof (induction D d f and D d k v and D d xs and D d xs arbitrary: b and b and b and b
    rule: filter_holds_operator_holds_all_hold_some_holds.induct)
  case (2 D d k v rest)
  then show ?case
    by (auto simp: try_and_eq_Inr simp del: match_operator.simps operator_holds.simps)
next
  case (3 D d k v)
  then show ?case
    by (auto simp: match_field_def filter_cases split: option.splits if_splits
        dest!: field_ops_verdict)
qed (auto simp: filter_cases split: option.splits)

lemma matches_complete:
  "filter_ok D d f \<Longrightarrow> \<exists>b. matches D d f = Inr b"
  "operator_ok D d k v \<Longrightarrow> \<exists>b. match_operator D d k v = Inr b"
  "all_ok D d xs \<Longrightarrow> \<exists>b. match_array D d xs = Inr b"
  "all_ok D d xs \<Longrightarrow> \<exists>b. match_array_or D d xs = Inr b"
proof (induction D d f and D d k v and D d xs and D d xs
    rule: filter_holds_operator_holds_all_hold_some_holds.induct)
  case (2 D d k v rest)
  then obtain b c where "match_operator D d k v = Inr b" "matches D d rest = Inr c" by auto
  then show ?case by (cases "b = True") (auto simp del: match_operator.simps)
next
  case (3 D d k v)
  then show ?case
    by (auto simp: match_field_def case_Array case_Document split: option.splits if_splits
        dest!: field_ops_total)
next
  case (5 D d item items)
  then obtain f b c where "item = Document f" "matches D d f = Inr b" "match_array D d items = Inr c"
    by (auto simp: case_Document split: option.splits)
  then show ?case by (cases "b = True") auto
next
  case (7 D d item items)
  then obtain f b c where "item = Document f" "matches D d f = Inr b" "match_array_or D d items = Inr c"
    by (auto simp: case_Document split: option.splits)
  then show ?case by (cases "b = True") auto
qed auto

section \<open>Properties\<close>

text \<open>
  C24: the evaluator decides the meaning of a filter: whenever \<open>matches\<close> returns a verdict it is
  the conjunction, disjunction and field reading of the filter, whatever part of the filter the
  early returns skipped, and on a filter with no malformed or incomparable part it does return.
\<close>

theorem matches_decides_filter:
  "(\<forall>b. matches D d f = Inr b \<longrightarrow> b = filter_holds D d f) \<and>
   (filter_ok D d f \<longrightarrow> matches D d f = Inr (filter_holds D d f))"
  using matches_sound(1) matches_complete(1) by blast

theorem matches_decides_filter_witness:
  "matches (sample_deps []) [(''a'', Int32 5)]
     [(''$or'', Array [Document [(''a'', Document [(''$lt'', Int64 3)])], Document [(''a'', Int32 5)]])] =
   Inr True"
  using matches_decides_filter [of "sample_deps []" "[(''a'', Int32 5)]"
      "[(''$or'', Array [Document [(''a'', Document [(''$lt'', Int64 3)])], Document [(''a'', Int32 5)]])]"]
  by (simp add: field_op_def compare_lt_def compare_where_def compare_values_def starts_with_def
      match_field_def i32_as_i64_def)

text \<open>
  The order of a filter's conditions does not matter: two filters with the same conditions
  that both return a verdict return the same one, and the swapped filter of a filter with no
  malformed part never fails.
\<close>

theorem matches_order_independent:
  assumes "set f = set g" "matches D d f = Inr b"
  shows "(\<forall>c. matches D d g = Inr c \<longrightarrow> c = b) \<and> (filter_ok D d f \<longrightarrow> matches D d g = Inr b)"
proof -
  have same: "filter_holds D d g = filter_holds D d f" "filter_ok D d g = filter_ok D d f"
    using assms(1) by (simp_all add: filter_holds_all filter_ok_all)
  have "b = filter_holds D d f" using assms(2) by (rule matches_sound(1))
  moreover have "c = filter_holds D d g" if "matches D d g = Inr c" for c
    using that by (rule matches_sound(1))
  moreover have "\<exists>c. matches D d g = Inr c" if "filter_ok D d g"
    using that by (rule matches_complete(1))
  ultimately show ?thesis using same by auto
qed

theorem matches_order_independent_witness:
  "matches (sample_deps []) [(''a'', Int32 5)] [(''b'', Null), (''a'', Int32 5)] = Inr False"
  using matches_order_independent [of "[(''a'', Int32 5), (''b'', Null)]" "[(''b'', Null), (''a'', Int32 5)]"
      "sample_deps []" "[(''a'', Int32 5)]" False]
  by (simp add: match_field_def starts_with_def insert_commute)

text \<open>Equality of \<open>bson\<close> values on the types the order covers.\<close>

fun ordered_value :: "bson \<Rightarrow> bool" where
  "ordered_value (Double x) \<longleftrightarrow> x \<noteq> NaN"
| "ordered_value (Int32 _) \<longleftrightarrow> True"
| "ordered_value (Int64 _) \<longleftrightarrow> True"
| "ordered_value (String _) \<longleftrightarrow> True"
| "ordered_value (DateTime _) \<longleftrightarrow> True"
| "ordered_value _ \<longleftrightarrow> False"

definition bson_eq_ok :: "deps \<Rightarrow> bool" where
  "bson_eq_ok D \<longleftrightarrow> (\<forall>a b. ordered_value a \<and> ordered_value b \<longrightarrow> bson_eq D a b = (a = b))"

lemma bson_eq_okD: "bson_eq_ok D \<Longrightarrow> ordered_value a \<Longrightarrow> ordered_value b \<Longrightarrow> bson_eq D a b = (a = b)"
  by (simp add: bson_eq_ok_def)

lemma ok_or_eq_Inr [result_simps]: "ok_or m e = Inr q \<longleftrightarrow> m = Some q"
  by (cases m) auto

lemma compare_values_ordered:
  "compare_values D a b = Inr q \<Longrightarrow> ordered_value a \<and> ordered_value b"
  by (cases a; cases b; simp add: compare_values_def ok_or_eq_Inr;
      metis f64_cmp_None_iff option.distinct(1))

lemma f64_cmp_swapI: "f64_cmp x y = Some q \<Longrightarrow> f64_cmp y x = Some (reverse_ord q)"
  by (subst f64_cmp_swap) simp

lemma f64_cmp_eqD: "f64_cmp x y = Some q \<Longrightarrow> (x = y \<and> x \<noteq> NaN) \<longleftrightarrow> q = Equal"
  using f64_cmp_Equal_iff [of x y] by auto

lemma f64_cmp_self [simp]: "f64_cmp x x = Some q \<longleftrightarrow> x \<noteq> NaN \<and> q = Equal"
  by (cases x) auto

lemma compare_values_swap:
  "compare_values D a b = Inr q \<Longrightarrow> compare_values D b a = Inr (reverse_ord q)"
  by (cases a; cases b; simp add: compare_values_def ok_or_eq_Inr f64_cmp_swapI;
      metis cmp_of_swap)

lemma sint_inject [simp]: "sint x = sint y \<longleftrightarrow> x = y"
  by (auto intro: signed_word_eqI)

lemma sint_i32_as_i64 [simp]: "sint (i32_as_i64 x) = sint x"
  by (simp add: i32_as_i64_def sint_up_scast is_up)

lemma compare_eq_iff_Equal:
  assumes "bson_eq_ok D" "compare_values D a b = Inr q"
  shows "compare_eq D (Some a) (Some b) \<longleftrightarrow> q = Equal"
proof -
  have "bson_eq D a b = (a = b)"
    using compare_values_ordered [OF assms(2)] assms(1) bson_eq_okD by blast
  then show ?thesis
    using assms(2)
    by (cases a; cases b; simp add: compare_values_def ok_or_eq_Inr f64_cmp_Equal_iff
          del: sint_i32_as_i64)
      (auto dest: f64_cmp_eqD simp del: sint_i32_as_i64 split: if_splits)
qed

text \<open>
  The comparison of the range operators is coherent: exchanging the operands reverses it, and
  two values it orders are equal for \<open>$eq\<close> exactly when neither is smaller, across the three
  numeric types, so that \<open>$gte\<close> is \<open>$gt\<close> or \<open>$eq\<close> and the negation of \<open>$lt\<close>. The hypothesis is
  the documented equality of scalar \<open>bson\<close> values.
\<close>

theorem comparisons_coherent:
  assumes "bson_eq_ok D" "compare_values D a b = Inr q"
  shows "compare_values D b a = Inr (reverse_ord q) \<and>
    compare_eq D (Some a) (Some b) = (q = Equal) \<and>
    compare_gte D (Some a) (Some b) = Inr (q = Greater \<or> compare_eq D (Some a) (Some b)) \<and>
    compare_lt D (Some a) (Some b) = compare_gt D (Some b) (Some a) \<and>
    compare_lte D (Some a) (Some b) = compare_gte D (Some b) (Some a)"
proof -
  note facts = assms(2) compare_values_swap [OF assms(2)] compare_eq_iff_Equal [OF assms]
  show ?thesis
    by (cases q)
      (simp_all add: facts compare_gte_def compare_lt_def compare_gt_def compare_lte_def
        compare_where_def del: compare_eq.simps)
qed

theorem comparisons_coherent_witness:
  "compare_gte (sample_deps []) (Some (Int64 7)) (Some (Int32 7)) = Inr True"
proof -
  have "bson_eq_ok (sample_deps [])" by (simp add: bson_eq_ok_def)
  moreover have "compare_values (sample_deps []) (Int64 7) (Int32 7) = Inr Equal"
    by (simp add: compare_values_def)
  ultimately show ?thesis
    using comparisons_coherent [of "sample_deps []" "Int64 7" "Int32 7" Equal] by simp
qed

end
