(* ===== verification/Rango_Query_Project.thy ===== *)
theory Rango_Query_Project
  imports Rango_Query_Filter
begin

text \<open>
  Projections and sort keys (\<open>query/src/engine.rs\<close>). A \<open>bson::Document\<close> has distinct keys, which
  the lemmas assume as \<open>al_wf\<close> where they need it. The order of sort keys is a total preorder on
  the keys without NaN, an interpretation of the comparator interface; with NaN it is not.
\<close>

section \<open>Projection\<close>

definition project :: "doc \<Rightarrow> doc \<Rightarrow> doc result" where
  "project d projection =
     (let is_inclusion = (\<exists>(k, v)\<in>set projection. as_i32 v = Some 1)
      in if is_inclusion then
           let result = fold (\<lambda>(key, value) acc.
                 if as_i32 value = Some 1
                 then (case al_get d key of Some v \<Rightarrow> al_put acc key v | None \<Rightarrow> acc)
                 else acc) projection []
           in if get_as as_i32 projection ''_id'' \<noteq> Some 0
              then (case al_get d ''_id'' of
                  Some i \<Rightarrow> Inr (al_put result ''_id'' i)
                | None \<Rightarrow> Inr result)
              else Inr result
         else
           Inr (fold (\<lambda>(key, value) acc.
             if get_as as_i32 projection key \<noteq> Some 0 then al_put acc key value else acc) d []))"

section \<open>Sort keys\<close>

datatype sort_key =
    KNull
  | KInt64 i64
  | KDouble f64
  | KString string
  | KDateTime millis

definition sort_key :: "deps \<Rightarrow> doc \<Rightarrow> string \<Rightarrow> sort_key result" where
  "sort_key D d field =
     (case al_get d field of
        Some (Int32 v) \<Rightarrow> Inr (KInt64 (i32_as_i64 v))
      | Some (Int64 v) \<Rightarrow> Inr (KInt64 v)
      | Some (Double v) \<Rightarrow> Inr (KDouble v)
      | Some (String v) \<Rightarrow> Inr (KString v)
      | Some (DateTime v) \<Rightarrow> Inr (KDateTime v)
      | Some Null \<Rightarrow> Inr KNull
      | None \<Rightarrow> Inr KNull
      | Some other \<Rightarrow> op_err (''Cannot sort by field type: '' @ bson_debug D other))"

fun key_rank :: "sort_key \<Rightarrow> nat" where
  "key_rank KNull = 0"
| "key_rank (KInt64 _) = 1"
| "key_rank (KDouble _) = 2"
| "key_rank (KString _) = 3"
| "key_rank (KDateTime _) = 4"

definition sort_key_cmp :: "sort_key \<Rightarrow> sort_key \<Rightarrow> rust_ordering" where
  "sort_key_cmp a b =
     (case (a, b) of
        (KNull, KNull) \<Rightarrow> Equal
      | (KInt64 x, KInt64 y) \<Rightarrow> cmp_of (sint x) (sint y)
      | (KDouble x, KDouble y) \<Rightarrow> unwrap_or (f64_cmp x y) Equal
      | (KString x, KString y) \<Rightarrow> cmp_of x y
      | (KDateTime x, KDateTime y) \<Rightarrow> cmp_of x y
      | _ \<Rightarrow> cmp_of (key_rank a) (key_rank b))"

section \<open>Lemmas\<close>

lemma inclusion_fold:
  "al_get (fold (\<lambda>(key, value) acc. if as_i32 value = Some 1
      then (case al_get d key of Some v \<Rightarrow> al_put acc key v | None \<Rightarrow> acc) else acc) ps acc) k =
   (if (\<exists>v. (k, v) \<in> set ps \<and> as_i32 v = Some 1) \<and> al_get d k \<noteq> None
    then al_get d k else al_get acc k)"
  by (induction ps arbitrary: acc) (auto split: option.splits)

lemma exclusion_fold:
  "al_wf d \<Longrightarrow> al_get (fold (\<lambda>(key, value) acc. if p key then al_put acc key value else acc) d acc) k =
   (if p k \<and> al_get d k \<noteq> None then al_get d k else al_get acc k)"
proof (induction d arbitrary: acc)
  case (Cons e d)
  have "al_get d (fst e) = None" using Cons.prems by (simp add: al_wf_def al_get_None_iff)
  moreover have "al_wf d" using Cons.prems by (simp add: al_wf_def)
  ultimately show ?case using Cons.IH by (cases e) auto
qed simp

definition included :: "doc \<Rightarrow> string \<Rightarrow> bool" where
  "included projection k \<longleftrightarrow> (\<exists>v. (k, v) \<in> set projection \<and> as_i32 v = Some 1)"

definition excluded :: "doc \<Rightarrow> string \<Rightarrow> bool" where
  "excluded projection k \<longleftrightarrow> get_as as_i32 projection k = Some 0"

definition is_inclusion :: "doc \<Rightarrow> bool" where
  "is_inclusion projection \<longleftrightarrow> (\<exists>k. included projection k)"

definition kept :: "doc \<Rightarrow> string \<Rightarrow> bool" where
  "kept projection k \<longleftrightarrow>
     (if is_inclusion projection
      then included projection k \<or> k = ''_id'' \<and> \<not> excluded projection ''_id''
      else \<not> excluded projection k)"

definition key_ok :: "sort_key \<Rightarrow> bool" where
  "key_ok k \<longleftrightarrow> k \<noteq> KDouble NaN"

lemma f64_cmp_trans_le:
  "x \<noteq> NaN \<Longrightarrow> y \<noteq> NaN \<Longrightarrow> z \<noteq> NaN \<Longrightarrow> f64_cmp x y \<noteq> Some Greater \<Longrightarrow>
   f64_cmp y z \<noteq> Some Greater \<Longrightarrow> f64_cmp x z \<noteq> Some Greater"
  by (cases x; cases y; cases z) auto

lemma unwrap_f64_cmp:
  "x \<noteq> NaN \<Longrightarrow> y \<noteq> NaN \<Longrightarrow> unwrap_or (f64_cmp x y) Equal = q \<longleftrightarrow> f64_cmp x y = Some q"
  by (cases "f64_cmp x y") (auto simp: f64_cmp_None_iff)

interpretation key_order: total_comparator sort_key_cmp key_ok
proof unfold_locales
  show "sort_key_cmp x x = Equal" if "key_ok x" for x
    using that by (cases x) (simp_all add: sort_key_cmp_def key_ok_def f64_cmp_refl)
  show "sort_key_cmp y x = reverse_ord (sort_key_cmp x y)" if "key_ok x" "key_ok y" for x y
  proof (cases "\<exists>u v. x = KDouble u \<and> y = KDouble v")
    case True
    then obtain u v where uv: "x = KDouble u" "y = KDouble v" by blast
    with that obtain q where "f64_cmp u v = Some q"
      by (cases "f64_cmp u v") (auto simp: key_ok_def f64_cmp_None_iff)
    with uv f64_cmp_swapI [of u v q] show ?thesis by (simp add: sort_key_cmp_def)
  next
    case False
    then show ?thesis
      by (cases x; cases y) (simp_all add: sort_key_cmp_def cmp_of_swap [symmetric])
  qed
  show "sort_key_cmp x z \<noteq> Greater"
    if "key_ok x" "key_ok y" "key_ok z" "sort_key_cmp x y \<noteq> Greater" "sort_key_cmp y z \<noteq> Greater"
    for x y z
    using that
    by (cases x; cases y; cases z; simp add: sort_key_cmp_def key_ok_def unwrap_f64_cmp)
      (metis f64_cmp_trans_le)
qed

section \<open>Properties\<close>

text \<open>
  A projection never fails, and on a document with distinct fields it returns exactly the
  fields it keeps, with their values: with any field set to one, those fields and \<open>_id\<close> unless
  \<open>_id\<close> is excluded; otherwise every field that is not set to zero.
\<close>

theorem project_keeps_fields:
  assumes "al_wf d"
  shows "\<exists>r. project d projection = Inr r \<and>
    (\<forall>k. al_get r k = (if kept projection k then al_get d k else None))"
proof (cases "is_inclusion projection")
  case True
  then have "\<exists>(k, v)\<in>set projection. as_i32 v = Some 1"
    by (auto simp: is_inclusion_def included_def)
  with True show ?thesis
    by (cases "al_get d ''_id''")
      (auto simp: project_def Let_def inclusion_fold kept_def included_def [symmetric]
        excluded_def)
next
  case False
  then have "\<not> (\<exists>(k, v)\<in>set projection. as_i32 v = Some 1)"
    by (auto simp: is_inclusion_def included_def)
  with False show ?thesis
    by (auto simp: project_def Let_def exclusion_fold [OF assms] kept_def excluded_def)
qed

theorem project_keeps_fields_witness:
  "\<exists>r. project [(''_id'', Int32 1), (''a'', Int32 2), (''b'', Int32 3)] [(''a'', Int32 1)] = Inr r \<and>
     al_get r ''b'' = None \<and> al_get r ''a'' = Some (Int32 2) \<and> al_get r ''_id'' = Some (Int32 1)"
proof -
  let ?d = "[(''_id'', Int32 1), (''a'', Int32 2), (''b'', Int32 3)]"
  have "al_wf ?d" by (simp add: al_wf_def)
  then obtain r where "project ?d [(''a'', Int32 1)] = Inr r"
    and r: "\<And>k. al_get r k = (if kept [(''a'', Int32 1)] k then al_get ?d k else None)"
    using project_keeps_fields [of ?d "[(''a'', Int32 1)]"] by blast
  then show ?thesis
    by (intro exI [of _ r])
      (auto simp: r kept_def is_inclusion_def included_def excluded_def get_as_def)
qed

text \<open>
  Sorting by keys without NaN is a stable sort with a total order: the result has the same
  elements, is sorted, sorting again changes nothing, and keys of different types are separated by
  type (null, integers, doubles, strings, dates).
\<close>

theorem sort_keys_total:
  assumes "\<forall>k\<in>set ks. key_ok k"
  shows "mset (sort_by sort_key_cmp ks) = mset ks \<and>
    sorted_wrt (\<lambda>a b. sort_key_cmp a b \<noteq> Greater) (sort_by sort_key_cmp ks) \<and>
    sort_by sort_key_cmp (sort_by sort_key_cmp ks) = sort_by sort_key_cmp ks \<and>
    sorted (map key_rank (sort_by sort_key_cmp ks))"
proof -
  have sorted: "sorted_wrt key_order.le (sort_by sort_key_cmp ks)"
    using assms by (intro key_order.sorted_sort_by) simp
  have ranks: "key_rank a \<le> key_rank b" if "key_order.le a b" for a b
    using that by (cases a; cases b) (simp_all add: key_order.le_def sort_key_cmp_def)
  have "sorted (map key_rank (sort_by sort_key_cmp ks))"
    unfolding sorted_map using sorted ranks by (metis (mono_tags, lifting) sorted_wrt_mono_rel)
  moreover have "sort_by sort_key_cmp (sort_by sort_key_cmp ks) = sort_by sort_key_cmp ks"
    using assms by (intro key_order.sort_by_idem) simp
  ultimately show ?thesis using sorted by (simp add: key_order.le_def [abs_def])
qed

theorem sort_keys_total_witness:
  "sorted (map key_rank (sort_by sort_key_cmp [KString ''a'', KInt64 4, KNull]))"
  using sort_keys_total [of "[KString ''a'', KInt64 4, KNull]"] by (simp add: key_ok_def)

text \<open>
  NaN breaks the order: it compares equal to every double, so equality of sort keys is not
  transitive.
\<close>

theorem sort_key_nan_not_transitive:
  "sort_key_cmp (KDouble (Fin 1)) (KDouble NaN) = Equal \<and>
   sort_key_cmp (KDouble NaN) (KDouble (Fin 2)) = Equal \<and>
   sort_key_cmp (KDouble (Fin 1)) (KDouble (Fin 2)) = Less"
  by (simp add: sort_key_cmp_def)

end
