(* ===== verification/Rango_Storage.thy ===== *)
theory Rango_Storage
  imports Rango_Deps
begin

text \<open>
  The interface of storage back ends (\<open>storage/src/engine.rs\<close>). A trait object is a record of
  functions over the back end's state; the iterators it returns are the lists of what they yield.
  The locale states what every back end promises its clients, over the names a back end keeps apart
  (\<open>name_ok\<close>) and the text by which it identifies a document (\<open>idtext\<close>).
\<close>

record 's storage_engine =
  se_get :: "'s \<Rightarrow> collection_name \<Rightarrow> document_id \<Rightarrow> doc option result"
  se_put :: "'s \<Rightarrow> collection_name \<Rightarrow> document_id \<Rightarrow> doc \<Rightarrow> unit result \<times> 's"
  se_delete :: "'s \<Rightarrow> collection_name \<Rightarrow> document_id \<Rightarrow> bool result \<times> 's"
  se_scan :: "'s \<Rightarrow> collection_name \<Rightarrow> doc result list result"
  se_range :: "'s \<Rightarrow> collection_name \<Rightarrow> bytes option \<Rightarrow> bytes option \<Rightarrow> (bytes \<times> doc) result list result"

text \<open>Back ends with transactions; none is in the repository, and no caller.\<close>

record ('s, 't) transactional_storage = "'s storage_engine" +
  se_begin_tx :: "'s \<Rightarrow> 't result \<times> 's"
  se_commit_tx :: "'s \<Rightarrow> 't \<Rightarrow> unit result \<times> 's"
  se_rollback_tx :: "'s \<Rightarrow> 't \<Rightarrow> unit result \<times> 's"

text \<open>\<open>String::as_bytes\<close>.\<close>

definition char_byte :: "char \<Rightarrow> u8" where
  "char_byte c = of_nat (of_char c)"

definition str_bytes :: "string \<Rightarrow> bytes" where
  "str_bytes s = map char_byte s"

lemma str_bytes_simps [simp]:
  "str_bytes [] = []" "str_bytes (c # s) = char_byte c # str_bytes s"
  "str_bytes (s @ t) = str_bytes s @ str_bytes t"
  by (simp_all add: str_bytes_def)

lemma char_byte_inject [simp]: "char_byte c = char_byte d \<longleftrightarrow> c = d"
proof
  assume "char_byte c = char_byte d"
  then have "unat (char_byte c) = unat (char_byte d)" by simp
  then have "(of_char c :: nat) = of_char d" by (simp add: char_byte_def unat_of_nat)
  then show "c = d" by simp
qed simp

lemma str_bytes_inject [simp]: "str_bytes s = str_bytes t \<longleftrightarrow> s = t"
  unfolding str_bytes_def by (rule inj_map_eq_map) (simp add: inj_def)

text \<open>The key of a document in a flat table: collection, a zero byte, the identifier's text.\<close>

definition encode_key :: "deps \<Rightarrow> collection_name \<Rightarrow> document_id \<Rightarrow> bytes" where
  "encode_key D c i = str_bytes c @ 0 # str_bytes (document_id_to_string D i)"

definition storage_err :: "(string + 'a) \<Rightarrow> 'a result" where
  "storage_err m = map_err Storage m"

lemma storage_err_simps [simp]:
  "storage_err (Inl e) = Inl (Storage e)" "storage_err (Inr x) = Inr x"
  by (simp_all add: storage_err_def)

lemma storage_err_Inr [simp]: "storage_err m = Inr x \<longleftrightarrow> m = Inr x"
  by (cases m) simp_all

text \<open>Collection names without a zero byte.\<close>

definition nul_free :: "string \<Rightarrow> bool" where
  "nul_free c \<longleftrightarrow> (0 :: 8 word) \<notin> set (str_bytes c)"

lemma split_unique: "z \<notin> set p \<Longrightarrow> z \<notin> set p' \<Longrightarrow> p @ z # q = p' @ z # q' \<longleftrightarrow> p = p' \<and> q = q'"
  by (metis split_at_append option.inject prod.inject)

lemma encode_key_inject:
  "nul_free c \<Longrightarrow> nul_free c' \<Longrightarrow> encode_key D c i = encode_key D c' i' \<longleftrightarrow>
     c = c' \<and> document_id_to_string D i = document_id_to_string D i'"
  by (simp add: encode_key_def nul_free_def split_unique)

lemma encode_key_inject_same [simp]:
  "encode_key D c i = encode_key D c i' \<longleftrightarrow> document_id_to_string D i = document_id_to_string D i'"
  by (simp add: encode_key_def)

locale storage_laws =
  fixes E :: "'s storage_engine" and inv :: "'s \<Rightarrow> bool" and name_ok :: "collection_name \<Rightarrow> bool"
    and idtext :: "document_id \<Rightarrow> string"
  assumes get_ok: "inv s \<Longrightarrow> name_ok c \<Longrightarrow> \<exists>m. se_get E s c i = Inr m"
    and put_inv: "inv s \<Longrightarrow> name_ok c \<Longrightarrow> se_put E s c i d = (r, s') \<Longrightarrow> inv s'"
    and put_get: "inv s \<Longrightarrow> name_ok c \<Longrightarrow> name_ok c' \<Longrightarrow> se_put E s c i d = (Inr (), s') \<Longrightarrow>
      se_get E s' c' i' =
        (if c' = c \<and> idtext i' = idtext i then Inr (Some d) else se_get E s c' i')"
    and put_err: "inv s \<Longrightarrow> name_ok c \<Longrightarrow> name_ok c' \<Longrightarrow> se_put E s c i d = (Inl e, s') \<Longrightarrow>
      se_get E s' c' i' = se_get E s c' i'"
    and delete_inv: "inv s \<Longrightarrow> name_ok c \<Longrightarrow> se_delete E s c i = (q, s') \<Longrightarrow> inv s'"
    and delete_get: "inv s \<Longrightarrow> name_ok c \<Longrightarrow> name_ok c' \<Longrightarrow> se_delete E s c i = (Inr b, s') \<Longrightarrow>
      se_get E s' c' i' =
        (if c' = c \<and> idtext i' = idtext i then Inr None else se_get E s c' i')"
    and delete_flag: "inv s \<Longrightarrow> name_ok c \<Longrightarrow> se_delete E s c i = (Inr b, s') \<Longrightarrow>
      b = (se_get E s c i \<noteq> Inr None)"
    and delete_err: "inv s \<Longrightarrow> name_ok c \<Longrightarrow> name_ok c' \<Longrightarrow> se_delete E s c i = (Inl e, s') \<Longrightarrow>
      se_get E s' c' i' = se_get E s c' i'"
    and get_idtext: "inv s \<Longrightarrow> name_ok c \<Longrightarrow> idtext i = idtext j \<Longrightarrow> se_get E s c i = se_get E s c j"
    and scan_get: "inv s \<Longrightarrow> name_ok c \<Longrightarrow> \<exists>ds. se_scan E s c = Inr (map Inr ds) \<and>
      set ds = {d. \<exists>i. se_get E s c i = Inr (Some d)}"
begin

text \<open>The contents of a back end: what \<open>get\<close> finds.\<close>

definition holds_at :: "'s \<Rightarrow> collection_name \<Rightarrow> document_id \<Rightarrow> doc option" where
  "holds_at s c i = (case se_get E s c i of Inr m \<Rightarrow> m | Inl e \<Rightarrow> None)"

lemma get_holds_at: "inv s \<Longrightarrow> name_ok c \<Longrightarrow> se_get E s c i = Inr (holds_at s c i)"
  using get_ok [of s c i] by (auto simp: holds_at_def)

lemma put_holds_at:
  assumes "inv s" "name_ok c" "name_ok c'" "se_put E s c i d = (r, s')"
  shows "holds_at s' c' i' =
    (if r = Inr () \<and> c' = c \<and> idtext i' = idtext i then Some d else holds_at s c' i')"
proof (cases r)
  case (Inl e)
  with assms put_err [of s c c' i d e s' i'] show ?thesis by (simp add: holds_at_def)
next
  case (Inr u)
  with assms put_get [of s c c' i d s' i'] show ?thesis by (simp add: holds_at_def)
qed

lemma delete_holds_at:
  assumes "inv s" "name_ok c" "name_ok c'" "se_delete E s c i = (r, s')"
  shows "holds_at s' c' i' =
    (if (\<exists>b. r = Inr b) \<and> c' = c \<and> idtext i' = idtext i then None else holds_at s c' i')"
proof (cases r)
  case (Inl e)
  with assms delete_err [of s c c' i e s' i'] show ?thesis by (simp add: holds_at_def)
next
  case (Inr b)
  with assms delete_get [of s c c' i b s' i'] show ?thesis by (simp add: holds_at_def)
qed

lemma scan_holds_at:
  assumes "inv s" "name_ok c"
  obtains ds where "se_scan E s c = Inr (map Inr ds)"
    "\<And>d. d \<in> set ds \<longleftrightarrow> (\<exists>i. holds_at s c i = Some d)"
  using scan_get [OF assms] get_holds_at [OF assms] by auto

end

text \<open>
  A list of documents in which every identifier that has a document occurs once: the contract of \<open>scan\<close>,
  which every back end of the repository meets.
\<close>

definition scanned_once :: "(document_id \<Rightarrow> doc option result) \<Rightarrow> (document_id \<Rightarrow> string) \<Rightarrow> doc list \<Rightarrow> bool" where
  "scanned_once found idtext ds \<longleftrightarrow>
     (\<exists>ids. distinct (map idtext ids) \<and> map found ids = map (\<lambda>d. Inr (Some d)) ds \<and>
       (\<forall>i d. found i = Inr (Some d) \<longrightarrow> idtext i \<in> set (map idtext ids)))"

text \<open>The documents of a table whose keys tell the identifiers apart.\<close>

lemma scanned_onceI:
  assumes "distinct (map fst ps)"
    and "\<And>k d. (k, d) \<in> set ps \<Longrightarrow> \<exists>i. k = key i \<and> found i = Inr (Some d)"
    and "\<And>i d. found i = Inr (Some d) \<Longrightarrow> (key i, d) \<in> set ps"
    and "\<And>i j. key i = key j \<longleftrightarrow> idtext i = idtext j"
  shows "scanned_once found idtext (map snd ps)"
proof -
  have "\<forall>p\<in>set ps. \<exists>i. fst p = key i \<and> found i = Inr (Some (snd p))" using assms(2) by auto
  then obtain f where f: "\<And>p. p \<in> set ps \<Longrightarrow> fst p = key (f p) \<and> found (f p) = Inr (Some (snd p))"
    by (auto dest!: bchoice)
  have "inj_on (\<lambda>p. idtext (f p)) (set ps)"
  proof (rule inj_onI)
    fix p q assume pq: "p \<in> set ps" "q \<in> set ps" and same: "idtext (f p) = idtext (f q)"
    have "fst p = fst q" using f [OF pq(1)] f [OF pq(2)] same assms(4) by metis
    with pq assms(1) show "p = q" by (simp add: distinct_map inj_on_def)
  qed
  then have "distinct (map idtext (map f ps))"
    using assms(1) by (simp add: distinct_map comp_def)
  moreover have "map found (map f ps) = map (\<lambda>d. Inr (Some d)) (map snd ps)"
    using f by simp
  moreover have "idtext i \<in> set (map idtext (map f ps))" if "found i = Inr (Some d)" for i d
    using f [OF assms(3) [OF that]] assms(3) [OF that] assms(4) by (metis fst_conv image_eqI list.set_map)
  ultimately show ?thesis unfolding scanned_once_def by blast
qed

lemma scanned_once_found:
  assumes "scanned_once found idtext ds" "d \<in> set ds"
  shows "\<exists>i. found i = Inr (Some d)"
proof -
  obtain ids where "map found ids = map (\<lambda>d. Inr (Some d)) ds" using assms(1) by (auto simp: scanned_once_def)
  then have "found ` set ids = (\<lambda>d. Inr (Some d)) ` set ds" by (metis list.set_map)
  with assms(2) show ?thesis by (metis (no_types, lifting) image_iff)
qed

locale storage_scans = storage_laws +
  assumes scan_once: "inv s \<Longrightarrow> name_ok c \<Longrightarrow> se_scan E s c = Inr (map Inr ds) \<Longrightarrow>
    scanned_once (se_get E s c) idtext ds"

end
