(* ===== verification/Rango_Redb_Storage.thy ===== *)
theory Rango_Redb_Storage
  imports Rango_Storage "HOL-Library.AList"
begin

text \<open>
  The durable back end (\<open>storage/src/redb.rs\<close>) over the embedded key-value database \<open>redb\<close>, whose
  transactions are a record of functions. \<open>redb_ok\<close> states its documented behaviour: a transaction
  opens on the committed table, a table is an ordered map, a commit publishes the table or, on an
  error, leaves the committed one. A write transaction that is dropped changes nothing, so an early
  return keeps the database.
\<close>

record ('db, 't) redb_api =
  rd_create_dir_all :: "string \<Rightarrow> string + unit"
  rd_parent :: "string \<Rightarrow> string option"
  rd_create :: "string \<Rightarrow> string + 'db"
  rd_begin_read :: "'db \<Rightarrow> string + 't"
  rd_begin_write :: "'db \<Rightarrow> string + 't"
  rd_open_table :: "'t \<Rightarrow> string + 't"
  rd_get :: "'t \<Rightarrow> bytes \<Rightarrow> string + bytes option"
  rd_insert :: "'t \<Rightarrow> bytes \<Rightarrow> bytes \<Rightarrow> string + 't"
  rd_remove :: "'t \<Rightarrow> bytes \<Rightarrow> string + (bytes option \<times> 't)"
  rd_iter :: "'t \<Rightarrow> string + (string + bytes \<times> bytes) list"
  rd_commit :: "'db \<Rightarrow> 't \<Rightarrow> (string + unit) \<times> 'db"

definition redb_open :: "('db, 't) redb_api \<Rightarrow> string \<Rightarrow> 'db result" where
  "redb_open api path =
     try_r (case rd_parent api path of
         Some parent \<Rightarrow> storage_err (rd_create_dir_all api parent)
       | None \<Rightarrow> Inr ()) (\<lambda>_.
     try_r (storage_err (rd_create api path)) (\<lambda>db.
     try_r (storage_err (rd_begin_write api db)) (\<lambda>tx.
     try_r (storage_err (rd_open_table api tx)) (\<lambda>tbl.
     case rd_commit api db tbl of (r, db') \<Rightarrow> try_r (storage_err r) (\<lambda>_. Inr db')))))"

definition collection_prefix :: "collection_name \<Rightarrow> bytes" where
  "collection_prefix c = str_bytes c @ [0]"

definition decode_doc :: "deps \<Rightarrow> bytes \<Rightarrow> doc result" where
  "decode_doc D bs = storage_err (from_reader D bs)"

definition redb_get ::
  "deps \<Rightarrow> ('db, 't) redb_api \<Rightarrow> 'db \<Rightarrow> collection_name \<Rightarrow> document_id \<Rightarrow> doc option result" where
  "redb_get D api db c i =
     try_r (storage_err (rd_begin_read api db)) (\<lambda>tx.
     try_r (storage_err (rd_open_table api tx)) (\<lambda>tbl.
     let key = encode_key D c i
     in try_r (storage_err (rd_get api tbl key)) (\<lambda>m.
        case m of
          Some v \<Rightarrow> try_r (decode_doc D v) (\<lambda>d. Inr (Some d))
        | None \<Rightarrow> Inr None)))"

definition redb_put :: "deps \<Rightarrow> ('db, 't) redb_api \<Rightarrow> 'db \<Rightarrow> collection_name \<Rightarrow> document_id \<Rightarrow> doc \<Rightarrow>
    unit result \<times> 'db" where
  "redb_put D api db c i d =
     (let prepared =
        try_r (storage_err (to_writer D d)) (\<lambda>bs.
        try_r (storage_err (rd_begin_write api db)) (\<lambda>tx.
        try_r (storage_err (rd_open_table api tx)) (\<lambda>tbl.
        storage_err (rd_insert api tbl (encode_key D c i) bs))))
      in case prepared of
          Inl e \<Rightarrow> (Inl e, db)
        | Inr tbl \<Rightarrow> (case rd_commit api db tbl of (r, db') \<Rightarrow> (storage_err r, db')))"

definition redb_delete :: "deps \<Rightarrow> ('db, 't) redb_api \<Rightarrow> 'db \<Rightarrow> collection_name \<Rightarrow> document_id \<Rightarrow>
    bool result \<times> 'db" where
  "redb_delete D api db c i =
     (let prepared =
        try_r (storage_err (rd_begin_write api db)) (\<lambda>tx.
        try_r (storage_err (rd_open_table api tx)) (\<lambda>tbl.
        storage_err (rd_remove api tbl (encode_key D c i))))
      in case prepared of
          Inl e \<Rightarrow> (Inl e, db)
        | Inr (old, tbl) \<Rightarrow>
            let existed = (old \<noteq> None)
            in case rd_commit api db tbl of
                (r, db') \<Rightarrow> (try_r (storage_err r) (\<lambda>_. Inr existed), db'))"

text \<open>The loop of \<open>scan\<close>: filter by prefix, decode, stop at the first error.\<close>

fun redb_scan_rows :: "deps \<Rightarrow> bytes \<Rightarrow> (string + bytes \<times> bytes) list \<Rightarrow> doc list result" where
  "redb_scan_rows D prefix [] = Inr []"
| "redb_scan_rows D prefix (kv # rows) =
     try_r (storage_err kv) (\<lambda>(key, v).
     if starts_with prefix key
     then try_r (decode_doc D v) (\<lambda>d. try_r (redb_scan_rows D prefix rows) (\<lambda>ds. Inr (d # ds)))
     else redb_scan_rows D prefix rows)"

definition redb_scan ::
  "deps \<Rightarrow> ('db, 't) redb_api \<Rightarrow> 'db \<Rightarrow> collection_name \<Rightarrow> doc result list result" where
  "redb_scan D api db c =
     try_r (storage_err (rd_begin_read api db)) (\<lambda>tx.
     try_r (storage_err (rd_open_table api tx)) (\<lambda>tbl.
     try_r (storage_err (rd_iter api tbl)) (\<lambda>rows.
     try_r (redb_scan_rows D (collection_prefix c) rows) (\<lambda>docs. Inr (map Inr docs)))))"

fun redb_range_rows :: "deps \<Rightarrow> bytes \<Rightarrow> bytes option \<Rightarrow> bytes option \<Rightarrow>
    (string + bytes \<times> bytes) list \<Rightarrow> (bytes \<times> doc) list result" where
  "redb_range_rows D prefix from_key to_key [] = Inr []"
| "redb_range_rows D prefix from_key to_key (kv # rows) =
     try_r (storage_err kv) (\<lambda>(key, v).
     if \<not> starts_with prefix key then redb_range_rows D prefix from_key to_key rows
     else let suffix = drop (length prefix) key
       in if (case from_key of Some s \<Rightarrow> suffix < s | None \<Rightarrow> False)
          then redb_range_rows D prefix from_key to_key rows
          else if (case to_key of Some e \<Rightarrow> \<not> suffix < e | None \<Rightarrow> False)
          then redb_range_rows D prefix from_key to_key rows
          else try_r (decode_doc D v) (\<lambda>d.
            try_r (redb_range_rows D prefix from_key to_key rows) (\<lambda>rs. Inr ((suffix, d) # rs))))"

definition redb_range :: "deps \<Rightarrow> ('db, 't) redb_api \<Rightarrow> 'db \<Rightarrow> collection_name \<Rightarrow>
    bytes option \<Rightarrow> bytes option \<Rightarrow> (bytes \<times> doc) result list result" where
  "redb_range D api db c from_key to_key =
     try_r (storage_err (rd_begin_read api db)) (\<lambda>tx.
     try_r (storage_err (rd_open_table api tx)) (\<lambda>tbl.
     try_r (storage_err (rd_iter api tbl)) (\<lambda>rows.
     try_r (redb_range_rows D (collection_prefix c) from_key to_key rows) (\<lambda>rs. Inr (map Inr rs)))))"

definition redb_engine :: "deps \<Rightarrow> ('db, 't) redb_api \<Rightarrow> 'db storage_engine" where
  "redb_engine D api = \<lparr>se_get = redb_get D api, se_put = redb_put D api,
     se_delete = redb_delete D api, se_scan = redb_scan D api, se_range = redb_range D api\<rparr>"

lemma redb_engine_simps [simp]:
  "se_get (redb_engine D api) = redb_get D api" "se_put (redb_engine D api) = redb_put D api"
  "se_delete (redb_engine D api) = redb_delete D api" "se_scan (redb_engine D api) = redb_scan D api"
  "se_range (redb_engine D api) = redb_range D api"
  by (simp_all add: redb_engine_def)

section \<open>The database's documented behaviour\<close>

definition redb_ok :: "('db, 't) redb_api \<Rightarrow> ('db \<Rightarrow> (bytes \<times> bytes) list) \<Rightarrow>
    ('t \<Rightarrow> (bytes \<times> bytes) list) \<Rightarrow> bool" where
  "redb_ok api db_view tbl_view \<longleftrightarrow>
     (\<forall>db. al_wf (db_view db)) \<and>
     (\<forall>db. \<exists>tx tbl. rd_begin_read api db = Inr tx \<and> rd_open_table api tx = Inr tbl \<and>
        tbl_view tbl = db_view db) \<and>
     (\<forall>db tx tbl. rd_begin_write api db = Inr tx \<and> rd_open_table api tx = Inr tbl \<longrightarrow>
        tbl_view tbl = db_view db) \<and>
     (\<forall>tbl k. rd_get api tbl k = Inr (al_get (tbl_view tbl) k)) \<and>
     (\<forall>tbl k v tbl'. rd_insert api tbl k v = Inr tbl' \<longrightarrow>
        (\<forall>k'. al_get (tbl_view tbl') k' = (if k' = k then Some v else al_get (tbl_view tbl) k'))) \<and>
     (\<forall>tbl k old tbl'. rd_remove api tbl k = Inr (old, tbl') \<longrightarrow>
        old = al_get (tbl_view tbl) k \<and>
        (\<forall>k'. al_get (tbl_view tbl') k' = (if k' = k then None else al_get (tbl_view tbl) k'))) \<and>
     (\<forall>tbl. rd_iter api tbl = Inr (map Inr (tbl_view tbl))) \<and>
     (\<forall>db tbl db'. rd_commit api db tbl = (Inr (), db') \<longrightarrow> db_view db' = tbl_view tbl) \<and>
     (\<forall>db tbl e db'. rd_commit api db tbl = (Inl e, db') \<longrightarrow> db_view db' = db_view db)"

text \<open>An instance: the table itself as the database, no operation failing.\<close>

definition table_redb :: "((bytes \<times> bytes) list, (bytes \<times> bytes) list) redb_api" where
  "table_redb = \<lparr>rd_create_dir_all = (\<lambda>p. Inr ()), rd_parent = (\<lambda>p. None), rd_create = (\<lambda>p. Inr []),
     rd_begin_read = Inr, rd_begin_write = Inr, rd_open_table = Inr,
     rd_get = (\<lambda>t k. Inr (al_get t k)), rd_insert = (\<lambda>t k v. Inr (al_put t k v)),
     rd_remove = (\<lambda>t k. Inr (al_get t k, al_del (AList.clearjunk t) k)),
     rd_iter = (\<lambda>t. Inr (map Inr (AList.clearjunk t))), rd_commit = (\<lambda>db t. (Inr (), t))\<rparr>"

lemma al_get_clearjunk [simp]: "al_get (AList.clearjunk t) k = al_get t k"
  by (simp add: al_get_map_of map_of_clearjunk)

lemma al_wf_clearjunk [simp]: "al_wf (AList.clearjunk t)"
  by (simp add: al_wf_def distinct_clearjunk)

lemma table_redb_ok: "redb_ok table_redb AList.clearjunk AList.clearjunk"
  by (simp add: redb_ok_def table_redb_def al_get_del)

lemma redb_okD:
  assumes "redb_ok api dv tv"
  shows "al_wf (dv db)"
    and "\<exists>tx tbl. rd_begin_read api db = Inr tx \<and> rd_open_table api tx = Inr tbl \<and> tv tbl = dv db"
    and "rd_begin_write api db = Inr tx \<Longrightarrow> rd_open_table api tx = Inr tbl \<Longrightarrow> tv tbl = dv db"
    and "rd_get api tbl k = Inr (al_get (tv tbl) k)"
    and "rd_insert api tbl k v = Inr tbl' \<Longrightarrow>
      al_get (tv tbl') k' = (if k' = k then Some v else al_get (tv tbl) k')"
    and "rd_remove api tbl k = Inr (old, tbl') \<Longrightarrow> old = al_get (tv tbl) k \<and>
      al_get (tv tbl') k' = (if k' = k then None else al_get (tv tbl) k')"
    and "rd_iter api tbl = Inr (map Inr (tv tbl))"
    and "rd_commit api db tbl = (Inr (), db') \<Longrightarrow> dv db' = tv tbl"
    and "rd_commit api db tbl = (Inl e, db') \<Longrightarrow> dv db' = dv db"
proof -
  note ok = assms [unfolded redb_ok_def]
  show "al_wf (dv db)" using ok by (elim conjE) (erule allE)
  show "\<exists>tx tbl. rd_begin_read api db = Inr tx \<and> rd_open_table api tx = Inr tbl \<and> tv tbl = dv db"
    using ok by (elim conjE) (erule allE)
  show "rd_get api tbl k = Inr (al_get (tv tbl) k)" using ok by simp
  show "rd_iter api tbl = Inr (map Inr (tv tbl))" using ok by simp
  show "tv tbl = dv db" if "rd_begin_write api db = Inr tx" "rd_open_table api tx = Inr tbl"
    using ok that by (elim conjE) metis
  show "al_get (tv tbl') k' = (if k' = k then Some v else al_get (tv tbl) k')"
    if "rd_insert api tbl k v = Inr tbl'"
    using ok that by (elim conjE) metis
  show "old = al_get (tv tbl) k \<and> al_get (tv tbl') k' = (if k' = k then None else al_get (tv tbl) k')"
    if "rd_remove api tbl k = Inr (old, tbl')"
    using ok that by (elim conjE) metis
  show "dv db' = tv tbl" if "rd_commit api db tbl = (Inr (), db')" using ok that by (elim conjE) metis
  show "dv db' = dv db" if "rd_commit api db tbl = (Inl e, db')" using ok that by (elim conjE) metis
qed

section \<open>Lemmas\<close>

definition redb_inv :: "deps \<Rightarrow> ('db, 't) redb_api \<Rightarrow> ('db \<Rightarrow> (bytes \<times> bytes) list) \<Rightarrow>
    ('t \<Rightarrow> (bytes \<times> bytes) list) \<Rightarrow> 'db \<Rightarrow> bool" where
  "redb_inv D api dv tv db \<longleftrightarrow> codec_ok D \<and> redb_ok api dv tv \<and>
     (\<forall>k bs. al_get (dv db) k = Some bs \<longrightarrow>
        (\<exists>c i. nul_free c \<and> k = encode_key D c i) \<and> (\<exists>d. to_writer D d = Inr bs))"

lemma redb_get_view:
  assumes "redb_ok api dv tv"
  shows "redb_get D api db c i =
    (case al_get (dv db) (encode_key D c i) of
       Some v \<Rightarrow> try_r (decode_doc D v) (\<lambda>d. Inr (Some d)) | None \<Rightarrow> Inr None)"
proof -
  obtain tx tbl where "rd_begin_read api db = Inr tx" "rd_open_table api tx = Inr tbl" "tv tbl = dv db"
    using redb_okD(2) [OF assms] by blast
  then show ?thesis by (simp add: redb_get_def redb_okD(4) [OF assms] Let_def)
qed

lemma redb_put_cases:
  obtains (err) e where "redb_put D api db c i d = (Inl e, db)"
  | (commit) bs tx tbl tbl' r db' where "to_writer D d = Inr bs" "rd_begin_write api db = Inr tx"
      "rd_open_table api tx = Inr tbl" "rd_insert api tbl (encode_key D c i) bs = Inr tbl'"
      "rd_commit api db tbl' = (r, db')" "redb_put D api db c i d = (storage_err r, db')"
proof (cases "\<exists>bs tx tbl tbl'. to_writer D d = Inr bs \<and> rd_begin_write api db = Inr tx \<and>
      rd_open_table api tx = Inr tbl \<and> rd_insert api tbl (encode_key D c i) bs = Inr tbl'")
  case True
  then obtain bs tx tbl tbl' where found: "to_writer D d = Inr bs" "rd_begin_write api db = Inr tx"
      "rd_open_table api tx = Inr tbl" "rd_insert api tbl (encode_key D c i) bs = Inr tbl'" by blast
  obtain r db' where "rd_commit api db tbl' = (r, db')" by fastforce
  with found commit show ?thesis by (simp add: redb_put_def)
next
  case False
  then have "\<exists>e. redb_put D api db c i d = (Inl e, db)"
    by (cases "to_writer D d"; cases "rd_begin_write api db"; cases "rd_open_table api (projr (rd_begin_write api db))";
        cases "rd_insert api (projr (rd_open_table api (projr (rd_begin_write api db))))
          (encode_key D c i) (projr (to_writer D d))")
      (auto simp: redb_put_def)
  with err show ?thesis by blast
qed

lemma redb_delete_cases:
  obtains (err) e where "redb_delete D api db c i = (Inl e, db)"
  | (commit) tx tbl old tbl' r db' where "rd_begin_write api db = Inr tx"
      "rd_open_table api tx = Inr tbl" "rd_remove api tbl (encode_key D c i) = Inr (old, tbl')"
      "rd_commit api db tbl' = (r, db')"
      "redb_delete D api db c i = (try_r (storage_err r) (\<lambda>_. Inr (old \<noteq> None)), db')"
proof (cases "\<exists>tx tbl old tbl'. rd_begin_write api db = Inr tx \<and> rd_open_table api tx = Inr tbl \<and>
      rd_remove api tbl (encode_key D c i) = Inr (old, tbl')")
  case True
  then obtain tx tbl old tbl' where found: "rd_begin_write api db = Inr tx"
      "rd_open_table api tx = Inr tbl" "rd_remove api tbl (encode_key D c i) = Inr (old, tbl')" by blast
  obtain r db' where "rd_commit api db tbl' = (r, db')" by fastforce
  with found commit show ?thesis by (simp add: redb_delete_def)
next
  case False
  then have "\<exists>e. redb_delete D api db c i = (Inl e, db)"
    by (cases "rd_begin_write api db"; cases "rd_open_table api (projr (rd_begin_write api db))";
        cases "rd_remove api (projr (rd_open_table api (projr (rd_begin_write api db)))) (encode_key D c i)")
      (auto simp: redb_delete_def)
  with err show ?thesis by blast
qed

lemma redb_put_view:
  assumes ok: "redb_ok api dv tv" and put: "redb_put D api db c i d = (r, db')"
  shows "(\<exists>e. r = Inl e \<and> dv db' = dv db) \<or>
    (\<exists>bs. r = Inr () \<and> to_writer D d = Inr bs \<and>
      (\<forall>k. al_get (dv db') k = (if k = encode_key D c i then Some bs else al_get (dv db) k)))"
proof (cases rule: redb_put_cases [of D api db c i d])
  case (commit bs tx tbl tbl' q db'')
  have tbl: "tv tbl = dv db" by (rule redb_okD(3) [OF ok commit(2,3)])
  have ins: "al_get (tv tbl') k = (if k = encode_key D c i then Some bs else al_get (dv db) k)" for k
    using redb_okD(5) [OF ok commit(4), of k] tbl by simp
  have same: "r = storage_err q" "db' = db''" using put commit(6) by simp_all
  show ?thesis
  proof (cases q)
    case (Inl e)
    with commit(5) redb_okD(9) [OF ok] same show ?thesis by auto
  next
    case (Inr u)
    with commit(5) redb_okD(8) [OF ok] have "dv db'' = tv tbl'" by auto
    with Inr ins same commit(1) show ?thesis by simp
  qed
qed (use put in simp)

lemma redb_delete_view:
  assumes ok: "redb_ok api dv tv" and del: "redb_delete D api db c i = (q, db')"
  shows "(\<exists>e. q = Inl e \<and> dv db' = dv db) \<or>
    (q = Inr (al_get (dv db) (encode_key D c i) \<noteq> None) \<and>
      (\<forall>k. al_get (dv db') k = (if k = encode_key D c i then None else al_get (dv db) k)))"
proof (cases rule: redb_delete_cases [of D api db c i])
  case (commit tx tbl old tbl' r db'')
  have tbl: "tv tbl = dv db" by (rule redb_okD(3) [OF ok commit(1,2)])
  have rem: "old = al_get (dv db) (encode_key D c i) \<and>
      al_get (tv tbl') k = (if k = encode_key D c i then None else al_get (dv db) k)" for k
    using redb_okD(6) [OF ok commit(3), of k] tbl by simp
  have same: "q = try_r (storage_err r) (\<lambda>_. Inr (old \<noteq> None))" "db' = db''"
    using del commit(5) by simp_all
  show ?thesis
  proof (cases r)
    case (Inl e)
    with commit(4) redb_okD(9) [OF ok] same show ?thesis by auto
  next
    case (Inr u)
    with commit(4) redb_okD(8) [OF ok] have "dv db'' = tv tbl'" by auto
    with Inr rem same show ?thesis by simp
  qed
qed (use del in simp)

lemma redb_scan_rows_ok:
  assumes "\<And>k v. (k, v) \<in> set rows \<Longrightarrow> \<exists>d. from_reader D v = Inr d"
  shows "redb_scan_rows D p (map Inr rows) =
    Inr (map (\<lambda>kv. projr (from_reader D (snd kv))) (filter (\<lambda>kv. starts_with p (fst kv)) rows))"
  using assms
proof (induction rows)
  case (Cons kv rows)
  then obtain d where d: "from_reader D (snd kv) = Inr d" by (cases kv) auto
  have "redb_scan_rows D p (map Inr rows) =
    Inr (map (\<lambda>kv. projr (from_reader D (snd kv))) (filter (\<lambda>kv. starts_with p (fst kv)) rows))"
    using Cons.prems by (intro Cons.IH) auto
  with d show ?case by (cases kv) (simp add: decode_doc_def)
qed simp

lemma starts_with_encode_key:
  "nul_free c \<Longrightarrow> nul_free c' \<Longrightarrow> starts_with (collection_prefix c) (encode_key D c' i) \<longleftrightarrow> c' = c"
  by (auto simp: starts_with_iff collection_prefix_def encode_key_def nul_free_def split_unique)

lemma redb_inv_read:
  "redb_inv D api dv tv db \<Longrightarrow> al_get (dv db) k = Some bs \<Longrightarrow> \<exists>d. from_reader D bs = Inr d"
  by (auto simp: redb_inv_def codec_ok_def) metis

lemma redb_get_Some:
  "redb_ok api dv tv \<Longrightarrow> redb_get D api db c i = Inr (Some d) \<longleftrightarrow>
     (\<exists>bs. al_get (dv db) (encode_key D c i) = Some bs \<and> from_reader D bs = Inr d)"
  by (auto simp: redb_get_view decode_doc_def try_r_eq_Inr split: option.splits)

lemma redb_get_None:
  "redb_ok api dv tv \<Longrightarrow> redb_get D api db c i = Inr None \<longleftrightarrow>
     al_get (dv db) (encode_key D c i) = None"
  by (auto simp: redb_get_view try_r_eq_Inr split: option.splits)

lemma redb_get_ok: "redb_inv D api dv tv db \<Longrightarrow> \<exists>m. redb_get D api db c i = Inr m"
proof -
  assume inv: "redb_inv D api dv tv db"
  then have "redb_ok api dv tv" by (simp add: redb_inv_def)
  with redb_inv_read [OF inv] show ?thesis
    by (cases "al_get (dv db) (encode_key D c i)") (fastforce simp: redb_get_view decode_doc_def)+
qed

text \<open>The rows of a scan: under each key the document \<open>get\<close> finds.\<close>

lemma redb_scan_keys:
  assumes inv: "redb_inv D api dv tv db" and c: "nul_free c"
  obtains ps where "redb_scan D api db c = Inr (map Inr (map snd ps))" "distinct (map fst ps)"
    "\<And>k d. (k, d) \<in> set ps \<Longrightarrow> \<exists>i. k = encode_key D c i \<and> redb_get D api db c i = Inr (Some d)"
    "\<And>i d. redb_get D api db c i = Inr (Some d) \<Longrightarrow> (encode_key D c i, d) \<in> set ps"
proof
  have ok: "redb_ok api dv tv" using inv by (simp add: redb_inv_def)
  obtain tx tbl where t: "rd_begin_read api db = Inr tx" "rd_open_table api tx = Inr tbl" "tv tbl = dv db"
    using redb_okD(2) [OF ok] by blast
  note in_view = al_wf_get_iff [OF redb_okD(1) [OF ok], of db]
  let ?rows = "filter (\<lambda>kv. starts_with (collection_prefix c) (fst kv)) (dv db)"
  let ?ps = "map (\<lambda>kv. (fst kv, projr (from_reader D (snd kv)))) ?rows"
  show "redb_scan D api db c = Inr (map Inr (map snd ?ps))"
    unfolding redb_scan_def using t redb_okD(7) [OF ok, of tbl] redb_inv_read [OF inv]
    by (simp add: redb_scan_rows_ok in_view)
  have "distinct (map fst (dv db))" using redb_okD(1) [OF ok] by (simp add: al_wf_def)
  then show "distinct (map fst ?ps)" by (simp add: comp_def distinct_map_filter)
  show "\<exists>i. k = encode_key D c i \<and> redb_get D api db c i = Inr (Some d)" if "(k, d) \<in> set ?ps" for k d
  proof -
    from that obtain bs where p: "al_get (dv db) k = Some bs" "starts_with (collection_prefix c) k"
      "d = projr (from_reader D bs)" by (auto simp: in_view)
    obtain c' i where k: "nul_free c'" "k = encode_key D c' i"
      using p(1) inv unfolding redb_inv_def by blast
    then have "c' = c" using p(2) c by (simp add: starts_with_encode_key)
    moreover have "from_reader D bs = Inr d" using redb_inv_read [OF inv p(1)] p(3) by auto
    ultimately show ?thesis using p(1) k(2) redb_get_Some [OF ok] by blast
  qed
  show "(encode_key D c i, d) \<in> set ?ps" if get: "redb_get D api db c i = Inr (Some d)" for i d
  proof -
    obtain bs where "al_get (dv db) (encode_key D c i) = Some bs" "from_reader D bs = Inr d"
      using get redb_get_Some [OF ok] by blast
    then have "(encode_key D c i, bs) \<in> set (dv db)" "d = projr (from_reader D bs)"
      by (simp_all add: in_view)
    then show ?thesis using c by (force simp: starts_with_encode_key)
  qed
qed

lemma redb_scan_set:
  assumes "redb_inv D api dv tv db" "nul_free c"
  shows "\<exists>ds. redb_scan D api db c = Inr (map Inr ds) \<and>
    set ds = {d. \<exists>i. redb_get D api db c i = Inr (Some d)}"
proof -
  obtain ps where "redb_scan D api db c = Inr (map Inr (map snd ps))" "distinct (map fst ps)"
    "\<And>k d. (k, d) \<in> set ps \<Longrightarrow> \<exists>i. k = encode_key D c i \<and> redb_get D api db c i = Inr (Some d)"
    "\<And>i d. redb_get D api db c i = Inr (Some d) \<Longrightarrow> (encode_key D c i, d) \<in> set ps"
    by (rule redb_scan_keys [OF assms]) (rule that)
  then show ?thesis by (intro exI [of _ "map snd ps"]) force
qed

lemma redb_inv_step:
  assumes "redb_inv D api dv tv db" "nul_free c"
    and "\<forall>k. al_get (dv db') k = (if k = encode_key D c i then m else al_get (dv db) k)"
    and "m = None \<or> (\<exists>d bs. m = Some bs \<and> to_writer D d = Inr bs)"
  shows "redb_inv D api dv tv db'"
  using assms unfolding redb_inv_def by (metis option.distinct(1) option.inject)

interpretation redb: storage_laws "redb_engine D api" "redb_inv D api dv tv" nul_free "document_id_to_string D"
  for D api dv tv
proof (unfold_locales, simp_all only: redb_engine_simps)
  fix s c c' i i' d r q e b s'
  assume inv: "redb_inv D api dv tv s" and c: "nul_free c"
  have ok: "redb_ok api dv tv" using inv by (simp add: redb_inv_def)
  show "\<exists>m. redb_get D api s c i = Inr m" by (rule redb_get_ok [OF inv])
  show "\<exists>ds. redb_scan D api s c = Inr (map Inr ds) \<and> set ds = {d. \<exists>i. redb_get D api s c i = Inr (Some d)}"
    by (rule redb_scan_set [OF inv c])
  show "redb_inv D api dv tv s'" if "redb_put D api s c i d = (r, s')"
    using redb_put_view [OF ok that]
  proof (elim disjE exE conjE)
    show ?thesis if "dv s' = dv s" using that inv by (simp add: redb_inv_def)
    show ?thesis if "to_writer D d = Inr bs"
      "\<forall>k. al_get (dv s') k = (if k = encode_key D c i then Some bs else al_get (dv s) k)" for bs
      by (rule redb_inv_step [OF inv c that(2)]) (use that(1) in blast)
  qed
  show "redb_get D api s' c' i' = (if c' = c \<and> document_id_to_string D i' = document_id_to_string D i
      then Inr (Some d) else redb_get D api s c' i')"
    if "nul_free c'" "redb_put D api s c i d = (Inr (), s')"
    using redb_put_view [OF ok that(2)] that(1) c inv
    by (auto simp: redb_get_view [OF ok] encode_key_inject redb_inv_def codec_ok_def decode_doc_def)
  show "redb_get D api s' c' i' = redb_get D api s c' i'" if "redb_put D api s c i d = (Inl e, s')"
    using redb_put_view [OF ok that] by (auto simp: redb_get_view [OF ok])
  show "redb_inv D api dv tv s'" if "redb_delete D api s c i = (q, s')"
    using redb_delete_view [OF ok that]
  proof (elim disjE exE conjE)
    show ?thesis if "dv s' = dv s" using that inv by (simp add: redb_inv_def)
    show ?thesis
      if "\<forall>k. al_get (dv s') k = (if k = encode_key D c i then None else al_get (dv s) k)"
      by (rule redb_inv_step [OF inv c that]) simp
  qed
  show "redb_get D api s' c' i' = (if c' = c \<and> document_id_to_string D i' = document_id_to_string D i
      then Inr None else redb_get D api s c' i')"
    if "nul_free c'" "redb_delete D api s c i = (Inr b, s')"
    using redb_delete_view [OF ok that(2)] that(1) c
    by (auto simp: redb_get_view [OF ok] encode_key_inject)
  show "b = (redb_get D api s c i \<noteq> Inr None)" if "redb_delete D api s c i = (Inr b, s')"
    using redb_delete_view [OF ok that] by (simp add: redb_get_None [OF ok])
  show "redb_get D api s' c' i' = redb_get D api s c' i'" if "redb_delete D api s c i = (Inl e, s')"
    using redb_delete_view [OF ok that] by (auto simp: redb_get_view [OF ok])
  show "redb_get D api s c i = redb_get D api s c i'" if "document_id_to_string D i = document_id_to_string D i'"
    using that by (simp add: redb_get_view [OF ok] encode_key_def)
qed

interpretation redb_scans: storage_scans "redb_engine D api" "redb_inv D api dv tv" nul_free "document_id_to_string D"
  for D api dv tv
proof (unfold_locales, simp_all only: redb_engine_simps)
  fix s c ds
  assume inv: "redb_inv D api dv tv s" "nul_free c" and scan: "redb_scan D api s c = Inr (map Inr ds)"
  obtain ps where ps: "redb_scan D api s c = Inr (map Inr (map snd ps))" "distinct (map fst ps)"
    "\<And>k d. (k, d) \<in> set ps \<Longrightarrow> \<exists>i. k = encode_key D c i \<and> redb_get D api s c i = Inr (Some d)"
    "\<And>i d. redb_get D api s c i = Inr (Some d) \<Longrightarrow> (encode_key D c i, d) \<in> set ps"
    by (rule redb_scan_keys [OF inv]) (rule that)
  have "ds = map snd ps" using scan ps(1) by (simp add: inj_map_eq_map del: map_map)
  with scanned_onceI [of ps "encode_key D c", OF ps(2-4)] show "scanned_once (redb_get D api s c) (document_id_to_string D) ds"
    by simp
qed

section \<open>Properties\<close>

text \<open>
  C11: a committed \<open>put\<close> of the durable back end is read back and appears in the scan of its collection;
  it leaves every other identifier of its collection and every identifier and the scan of any other
  collection as they were; a failed one changes no document. Names have no zero byte, the database
  behaves as documented and the codec reads what it wrote.
\<close>

theorem redb_put_is_isolated:
  assumes "redb_inv D api dv tv db" "nul_free c" "nul_free c'" "c' \<noteq> c"
    "redb_put D api db c i d = (r, db')"
  shows "redb_inv D api dv tv db' \<and>
    (r = Inr () \<longrightarrow> redb_get D api db' c i = Inr (Some d)) \<and>
    (\<forall>j. document_id_to_string D j \<noteq> document_id_to_string D i \<longrightarrow>
      redb_get D api db' c j = redb_get D api db c j) \<and>
    (r \<noteq> Inr () \<longrightarrow> (\<forall>j. redb_get D api db' c j = redb_get D api db c j)) \<and>
    (\<exists>ds. redb_scan D api db' c = Inr (map Inr ds) \<and> (r = Inr () \<longrightarrow> d \<in> set ds)) \<and>
    (\<forall>j. redb_get D api db' c' j = redb_get D api db c' j) \<and>
    (\<exists>ds ds'. redb_scan D api db c' = Inr (map Inr ds) \<and> redb_scan D api db' c' = Inr (map Inr ds') \<and>
      set ds' = set ds)"
proof -
  have inv': "redb_inv D api dv tv db'"
    using redb.put_inv [OF assms(1,2)] assms(5) by simp
  have other: "redb_get D api db' c' j = redb_get D api db c' j" for j
    using redb.put_get [OF assms(1-3)] redb.put_err [OF assms(1-3)] assms(4,5) by (cases r) auto
  have same: "redb_get D api db' c j = redb_get D api db c j" if "r \<noteq> Inr ()" for j
    using redb.put_err [OF assms(1,2,2)] assms(5) that by (cases r) auto
  have put: "redb_get D api db' c j =
      (if document_id_to_string D j = document_id_to_string D i then Inr (Some d) else redb_get D api db c j)"
    if "r = Inr ()" for j
    using redb.put_get [OF assms(1,2,2)] assms(5) that by simp
  then have "redb_get D api db' c j = redb_get D api db c j"
    if "document_id_to_string D j \<noteq> document_id_to_string D i" for j
    using same that by (cases "r = Inr ()") simp_all
  moreover have "\<exists>ds. redb_scan D api db' c = Inr (map Inr ds) \<and> (r = Inr () \<longrightarrow> d \<in> set ds)"
    using redb.scan_get [OF inv' assms(2)] put [of i] by auto
  ultimately show ?thesis
    using inv' other same put [of i] redb.scan_get [OF assms(1,3)] redb.scan_get [OF inv' assms(3)]
    by auto
qed

theorem redb_put_is_isolated_witness:
  "redb_get (sample_deps [[(''a'', Null)]]) table_redb
     (snd (redb_put (sample_deps [[(''a'', Null)]]) table_redb [] ''c'' (String ''x'') [(''a'', Null)]))
     ''c'' (String ''x'') = Inr (Some [(''a'', Null)])"
proof -
  let ?D = "sample_deps [[(''a'', Null)]]"
  let ?r = "redb_put ?D table_redb [] ''c'' (String ''x'') [(''a'', Null)]"
  have inv: "redb_inv ?D table_redb AList.clearjunk AList.clearjunk []"
    by (simp add: redb_inv_def table_redb_ok)
  have nul: "nul_free ''c''" "nul_free ''d''" by (simp_all add: nul_free_def char_byte_def)
  have "fst ?r = Inr ()"
    by (simp add: redb_put_def table_writer_def table_redb_def Let_def)
  then have "?r = (Inr (), snd ?r)" by (metis prod.collapse)
  from redb_put_is_isolated [OF inv nul _ this] show ?thesis by simp
qed

text \<open>
  The prefix of a scan does not separate names with a zero byte: a document put under the
  collection \<open>a\0b\<close> is yielded by the scan of the collection \<open>a\<close>.
\<close>

theorem redb_scan_prefix_leaks:
  "codec_ok D \<Longrightarrow> to_writer D d = Inr bs \<Longrightarrow>
   (case redb_put D table_redb [] [CHR ''a'', CHR 0x00, CHR ''b''] i d of
      (r, db) \<Rightarrow> r = Inr () \<and> redb_scan D table_redb db ''a'' = Inr [Inr d])"
  by (simp add: redb_put_def redb_scan_def table_redb_def encode_key_def collection_prefix_def
      char_byte_def starts_with_def decode_doc_def codec_ok_def)

theorem redb_scan_prefix_leaks_witness:
  "redb_scan (sample_deps [[(''a'', Null)]]) table_redb
     (snd (redb_put (sample_deps [[(''a'', Null)]]) table_redb [] [CHR ''a'', CHR 0x00, CHR ''b'']
       Null [(''a'', Null)])) ''a'' = Inr [Inr [(''a'', Null)]]"
  using redb_scan_prefix_leaks [of "sample_deps [[(''a'', Null)]]" "[(''a'', Null)]" "[0]" Null]
  by (simp add: table_writer_def case_prod_beta)

end
