(* ===== verification/Rango_Memory_Storage.thy ===== *)
theory Rango_Memory_Storage
  imports Rango_Storage
begin

text \<open>
  The in-memory back end (\<open>storage/src/memory.rs\<close>): a map from collection names to maps from keys
  to serialized documents. A failed \<open>put\<close> leaves the empty collection it created; \<open>scan\<close> yields the
  values in the order the hash map gives them and decodes each one lazily. The theory interprets
  the storage interface for it.
\<close>

type_synonym memory_storage = "(string \<times> (bytes \<times> bytes) list) list"

definition memory_new :: memory_storage where
  "memory_new = []"

definition memory_get ::
  "deps \<Rightarrow> memory_storage \<Rightarrow> collection_name \<Rightarrow> document_id \<Rightarrow> doc option result" where
  "memory_get D s c i =
     (case al_get s c of
        Some coll \<Rightarrow>
          (case al_get coll (encode_key D c i) of
             Some bs \<Rightarrow> try_r (storage_err (from_reader D bs)) (\<lambda>d. Inr (Some d))
           | None \<Rightarrow> Inr None)
      | None \<Rightarrow> Inr None)"

definition memory_put :: "deps \<Rightarrow> memory_storage \<Rightarrow> collection_name \<Rightarrow> document_id \<Rightarrow> doc \<Rightarrow>
    unit result \<times> memory_storage" where
  "memory_put D s c i d =
     (let coll = unwrap_or (al_get s c) []; s1 = al_put s c coll; key = encode_key D c i
      in case storage_err (to_writer D d) of
          Inl e \<Rightarrow> (Inl e, s1)
        | Inr bs \<Rightarrow> (Inr (), al_put s1 c (al_put coll key bs)))"

definition memory_delete :: "deps \<Rightarrow> memory_storage \<Rightarrow> collection_name \<Rightarrow> document_id \<Rightarrow>
    bool result \<times> memory_storage" where
  "memory_delete D s c i =
     (case al_get s c of
        Some coll \<Rightarrow>
          let key = encode_key D c i
          in (Inr (al_get coll key \<noteq> None), al_put s c (al_del coll key))
      | None \<Rightarrow> (Inr False, s))"

definition memory_scan :: "deps \<Rightarrow> memory_storage \<Rightarrow> collection_name \<Rightarrow> doc result list result" where
  "memory_scan D s c =
     (let items = map snd (hash_order D (unwrap_or (al_get s c) []))
      in Inr (map (\<lambda>bs. storage_err (from_reader D bs)) items))"

definition memory_range :: "memory_storage \<Rightarrow> collection_name \<Rightarrow> bytes option \<Rightarrow> bytes option \<Rightarrow>
    (bytes \<times> doc) result list result" where
  "memory_range s c from_key to_key = Inr []"

definition memory_engine :: "deps \<Rightarrow> memory_storage storage_engine" where
  "memory_engine D = \<lparr>se_get = memory_get D, se_put = memory_put D, se_delete = memory_delete D,
     se_scan = memory_scan D, se_range = memory_range\<rparr>"

lemma memory_engine_simps [simp]:
  "se_get (memory_engine D) = memory_get D" "se_put (memory_engine D) = memory_put D"
  "se_delete (memory_engine D) = memory_delete D" "se_scan (memory_engine D) = memory_scan D"
  "se_range (memory_engine D) = memory_range"
  by (simp_all add: memory_engine_def)

section \<open>Invariant\<close>

text \<open>Every key is the key of a document of its collection, every value is a written document.\<close>

definition collection_ok :: "deps \<Rightarrow> collection_name \<Rightarrow> (bytes \<times> bytes) list \<Rightarrow> bool" where
  "collection_ok D c m \<longleftrightarrow> al_wf m \<and>
     (\<forall>(k, bs)\<in>set m. (\<exists>i. k = encode_key D c i) \<and> (\<exists>d. to_writer D d = Inr bs))"

definition memory_inv :: "deps \<Rightarrow> memory_storage \<Rightarrow> bool" where
  "memory_inv D s \<longleftrightarrow> codec_ok D \<and> hash_order_ok D \<and>
     (\<forall>c m. al_get s c = Some m \<longrightarrow> collection_ok D c m)"

lemma collection_ok_Nil [simp]: "collection_ok D c []"
  by (simp add: collection_ok_def)

lemma memory_inv_new: "codec_ok D \<Longrightarrow> hash_order_ok D \<Longrightarrow> memory_inv D memory_new"
  by (simp add: memory_inv_def memory_new_def)

lemma memory_inv_coll: "memory_inv D s \<Longrightarrow> collection_ok D c (unwrap_or (al_get s c) [])"
  by (cases "al_get s c") (auto simp: memory_inv_def)

lemma collection_ok_put:
  "collection_ok D c m \<Longrightarrow> to_writer D d = Inr bs \<Longrightarrow>
   collection_ok D c (al_put m (encode_key D c i) bs)"
  by (auto simp: collection_ok_def set_al_put al_wf_put)

lemma collection_ok_del: "collection_ok D c m \<Longrightarrow> collection_ok D c (al_del m k)"
  by (auto simp: collection_ok_def set_al_del al_wf_del)

lemma collection_ok_read:
  "collection_ok D c m \<Longrightarrow> codec_ok D \<Longrightarrow> al_get m k = Some bs \<Longrightarrow> \<exists>d. from_reader D bs = Inr d"
  by (force simp: collection_ok_def al_wf_get_iff codec_ok_def)

lemma memory_get_unwrap:
  "memory_get D s c i =
     (case al_get (unwrap_or (al_get s c) []) (encode_key D c i) of
        Some bs \<Rightarrow> try_r (storage_err (from_reader D bs)) (\<lambda>d. Inr (Some d))
      | None \<Rightarrow> Inr None)"
  by (cases "al_get s c") (simp_all add: memory_get_def)

lemma memory_get_ok: "memory_inv D s \<Longrightarrow> \<exists>m. memory_get D s c i = Inr m"
proof -
  assume inv: "memory_inv D s"
  then have "codec_ok D" by (simp add: memory_inv_def)
  with collection_ok_read [OF memory_inv_coll [OF inv, of c]] show ?thesis
    by (cases "al_get (unwrap_or (al_get s c) []) (encode_key D c i)")
      (fastforce simp: memory_get_unwrap)+
qed

lemma memory_get_Some:
  "memory_get D s c i = Inr (Some d) \<longleftrightarrow>
     (\<exists>bs. al_get (unwrap_or (al_get s c) []) (encode_key D c i) = Some bs \<and> from_reader D bs = Inr d)"
  by (auto simp: memory_get_unwrap try_r_eq_Inr split: option.splits)

lemma memory_get_None:
  "memory_get D s c i = Inr None \<longleftrightarrow> al_get (unwrap_or (al_get s c) []) (encode_key D c i) = None"
  by (auto simp: memory_get_unwrap try_r_eq_Inr split: option.splits)

lemma memory_put_result:
  "memory_put D s c i d = (r, s') \<Longrightarrow>
     (\<exists>e. r = Inl e \<and> (\<exists>t. to_writer D d = Inl t) \<and>
       s' = al_put s c (unwrap_or (al_get s c) [])) \<or>
     (\<exists>bs. r = Inr () \<and> to_writer D d = Inr bs \<and>
       s' = al_put s c (al_put (unwrap_or (al_get s c) []) (encode_key D c i) bs))"
  by (cases "to_writer D d") (auto simp: memory_put_def Let_def)

lemma memory_delete_result:
  assumes "memory_delete D s c i = (q, s')"
  shows "q = Inr (al_get (unwrap_or (al_get s c) []) (encode_key D c i) \<noteq> None)"
    and "unwrap_or (al_get s' c') [] =
      (if c' = c then al_del (unwrap_or (al_get s c) []) (encode_key D c i) else unwrap_or (al_get s c') [])"
  using assms by (auto simp: memory_delete_def Let_def split: option.splits)

text \<open>The rows of a scan: under each key the document \<open>get\<close> finds.\<close>

lemma memory_scan_rows:
  assumes "memory_inv D s"
  obtains ps where "memory_scan D s c = Inr (map Inr (map snd ps))" "distinct (map fst ps)"
    "\<And>k d. (k, d) \<in> set ps \<Longrightarrow> \<exists>i. k = encode_key D c i \<and> memory_get D s c i = Inr (Some d)"
    "\<And>i d. memory_get D s c i = Inr (Some d) \<Longrightarrow> (encode_key D c i, d) \<in> set ps"
proof
  let ?m = "unwrap_or (al_get s c) []"
  let ?ps = "map (\<lambda>p. (fst p, projr (from_reader D (snd p)))) (hash_order D ?m)"
  have ok: "collection_ok D c ?m" by (rule memory_inv_coll [OF assms])
  have order: "mset (hash_order D ?m) = mset ?m"
    using assms by (intro hash_order_okD) (simp add: memory_inv_def)
  then have set: "set (hash_order D ?m) = set ?m" by (rule mset_eq_setD)
  have read: "\<exists>d. from_reader D (snd p) = Inr d" if "p \<in> set ?m" for p
    using that ok assms unfolding collection_ok_def memory_inv_def codec_ok_def by fastforce
  have "storage_err (from_reader D (snd p)) = Inr (projr (from_reader D (snd p)))"
    if "p \<in> set (hash_order D ?m)" for p
    using that read [of p] set by auto
  then show "memory_scan D s c = Inr (map Inr (map snd ?ps))"
    by (simp add: memory_scan_def Let_def)
  have "mset (map fst (hash_order D ?m)) = mset (map fst ?m)" using order by simp
  then have "distinct (map fst (hash_order D ?m))"
    using ok mset_eq_imp_distinct_iff unfolding collection_ok_def al_wf_def by blast
  then show "distinct (map fst ?ps)" by (simp add: comp_def)
  show "\<exists>i. k = encode_key D c i \<and> memory_get D s c i = Inr (Some d)" if "(k, d) \<in> set ?ps" for k d
  proof -
    from that obtain bs where p: "(k, bs) \<in> set ?m" "d = projr (from_reader D bs)" by (auto simp: set)
    with read have "from_reader D bs = Inr d" by fastforce
    moreover obtain i where "k = encode_key D c i" using p(1) ok by (auto simp: collection_ok_def)
    moreover have "al_get ?m k = Some bs" using p(1) ok by (simp add: collection_ok_def al_wf_get_iff)
    ultimately show ?thesis using memory_get_Some by blast
  qed
  show "(encode_key D c i, d) \<in> set ?ps" if get: "memory_get D s c i = Inr (Some d)" for i d
  proof -
    obtain bs where "al_get ?m (encode_key D c i) = Some bs" "from_reader D bs = Inr d"
      using get memory_get_Some by blast
    then have "(encode_key D c i, bs) \<in> set ?m" "d = projr (from_reader D bs)"
      using ok by (simp_all add: collection_ok_def al_wf_get_iff)
    then show ?thesis using set by force
  qed
qed

lemma memory_scan_set:
  assumes "memory_inv D s"
  shows "\<exists>ds. memory_scan D s c = Inr (map Inr ds) \<and> set ds = {d. \<exists>i. memory_get D s c i = Inr (Some d)}"
proof -
  obtain ps where "memory_scan D s c = Inr (map Inr (map snd ps))" "distinct (map fst ps)"
    "\<And>k d. (k, d) \<in> set ps \<Longrightarrow> \<exists>i. k = encode_key D c i \<and> memory_get D s c i = Inr (Some d)"
    "\<And>i d. memory_get D s c i = Inr (Some d) \<Longrightarrow> (encode_key D c i, d) \<in> set ps"
    by (rule memory_scan_rows [OF assms, of c]) (rule that)
  then show ?thesis by (intro exI [of _ "map snd ps"]) force
qed

interpretation mem: storage_laws "memory_engine D" "memory_inv D" "\<lambda>c. True" "document_id_to_string D"
  for D
proof (unfold_locales, simp_all only: memory_engine_simps)
  fix s c c' i i' d r q e b s'
  assume inv: "memory_inv D s"
  show "\<exists>m. memory_get D s c i = Inr m" by (rule memory_get_ok [OF inv])
  show "\<exists>ds. memory_scan D s c = Inr (map Inr ds) \<and> set ds = {d. \<exists>i. memory_get D s c i = Inr (Some d)}"
    by (rule memory_scan_set [OF inv])
  show "memory_inv D s'" if "memory_put D s c i d = (r, s')"
    using memory_put_result [OF that] inv memory_inv_coll [OF inv, of c]
    by (auto simp: memory_inv_def collection_ok_put split: if_splits)
  show "memory_get D s' c' i' = (if c' = c \<and> document_id_to_string D i' = document_id_to_string D i
      then Inr (Some d) else memory_get D s c' i')" if "memory_put D s c i d = (Inr (), s')"
    using memory_put_result [OF that] inv
    by (auto simp: memory_get_unwrap memory_inv_def codec_ok_def)
  show "memory_get D s' c' i' = memory_get D s c' i'" if "memory_put D s c i d = (Inl e, s')"
    using memory_put_result [OF that] by (auto simp: memory_get_unwrap)
  show "memory_inv D s'" if "memory_delete D s c i = (q, s')"
    using that inv by (auto simp: memory_delete_def memory_inv_def Let_def collection_ok_del
        split: option.splits if_splits)
  show "memory_get D s' c' i' = (if c' = c \<and> document_id_to_string D i' = document_id_to_string D i
      then Inr None else memory_get D s c' i')" if "memory_delete D s c i = (Inr b, s')"
    using memory_delete_result(2) [OF that, of c'] memory_inv_coll [OF inv, of c]
    by (cases "c' = c") (simp_all add: memory_get_unwrap al_get_del collection_ok_def)
  show "b = (memory_get D s c i \<noteq> Inr None)" if "memory_delete D s c i = (Inr b, s')"
    using that memory_get_None [of D s c i]
    by (auto simp: memory_delete_def Let_def split: option.splits)
  show "memory_get D s' c' i' = memory_get D s c' i'" if "memory_delete D s c i = (Inl e, s')"
    using that by (auto simp: memory_delete_def Let_def split: option.splits)
  show "memory_get D s c i = memory_get D s c i'" if "document_id_to_string D i = document_id_to_string D i'"
    using that by (simp add: memory_get_unwrap encode_key_def)
qed

interpretation mem_scans: storage_scans "memory_engine D" "memory_inv D" "\<lambda>c. True" "document_id_to_string D"
  for D
proof (unfold_locales, simp_all only: memory_engine_simps)
  fix s c ds
  assume inv: "memory_inv D s" and scan: "memory_scan D s c = Inr (map Inr ds)"
  obtain ps where ps: "memory_scan D s c = Inr (map Inr (map snd ps))" "distinct (map fst ps)"
    "\<And>k d. (k, d) \<in> set ps \<Longrightarrow> \<exists>i. k = encode_key D c i \<and> memory_get D s c i = Inr (Some d)"
    "\<And>i d. memory_get D s c i = Inr (Some d) \<Longrightarrow> (encode_key D c i, d) \<in> set ps"
    by (rule memory_scan_rows [OF inv, of c]) (rule that)
  have "ds = map snd ps" using scan ps(1) by (simp add: inj_map_eq_map del: map_map)
  with scanned_onceI [of ps "encode_key D c", OF ps(2-4)] show "scanned_once (memory_get D s c) (document_id_to_string D) ds"
    by simp
qed

section \<open>Properties\<close>

text \<open>
  The memory back end is a map: on every state reached from the empty one by puts and deletes
  (\<open>memory_inv\<close>), a successful \<open>put\<close> is read back by \<open>get\<close>, a \<open>delete\<close> makes the document absent and
  says whether it was there, and no operation changes what \<open>get\<close> finds under another collection or
  identifier. The codec reads what it wrote.
\<close>

theorem memory_storage_is_a_map:
  assumes "memory_inv D s"
  shows "(case memory_put D s c i d of (r, s') \<Rightarrow> memory_inv D s' \<and>
      (r = Inr () \<longrightarrow> memory_get D s' c i = Inr (Some d)) \<and>
      (\<forall>c' i'. c' \<noteq> c \<or> document_id_to_string D i' \<noteq> document_id_to_string D i \<longrightarrow>
        memory_get D s' c' i' = memory_get D s c' i')) \<and>
    (case memory_delete D s c i of (r, s') \<Rightarrow> memory_inv D s' \<and>
      r = Inr (memory_get D s c i \<noteq> Inr None) \<and> memory_get D s' c i = Inr None \<and>
      (\<forall>c' i'. c' \<noteq> c \<or> document_id_to_string D i' \<noteq> document_id_to_string D i \<longrightarrow>
        memory_get D s' c' i' = memory_get D s c' i'))"
proof -
  obtain r s1 where put: "memory_put D s c i d = (r, s1)" by fastforce
  obtain b s2 where del: "memory_delete D s c i = (Inr b, s2)"
    by (cases "al_get s c") (auto simp: memory_delete_def Let_def)
  have "memory_get D s1 c' i' = memory_get D s c' i'"
    if "c' \<noteq> c \<or> document_id_to_string D i' \<noteq> document_id_to_string D i" for c' i'
    using that put mem.put_get [OF assms, where c = c and c' = c' and i = i and i' = i']
      mem.put_err [OF assms, where c = c and c' = c' and i = i and i' = i']
    by (cases r) auto
  then show ?thesis
    using put del mem.put_inv [OF assms] mem.put_get [OF assms, where c = c and c' = c and i = i and i' = i]
      mem.delete_inv [OF assms] mem.delete_get [OF assms] mem.delete_flag [OF assms]
    by (simp add: memory_engine_simps)
qed

theorem memory_storage_is_a_map_witness:
  "memory_get (sample_deps [[(''a'', Null)]])
     (snd (memory_put (sample_deps [[(''a'', Null)]]) memory_new ''c'' (String ''x'') [(''a'', Null)]))
     ''c'' (String ''x'') = Inr (Some [(''a'', Null)])"
proof -
  let ?D = "sample_deps [[(''a'', Null)]]"
  have "memory_inv ?D memory_new" by (rule memory_inv_new) simp_all
  moreover have "fst (memory_put ?D memory_new ''c'' (String ''x'') [(''a'', Null)]) = Inr ()"
    by (simp add: memory_put_def table_writer_def Let_def)
  ultimately show ?thesis
    using memory_storage_is_a_map [of ?D memory_new "''c''" "String ''x''" "[(''a'', Null)]"]
    by (simp add: case_prod_beta)
qed

text \<open>
  \<open>scan\<close> yields exactly the documents that \<open>get\<close> finds in that collection, all decoded.
\<close>

theorem memory_scan_is_complete:
  assumes "memory_inv D s"
  shows "\<exists>ds. memory_scan D s c = Inr (map Inr ds) \<and>
    set ds = {d. \<exists>i. memory_get D s c i = Inr (Some d)}"
  using mem.scan_get [OF assms] by simp

theorem memory_scan_is_complete_witness:
  "memory_scan (sample_deps []) memory_new ''c'' = Inr []"
proof -
  have "memory_inv (sample_deps []) memory_new" by (rule memory_inv_new) simp_all
  from memory_scan_is_complete [OF this, of "''c''"] show ?thesis
    by (auto simp: memory_get_def memory_new_def)
qed

end
