(* ===== verification/Rango_Degrading_Storage.thy ===== *)
theory Rango_Degrading_Storage
  imports Rango_Memory_Storage Rango_Redb_Storage
begin

text \<open>
  The wrapper that turns a back end read-only when the disk fills up
  (\<open>storage/src/degrading.rs\<close>). Every write first counts itself; every \<open>check_interval\<close>-th one asks
  the operating system for the free space, a stream of answers here, and enters or leaves the
  degraded state; a degraded wrapper rejects the write before the inner back end sees it. The
  wrapper keeps the storage laws of any inner back end.
\<close>

record 's degrading_storage =
  dg_inner :: 's
  dg_min_free_bytes :: u64
  dg_degraded :: bool
  dg_last_available :: u64
  dg_write_counter :: u64
  dg_check_interval :: u64
  dg_space_checker :: "nat \<Rightarrow> u64 result"
  dg_asked :: nat

definition space_check :: "'s degrading_storage \<Rightarrow> u64 result \<times> 's degrading_storage" where
  "space_check s = (dg_space_checker s (dg_asked s), s\<lparr>dg_asked := Suc (dg_asked s)\<rparr>)"

definition degrading_new ::
  "'s \<Rightarrow> (nat \<Rightarrow> u64 result) \<Rightarrow> u64 \<Rightarrow> 's degrading_storage result" where
  "degrading_new inner checker min_free_bytes =
     try_r (checker 0) (\<lambda>available.
     Inr \<lparr>dg_inner = inner, dg_min_free_bytes = min_free_bytes, dg_degraded = False,
       dg_last_available = available, dg_write_counter = 0, dg_check_interval = 10,
       dg_space_checker = checker, dg_asked = 1\<rparr>)"

definition with_default_threshold :: "'s \<Rightarrow> (nat \<Rightarrow> u64 result) \<Rightarrow> 's degrading_storage result" where
  "with_default_threshold inner checker = degrading_new inner checker (100 * 1024 * 1024)"

definition is_degraded :: "'s degrading_storage \<Rightarrow> bool" where
  "is_degraded s = dg_degraded s"

definition last_available_space :: "'s degrading_storage \<Rightarrow> u64" where
  "last_available_space s = dg_last_available s"

abbreviation degraded_err :: rango_error where
  "degraded_err \<equiv> Storage ''Storage degraded: insufficient disk space''"

definition maybe_check_and_degrade ::
  "'s degrading_storage \<Rightarrow> unit result \<times> 's degrading_storage" where
  "maybe_check_and_degrade s =
     (let s1 = s\<lparr>dg_write_counter := dg_write_counter s + 1\<rparr>;
          should_check = (dg_check_interval s1 \<le> dg_write_counter s1);
          s2 =
            (if should_check then
               case space_check (s1\<lparr>dg_write_counter := 0\<rparr>) of
                 (Inr available, t) \<Rightarrow>
                   let t1 = t\<lparr>dg_last_available := available\<rparr>;
                       was_degraded = dg_degraded t1;
                       now_degraded = (available < dg_min_free_bytes t1)
                   in if now_degraded \<and> \<not> was_degraded then t1\<lparr>dg_degraded := True\<rparr>
                      else if \<not> now_degraded \<and> was_degraded then t1\<lparr>dg_degraded := False\<rparr>
                      else t1
               | (Inl e, t) \<Rightarrow> t\<lparr>dg_degraded := True\<rparr>
             else s1)
      in if dg_degraded s2 then (Inl degraded_err, s2) else (Inr (), s2))"

definition degrading_put :: "'s storage_engine \<Rightarrow> 's degrading_storage \<Rightarrow> collection_name \<Rightarrow>
    document_id \<Rightarrow> doc \<Rightarrow> unit result \<times> 's degrading_storage" where
  "degrading_put E s c i d =
     (case maybe_check_and_degrade s of
        (Inl e, s1) \<Rightarrow> (Inl e, s1)
      | (Inr _, s1) \<Rightarrow>
          (case se_put E (dg_inner s1) c i d of (r, inner) \<Rightarrow> (r, s1\<lparr>dg_inner := inner\<rparr>)))"

definition degrading_delete :: "'s storage_engine \<Rightarrow> 's degrading_storage \<Rightarrow> collection_name \<Rightarrow>
    document_id \<Rightarrow> bool result \<times> 's degrading_storage" where
  "degrading_delete E s c i =
     (case maybe_check_and_degrade s of
        (Inl e, s1) \<Rightarrow> (Inl e, s1)
      | (Inr _, s1) \<Rightarrow>
          (case se_delete E (dg_inner s1) c i of (r, inner) \<Rightarrow> (r, s1\<lparr>dg_inner := inner\<rparr>)))"

definition degrading_engine :: "'s storage_engine \<Rightarrow> 's degrading_storage storage_engine" where
  "degrading_engine E = \<lparr>se_get = (\<lambda>s. se_get E (dg_inner s)), se_put = degrading_put E,
     se_delete = degrading_delete E, se_scan = (\<lambda>s. se_scan E (dg_inner s)),
     se_range = (\<lambda>s. se_range E (dg_inner s))\<rparr>"

section \<open>Lemmas\<close>

lemma maybe_check_inner [simp]:
  "dg_inner (snd (maybe_check_and_degrade s)) = dg_inner s"
  "dg_min_free_bytes (snd (maybe_check_and_degrade s)) = dg_min_free_bytes s"
  "dg_check_interval (snd (maybe_check_and_degrade s)) = dg_check_interval s"
  by (auto simp: maybe_check_and_degrade_def space_check_def Let_def split: sum.splits)

lemma maybe_check_result:
  "fst (maybe_check_and_degrade s) =
     (if dg_degraded (snd (maybe_check_and_degrade s)) then Inl degraded_err else Inr ())"
  by (simp add: maybe_check_and_degrade_def Let_def)

lemma degrading_put_cases:
  assumes "degrading_put E s c i d = (r, s')"
  obtains (rejected) "r = Inl degraded_err" "dg_inner s' = dg_inner s" "dg_degraded s'"
  | (inner) "se_put E (dg_inner s) c i d = (r, dg_inner s')" "\<not> dg_degraded s'"
  using assms maybe_check_result [of s] maybe_check_inner(1) [of s]
  by (cases "maybe_check_and_degrade s") (auto simp: degrading_put_def split: prod.splits if_splits)

lemma degrading_delete_cases:
  assumes "degrading_delete E s c i = (r, s')"
  obtains (rejected) "r = Inl degraded_err" "dg_inner s' = dg_inner s" "dg_degraded s'"
  | (inner) "se_delete E (dg_inner s) c i = (r, dg_inner s')" "\<not> dg_degraded s'"
  using assms maybe_check_result [of s] maybe_check_inner(1) [of s]
  by (cases "maybe_check_and_degrade s") (auto simp: degrading_delete_def split: prod.splits if_splits)

context storage_laws
begin

lemma degrading_laws:
  "storage_laws (degrading_engine E) (\<lambda>s. inv (dg_inner s)) name_ok idtext"
proof (unfold_locales, simp_all only: degrading_engine_def storage_engine.simps)
  fix s :: "'s degrading_storage" and c c' i i' d r q e b s'
  assume inv: "inv (dg_inner s)" and c: "name_ok c"
  show "\<exists>m. se_get E (dg_inner s) c i = Inr m" by (rule get_ok [OF inv c])
  show "\<exists>ds. se_scan E (dg_inner s) c = Inr (map Inr ds) \<and>
      set ds = {d. \<exists>i. se_get E (dg_inner s) c i = Inr (Some d)}" by (rule scan_get [OF inv c])
  show "inv (dg_inner s')" if "degrading_put E s c i d = (r, s')"
    using that by (cases rule: degrading_put_cases) (use inv put_inv [OF inv c] in auto)
  show "se_get E (dg_inner s') c' i' =
      (if c' = c \<and> idtext i' = idtext i then Inr (Some d) else se_get E (dg_inner s) c' i')"
    if "name_ok c'" "degrading_put E s c i d = (Inr (), s')"
    using that(2) by (cases rule: degrading_put_cases) (use put_get [OF inv c that(1)] in auto)
  show "se_get E (dg_inner s') c' i' = se_get E (dg_inner s) c' i'"
    if "name_ok c'" "degrading_put E s c i d = (Inl e, s')"
    using that(2) by (cases rule: degrading_put_cases) (use put_err [OF inv c that(1)] in auto)
  show "inv (dg_inner s')" if "degrading_delete E s c i = (q, s')"
    using that by (cases rule: degrading_delete_cases) (use inv delete_inv [OF inv c] in auto)
  show "se_get E (dg_inner s') c' i' =
      (if c' = c \<and> idtext i' = idtext i then Inr None else se_get E (dg_inner s) c' i')"
    if "name_ok c'" "degrading_delete E s c i = (Inr b, s')"
    using that(2) by (cases rule: degrading_delete_cases) (use delete_get [OF inv c that(1)] in auto)
  show "b = (se_get E (dg_inner s) c i \<noteq> Inr None)" if "degrading_delete E s c i = (Inr b, s')"
    using that by (cases rule: degrading_delete_cases) (use delete_flag [OF inv c] in auto)
  show "se_get E (dg_inner s') c' i' = se_get E (dg_inner s) c' i'"
    if "name_ok c'" "degrading_delete E s c i = (Inl e, s')"
    using that(2) by (cases rule: degrading_delete_cases) (use delete_err [OF inv c that(1)] in auto)
  show "se_get E (dg_inner s) c i = se_get E (dg_inner s) c i'" if "idtext i = idtext i'"
    using get_idtext [OF inv c that] .
qed

end

interpretation degrading_mem: storage_laws "degrading_engine (memory_engine D)"
  "\<lambda>s. memory_inv D (dg_inner s)" "\<lambda>c. True" "document_id_to_string D"
  for D
  by (rule mem.degrading_laws)

interpretation degrading_redb: storage_laws "degrading_engine (redb_engine D api)"
  "\<lambda>s. redb_inv D api dv tv (dg_inner s)" nul_free "document_id_to_string D"
  for D api dv tv
  by (rule redb.degrading_laws)

context storage_scans
begin

lemma degrading_scans:
  "storage_scans (degrading_engine E) (\<lambda>s. inv (dg_inner s)) name_ok idtext"
proof (intro storage_scans.intro degrading_laws storage_scans_axioms.intro)
  show "scanned_once (se_get (degrading_engine E) s c) idtext ds"
    if "inv (dg_inner s)" "name_ok c" "se_scan (degrading_engine E) s c = Inr (map Inr ds)" for s c ds
    using that scan_once by (simp add: degrading_engine_def)
qed

end

interpretation degrading_mem_scans: storage_scans "degrading_engine (memory_engine D)"
  "\<lambda>s. memory_inv D (dg_inner s)" "\<lambda>c. True" "document_id_to_string D"
  for D
  by (rule mem_scans.degrading_scans)

interpretation degrading_redb_scans: storage_scans "degrading_engine (redb_engine D api)"
  "\<lambda>s. redb_inv D api dv tv (dg_inner s)" nul_free "document_id_to_string D"
  for D api dv tv
  by (rule redb_scans.degrading_scans)

section \<open>Properties\<close>

text \<open>
  Degraded mode is read-only and honest: a write is rejected exactly when the wrapper is
  degraded after its check, a rejected write leaves the inner back end untouched, an accepted one
  is the inner back end's, and when the check is due the mode after it is exactly "the space could
  not be determined or is below the threshold".
\<close>

theorem degraded_mode_is_read_only:
  "(case degrading_put E s c i d of (r, s') \<Rightarrow>
     (if is_degraded s' then r = Inl degraded_err \<and> dg_inner s' = dg_inner s
      else (r, dg_inner s') = se_put E (dg_inner s) c i d) \<and>
     (if dg_check_interval s \<le> dg_write_counter s + 1
      then dg_write_counter s' = 0 \<and>
        is_degraded s' = (case dg_space_checker s (dg_asked s) of
          Inl e \<Rightarrow> True | Inr available \<Rightarrow> available < dg_min_free_bytes s)
      else dg_write_counter s' = dg_write_counter s + 1 \<and> is_degraded s' = is_degraded s))"
  by (auto simp: degrading_put_def maybe_check_and_degrade_def space_check_def is_degraded_def Let_def
      split: sum.splits prod.splits if_splits)

text \<open>The writes of the wrapper, each of which counts.\<close>

datatype storage_write = WritePut collection_name document_id doc | WriteDelete collection_name document_id

fun degrading_write :: "'s storage_engine \<Rightarrow> storage_write \<Rightarrow> 's degrading_storage \<Rightarrow> 's degrading_storage" where
  "degrading_write E (WritePut c i d) s = snd (degrading_put E s c i d)"
| "degrading_write E (WriteDelete c i) s = snd (degrading_delete E s c i)"

definition degrading_writes :: "'s storage_engine \<Rightarrow> 's degrading_storage \<Rightarrow> storage_write list \<Rightarrow> 's degrading_storage" where
  "degrading_writes E s ws = fold (degrading_write E) ws s"

lemma degrading_writes_simps [simp]:
  "degrading_writes E s [] = s"
  "degrading_writes E s (w # ws) = degrading_writes E (degrading_write E w s) ws"
  by (simp_all add: degrading_writes_def)

lemma degrading_write_counter:
  "dg_check_interval (degrading_write E w s) = dg_check_interval s \<and>
   (if dg_check_interval s \<le> dg_write_counter s + 1
    then dg_asked (degrading_write E w s) = Suc (dg_asked s)
    else dg_write_counter (degrading_write E w s) = dg_write_counter s + 1 \<and>
      dg_asked (degrading_write E w s) = dg_asked s)"
  by (cases w)
    (auto simp: degrading_put_def degrading_delete_def maybe_check_and_degrade_def space_check_def Let_def
      split: sum.splits prod.splits if_splits)

lemma degrading_asked_mono: "dg_asked s \<le> dg_asked (degrading_writes E s ws)"
proof (induction ws arbitrary: s)
  case (Cons w ws)
  have "dg_asked s \<le> dg_asked (degrading_write E w s)"
    using degrading_write_counter [of E w s] by (auto split: if_splits)
  with Cons [of "degrading_write E w s"] show ?case by simp
qed simp

lemma degrading_check_due:
  "dg_write_counter s < dg_check_interval s \<Longrightarrow> ws \<noteq> [] \<Longrightarrow>
   unat (dg_check_interval s) \<le> unat (dg_write_counter s) + length ws \<Longrightarrow>
   dg_asked s < dg_asked (degrading_writes E s ws)"
proof (induction ws arbitrary: s)
  case (Cons w ws)
  let ?s = "degrading_write E w s"
  show ?case
  proof (cases "dg_check_interval s \<le> dg_write_counter s + 1")
    case True
    with degrading_write_counter [of E w s] degrading_asked_mono [of ?s E ws]
    show ?thesis by simp
  next
    case False
    have step: "dg_write_counter ?s = dg_write_counter s + 1" "dg_asked ?s = dg_asked s"
        "dg_check_interval ?s = dg_check_interval s"
      using degrading_write_counter [of E w s] False by simp_all
    have less: "dg_write_counter ?s < dg_check_interval ?s" using False step by simp
    have suc: "unat (dg_write_counter s + 1) = unat (dg_write_counter s) + 1"
      using unat_plus_1_below [OF Cons.prems(1)] by simp
    moreover have "unat (dg_write_counter s + 1) < unat (dg_check_interval s)"
      using False by (simp add: not_le word_less_nat_alt)
    ultimately have "ws \<noteq> []" "unat (dg_check_interval ?s) \<le> unat (dg_write_counter ?s) + length ws"
      using Cons.prems(3) step by auto
    with Cons.IH [OF less] step show ?thesis by simp
  qed
qed simp

text \<open>
  C36: the check is not skipped for ever: after at most \<open>check_interval\<close> writes, puts and deletes in any
  order, accepted or rejected, the free space has been asked again, so a wrapper whose disk stays full
  turns degraded and one whose disk has space again resumes.
\<close>

theorem degraded_mode_is_rechecked:
  assumes "dg_write_counter s < dg_check_interval s" "length ws = unat (dg_check_interval s)"
  shows "dg_asked s < dg_asked (degrading_writes E s ws)"
proof -
  have "ws \<noteq> []" using assms by (auto simp: word_less_nat_alt)
  then show ?thesis using degrading_check_due [OF assms(1)] assms(2) by simp
qed

theorem degraded_mode_is_rechecked_witness:
  "\<exists>s. degrading_new memory_new (\<lambda>n. Inr 5) 100 = Inr s \<and>
     dg_asked s < dg_asked (degrading_writes (memory_engine (sample_deps [])) s
       (replicate 9 (WriteDelete ''c'' Null) @ [WritePut ''c'' Null []]))"
proof -
  let ?s = "projr (degrading_new memory_new (\<lambda>n. Inr 5) 100)"
  have "dg_write_counter ?s < dg_check_interval ?s" "unat (dg_check_interval ?s) = 10"
    by (simp_all add: degrading_new_def)
  with degraded_mode_is_rechecked [of ?s "replicate 9 (WriteDelete ''c'' Null) @ [WritePut ''c'' Null []]"]
  show ?thesis by (simp add: degrading_new_def)
qed

end
