(* ===== verification/Rango_Ops.thy ===== *)
theory Rango_Ops
  imports Rango_Types
begin

text \<open>
  A method of the source that changes its receiver and may fail is an operation: a function from
  the state to a result and the new state, which an early return keeps as it is at that point. The
  theory holds their sequencing and the lemma by which a property of states that every part of an
  operation keeps is kept by the whole.
\<close>

section \<open>Operations on a state that may fail\<close>

type_synonym ('s, 'a) op = "'s \<Rightarrow> 'a result \<times> 's"

definition bind_op :: "('s, 'a) op \<Rightarrow> ('a \<Rightarrow> ('s, 'b) op) \<Rightarrow> ('s, 'b) op" where
  "bind_op m k s = (case m s of (Inl e, s') \<Rightarrow> (Inl e, s') | (Inr x, s') \<Rightarrow> k x s')"

definition return_op :: "'a \<Rightarrow> ('s, 'a) op" where
  "return_op x s = (Inr x, s)"

definition fail_op :: "rango_error \<Rightarrow> ('s, 'a) op" where
  "fail_op e s = (Inl e, s)"

definition lift_op :: "'a result \<Rightarrow> ('s, 'a) op" where
  "lift_op r s = (r, s)"

definition modify_op :: "('s \<Rightarrow> 's) \<Rightarrow> ('s, unit) op" where
  "modify_op f s = (Inr (), f s)"

definition get_op :: "('s \<Rightarrow> ('s, 'a) op) \<Rightarrow> ('s, 'a) op" where
  "get_op k s = k s s"

lemma bind_op_simps [simp, result_simps]:
  "m s = (Inl e, s') \<Longrightarrow> bind_op m k s = (Inl e, s')"
  "m s = (Inr x, s') \<Longrightarrow> bind_op m k s = k x s'"
  by (simp_all add: bind_op_def)

lemma bind_return_op [simp]: "bind_op (return_op x) k s = k x s"
  by (simp add: return_op_def)

lemma bind_fail_op [simp]: "bind_op (fail_op e) k s = (Inl e, s)"
  by (simp add: fail_op_def)

lemma bind_lift_Inl [simp]: "bind_op (lift_op (Inl e)) k s = (Inl e, s)"
  by (simp add: lift_op_def)

lemma bind_lift_Inr [simp]: "bind_op (lift_op (Inr x)) k s = k x s"
  by (simp add: lift_op_def)

lemma bind_modify_op [simp]: "bind_op (modify_op f) k s = k () (f s)"
  by (simp add: modify_op_def)

lemma bind_get_op [simp]: "bind_op (get_op h) k s = bind_op (h s) k s"
  by (simp add: bind_op_def get_op_def)

lemma bind_op_assoc [simp]: "bind_op (bind_op m f) k s = bind_op m (\<lambda>x. bind_op (f x) k) s"
  by (simp add: bind_op_def split: prod.splits sum.splits)

lemma op_apply [simp]: "return_op x s = (Inr x, s)" "fail_op e s = (Inl e, s)" "lift_op r s = (r, s)"
  "modify_op f s = (Inr (), f s)" "get_op h s = h s s"
  by (simp_all add: return_op_def fail_op_def lift_op_def modify_op_def get_op_def)

lemma bind_op_Inr:
  "bind_op m k s = (Inr y, s'') \<longleftrightarrow> (\<exists>x s'. m s = (Inr x, s') \<and> k x s' = (Inr y, s''))"
  by (auto simp: bind_op_def split: prod.splits sum.splits)

lemma bind_op_split:
  "P (bind_op m k s) \<longleftrightarrow>
     (\<forall>e s'. m s = (Inl e, s') \<longrightarrow> P (Inl e, s')) \<and> (\<forall>x s'. m s = (Inr x, s') \<longrightarrow> P (k x s'))"
  by (auto simp: bind_op_def split: prod.splits sum.splits)

text \<open>A property of states kept by every part is kept by the whole.\<close>

definition preserves :: "('s \<Rightarrow> bool) \<Rightarrow> ('s, 'a) op \<Rightarrow> bool" where
  "preserves P m \<longleftrightarrow> (\<forall>s. P s \<longrightarrow> P (snd (m s)))"

lemma preservesD: "preserves P m \<Longrightarrow> P s \<Longrightarrow> P (snd (m s))"
  by (simp add: preserves_def)

lemma preserves_bind: "preserves P m \<Longrightarrow> (\<And>x. preserves P (k x)) \<Longrightarrow> preserves P (bind_op m k)"
  by (auto simp: preserves_def bind_op_def split: prod.splits sum.splits)

lemma preserves_basic [simp]:
  "preserves P (return_op x)" "preserves P (fail_op e)" "preserves P (lift_op r)"
  by (simp_all add: preserves_def)

lemma preserves_modify: "(\<And>s. P s \<Longrightarrow> P (f s)) \<Longrightarrow> preserves P (modify_op f)"
  by (simp add: preserves_def)

lemma preserves_get: "(\<And>t. preserves P (h t)) \<Longrightarrow> preserves P (get_op h)"
  by (simp add: preserves_def)

lemma preserves_if [simp]:
  "(c \<Longrightarrow> preserves P m) \<Longrightarrow> (\<not> c \<Longrightarrow> preserves P n) \<Longrightarrow> preserves P (if c then m else n)"
  by simp

end
