(* ===== verification/Rango_Oplog.thy ===== *)
theory Rango_Oplog
  imports Rango_Ops
begin

text \<open>
  The interface of operation logs (\<open>oplog/src/lib.rs\<close>): append, read from a sequence number, mark
  applied, the latest number. Two contracts: every log numbers its entries consecutively; a log
  that keeps them also reads back what was appended. \<open>NullOplog\<close> meets the first only.
\<close>

section \<open>The interface\<close>

record 'o oplog_vt =
  op_append :: "oplog_entry \<Rightarrow> ('o, u64) op"
  op_read_since :: "'o \<Rightarrow> u64 \<Rightarrow> nat \<Rightarrow> oplog_entry list result"
  op_mark_applied :: "u64 \<Rightarrow> ('o, unit) op"
  op_latest_seq :: "'o \<Rightarrow> u64 result"

locale oplog_numbers =
  fixes L :: "'o oplog_vt" and inv :: "'o \<Rightarrow> bool"
  assumes append_inv: "inv s \<Longrightarrow> op_append L e s = (r, s') \<Longrightarrow> inv s'"
    and mark_inv: "inv s \<Longrightarrow> op_mark_applied L n s = (u, s') \<Longrightarrow> inv s'"
    and latest_ok: "inv s \<Longrightarrow> \<exists>n. op_latest_seq L s = Inr n"
    and append_latest: "inv s \<Longrightarrow> op_append L e s = (Inr n, s') \<Longrightarrow>
      op_latest_seq L s = Inr (n - 1) \<and> op_latest_seq L s' = Inr n"
    and mark_latest: "inv s \<Longrightarrow> op_mark_applied L n s = (u, s') \<Longrightarrow>
      op_latest_seq L s' = op_latest_seq L s"

locale oplog_keeps = oplog_numbers +
  fixes log_of :: "'o \<Rightarrow> oplog_entry list"
  assumes append_log: "inv s \<Longrightarrow> op_append L e s = (Inr n, s') \<Longrightarrow>
      log_of s' = log_of s @ [e\<lparr>entry_seq := n\<rparr>]"
    and append_err_log: "inv s \<Longrightarrow> op_append L e s = (Inl x, s') \<Longrightarrow> log_of s' = log_of s"
    and mark_log: "inv s \<Longrightarrow> op_mark_applied L n s = (u, s') \<Longrightarrow> log_of s' = log_of s"
    and read_log: "inv s \<Longrightarrow> 0 < k \<Longrightarrow>
      op_read_since L s m k = Inr (take k (filter (\<lambda>e. m \<le> entry_seq e) (log_of s)))"
begin

text \<open>An entry just appended is the last one a long enough read yields.\<close>

lemma append_then_read:
  assumes "inv s" "op_append L e s = (Inr n, s')" "m \<le> n" "length (log_of s') \<le> k"
  shows "\<exists>es. op_read_since L s' m k = Inr (es @ [e\<lparr>entry_seq := n\<rparr>])"
proof -
  have log: "log_of s' = log_of s @ [e\<lparr>entry_seq := n\<rparr>]" by (rule append_log [OF assms(1,2)])
  then have "0 < k" using assms(4) by simp
  have "length (filter (\<lambda>e. m \<le> entry_seq e) (log_of s')) \<le> k"
    using assms(4) length_filter_le [of _ "log_of s'"] by (meson le_trans)
  with read_log [OF append_inv [OF assms(1,2)] \<open>0 < k\<close>, of m] show ?thesis
    using assms(3) by (simp add: log)
qed

end

section \<open>The log that keeps nothing\<close>

record null_oplog =
  null_seq :: u64

definition null_new :: null_oplog where
  "null_new = \<lparr>null_seq = 0\<rparr>"

definition null_append :: "oplog_entry \<Rightarrow> (null_oplog, u64) op" where
  "null_append e s = (let n = null_seq s + 1 in (Inr n, s\<lparr>null_seq := n\<rparr>))"

definition null_read_since :: "null_oplog \<Rightarrow> u64 \<Rightarrow> nat \<Rightarrow> oplog_entry list result" where
  "null_read_since s n limit = Inr []"

definition null_mark_applied :: "u64 \<Rightarrow> (null_oplog, unit) op" where
  "null_mark_applied n s = (Inr (), s)"

definition null_latest_seq :: "null_oplog \<Rightarrow> u64 result" where
  "null_latest_seq s = Inr (null_seq s)"

definition null_oplog_vt :: "null_oplog oplog_vt" where
  "null_oplog_vt = \<lparr>op_append = null_append, op_read_since = null_read_since,
     op_mark_applied = null_mark_applied, op_latest_seq = null_latest_seq\<rparr>"

lemma null_oplog_vt_simps [simp]:
  "op_append null_oplog_vt = null_append" "op_read_since null_oplog_vt = null_read_since"
  "op_mark_applied null_oplog_vt = null_mark_applied" "op_latest_seq null_oplog_vt = null_latest_seq"
  by (simp_all add: null_oplog_vt_def)

interpretation null_log: oplog_numbers null_oplog_vt "\<lambda>s. True"
  by unfold_locales
    (auto simp: null_append_def null_mark_applied_def null_latest_seq_def Let_def)

end
