(* ===== verification/Rango_Crypto.thy ===== *)
theory Rango_Crypto
  imports Rango_Types
begin

text \<open>
  The encryption wrapper of \<open>storage/src/crypto.rs\<close>: \<open>[nonce 12 bytes][ciphertext and tag]\<close>. Key
  derivation and the cipher are the crates' and come in as a record; \<open>cipher_ok\<close> is what AES-GCM
  documents: decryption with the same nonce inverts encryption, and the tag adds sixteen bytes.
  The random nonce of each encryption is an argument.
\<close>

record 'c crypto_api =
  cr_pbkdf2_hmac_sha256 :: "bytes \<Rightarrow> bytes \<Rightarrow> nat \<Rightarrow> bytes"
  cr_new_from_slice :: "bytes \<Rightarrow> 'c"
  cr_encrypt :: "'c \<Rightarrow> bytes \<Rightarrow> bytes \<Rightarrow> bytes"
  cr_decrypt :: "'c \<Rightarrow> bytes \<Rightarrow> bytes \<Rightarrow> string + bytes"

definition from_passphrase :: "'c crypto_api \<Rightarrow> bytes \<Rightarrow> bytes \<Rightarrow> 'c" where
  "from_passphrase A passphrase salt =
     cr_new_from_slice A (cr_pbkdf2_hmac_sha256 A passphrase salt 600000)"

definition crypto_encrypt :: "'c crypto_api \<Rightarrow> 'c \<Rightarrow> bytes \<Rightarrow> bytes \<Rightarrow> bytes" where
  "crypto_encrypt A c nonce plaintext = nonce @ cr_encrypt A c nonce plaintext"

definition crypto_decrypt :: "'c crypto_api \<Rightarrow> 'c \<Rightarrow> bytes \<Rightarrow> bytes result" where
  "crypto_decrypt A c ciphertext =
     (if length ciphertext < 12 then Inl (Storage ''ciphertext too short (missing nonce)'')
      else map_err (\<lambda>e. Storage (''decryption failed: '' @ e))
        (cr_decrypt A c (take 12 ciphertext) (drop 12 ciphertext)))"

definition cipher_ok :: "'c crypto_api \<Rightarrow> bool" where
  "cipher_ok A \<longleftrightarrow> (\<forall>c n p. length n = 12 \<longrightarrow>
     cr_decrypt A c n (cr_encrypt A c n p) = Inr p \<and> length (cr_encrypt A c n p) = length p + 16)"

lemma crypto_round_trip:
  "cipher_ok A \<Longrightarrow> length n = 12 \<Longrightarrow> crypto_decrypt A c (crypto_encrypt A c n p) = Inr p"
  by (simp add: crypto_decrypt_def crypto_encrypt_def cipher_ok_def)

lemma crypto_encrypt_length:
  "cipher_ok A \<Longrightarrow> length n = 12 \<Longrightarrow> length (crypto_encrypt A c n p) = length p + 28"
  by (simp add: crypto_encrypt_def cipher_ok_def)

text \<open>An instance: the identity with a tag of zeros that is checked.\<close>

definition tag_cipher :: "unit crypto_api" where
  "tag_cipher = \<lparr>cr_pbkdf2_hmac_sha256 = (\<lambda>p s n. p), cr_new_from_slice = (\<lambda>k. ()),
     cr_encrypt = (\<lambda>c n p. p @ replicate 16 0),
     cr_decrypt = (\<lambda>c n ct. if length ct < 16 \<or> drop (length ct - 16) ct \<noteq> replicate 16 0
        then Inl ''aead::Error'' else Inr (take (length ct - 16) ct))\<rparr>"

lemma tag_cipher_ok: "cipher_ok tag_cipher"
  by (simp add: cipher_ok_def tag_cipher_def)

end
