(* ===== verification/Rango_File_Oplog.thy ===== *)
theory Rango_File_Oplog
  imports Rango_Oplog Rango_Crypto Rango_Storage
begin

text \<open>
  The file log (\<open>oplog/src/file.rs\<close>): frames \<open>[u32 length][bytes]\<close>, encrypted when a cipher is
  configured, the set of applied numbers in a second file, compaction through a temporary file. The
  state holds both files' bytes. Every file-system call that writes may fail: \<open>fo_faults\<close> gives,
  for each call in turn, an error and the number of bytes that reached the disk before it. Opening
  a file for reading is taken to succeed.
\<close>

record entry_codec =
  ser_entry :: "oplog_entry \<Rightarrow> string + doc"
  de_entry :: "doc \<Rightarrow> string + oplog_entry"
  set_order :: "u64 list \<Rightarrow> u64 list"

record 'c file_oplog =
  fo_file :: bytes
  fo_applied_file :: "bytes option"
  fo_next_seq :: u64
  fo_applied :: "u64 list"
  fo_crypto :: "'c option"
  fo_nonces :: "nat \<Rightarrow> bytes"
  fo_drawn :: nat
  fo_faults :: "nat \<Rightarrow> (string \<times> nat) option"
  fo_calls :: nat

section \<open>File-system calls\<close>

definition fs_call :: "('c file_oplog, unit) op" where
  "fs_call s = (let s1 = s\<lparr>fo_calls := Suc (fo_calls s)\<rparr>
     in case fo_faults s (fo_calls s) of
         Some (e, n) \<Rightarrow> (Inl (Storage e), s1)
       | None \<Rightarrow> (Inr (), s1))"

definition fs_append :: "bytes \<Rightarrow> ('c file_oplog, unit) op" where
  "fs_append bs s = (let s1 = s\<lparr>fo_calls := Suc (fo_calls s)\<rparr>
     in case fo_faults s (fo_calls s) of
         Some (e, n) \<Rightarrow> (Inl (Storage e), s1\<lparr>fo_file := fo_file s @ take n bs\<rparr>)
       | None \<Rightarrow> (Inr (), s1\<lparr>fo_file := fo_file s @ bs\<rparr>))"

definition fs_write_applied :: "bytes \<Rightarrow> ('c file_oplog, unit) op" where
  "fs_write_applied bs s = (let s1 = s\<lparr>fo_calls := Suc (fo_calls s)\<rparr>
     in case fo_faults s (fo_calls s) of
         Some (e, n) \<Rightarrow> (Inl (Storage e), s1\<lparr>fo_applied_file := Some (take n bs)\<rparr>)
       | None \<Rightarrow> (Inr (), s1\<lparr>fo_applied_file := Some bs\<rparr>))"

definition temp_write :: "bytes \<Rightarrow> bytes \<Rightarrow> ('c file_oplog, bytes) op" where
  "temp_write bs tmp = bind_op fs_call (\<lambda>_. return_op (tmp @ bs))"

section \<open>Frames\<close>

definition u32_le :: "u32 \<Rightarrow> bytes" where
  "u32_le w = map (\<lambda>i. ucast (drop_bit (8 * i) w)) [0..<4]"

definition u32_of_le :: "bytes \<Rightarrow> u32" where
  "u32_of_le bs = of_nat (\<Sum>i<4. unat (bs ! i) * 256 ^ i)"

text \<open>\<open>read_u32\<close> and \<open>read_exact\<close> until one of them fails: the complete frames from the front.\<close>

function read_frames :: "bytes \<Rightarrow> bytes list" where
  "read_frames bs =
     (if length bs < 4 then []
      else let len = unat (u32_of_le (take 4 bs)); rest = drop 4 bs
        in if length rest < len then [] else take len rest # read_frames (drop len rest))"
  by pat_completeness auto
termination by (relation "measure length") auto

declare read_frames.simps [simp del]

definition frame :: "bytes \<Rightarrow> bytes" where
  "frame b = u32_le (of_nat (length b)) @ b"

section \<open>Encryption and decoding\<close>

definition seal :: "'c crypto_api \<Rightarrow> bytes \<Rightarrow> ('c file_oplog, bytes) op" where
  "seal A bs s =
     (case fo_crypto s of
        Some c \<Rightarrow> (Inr (crypto_encrypt A c (fo_nonces s (fo_drawn s)) bs), s\<lparr>fo_drawn := Suc (fo_drawn s)\<rparr>)
      | None \<Rightarrow> (Inr bs, s))"

definition unseal :: "'c crypto_api \<Rightarrow> 'c option \<Rightarrow> bytes \<Rightarrow> bytes result" where
  "unseal A crypto buf =
     (case crypto of Some c \<Rightarrow> crypto_decrypt A c buf | None \<Rightarrow> Inr buf)"

definition decode_entry :: "deps \<Rightarrow> entry_codec \<Rightarrow> bytes \<Rightarrow> oplog_entry option" where
  "decode_entry D K plaintext =
     (case from_reader D plaintext of
        Inr d \<Rightarrow> ok_of (de_entry K d)
      | Inl _ \<Rightarrow> None)"

section \<open>Opening\<close>

fun latest_in :: "deps \<Rightarrow> entry_codec \<Rightarrow> 'c crypto_api \<Rightarrow> 'c option \<Rightarrow> bytes list \<Rightarrow> u64 \<Rightarrow> u64 result" where
  "latest_in D K A crypto [] latest = Inr latest"
| "latest_in D K A crypto (buf # frames) latest =
     try_r (unseal A crypto buf) (\<lambda>plaintext.
     case decode_entry D K plaintext of
       Some entry \<Rightarrow> latest_in D K A crypto frames (entry_seq entry)
     | None \<Rightarrow> latest_in D K A crypto frames latest)"

definition read_latest_seq ::
  "deps \<Rightarrow> entry_codec \<Rightarrow> 'c crypto_api \<Rightarrow> 'c option \<Rightarrow> bytes \<Rightarrow> u64 result" where
  "read_latest_seq D K A crypto file = latest_in D K A crypto (read_frames file) 0"

definition read_applied ::
  "deps \<Rightarrow> 'c crypto_api \<Rightarrow> 'c option \<Rightarrow> bytes option \<Rightarrow> u64 list result" where
  "read_applied D A crypto file =
     (case file of
        None \<Rightarrow> Inr []
      | Some buf \<Rightarrow>
          if buf = [] then Inr []
          else try_r (unseal A crypto buf) (\<lambda>plaintext.
            case from_reader D plaintext of
              Inr d \<Rightarrow>
                (case get_as as_array d ''applied'' of
                   Some arr \<Rightarrow> Inr (remdups (List.map_filter as_i64 arr))
                 | None \<Rightarrow> Inr [])
            | Inl _ \<Rightarrow> Inr []))"

definition file_oplog_open :: "deps \<Rightarrow> entry_codec \<Rightarrow> 'c crypto_api \<Rightarrow> 'c option \<Rightarrow>
    bytes option \<Rightarrow> bytes option \<Rightarrow> (nat \<Rightarrow> bytes) \<Rightarrow> (nat \<Rightarrow> (string \<times> nat) option) \<Rightarrow>
    unit result \<times> 'c file_oplog" where
  "file_oplog_open D K A crypto disk applied_disk nonces faults =
     bind_op (if disk = None then fs_call else return_op ()) (\<lambda>_.
     bind_op (get_op (\<lambda>s. lift_op (read_latest_seq D K A crypto (fo_file s)))) (\<lambda>next_seq.
     bind_op (get_op (\<lambda>s. lift_op (read_applied D A crypto (fo_applied_file s)))) (\<lambda>applied.
     modify_op (\<lambda>s. s\<lparr>fo_next_seq := next_seq, fo_applied := applied\<rparr>))))
     \<lparr>fo_file = unwrap_or disk [], fo_applied_file = applied_disk, fo_next_seq = 0, fo_applied = [],
       fo_crypto = crypto, fo_nonces = nonces, fo_drawn = 0, fo_faults = faults, fo_calls = 0\<rparr>"

section \<open>Operations\<close>

definition write_applied :: "deps \<Rightarrow> entry_codec \<Rightarrow> 'c crypto_api \<Rightarrow> ('c file_oplog, unit) op" where
  "write_applied D K A = get_op (\<lambda>s.
     let d = [(''applied'', Array (map Int64 (set_order K (fo_applied s))))]
     in bind_op (lift_op (storage_err (to_writer D d))) (\<lambda>bs.
        bind_op (seal A bs) (\<lambda>bs.
        bind_op fs_call (\<lambda>_.
        bind_op (modify_op (\<lambda>s. s\<lparr>fo_applied_file := Some []\<rparr>)) (\<lambda>_.
        bind_op (fs_write_applied bs) (\<lambda>_. fs_call))))))"

definition file_append :: "deps \<Rightarrow> entry_codec \<Rightarrow> 'c crypto_api \<Rightarrow> oplog_entry \<Rightarrow> ('c file_oplog, u64) op" where
  "file_append D K A entry =
     bind_op (modify_op (\<lambda>s. s\<lparr>fo_next_seq := fo_next_seq s + 1\<rparr>)) (\<lambda>_. get_op (\<lambda>s.
     let entry = entry\<lparr>entry_seq := fo_next_seq s\<rparr>
     in bind_op (lift_op (storage_err (ser_entry K entry))) (\<lambda>d.
        bind_op (lift_op (storage_err (to_writer D d))) (\<lambda>bs.
        bind_op (seal A bs) (\<lambda>bs.
        bind_op fs_call (\<lambda>_.
        bind_op (fs_append (u32_le (of_nat (length bs)))) (\<lambda>_.
        bind_op (fs_append bs) (\<lambda>_.
        bind_op fs_call (\<lambda>_. return_op (entry_seq entry))))))))))"

fun read_entries :: "deps \<Rightarrow> entry_codec \<Rightarrow> 'c crypto_api \<Rightarrow> 'c option \<Rightarrow> u64 \<Rightarrow> nat \<Rightarrow> bytes list \<Rightarrow>
    oplog_entry list \<Rightarrow> oplog_entry list" where
  "read_entries D K A crypto seq limit [] entries = entries"
| "read_entries D K A crypto seq limit (buf # frames) entries =
     (case unseal A crypto buf of
        Inl e \<Rightarrow> read_entries D K A crypto seq limit frames entries
      | Inr plaintext \<Rightarrow>
          (case decode_entry D K plaintext of
             Some entry \<Rightarrow>
               if seq \<le> entry_seq entry then
                 let entries = entries @ [entry]
                 in if limit \<le> length entries then entries
                    else read_entries D K A crypto seq limit frames entries
               else read_entries D K A crypto seq limit frames entries
           | None \<Rightarrow> read_entries D K A crypto seq limit frames entries))"

definition file_read_since ::
  "deps \<Rightarrow> entry_codec \<Rightarrow> 'c crypto_api \<Rightarrow> 'c file_oplog \<Rightarrow> u64 \<Rightarrow> nat \<Rightarrow> oplog_entry list result" where
  "file_read_since D K A s seq limit =
     Inr (read_entries D K A (fo_crypto s) seq limit (read_frames (fo_file s)) [])"

definition file_mark_applied :: "deps \<Rightarrow> entry_codec \<Rightarrow> 'c crypto_api \<Rightarrow> u64 \<Rightarrow> ('c file_oplog, unit) op" where
  "file_mark_applied D K A seq =
     bind_op (modify_op (\<lambda>s. s\<lparr>fo_applied := List.insert seq (fo_applied s)\<rparr>)) (\<lambda>_. write_applied D K A)"

definition file_latest_seq :: "'c file_oplog \<Rightarrow> u64 result" where
  "file_latest_seq s = Inr (fo_next_seq s)"

definition file_oplog_vt :: "deps \<Rightarrow> entry_codec \<Rightarrow> 'c crypto_api \<Rightarrow> 'c file_oplog oplog_vt" where
  "file_oplog_vt D K A = \<lparr>op_append = file_append D K A, op_read_since = file_read_since D K A,
     op_mark_applied = file_mark_applied D K A, op_latest_seq = file_latest_seq\<rparr>"

section \<open>Compaction\<close>

fun compact_loop :: "deps \<Rightarrow> entry_codec \<Rightarrow> 'c crypto_api \<Rightarrow> bytes list \<Rightarrow> bytes \<Rightarrow> u64 \<Rightarrow>
    ('c file_oplog, bytes \<times> u64) op" where
  "compact_loop D K A [] tmp kept s = (Inr (tmp, kept), s)"
| "compact_loop D K A (buf # frames) tmp kept s =
     (let keep = bind_op (temp_write (u32_le (of_nat (length buf))) tmp) (\<lambda>tmp.
            bind_op (temp_write buf tmp) (\<lambda>tmp. compact_loop D K A frames tmp (kept + 1)))
      in case unseal A (fo_crypto s) buf of
          Inl e \<Rightarrow> keep s
        | Inr plaintext \<Rightarrow>
            (case from_reader D plaintext of
               Inr d \<Rightarrow>
                 (case de_entry K d of
                    Inr entry \<Rightarrow>
                      if entry_seq entry \<notin> set (fo_applied s) then keep s
                      else compact_loop D K A frames tmp kept s
                  | Inl _ \<Rightarrow> keep s)
             | Inl _ \<Rightarrow> compact_loop D K A frames tmp kept s))"

definition file_compact :: "deps \<Rightarrow> entry_codec \<Rightarrow> 'c crypto_api \<Rightarrow> ('c file_oplog, u64) op" where
  "file_compact D K A = get_op (\<lambda>s.
     bind_op fs_call (\<lambda>_.
     bind_op (compact_loop D K A (read_frames (fo_file s)) [] 0) (\<lambda>(tmp, kept).
     bind_op fs_call (\<lambda>_.
     bind_op fs_call (\<lambda>_.
     bind_op (modify_op (\<lambda>s. s\<lparr>fo_file := tmp\<rparr>)) (\<lambda>_. return_op kept))))))"

section \<open>Framing lemmas\<close>

lemma length_u32_le [simp]: "length (u32_le w) = 4"
  by (simp add: u32_le_def)

lemma u32_le_bytes:
  "unat (u32_le w ! i) = unat w div 256 ^ i mod 256" if "i < 4"
proof -
  have "unat (u32_le w ! i) = unat (drop_bit (8 * i) w) mod 2 ^ 8"
    using that by (simp add: u32_le_def unsigned_ucast_eq take_bit_eq_mod)
  also have "unat (drop_bit (8 * i) w) = unat w div 2 ^ (8 * i)"
    by (simp only: unat_drop_bit_eq) (simp add: drop_bit_eq_div)
  finally show ?thesis by (simp add: power_mult)
qed

lemma digit_sum: "(\<Sum>i<k. n div b ^ i mod b * b ^ i) = n mod b ^ k" for n b :: nat
proof (induction k)
  case (Suc k)
  have "n mod b ^ Suc k = b ^ k * (n div b ^ k mod b) + n mod b ^ k"
    by (simp add: mult.commute [of b] mod_mult2_eq)
  with Suc show ?case by simp
qed simp

lemma u32_round_trip [simp]: "u32_of_le (u32_le w) = w"
proof -
  have small: "unat w < 256 ^ 4" using unsigned_less [of w, where ?'a = nat] by simp
  have "(\<Sum>i<4. unat (u32_le w ! i) * 256 ^ i) = (\<Sum>i<4. unat w div 256 ^ i mod 256 * 256 ^ i)"
    by (rule sum.cong) (simp_all add: u32_le_bytes)
  then have "(\<Sum>i<4. unat (u32_le w ! i) * 256 ^ i) = unat w"
    using small by (simp only: digit_sum mod_less)
  then show ?thesis by (simp add: u32_of_le_def)
qed

lemma read_frames_Nil [simp]: "read_frames [] = []"
  by (simp add: read_frames.simps)

lemma read_frames_frame:
  assumes "length b < 2 ^ 32"
  shows "read_frames (frame b @ rest) = b # read_frames rest"
proof -
  have "unat (of_nat (length b) :: u32) = length b"
    using assms by (simp add: unat_of_nat)
  then show ?thesis
    by (subst read_frames.simps) (simp add: frame_def Let_def)
qed

definition frames :: "bytes list \<Rightarrow> bytes" where
  "frames bodies = concat (map frame bodies)"

lemma read_frames_frames:
  "(\<And>b. b \<in> set bodies \<Longrightarrow> length b < 2 ^ 32) \<Longrightarrow> read_frames (frames bodies) = bodies"
  by (induction bodies) (simp_all add: frames_def read_frames_frame)

section \<open>The log a file holds\<close>

definition body_entry ::
  "deps \<Rightarrow> entry_codec \<Rightarrow> 'c crypto_api \<Rightarrow> 'c option \<Rightarrow> bytes \<Rightarrow> oplog_entry option" where
  "body_entry D K A crypto b =
     (case unseal A crypto b of Inl e \<Rightarrow> None | Inr p \<Rightarrow> decode_entry D K p)"

definition file_log :: "deps \<Rightarrow> entry_codec \<Rightarrow> 'c crypto_api \<Rightarrow> 'c file_oplog \<Rightarrow> oplog_entry list" where
  "file_log D K A s = List.map_filter (body_entry D K A (fo_crypto s)) (read_frames (fo_file s))"

text \<open>The codecs and the cipher work as documented, and no file-system call fails.\<close>

definition entry_codec_ok :: "deps \<Rightarrow> entry_codec \<Rightarrow> bool" where
  "entry_codec_ok D K \<longleftrightarrow> codec_ok D \<and> (\<forall>e d. ser_entry K e = Inr d \<longrightarrow> de_entry K d = Inr e) \<and>
     (\<forall>d bs. to_writer D d = Inr bs \<longrightarrow> length bs < 2 ^ 31) \<and>
     (\<forall>xs. set (set_order K xs) = set xs)"

definition file_env_ok :: "deps \<Rightarrow> entry_codec \<Rightarrow> 'c crypto_api \<Rightarrow> 'c file_oplog \<Rightarrow> bool" where
  "file_env_ok D K A s \<longleftrightarrow> entry_codec_ok D K \<and> cipher_ok A \<and>
     (\<forall>n. length (fo_nonces s n) = 12) \<and> (\<forall>n. fo_faults s n = None)"

definition body_ok :: "deps \<Rightarrow> entry_codec \<Rightarrow> 'c crypto_api \<Rightarrow> 'c option \<Rightarrow> bytes \<Rightarrow> bool" where
  "body_ok D K A crypto b \<longleftrightarrow> length b < 2 ^ 32 \<and> body_entry D K A crypto b \<noteq> None"

definition file_inv :: "deps \<Rightarrow> entry_codec \<Rightarrow> 'c crypto_api \<Rightarrow> 'c file_oplog \<Rightarrow> bool" where
  "file_inv D K A s \<longleftrightarrow> file_env_ok D K A s \<and>
     (\<exists>bodies. fo_file s = frames bodies \<and> (\<forall>b\<in>set bodies. body_ok D K A (fo_crypto s) b))"

lemma body_okE:
  assumes "body_ok D K A crypto b"
  obtains p d e where "unseal A crypto b = Inr p" "from_reader D p = Inr d" "de_entry K d = Inr e"
proof -
  obtain p where p: "unseal A crypto b = Inr p" "decode_entry D K p \<noteq> None"
    using assms by (auto simp: body_ok_def body_entry_def split: sum.splits)
  then obtain d where d: "from_reader D p = Inr d" "ok_of (de_entry K d) \<noteq> None"
    by (auto simp: decode_entry_def split: sum.splits)
  then obtain e where "de_entry K d = Inr e" by (cases "de_entry K d") auto
  with p d that show ?thesis by blast
qed

text \<open>The parts of the state the environment consists of; no operation changes them.\<close>

definition same_env :: "'c file_oplog \<Rightarrow> 'c file_oplog \<Rightarrow> bool" where
  "same_env s s' \<longleftrightarrow> fo_crypto s' = fo_crypto s \<and> fo_nonces s' = fo_nonces s \<and> fo_faults s' = fo_faults s"

lemma fs_faultless:
  assumes "\<forall>n. fo_faults s n = None"
  shows "fs_call s = (Inr (), s\<lparr>fo_calls := Suc (fo_calls s)\<rparr>)"
    and "fs_append bs s = (Inr (), s\<lparr>fo_calls := Suc (fo_calls s), fo_file := fo_file s @ bs\<rparr>)"
    and "fs_write_applied bs s =
      (Inr (), s\<lparr>fo_calls := Suc (fo_calls s), fo_applied_file := Some bs\<rparr>)"
    and "temp_write bs tmp s = (Inr (tmp @ bs), s\<lparr>fo_calls := Suc (fo_calls s)\<rparr>)"
  using assms by (simp_all add: fs_call_def fs_append_def fs_write_applied_def temp_write_def bind_op_def)

lemma seal_ok:
  assumes "cipher_ok A" "\<forall>n. length (fo_nonces s n) = 12"
  obtains sealed k where "seal A bs s = (Inr sealed, s\<lparr>fo_drawn := k\<rparr>)"
    "unseal A (fo_crypto s) sealed = Inr bs" "length sealed \<le> length bs + 28"
proof (cases "fo_crypto s")
  case None
  then have "seal A bs s = (Inr bs, s\<lparr>fo_drawn := fo_drawn s\<rparr>)" by (simp add: seal_def)
  with None that [of bs "fo_drawn s"] show ?thesis by (simp add: unseal_def)
next
  case (Some c)
  let ?sealed = "crypto_encrypt A c (fo_nonces s (fo_drawn s)) bs"
  have "seal A bs s = (Inr ?sealed, s\<lparr>fo_drawn := Suc (fo_drawn s)\<rparr>)"
    using Some by (simp add: seal_def)
  moreover have "unseal A (fo_crypto s) ?sealed = Inr bs" "length ?sealed = length bs + 28"
    using assms Some by (simp_all add: unseal_def crypto_round_trip crypto_encrypt_length)
  ultimately show ?thesis using that by simp
qed

lemma file_append_cases:
  assumes env: "file_env_ok D K A s"
  obtains (err) x where
      "file_append D K A e s = (Inl x, s\<lparr>fo_next_seq := fo_next_seq s + 1\<rparr>)"
  | (ok) b s' where "file_append D K A e s = (Inr (fo_next_seq s + 1), s')"
      "fo_file s' = fo_file s @ frame b" "length b < 2 ^ 32"
      "body_entry D K A (fo_crypto s) b = Some (e\<lparr>entry_seq := fo_next_seq s + 1\<rparr>)"
      "fo_next_seq s' = fo_next_seq s + 1" "same_env s s'"
      "fo_applied s' = fo_applied s" "fo_applied_file s' = fo_applied_file s"
proof -
  let ?s1 = "s\<lparr>fo_next_seq := fo_next_seq s + 1\<rparr>"
  let ?e = "e\<lparr>entry_seq := fo_next_seq s + 1\<rparr>"
  have codec: "codec_ok D" "\<And>e d. ser_entry K e = Inr d \<Longrightarrow> de_entry K d = Inr e"
      "\<And>d bs. to_writer D d = Inr bs \<Longrightarrow> length bs < 2 ^ 31"
    using env by (auto simp: file_env_ok_def entry_codec_ok_def)
  show ?thesis
  proof (cases "\<exists>d bs. ser_entry K ?e = Inr d \<and> to_writer D d = Inr bs")
    case False
    then have "\<exists>x. file_append D K A e s = (Inl x, ?s1)"
      by (cases "ser_entry K ?e"; cases "to_writer D (projr (ser_entry K ?e))")
        (auto simp: file_append_def Let_def)
    with err show ?thesis by blast
  next
    case True
    then obtain d bs where w: "ser_entry K ?e = Inr d" "to_writer D d = Inr bs" by blast
    obtain b k where sealed: "seal A bs ?s1 = (Inr b, ?s1\<lparr>fo_drawn := k\<rparr>)"
        "unseal A (fo_crypto ?s1) b = Inr bs" "length b \<le> length bs + 28"
      using seal_ok [of A ?s1 bs] env by (auto simp: file_env_ok_def)
    have "length b < 2 ^ 32" using codec(3) [OF w(2)] sealed(3) by simp
    moreover have "body_entry D K A (fo_crypto s) b = Some ?e"
      using sealed(2) codec_okD [OF codec(1) w(2)] codec(2) [OF w(1)]
      by (simp add: body_entry_def decode_entry_def)
    moreover have "\<forall>n. fo_faults s n = None" using env by (simp add: file_env_ok_def)
    ultimately show ?thesis
      using w sealed(1)
      by (intro ok [of "snd (file_append D K A e s)" b])
        (simp_all add: file_append_def Let_def fs_faultless frame_def same_env_def)
  qed
qed

lemma file_env_same: "file_env_ok D K A s \<Longrightarrow> same_env s s' \<Longrightarrow> file_env_ok D K A s'"
  by (simp add: file_env_ok_def same_env_def)

lemma file_mark_cases:
  assumes env: "file_env_ok D K A s" and mark: "file_mark_applied D K A n s = (u, s')"
  shows "fo_file s' = fo_file s \<and> fo_next_seq s' = fo_next_seq s \<and> same_env s s' \<and>
    fo_applied s' = List.insert n (fo_applied s)"
proof -
  let ?s1 = "s\<lparr>fo_applied := List.insert n (fo_applied s)\<rparr>"
  let ?d = "[(''applied'', Array (map Int64 (set_order K (List.insert n (fo_applied s)))))]"
  have faultless: "\<forall>n. fo_faults s n = None" using env by (simp add: file_env_ok_def)
  show ?thesis
  proof (cases "to_writer D ?d")
    case (Inl x)
    with mark show ?thesis by (auto simp: file_mark_applied_def write_applied_def Let_def same_env_def)
  next
    case (Inr bs)
    have "cipher_ok A" "\<forall>n. length (fo_nonces ?s1 n) = 12" using env by (simp_all add: file_env_ok_def)
    then obtain b k where "seal A bs ?s1 = (Inr b, ?s1\<lparr>fo_drawn := k\<rparr>)" by (rule seal_ok)
    with mark Inr faultless show ?thesis
      by (auto simp: file_mark_applied_def write_applied_def Let_def fs_faultless same_env_def)
  qed
qed

lemma file_log_frames:
  assumes "fo_file s = frames bodies" "\<forall>b\<in>set bodies. body_ok D K A (fo_crypto s) b"
  shows "file_log D K A s = map (the \<circ> body_entry D K A (fo_crypto s)) bodies"
proof -
  have "read_frames (fo_file s) = bodies"
    unfolding assms(1) using assms(2) by (intro read_frames_frames) (simp add: body_ok_def)
  then have "file_log D K A s = List.map_filter (body_entry D K A (fo_crypto s)) bodies"
    by (simp add: file_log_def)
  also have "\<dots> = map (the \<circ> body_entry D K A (fo_crypto s)) bodies"
    using assms(2) by (induction bodies) (auto simp: map_filter_simps body_ok_def)
  finally show ?thesis .
qed

lemma read_entries_ok:
  assumes "\<forall>b\<in>set bodies. body_ok D K A crypto b" "length acc < limit"
  shows "read_entries D K A crypto m limit bodies acc =
    acc @ take (limit - length acc)
      (filter (\<lambda>e. m \<le> entry_seq e) (map (the \<circ> body_entry D K A crypto) bodies))"
  using assms
proof (induction bodies arbitrary: acc)
  case (Cons b bodies)
  then obtain p e where p: "unseal A crypto b = Inr p" "decode_entry D K p = Some e"
    by (auto simp: body_ok_def body_entry_def split: sum.splits)
  then have e: "body_entry D K A crypto b = Some e" by (simp add: body_entry_def)
  show ?case
  proof (cases "m \<le> entry_seq e \<and> Suc (length acc) < limit")
    case True
    then have "limit - length acc = Suc (limit - Suc (length acc))" by (auto simp: Suc_diff_Suc)
    with True Cons.IH [of "acc @ [e]"] Cons.prems p e show ?thesis
      by (simp add: Let_def)
  next
    case False
    with Cons.prems p e Cons.IH [of acc] show ?thesis
      by (cases "m \<le> entry_seq e") (auto simp: Let_def take_Suc le_Suc_eq not_less)
  qed
qed simp

section \<open>The contracts\<close>

lemma file_oplog_vt_simps [simp]:
  "op_append (file_oplog_vt D K A) = file_append D K A"
  "op_read_since (file_oplog_vt D K A) = file_read_since D K A"
  "op_mark_applied (file_oplog_vt D K A) = file_mark_applied D K A"
  "op_latest_seq (file_oplog_vt D K A) = file_latest_seq"
  by (simp_all add: file_oplog_vt_def)

lemma file_inv_env: "file_inv D K A s \<Longrightarrow> file_env_ok D K A s"
  by (simp add: file_inv_def)

lemma file_inv_same:
  "file_inv D K A s \<Longrightarrow> fo_file s' = fo_file s \<Longrightarrow> same_env s s' \<Longrightarrow>
     file_inv D K A s' \<and> file_log D K A s' = file_log D K A s"
  using file_env_same [of D K A s s']
  by (simp add: file_inv_def file_log_def same_env_def)

lemma frames_snoc: "frames (bodies @ [b]) = frames bodies @ frame b"
  by (simp add: frames_def)

lemma file_append_ok:
  assumes inv: "file_inv D K A s" and app: "file_append D K A e s = (Inr n, s')"
  shows "n = fo_next_seq s + 1 \<and> fo_next_seq s' = n \<and> file_inv D K A s' \<and> same_env s s' \<and>
    file_log D K A s' = file_log D K A s @ [e\<lparr>entry_seq := n\<rparr>] \<and>
    fo_applied s' = fo_applied s \<and> fo_applied_file s' = fo_applied_file s"
proof -
  obtain bodies where bodies: "fo_file s = frames bodies" "\<forall>b\<in>set bodies. body_ok D K A (fo_crypto s) b"
    using inv by (auto simp: file_inv_def)
  from file_inv_env [OF inv] show ?thesis
  proof (cases rule: file_append_cases [where e = e])
    case (ok b s'')
    have same: "s'' = s'" "n = fo_next_seq s + 1" using ok(1) app by simp_all
    have fl: "fo_file s' = frames (bodies @ [b])" using ok(2) bodies(1) same by (simp add: frames_snoc)
    have crypto: "fo_crypto s' = fo_crypto s" using ok(6) same by (simp add: same_env_def)
    have all: "\<forall>x\<in>set (bodies @ [b]). body_ok D K A (fo_crypto s') x"
      using bodies(2) ok(3,4) crypto by (simp add: body_ok_def)
    have "file_inv D K A s'"
      using fl all file_env_same [OF file_inv_env [OF inv]] ok(6) same
      unfolding file_inv_def by blast
    moreover have "file_log D K A s' = file_log D K A s @ [e\<lparr>entry_seq := n\<rparr>]"
      using file_log_frames [of s' "bodies @ [b]" D K A] file_log_frames [of s bodies D K A]
        fl all bodies ok(4) crypto same(2) by simp
    ultimately show ?thesis using ok same by simp
  qed (use app in simp)
qed

interpretation file_log: oplog_keeps "file_oplog_vt D K A" "file_inv D K A" "file_log D K A"
  for D K A
proof (unfold_locales, simp_all only: file_oplog_vt_simps)
  fix s e r s' n u m k x
  assume inv: "file_inv D K A s"
  have err: "same_env s s' \<and> fo_file s' = fo_file s" if "file_append D K A e s = (Inl x, s')" for x
    using file_inv_env [OF inv] that
    by (cases rule: file_append_cases [where e = e]) (auto simp: same_env_def)
  show "file_inv D K A s'" if "file_append D K A e s = (r, s')"
    using that file_append_ok [OF inv, of e _ s'] err file_inv_same [OF inv, of s'] by (cases r) auto
  show "file_log D K A s' = file_log D K A s" if "file_append D K A e s = (Inl x, s')"
    using err [OF that] file_inv_same [OF inv, of s'] by simp
  show "file_log D K A s' = file_log D K A s @ [e\<lparr>entry_seq := n\<rparr>]" if "file_append D K A e s = (Inr n, s')"
    using file_append_ok [OF inv that] by simp
  show "file_latest_seq s = Inr (n - 1) \<and> file_latest_seq s' = Inr n"
    if "file_append D K A e s = (Inr n, s')"
    using file_append_ok [OF inv that] by (simp add: file_latest_seq_def)
  show "\<exists>n. file_latest_seq s = Inr n" by (simp add: file_latest_seq_def)
  show "file_inv D K A s'" "file_log D K A s' = file_log D K A s" "file_latest_seq s' = file_latest_seq s"
    if "file_mark_applied D K A n s = (u, s')"
    using file_mark_cases [OF file_inv_env [OF inv] that] file_inv_same [OF inv, of s']
    by (simp_all add: file_latest_seq_def)
  show "file_read_since D K A s m k = Inr (take k (filter (\<lambda>e. m \<le> entry_seq e) (file_log D K A s)))"
    if "0 < k"
  proof -
    obtain bodies where b: "fo_file s = frames bodies" "\<forall>b\<in>set bodies. body_ok D K A (fo_crypto s) b"
      using inv by (auto simp: file_inv_def)
    then have "read_frames (fo_file s) = bodies"
      using read_frames_frames [of bodies] by (simp add: body_ok_def)
    with b that read_entries_ok [OF b(2), of "[]" k m] show ?thesis
      by (simp add: file_read_since_def file_log_frames)
  qed
qed

section \<open>Opening and compacting\<close>

lemma latest_in_ok:
  "\<forall>b\<in>set bodies. body_ok D K A crypto b \<Longrightarrow>
   latest_in D K A crypto bodies l =
     Inr (last (l # map (\<lambda>b. entry_seq (the (body_entry D K A crypto b))) bodies))"
proof (induction bodies arbitrary: l)
  case (Cons b bodies)
  then obtain p e where "unseal A crypto b = Inr p" "decode_entry D K p = Some e"
    by (auto simp: body_ok_def body_entry_def split: sum.splits)
  with Cons show ?case by (simp add: body_entry_def)
qed simp

lemma file_open_ok:
  assumes inv: "file_inv D K A s" and applied: "read_applied D A (fo_crypto s) (fo_applied_file s) = Inr xs"
    and env: "\<forall>n. length (nonces n) = 12" "\<forall>n. faults n = None"
  shows "\<exists>t. file_oplog_open D K A (fo_crypto s) (Some (fo_file s)) (fo_applied_file s) nonces faults =
      (Inr (), t) \<and> fo_next_seq t = last (0 # map entry_seq (file_log D K A s)) \<and>
      file_log D K A t = file_log D K A s \<and> fo_applied t = xs \<and> file_inv D K A t \<and>
      fo_file t = fo_file s \<and> fo_applied_file t = fo_applied_file s \<and> fo_crypto t = fo_crypto s"
proof -
  obtain bodies where b: "fo_file s = frames bodies" "\<forall>b\<in>set bodies. body_ok D K A (fo_crypto s) b"
    using inv by (auto simp: file_inv_def)
  then have r: "read_frames (fo_file s) = bodies"
    using read_frames_frames [of bodies] by (simp add: body_ok_def)
  have l: "read_latest_seq D K A (fo_crypto s) (fo_file s) =
      Inr (last (0 # map entry_seq (file_log D K A s)))"
    using latest_in_ok [OF b(2), of 0] by (simp add: read_latest_seq_def r file_log_frames [OF b] comp_def)
  have "file_env_ok D K A s" using inv by (rule file_inv_env)
  then show ?thesis
    using l applied env b
    by (auto simp: file_oplog_open_def file_log_def file_inv_def file_env_ok_def)
qed

definition unapplied :: "'c file_oplog \<Rightarrow> oplog_entry \<Rightarrow> bool" where
  "unapplied s e \<longleftrightarrow> entry_seq e \<notin> set (fo_applied s)"

definition kept_bodies ::
  "deps \<Rightarrow> entry_codec \<Rightarrow> 'c crypto_api \<Rightarrow> 'c file_oplog \<Rightarrow> bytes list \<Rightarrow> bytes list" where
  "kept_bodies D K A s bodies = filter (\<lambda>b. unapplied s (the (body_entry D K A (fo_crypto s) b))) bodies"

lemma compact_loop_ok:
  assumes "\<forall>n. fo_faults s n = None" "\<forall>b\<in>set bodies. body_ok D K A (fo_crypto s) b"
  shows "\<exists>k. compact_loop D K A bodies tmp kept s =
    (Inr (tmp @ frames (kept_bodies D K A s bodies), kept + of_nat (length (kept_bodies D K A s bodies))),
     s\<lparr>fo_calls := k\<rparr>)"
  using assms
proof (induction bodies arbitrary: tmp kept s)
  case Nil
  show ?case by (intro exI [of _ "fo_calls s"]) (simp add: kept_bodies_def frames_def)
next
  case (Cons b bodies)
  obtain p d e where p: "unseal A (fo_crypto s) b = Inr p" "from_reader D p = Inr d" "de_entry K d = Inr e"
    using Cons.prems(2) by (meson body_okE list.set_intros(1))
  then have e: "body_entry D K A (fo_crypto s) b = Some e"
    by (simp add: body_entry_def decode_entry_def)
  show ?case
  proof (cases "unapplied s e")
    case False
    with Cons.IH [of s tmp kept] Cons.prems p e show ?thesis
      by (simp add: unapplied_def kept_bodies_def)
  next
    case True
    let ?s = "s\<lparr>fo_calls := Suc (Suc (fo_calls s))\<rparr>"
    obtain k where "compact_loop D K A bodies (tmp @ frame b) (kept + 1) ?s =
      (Inr ((tmp @ frame b) @ frames (kept_bodies D K A ?s bodies),
        kept + 1 + of_nat (length (kept_bodies D K A ?s bodies))), ?s\<lparr>fo_calls := k\<rparr>)"
      using Cons.IH [of ?s "tmp @ frame b" "kept + 1"] Cons.prems by auto
    moreover have "kept_bodies D K A ?s bodies = kept_bodies D K A s bodies"
      by (simp add: kept_bodies_def unapplied_def)
    ultimately show ?thesis
      using True Cons.prems p e
      by (auto simp: unapplied_def fs_faultless kept_bodies_def frames_def frame_def add.assoc)
  qed
qed

lemma file_compact_ok:
  assumes inv: "file_inv D K A s"
  shows "\<exists>s'. file_compact D K A s = (Inr (of_nat (length (filter (unapplied s) (file_log D K A s)))), s') \<and>
    file_inv D K A s' \<and> file_log D K A s' = filter (unapplied s) (file_log D K A s) \<and>
    same_env s s' \<and> fo_next_seq s' = fo_next_seq s \<and> fo_applied s' = fo_applied s \<and>
    fo_applied_file s' = fo_applied_file s"
proof -
  obtain bodies where b: "fo_file s = frames bodies" "\<forall>b\<in>set bodies. body_ok D K A (fo_crypto s) b"
    using inv by (auto simp: file_inv_def)
  then have r: "read_frames (fo_file s) = bodies"
    using read_frames_frames [of bodies] by (simp add: body_ok_def)
  have faultless: "\<forall>n. fo_faults s n = None" using inv by (simp add: file_inv_def file_env_ok_def)
  let ?s = "s\<lparr>fo_calls := Suc (fo_calls s)\<rparr>"
  let ?kept = "kept_bodies D K A s bodies"
  obtain k where loop: "compact_loop D K A bodies [] 0 ?s =
      (Inr (frames ?kept, of_nat (length ?kept)), ?s\<lparr>fo_calls := k\<rparr>)"
    using compact_loop_ok [of ?s bodies D K A "[]" 0] faultless b(2)
    by (auto simp: kept_bodies_def unapplied_def)
  have kept: "map (the \<circ> body_entry D K A (fo_crypto s)) ?kept = filter (unapplied s) (file_log D K A s)"
    by (simp add: file_log_frames [OF b] kept_bodies_def filter_map comp_def)
  then have len: "length ?kept = length (filter (unapplied s) (file_log D K A s))"
    by (metis length_map)
  obtain s' where c: "file_compact D K A s = (Inr (of_nat (length ?kept)), s')"
      "fo_file s' = frames ?kept" "same_env s s'" "fo_next_seq s' = fo_next_seq s"
      "fo_applied s' = fo_applied s" "fo_applied_file s' = fo_applied_file s"
    using loop faultless by (simp add: file_compact_def r fs_faultless same_env_def)
  have ok: "\<forall>b\<in>set ?kept. body_ok D K A (fo_crypto s') b"
    using b(2) c(3) by (simp add: kept_bodies_def same_env_def)
  have "file_log D K A s' = filter (unapplied s) (file_log D K A s)"
    using file_log_frames [OF c(2) ok] kept c(3) by (simp add: same_env_def)
  moreover have "file_inv D K A s'"
    using ok c(2) file_env_same [OF file_inv_env [OF inv] c(3)] unfolding file_inv_def by blast
  ultimately show ?thesis using c len by simp
qed

section \<open>A closed instance\<close>

definition table_entry_codec :: "oplog_entry list \<Rightarrow> entry_codec" where
  "table_entry_codec es = \<lparr>
     ser_entry = (\<lambda>e. case index_of es e of
        Some i \<Rightarrow> if i < 256 then Inr [(''i'', Int32 (of_nat i))] else Inl ''table full''
      | None \<Rightarrow> Inl ''unknown entry''),
     de_entry = (\<lambda>d. case get_as as_i32 d ''i'' of
        Some i \<Rightarrow> if unat i < length es then Inr (es ! unat i) else Inl ''unknown position''
      | None \<Rightarrow> Inl ''missing field''),
     set_order = (\<lambda>xs. xs)\<rparr>"

lemma table_entry_codec_ok: "entry_codec_ok (sample_deps ds) (table_entry_codec es)"
  by (auto simp: entry_codec_ok_def table_entry_codec_def table_writer_def get_as_def unat_of_nat
      dest!: index_of_Some split: option.splits if_splits)

definition sample_mutation :: mutation where
  "sample_mutation = \<lparr>mut_op = Insert, mut_collection = ''c'', mut_doc_id = String ''x'',
     mut_patch = Some [(''_id'', String ''x'')], mut_seq = 1, mut_timestamp = 0, mut_rev = ''1-0-n'',
     mut_write_id = ''w'',
     mut_metadata = \<lparr>md_id = String ''x'', md_namespace = ''c'', md_tenant_id = ''t'', md_type = ''state'',
       md_rev = ''1-0-n'', md_created_at = 0, md_updated_at = 0, md_source = ''n'', md_actor = ''n'',
       md_lineage = ''x'', md_schema_version = 1, md_trust_score = Fin 1, md_verified = Some True,
       md_expires_at = None\<rparr>\<rparr>"

definition sample_entry :: "u64 \<Rightarrow> oplog_entry" where
  "sample_entry n = \<lparr>entry_seq = n, entry_timestamp = 0, entry_mutation = sample_mutation,
     entry_origin = Local, entry_applied = True, entry_snapshot_anchor = None\<rparr>"

lemma sample_entry_seq [simp]: "(sample_entry m)\<lparr>entry_seq := n\<rparr> = sample_entry n"
  "sample_entry m = sample_entry n \<longleftrightarrow> m = n" "entry_seq (sample_entry n) = n"
  by (simp_all add: sample_entry_def)

abbreviation sample_codec :: entry_codec where
  "sample_codec \<equiv> table_entry_codec [sample_entry 1, sample_entry 2]"

abbreviation sample_log_deps :: deps where
  "sample_log_deps \<equiv> sample_deps [[(''i'', Int32 0)], [(''i'', Int32 1)], [(''applied'', Array [Int64 1])]]"

definition sample_log :: "unit file_oplog" where
  "sample_log = \<lparr>fo_file = [], fo_applied_file = None, fo_next_seq = 0, fo_applied = [],
     fo_crypto = Some (), fo_nonces = (\<lambda>n. replicate 12 (of_nat n)), fo_drawn = 0,
     fo_faults = (\<lambda>n. None), fo_calls = 0\<rparr>"

lemma sample_log_inv: "file_inv (sample_deps ds) (table_entry_codec es) tag_cipher sample_log"
  by (auto simp: file_inv_def file_env_ok_def table_entry_codec_ok tag_cipher_ok sample_log_def frames_def
      intro!: exI [of _ "[]"])

text \<open>A plain log file with one entry, number 1.\<close>

definition one_log :: "unit file_oplog" where
  "one_log = sample_log\<lparr>fo_crypto := None, fo_file := frame [0]\<rparr>"

abbreviation one_log_deps :: deps where
  "one_log_deps \<equiv> sample_deps [[(''i'', Int32 0)], []]"

lemma one_log_entries: "file_log one_log_deps (table_entry_codec [sample_entry 1]) tag_cipher one_log = [sample_entry 1]"
proof -
  have "read_frames (frame [0]) = [[0]]" using read_frames_frame [of "[0]" "[]"] by simp
  then show ?thesis
    by (simp add: file_log_def one_log_def map_filter_simps body_entry_def unseal_def decode_entry_def
        table_reader_def table_entry_codec_def get_as_def)
qed

lemma one_log_inv: "file_inv one_log_deps (table_entry_codec [sample_entry 1]) tag_cipher one_log"
proof -
  have "body_ok one_log_deps (table_entry_codec [sample_entry 1]) tag_cipher None [0]"
    by (simp add: body_ok_def body_entry_def unseal_def decode_entry_def table_reader_def table_entry_codec_def get_as_def)
  moreover have "fo_file one_log = frames [[0]]" by (simp add: one_log_def frames_def)
  ultimately show ?thesis
    by (auto simp: file_inv_def file_env_ok_def table_entry_codec_ok tag_cipher_ok one_log_def sample_log_def
        intro!: exI [of _ "[[0]]"])
qed

lemma sample_log_append:
  "\<exists>s. file_append sample_log_deps sample_codec tag_cipher (sample_entry 0) sample_log = (Inr 1, s)"
proof -
  have env: "file_env_ok sample_log_deps sample_codec tag_cipher sample_log"
    using sample_log_inv by (rule file_inv_env)
  show ?thesis
    using env
  proof (cases rule: file_append_cases [where e = "sample_entry 0"])
    case (err x)
    then show ?thesis
      by (auto simp: file_append_def table_entry_codec_def sample_log_def table_writer_def Let_def
          fs_faultless seal_def)
  qed (simp add: sample_log_def)
qed

section \<open>Properties\<close>

text \<open>
  C7: an appended entry is durable and ordered: \<open>append\<close> numbers it one past the latest, leaves
  every earlier entry, and every later \<open>read_since\<close> with a positive limit returns the first
  entries at or after the number in append order, the new one last. With or without encryption;
  the codecs invert and no file-system call fails.
\<close>

theorem file_append_then_read:
  assumes "file_inv D K A s" "file_append D K A e s = (Inr n, s')"
  shows "file_latest_seq s = Inr (n - 1) \<and> file_latest_seq s' = Inr n \<and>
    (\<forall>m k. 0 < k \<longrightarrow> file_read_since D K A s' m k =
      Inr (take k (filter (\<lambda>e. m \<le> entry_seq e) (file_log D K A s @ [e\<lparr>entry_seq := n\<rparr>]))))"
proof -
  have "file_log D K A s' = file_log D K A s @ [e\<lparr>entry_seq := n\<rparr>]"
    using file_log.append_log [OF assms(1)] assms(2) by simp
  moreover have "file_inv D K A s'" using file_log.append_inv [OF assms(1)] assms(2) by simp
  ultimately show ?thesis
    using file_log.append_latest [OF assms(1)] file_log.read_log [of D K A s'] assms(2) by simp
qed

theorem file_append_then_read_witness:
  "\<exists>s. file_append sample_log_deps sample_codec tag_cipher (sample_entry 0) sample_log = (Inr 1, s) \<and>
     file_read_since sample_log_deps sample_codec tag_cipher s 1 10 = Inr [sample_entry 1]"
proof -
  obtain s where s: "file_append sample_log_deps sample_codec tag_cipher (sample_entry 0) sample_log = (Inr 1, s)"
    using sample_log_append by blast
  have "file_log sample_log_deps sample_codec tag_cipher sample_log = []"
    by (simp add: file_log_def sample_log_def map_filter_simps)
  with s file_append_then_read [OF sample_log_inv s] show ?thesis by simp
qed

text \<open>
  C13: compaction removes exactly the applied entries: it succeeds, returns the number of entries
  kept, keeps every entry that is not marked applied, in order, and drops every one that is.
\<close>

theorem file_compact_keeps_unapplied:
  assumes "file_inv D K A s"
  shows "\<exists>s'. file_compact D K A s =
      (Inr (of_nat (length (filter (\<lambda>e. entry_seq e \<notin> set (fo_applied s)) (file_log D K A s)))), s') \<and>
    file_inv D K A s' \<and>
    file_log D K A s' = filter (\<lambda>e. entry_seq e \<notin> set (fo_applied s)) (file_log D K A s)"
  using file_compact_ok [OF assms] by (auto simp: unapplied_def [abs_def])

theorem file_compact_keeps_unapplied_witness:
  "(\<exists>s. file_compact one_log_deps (table_entry_codec [sample_entry 1]) tag_cipher one_log = (Inr 1, s) \<and>
      file_log one_log_deps (table_entry_codec [sample_entry 1]) tag_cipher s = [sample_entry 1]) \<and>
   (\<exists>s. file_compact one_log_deps (table_entry_codec [sample_entry 1]) tag_cipher (one_log\<lparr>fo_applied := [1]\<rparr>) = (Inr 0, s) \<and>
      file_log one_log_deps (table_entry_codec [sample_entry 1]) tag_cipher s = [])"
proof -
  let ?K = "table_entry_codec [sample_entry 1]" and ?s = "one_log\<lparr>fo_applied := [1]\<rparr>"
  have marked: "file_inv one_log_deps ?K tag_cipher ?s" "file_log one_log_deps ?K tag_cipher ?s = [sample_entry 1]"
    using file_inv_same [OF one_log_inv, of ?s] one_log_entries by (simp_all add: same_env_def)
  have "fo_applied one_log = []" by (simp add: one_log_def sample_log_def)
  then show ?thesis
    using file_compact_keeps_unapplied [OF one_log_inv] file_compact_keeps_unapplied [OF marked(1)]
    by (simp add: one_log_entries marked(2)) blast
qed

text \<open>
  Compaction forgets the numbering: when every entry is applied, the compacted log reopens at
  number zero while its applied file still lists the old numbers, so the next entry is numbered
  one, counts as applied although nobody marked it, and the next compaction removes it.
\<close>

theorem compaction_reuses_numbers:
  assumes inv: "file_inv D K A s"
    and all: "\<forall>e\<in>set (file_log D K A s). entry_seq e \<in> set (fo_applied s)"
    and one: "1 \<in> set xs" and disk: "read_applied D A (fo_crypto s) (fo_applied_file s) = Inr xs"
    and env: "\<forall>n. length (nonces n) = 12" "\<forall>n. faults n = None"
  shows "\<exists>s1 t. file_compact D K A s = (Inr 0, s1) \<and>
    file_oplog_open D K A (fo_crypto s1) (Some (fo_file s1)) (fo_applied_file s1) nonces faults = (Inr (), t) \<and>
    file_latest_seq t = Inr 0 \<and>
    (\<forall>e n t'. file_append D K A e t = (Inr n, t') \<longrightarrow> n = 1 \<and> file_log D K A t' = [e\<lparr>entry_seq := 1\<rparr>] \<and>
      (\<exists>t''. file_compact D K A t' = (Inr 0, t'') \<and> file_log D K A t'' = []))"
proof -
  have none: "filter (unapplied s) (file_log D K A s) = []"
    using all by (simp add: unapplied_def filter_empty_conv)
  obtain s1 where s1: "file_compact D K A s = (Inr 0, s1)" "file_inv D K A s1"
      "file_log D K A s1 = []" "same_env s s1" "fo_applied_file s1 = fo_applied_file s"
    using file_compact_ok [OF inv] none by auto
  have "read_applied D A (fo_crypto s1) (fo_applied_file s1) = Inr xs"
    using disk s1(4,5) by (simp add: same_env_def)
  from file_open_ok [OF s1(2) this env] obtain t where t:
      "file_oplog_open D K A (fo_crypto s1) (Some (fo_file s1)) (fo_applied_file s1) nonces faults = (Inr (), t)"
      "fo_next_seq t = 0" "file_log D K A t = []" "fo_applied t = xs" "file_inv D K A t"
    using s1(3) by auto
  have "n = 1 \<and> file_log D K A t' = [e\<lparr>entry_seq := 1\<rparr>] \<and>
      (\<exists>t''. file_compact D K A t' = (Inr 0, t'') \<and> file_log D K A t'' = [])"
    if "file_append D K A e t = (Inr n, t')" for e n t'
  proof -
    note ok = file_append_ok [OF t(5) that]
    have "filter (unapplied t') (file_log D K A t') = []"
      using ok t(2,3,4) one by (simp add: unapplied_def)
    with ok t(2,3) file_compact_ok [of D K A t'] show ?thesis by auto
  qed
  with s1(1) t(1,2) show ?thesis by (auto simp: file_latest_seq_def)
qed

theorem compaction_reuses_numbers_witness:
  "\<exists>s t t' t''. file_compact sample_log_deps sample_codec tag_cipher
       (sample_log\<lparr>fo_applied := [1], fo_crypto := None, fo_applied_file := Some [2]\<rparr>) = (Inr 0, s) \<and>
     file_append sample_log_deps sample_codec tag_cipher (sample_entry 0) t = (Inr 1, t') \<and>
     file_compact sample_log_deps sample_codec tag_cipher t' = (Inr 0, t'')"
proof -
  let ?s = "sample_log\<lparr>fo_applied := [1], fo_crypto := None, fo_applied_file := Some [2]\<rparr>"
  have inv: "file_inv sample_log_deps sample_codec tag_cipher ?s"
    by (auto simp: file_inv_def file_env_ok_def table_entry_codec_ok tag_cipher_ok sample_log_def frames_def
        intro!: exI [of _ "[]"])
  have log: "file_log sample_log_deps sample_codec tag_cipher ?s = []"
    by (simp add: file_log_def sample_log_def map_filter_simps)
  have disk: "read_applied sample_log_deps tag_cipher (fo_crypto ?s) (fo_applied_file ?s) = Inr [1]"
    by (simp add: read_applied_def unseal_def table_reader_def get_as_def map_filter_simps)
  obtain s t where st: "file_compact sample_log_deps sample_codec tag_cipher ?s = (Inr 0, s)"
      "file_oplog_open sample_log_deps sample_codec tag_cipher (fo_crypto s) (Some (fo_file s))
        (fo_applied_file s) (\<lambda>n. replicate 12 0) (\<lambda>n. None) = (Inr (), t)"
      "file_latest_seq t = Inr 0"
      "\<forall>e n t'. file_append sample_log_deps sample_codec tag_cipher e t = (Inr n, t') \<longrightarrow> n = 1 \<and>
        file_log sample_log_deps sample_codec tag_cipher t' = [e\<lparr>entry_seq := 1\<rparr>] \<and>
        (\<exists>t''. file_compact sample_log_deps sample_codec tag_cipher t' = (Inr 0, t'') \<and>
          file_log sample_log_deps sample_codec tag_cipher t'' = [])"
    using compaction_reuses_numbers [OF inv _ _ disk, of "\<lambda>n. replicate 12 0" "\<lambda>n. None"] log by auto
  have crypto: "fo_crypto t = None" "fo_next_seq t = 0" "\<forall>n. fo_faults t n = None"
    using st(1-3) by (auto simp: file_oplog_open_def file_latest_seq_def file_compact_def sample_log_def
        fs_faultless bind_op_def split: prod.splits sum.splits)
  have "\<exists>t'. file_append sample_log_deps sample_codec tag_cipher (sample_entry 0) t = (Inr 1, t')"
    using crypto
    by (simp add: file_append_def Let_def table_entry_codec_def table_writer_def seal_def fs_faultless)
  with st show ?thesis by blast
qed

text \<open>
  C37: a torn append hides later entries: when a write fails after the length of an entry reached
  the disk and before any of its bytes, \<open>append\<close> reports the error but leaves the length in the
  file; a following shorter entry is then appended and acknowledged, and is not read back.
\<close>

lemma read_frames_torn:
  "\<forall>b\<in>set bodies. length b < 2 ^ 32 \<Longrightarrow> read_frames (frames bodies @ rest) = bodies @ read_frames rest"
  by (induction bodies) (simp_all add: frames_def read_frames_frame)

theorem torn_append_hides_next_entry:
  assumes plain: "fo_crypto s = None" and bodies: "fo_file s = frames bodies" "\<forall>b\<in>set bodies. length b < 2 ^ 32"
    and fault: "fo_faults s (fo_calls s + 2) = Some (x, 0)"
      "\<forall>n. n \<noteq> fo_calls s + 2 \<longrightarrow> fo_faults s n = None"
    and first: "ser_entry K (e1\<lparr>entry_seq := fo_next_seq s + 1\<rparr>) = Inr d1" "to_writer D d1 = Inr bs1"
    and second: "ser_entry K (e2\<lparr>entry_seq := fo_next_seq s + 2\<rparr>) = Inr d2" "to_writer D d2 = Inr bs2"
    and len: "length bs2 + 4 < length bs1" "length bs1 < 2 ^ 32"
  shows "\<exists>s1 s2. file_append D K A e1 s = (Inl (Storage x), s1) \<and>
    file_append D K A e2 s1 = (Inr (fo_next_seq s + 2), s2) \<and>
    file_log D K A s2 = file_log D K A s"
proof -
  let ?h1 = "u32_le (of_nat (length bs1))"
  let ?s1 = "s\<lparr>fo_next_seq := fo_next_seq s + 1, fo_calls := Suc (Suc (Suc (fo_calls s))),
      fo_file := fo_file s @ ?h1\<rparr>"
  have a1: "file_append D K A e1 s = (Inl (Storage x), ?s1)"
    using plain fault first
    by (simp add: file_append_def Let_def seal_def fs_call_def fs_append_def)
  have next_seq: "fo_next_seq s + 1 + 1 = fo_next_seq s + 2" by simp
  obtain s2 where a2: "file_append D K A e2 ?s1 = (Inr (fo_next_seq s + 2), s2)"
      "fo_file s2 = fo_file s @ ?h1 @ frame bs2" "fo_crypto s2 = None"
    using plain fault second
    by (simp add: file_append_def Let_def seal_def fs_call_def fs_append_def frame_def next_seq)
  have "unat (of_nat (length bs1) :: u32) = length bs1" using len(2) by (simp add: unat_of_nat)
  then have "read_frames (?h1 @ frame bs2) = []"
    using len(1) by (subst read_frames.simps) (simp add: frame_def Let_def)
  then have "read_frames (fo_file s2) = bodies"
    using read_frames_torn [OF bodies(2), of "?h1 @ frame bs2"] a2(2) bodies(1) by simp
  moreover have "read_frames (fo_file s) = bodies"
    using read_frames_torn [OF bodies(2), of "[]"] bodies(1) by simp
  ultimately have "file_log D K A s2 = file_log D K A s"
    using a2(3) plain by (simp add: file_log_def)
  with a1 a2(1) show ?thesis by blast
qed

theorem torn_append_hides_next_entry_witness:
  "\<exists>D K s s1 s2. file_append D K tag_cipher (sample_entry 0) (s :: unit file_oplog) = (Inl (Storage ''disk full''), s1) \<and>
     file_append D K tag_cipher (sample_entry 0) s1 = (Inr 2, s2) \<and> file_log D K tag_cipher s2 = []"
proof -
  let ?D = "(sample_deps [])\<lparr>to_writer := \<lambda>d. if d = [] then Inr [] else Inr (replicate 10 0)\<rparr>"
  let ?K = "sample_codec\<lparr>ser_entry := \<lambda>e. if entry_seq e = 1 then Inr [(''a'', Null)] else Inr []\<rparr>"
  let ?s = "sample_log\<lparr>fo_crypto := None, fo_faults := \<lambda>n. if n = 2 then Some (''disk full'', 0) else None\<rparr>"
  have "file_log ?D ?K tag_cipher ?s = []" by (simp add: file_log_def sample_log_def map_filter_simps)
  then show ?thesis
    using torn_append_hides_next_entry [of ?s "[]" "''disk full''" ?K "sample_entry 0" "[(''a'', Null)]" ?D
        "replicate 10 0" "sample_entry 0" "[]" "[]" tag_cipher]
    by (fastforce simp: sample_log_def frames_def)
qed

end
