(* ===== verification/Rango_Log_Calls.thy ===== *)
theory Rango_Log_Calls
  imports Rango_File_Oplog
begin

text \<open>
  Runs of the file log (\<open>oplog/src/file.rs\<close>): any sequence of appends, markings and compactions on one
  log, with their answers, and what is left of it for a process that opens the two files again: the
  entries, the applied numbers, and the number at which the log goes on.
\<close>

section \<open>Runs\<close>

datatype log_call = AppendEntry oplog_entry | MarkApplied u64 | CompactLog




section \<open>The applied numbers on disk\<close>


definition last_number :: "oplog_entry list \<Rightarrow> u64" where
  "last_number es = last (0 # map entry_seq es)"

lemma last_number_snoc [simp]: "last_number (es @ [e]) = entry_seq e"
  by (simp add: last_number_def)






section \<open>What a run leaves\<close>

definition marked :: "log_call list \<Rightarrow> u64 set" where
  "marked calls = {n. MarkApplied n \<in> set calls}"

lemma marked_simps [simp]:
  "marked [] = {}" "marked (AppendEntry e # calls) = marked calls" "marked (CompactLog # calls) = marked calls"
  "marked (MarkApplied n # calls) = insert n (marked calls)"
  by (auto simp: marked_def)



section \<open>Property\<close>



end
