(* ===== verification/Rango_Engine.thy ===== *)
theory Rango_Engine
  imports Rango_Envelope Rango_Query_Project Rango_Oplog Rango_Storage
begin

text \<open>
  The engine's state and its local operations (\<open>core/src/engine.rs\<close>, \<open>core/src/metrics.rs\<close>): the
  storage and log behind their interfaces, the node, counters, configuration, the write identifiers
  already replayed, and the outside world. Each method is an operation on that state; the steps,
  guards and early returns follow the source, including the writes that have already happened when
  a later step fails. Counters wrap at 64 bits; logging is left out.
\<close>

section \<open>Metrics\<close>

record metrics =
  mt_inserts :: u64
  mt_finds :: u64
  mt_updates :: u64
  mt_deletes :: u64
  mt_sync_pushes :: u64
  mt_sync_pulls :: u64
  mt_local_write_latency_us_total :: u64
  mt_local_write_latency_us_count :: u64
  mt_replay_duration_us_total :: u64
  mt_replay_duration_us_count :: u64
  mt_replay_drift_detection_count :: u64

definition metrics_default :: metrics where
  "metrics_default = \<lparr>mt_inserts = 0, mt_finds = 0, mt_updates = 0, mt_deletes = 0,
     mt_sync_pushes = 0, mt_sync_pulls = 0, mt_local_write_latency_us_total = 0,
     mt_local_write_latency_us_count = 0, mt_replay_duration_us_total = 0,
     mt_replay_duration_us_count = 0, mt_replay_drift_detection_count = 0\<rparr>"

definition record_insert :: "metrics \<Rightarrow> metrics" where
  "record_insert m = m\<lparr>mt_inserts := mt_inserts m + 1\<rparr>"

definition record_find :: "metrics \<Rightarrow> metrics" where
  "record_find m = m\<lparr>mt_finds := mt_finds m + 1\<rparr>"

definition record_update :: "metrics \<Rightarrow> metrics" where
  "record_update m = m\<lparr>mt_updates := mt_updates m + 1\<rparr>"

definition record_delete :: "metrics \<Rightarrow> metrics" where
  "record_delete m = m\<lparr>mt_deletes := mt_deletes m + 1\<rparr>"

definition record_sync_push :: "nat \<Rightarrow> metrics \<Rightarrow> metrics" where
  "record_sync_push n m = m\<lparr>mt_sync_pushes := mt_sync_pushes m + of_nat n\<rparr>"

definition record_sync_pull :: "nat \<Rightarrow> metrics \<Rightarrow> metrics" where
  "record_sync_pull n m = m\<lparr>mt_sync_pulls := mt_sync_pulls m + of_nat n\<rparr>"

definition record_local_write_latency_us :: "u64 \<Rightarrow> metrics \<Rightarrow> metrics" where
  "record_local_write_latency_us us m =
     m\<lparr>mt_local_write_latency_us_total := mt_local_write_latency_us_total m + us,
       mt_local_write_latency_us_count := mt_local_write_latency_us_count m + 1\<rparr>"

definition record_replay_duration_us :: "u64 \<Rightarrow> metrics \<Rightarrow> metrics" where
  "record_replay_duration_us us m =
     m\<lparr>mt_replay_duration_us_total := mt_replay_duration_us_total m + us,
       mt_replay_duration_us_count := mt_replay_duration_us_count m + 1\<rparr>"

definition record_replay_drift_detection :: "metrics \<Rightarrow> metrics" where
  "record_replay_drift_detection m =
     m\<lparr>mt_replay_drift_detection_count := mt_replay_drift_detection_count m + 1\<rparr>"

section \<open>State\<close>

record ('s, 'o) engine =
  en_storage :: 's
  en_oplog :: 'o
  en_node_id :: string
  en_metrics :: metrics
  en_config :: rango_config
  en_applied_write_ids :: "string set"
  en_world :: world

definition engine_open_with_config ::
  "'s \<Rightarrow> 'o \<Rightarrow> string \<Rightarrow> rango_config \<Rightarrow> world \<Rightarrow> ('s, 'o) engine result" where
  "engine_open_with_config storage oplog node_id config w =
     Inr \<lparr>en_storage = storage, en_oplog = oplog, en_node_id = node_id,
       en_metrics = metrics_default, en_config = config, en_applied_write_ids = {}, en_world = w\<rparr>"

definition engine_open :: "'s \<Rightarrow> 'o \<Rightarrow> string \<Rightarrow> world \<Rightarrow> ('s, 'o) engine result" where
  "engine_open storage oplog node_id w = engine_open_with_config storage oplog node_id default_config w"

text \<open>The calls on the fields of the engine.\<close>

definition storage_put :: "'s storage_engine \<Rightarrow> collection_name \<Rightarrow> document_id \<Rightarrow> doc \<Rightarrow>
    (('s, 'o) engine, unit) op" where
  "storage_put E c i d st =
     (case se_put E (en_storage st) c i d of (r, s) \<Rightarrow> (r, st\<lparr>en_storage := s\<rparr>))"

definition storage_delete :: "'s storage_engine \<Rightarrow> collection_name \<Rightarrow> document_id \<Rightarrow>
    (('s, 'o) engine, bool) op" where
  "storage_delete E c i st =
     (case se_delete E (en_storage st) c i of (r, s) \<Rightarrow> (r, st\<lparr>en_storage := s\<rparr>))"

definition storage_get :: "'s storage_engine \<Rightarrow> collection_name \<Rightarrow> document_id \<Rightarrow>
    (('s, 'o) engine, doc option) op" where
  "storage_get E c i st = (se_get E (en_storage st) c i, st)"

definition oplog_append :: "'o oplog_vt \<Rightarrow> oplog_entry \<Rightarrow> (('s, 'o) engine, u64) op" where
  "oplog_append L e st =
     (case op_append L e (en_oplog st) of (r, l) \<Rightarrow> (r, st\<lparr>en_oplog := l\<rparr>))"

definition from_world :: "(world \<Rightarrow> 'a \<times> world) \<Rightarrow> (('s, 'o) engine, 'a) op" where
  "from_world f st = (case f (en_world st) of (x, w) \<Rightarrow> (Inr x, st\<lparr>en_world := w\<rparr>))"

definition record_op :: "(metrics \<Rightarrow> metrics) \<Rightarrow> (('s, 'o) engine, unit) op" where
  "record_op f st = (Inr (), st\<lparr>en_metrics := f (en_metrics st)\<rparr>)"

definition record_latency :: "nat \<Rightarrow> (('s, 'o) engine, unit) op" where
  "record_latency start =
     bind_op (from_world instant_now) (\<lambda>t.
     record_op (record_local_write_latency_us (of_nat (t - start))))"

section \<open>Documents\<close>

definition is_deleted :: "doc \<Rightarrow> bool" where
  "is_deleted d = unwrap_or (get_as as_bool d ''_deleted'') False"

definition validate_document_size :: "deps \<Rightarrow> rango_config \<Rightarrow> doc \<Rightarrow> unit result" where
  "validate_document_size D cfg d =
     try_r (storage_err (to_writer D d)) (\<lambda>bs.
     if cfg_max_document_size_bytes cfg < length bs
     then Inl (DocumentTooLarge (length bs) (cfg_max_document_size_bytes cfg))
     else Inr ())"

text \<open>The update operators: \<open>$inc\<close> adds to a number of the same type and ignores anything else.\<close>

definition apply_inc :: "(string \<times> bson) \<Rightarrow> doc \<Rightarrow> doc" where
  "apply_inc p d = (case p of (k, v) \<Rightarrow>
     (case al_get d k of
        Some (Int32 i) \<Rightarrow> (case as_i32 v of Some vi \<Rightarrow> al_put d k (Int32 (i + vi)) | None \<Rightarrow> d)
      | Some (Int64 i) \<Rightarrow> (case as_i64 v of Some vi \<Rightarrow> al_put d k (Int64 (i + vi)) | None \<Rightarrow> d)
      | Some (Double x) \<Rightarrow> (case as_f64 v of Some vd \<Rightarrow> al_put d k (Double (f64_add x vd)) | None \<Rightarrow> d)
      | _ \<Rightarrow> d))"

fun apply_update :: "doc \<Rightarrow> doc \<Rightarrow> doc result" where
  "apply_update d [] = Inr d"
| "apply_update d ((key, value) # update) =
     (if key = ''$set'' then
        apply_update (case as_document value of
            Some set_doc \<Rightarrow> fold (\<lambda>(k, v) d. al_put d k v) set_doc d
          | None \<Rightarrow> d) update
      else if key = ''$unset'' then
        apply_update (case as_document value of
            Some unset_doc \<Rightarrow> fold (\<lambda>(k, v) d. al_del d k) unset_doc d
          | None \<Rightarrow> d) update
      else if key = ''$inc'' then
        apply_update (case as_document value of
            Some inc_doc \<Rightarrow> fold apply_inc inc_doc d
          | None \<Rightarrow> d) update
      else Inl (InvalidQueryOperator key))"

section \<open>Local writes\<close>

text \<open>The end of every local write: build the mutation, validate it, append it to the log.\<close>

definition local_mutation :: "deps \<Rightarrow> string \<Rightarrow> mutation_op \<Rightarrow> collection_name \<Rightarrow> document_id \<Rightarrow>
    doc option \<Rightarrow> revision \<Rightarrow> millis \<Rightarrow> millis \<Rightarrow> millis \<Rightarrow> mutation" where
  "local_mutation D node oper c i patch rv timestamp created_at updated_at =
     (let pending = \<lparr>mut_op = oper, mut_collection = c, mut_doc_id = i, mut_patch = patch, mut_seq = 0,
        mut_timestamp = timestamp, mut_rev = rv, mut_write_id = ''pending-local-write-id'',
        mut_metadata = \<lparr>md_id = i, md_namespace = c, md_tenant_id = ''default'', md_type = ''state'',
          md_rev = rv, md_created_at = created_at, md_updated_at = updated_at, md_source = node,
          md_actor = node, md_lineage = document_id_to_string D i, md_schema_version = 1,
          md_trust_score = Fin 1, md_verified = Some True, md_expires_at = None\<rparr>\<rparr>
      in pending\<lparr>mut_write_id := write_id_of D pending\<rparr>)"

definition log_local :: "deps \<Rightarrow> 'o oplog_vt \<Rightarrow> mutation_op \<Rightarrow> collection_name \<Rightarrow> document_id \<Rightarrow>
    doc option \<Rightarrow> revision \<Rightarrow> (('s, 'o) engine, u64) op" where
  "log_local D L oper c i patch rv = get_op (\<lambda>st.
     bind_op (from_world datetime_now) (\<lambda>timestamp.
     bind_op (from_world datetime_now) (\<lambda>created_at.
     bind_op (from_world datetime_now) (\<lambda>updated_at.
     let mutation = local_mutation D (en_node_id st) oper c i patch rv timestamp created_at updated_at
     in bind_op (lift_op (map_err (\<lambda>e. Storage (''invalid local mutation metadata: '' @ e))
            (validate_metadata mutation))) (\<lambda>_.
        bind_op (from_world datetime_now) (\<lambda>entry_time.
        oplog_append L \<lparr>entry_seq = 0, entry_timestamp = entry_time, entry_mutation = mutation,
          entry_origin = Local, entry_applied = True, entry_snapshot_anchor = None\<rparr>))))))"

text \<open>The common tail: store, log, count, measure.\<close>

definition commit_local :: "deps \<Rightarrow> 's storage_engine \<Rightarrow> 'o oplog_vt \<Rightarrow> mutation_op \<Rightarrow> collection_name \<Rightarrow>
    document_id \<Rightarrow> doc \<Rightarrow> doc option \<Rightarrow> revision \<Rightarrow> (metrics \<Rightarrow> metrics) \<Rightarrow> nat \<Rightarrow> 'a \<Rightarrow>
    (('s, 'o) engine, 'a) op" where
  "commit_local D E L oper c i d patch rv tally start x =
     bind_op (storage_put E c i d) (\<lambda>_.
     bind_op (log_local D L oper c i patch rv) (\<lambda>_.
     bind_op (record_op tally) (\<lambda>_.
     bind_op (record_latency start) (\<lambda>_. return_op x))))"

definition insert_one :: "deps \<Rightarrow> 's storage_engine \<Rightarrow> 'o oplog_vt \<Rightarrow> collection_name \<Rightarrow> doc \<Rightarrow>
    (('s, 'o) engine, document_id) op" where
  "insert_one D E L c d0 =
     bind_op (from_world instant_now) (\<lambda>start.
     bind_op (case al_get d0 ''_id'' of
         Some v \<Rightarrow> return_op (document_id_from_bson v)
       | None \<Rightarrow> from_world document_id_new_uuid_v7) (\<lambda>i.
     get_op (\<lambda>st. bind_op (from_world (revision_now D (en_node_id st))) (\<lambda>rv.
     bind_op (lift_op (validate_document_size D (en_config st) d0)) (\<lambda>_.
     bind_op (from_world datetime_now) (\<lambda>now.
     let d = al_del (al_put (al_put (al_put (al_put d0 ''_id'' i) ''_rev'' (String rv))
           ''_updated_at'' (DateTime now)) ''_source_node'' (String (en_node_id st))) ''_deleted''
     in bind_op (lift_op (validate_document_size D (en_config st) d)) (\<lambda>_.
        commit_local D E L Insert c i d (Some d) rv record_insert start i)))))))"

definition update_one :: "deps \<Rightarrow> 's storage_engine \<Rightarrow> 'o oplog_vt \<Rightarrow> collection_name \<Rightarrow> document_id \<Rightarrow>
    doc \<Rightarrow> (('s, 'o) engine, bool) op" where
  "update_one D E L c i update =
     bind_op (from_world instant_now) (\<lambda>start.
     bind_op (storage_get E c i) (\<lambda>found.
     case found of
       None \<Rightarrow> return_op False
     | Some d0 \<Rightarrow>
         if is_deleted d0 then return_op False
         else bind_op (lift_op (apply_update d0 update)) (\<lambda>d1.
           get_op (\<lambda>st. bind_op (from_world (revision_now D (en_node_id st))) (\<lambda>rv.
           bind_op (from_world datetime_now) (\<lambda>now.
           let d = al_put (al_put (al_put d1 ''_rev'' (String rv)) ''_updated_at'' (DateTime now))
                 ''_source_node'' (String (en_node_id st))
           in bind_op (lift_op (validate_document_size D (en_config st) d)) (\<lambda>_.
              commit_local D E L Update c i d (Some d) rv record_update start True)))))))"

definition delete_one :: "deps \<Rightarrow> 's storage_engine \<Rightarrow> 'o oplog_vt \<Rightarrow> collection_name \<Rightarrow> document_id \<Rightarrow>
    (('s, 'o) engine, bool) op" where
  "delete_one D E L c i =
     bind_op (from_world instant_now) (\<lambda>start.
     bind_op (storage_get E c i) (\<lambda>found.
     case found of
       None \<Rightarrow> return_op False
     | Some d0 \<Rightarrow>
         get_op (\<lambda>st. bind_op (from_world (revision_now D (en_node_id st))) (\<lambda>rv.
         bind_op (from_world datetime_now) (\<lambda>now.
         let d = al_put (al_put (al_put (al_put d0 ''_deleted'' (Boolean True)) ''_rev'' (String rv))
               ''_updated_at'' (DateTime now)) ''_source_node'' (String (en_node_id st))
         in commit_local D E L Delete c i d None rv record_delete start True)))))"

section \<open>Reads\<close>

definition find_one :: "'s storage_engine \<Rightarrow> collection_name \<Rightarrow> document_id \<Rightarrow>
    (('s, 'o) engine, rango_document option) op" where
  "find_one E c i =
     bind_op (record_op record_find) (\<lambda>_.
     bind_op (storage_get E c i) (\<lambda>found.
     return_op (case found of
         Some d \<Rightarrow> if is_deleted d then None else Some \<lparr>doc_data = d\<rparr>
       | None \<Rightarrow> None)))"

text \<open>\<open>FilteredIter\<close>: skip tombstones and non-matching documents, pass errors through.\<close>

fun filtered_iter :: "deps \<Rightarrow> doc \<Rightarrow> bool \<Rightarrow> doc result list \<Rightarrow> doc result list" where
  "filtered_iter D flt include_deleted [] = []"
| "filtered_iter D flt include_deleted (Inr d # rows) =
     (if \<not> include_deleted \<and> is_deleted d then filtered_iter D flt include_deleted rows
      else case matches D d flt of
          Inr True \<Rightarrow> Inr d # filtered_iter D flt include_deleted rows
        | Inr False \<Rightarrow> filtered_iter D flt include_deleted rows
        | Inl e \<Rightarrow> Inl e # filtered_iter D flt include_deleted rows)"
| "filtered_iter D flt include_deleted (Inl e # rows) = Inl e # filtered_iter D flt include_deleted rows"

definition project_or_same :: "doc option \<Rightarrow> doc \<Rightarrow> doc" where
  "project_or_same projection d =
     (case projection of
        Some p \<Rightarrow> (case project d p of Inr r \<Rightarrow> r | Inl _ \<Rightarrow> d)
      | None \<Rightarrow> d)"

text \<open>The closure that streams an unsorted result, with its two counters.\<close>

fun find_stream :: "deps \<Rightarrow> doc \<Rightarrow> doc option \<Rightarrow> nat \<Rightarrow> nat option \<Rightarrow> nat \<Rightarrow> nat \<Rightarrow>
    doc result list \<Rightarrow> doc result list" where
  "find_stream D flt projection skip_val limit skipped emitted [] = []"
| "find_stream D flt projection skip_val limit skipped emitted (row # rows) =
     (if (case limit of Some n \<Rightarrow> n \<le> emitted | None \<Rightarrow> False) then []
      else case row of
          Inr d \<Rightarrow>
            if \<not> unwrap_or (ok_of (matches D d flt)) False
            then find_stream D flt projection skip_val limit skipped emitted rows
            else if skipped < skip_val
            then find_stream D flt projection skip_val limit (Suc skipped) emitted rows
            else Inr (project_or_same projection d) #
              find_stream D flt projection skip_val limit skipped (Suc emitted) rows
        | Inl e \<Rightarrow> Inl e # find_stream D flt projection skip_val limit skipped emitted rows)"

definition sort_docs_cmp :: "deps \<Rightarrow> string \<Rightarrow> bool \<Rightarrow> doc \<Rightarrow> doc \<Rightarrow> rust_ordering" where
  "sort_docs_cmp D field desc a b =
     (let q = sort_key_cmp (unwrap_or (ok_of (sort_key D a field)) KNull)
                (unwrap_or (ok_of (sort_key D b field)) KNull)
      in if desc then reverse_ord q else q)"

definition find_docs :: "deps \<Rightarrow> 's storage_engine \<Rightarrow> ('s, 'o) engine \<Rightarrow> collection_name \<Rightarrow> doc \<Rightarrow>
    doc option \<Rightarrow> (string \<times> bool) option \<Rightarrow> nat option \<Rightarrow> nat option \<Rightarrow> doc result list result" where
  "find_docs D E st c flt projection sorting skip limit =
     try_r (se_scan E (en_storage st) c) (\<lambda>rows.
     let filtered = filtered_iter D flt False rows
     in case sorting of
         None \<Rightarrow> Inr (find_stream D flt projection (unwrap_or skip 0) limit 0 0 filtered)
       | Some (field, desc) \<Rightarrow>
           let docs = sort_by (sort_docs_cmp D field desc) (oks filtered);
               docs = (case skip of Some n \<Rightarrow> drop n docs | None \<Rightarrow> docs);
               docs = (case limit of Some n \<Rightarrow> take n docs | None \<Rightarrow> docs);
               projected = map (project_or_same projection) docs
           in Inr (map Inr projected))"

definition find_many ::
  "deps \<Rightarrow> 's storage_engine \<Rightarrow> ('s, 'o) engine \<Rightarrow> collection_name \<Rightarrow> doc result list result" where
  "find_many D E st c = find_docs D E st c [] None None None None"

definition find_one_by_filter ::
  "deps \<Rightarrow> 's storage_engine \<Rightarrow> ('s, 'o) engine \<Rightarrow> collection_name \<Rightarrow> doc \<Rightarrow> rango_document option result" where
  "find_one_by_filter D E st c flt =
     try_r (find_docs D E st c flt None None None None) (\<lambda>cursor.
     case cursor of
       [] \<Rightarrow> Inr None
     | Inr d # _ \<Rightarrow> Inr (Some \<lparr>doc_data = d\<rparr>)
     | Inl e # _ \<Rightarrow> Inl e)"

definition find_all_raw ::
  "deps \<Rightarrow> 's storage_engine \<Rightarrow> ('s, 'o) engine \<Rightarrow> collection_name \<Rightarrow> doc list result" where
  "find_all_raw D E st c =
     try_r (se_scan E (en_storage st) c) (\<lambda>rows. Inr (oks (filtered_iter D [] True rows)))"

end
