(* ===== verification/Rango_Engine_Local.thy ===== *)
theory Rango_Engine_Local
  imports Rango_Engine Rango_Degrading_Storage Rango_File_Oplog
begin

text \<open>
  The local operations of the engine on any storage that keeps the storage laws: what a successful
  insert, update or delete leaves in storage and log, what reads return, and the reference reading
  of queries. The properties instantiate the back ends of the repository.
\<close>

section \<open>Symbolic steps\<close>

lemma from_world_Inr:
  "from_world f st = (r, st') \<longleftrightarrow> r = Inr (fst (f (en_world st))) \<and> st' = st\<lparr>en_world := snd (f (en_world st))\<rparr>"
  by (auto simp: from_world_def split: prod.splits)

lemma record_op_Inr: "record_op f st = (r, st') \<longleftrightarrow> r = Inr () \<and> st' = st\<lparr>en_metrics := f (en_metrics st)\<rparr>"
  by (auto simp: record_op_def)

lemma record_latency_frame:
  "record_latency start st = (r, st') \<Longrightarrow> r = Inr () \<and> en_storage st' = en_storage st \<and>
     en_oplog st' = en_oplog st \<and> en_node_id st' = en_node_id st \<and> en_config st' = en_config st \<and>
     en_applied_write_ids st' = en_applied_write_ids st"
  by (auto simp: record_latency_def bind_op_def from_world_Inr record_op_Inr
      split: prod.splits sum.splits)

lemma storage_put_eq:
  "storage_put E c i d st = (r, st') \<longleftrightarrow>
     (\<exists>s. se_put E (en_storage st) c i d = (r, s) \<and> st' = st\<lparr>en_storage := s\<rparr>)"
  by (auto simp: storage_put_def split: prod.splits)

lemma storage_delete_eq:
  "storage_delete E c i st = (q, st') \<longleftrightarrow>
     (\<exists>s. se_delete E (en_storage st) c i = (q, s) \<and> st' = st\<lparr>en_storage := s\<rparr>)"
  by (auto simp: storage_delete_def split: prod.splits)

lemma oplog_append_eq:
  "oplog_append L e st = (r, st') \<longleftrightarrow>
     (\<exists>l. op_append L e (en_oplog st) = (r, l) \<and> st' = st\<lparr>en_oplog := l\<rparr>)"
  by (auto simp: oplog_append_def split: prod.splits)

lemma storage_get_eq: "storage_get E c i st = (r, st') \<longleftrightarrow> se_get E (en_storage st) c i = r \<and> st' = st"
  by (auto simp: storage_get_def)

text \<open>The entry that a local write appends.\<close>

definition local_entry :: "deps \<Rightarrow> string \<Rightarrow> mutation_op \<Rightarrow> collection_name \<Rightarrow> document_id \<Rightarrow> doc option \<Rightarrow>
    revision \<Rightarrow> oplog_entry \<Rightarrow> bool" where
  "local_entry D node oper c i patch r e \<longleftrightarrow>
     entry_origin e = Local \<and> entry_applied e \<and>
     mut_op (entry_mutation e) = oper \<and> mut_collection (entry_mutation e) = c \<and>
     mut_doc_id (entry_mutation e) = i \<and> mut_patch (entry_mutation e) = patch \<and>
     mut_rev (entry_mutation e) = r \<and> md_source (mut_metadata (entry_mutation e)) = node \<and>
     mut_write_id (entry_mutation e) = write_id_of D (entry_mutation e) \<and>
     validate_metadata (entry_mutation e) = Inr ()"

lemma write_id_of_ignores [simp]: "write_id_of D (m\<lparr>mut_write_id := w\<rparr>) = write_id_of D m"
  by (simp add: write_id_of_def)

lemma local_mutation_simps [simp]:
  "mut_op (local_mutation D node oper c i patch r t1 t2 t3) = oper"
  "mut_collection (local_mutation D node oper c i patch r t1 t2 t3) = c"
  "mut_doc_id (local_mutation D node oper c i patch r t1 t2 t3) = i"
  "mut_patch (local_mutation D node oper c i patch r t1 t2 t3) = patch"
  "mut_rev (local_mutation D node oper c i patch r t1 t2 t3) = r"
  "md_source (mut_metadata (local_mutation D node oper c i patch r t1 t2 t3)) = node"
  "mut_write_id (local_mutation D node oper c i patch r t1 t2 t3) =
     write_id_of D (local_mutation D node oper c i patch r t1 t2 t3)"
  by (simp_all add: local_mutation_def Let_def write_id_of_def)

lemma log_local_frame:
  "log_local D L oper c i patch r st = (q, st') \<Longrightarrow>
     en_storage st' = en_storage st \<and> en_node_id st' = en_node_id st \<and> en_config st' = en_config st \<and>
     en_metrics st' = en_metrics st \<and> en_applied_write_ids st' = en_applied_write_ids st"
  by (auto simp: log_local_def bind_op_def from_world_Inr lift_op_def Let_def oplog_append_eq
      split: prod.splits sum.splits)

lemma map_err_Inr [simp]: "map_err f m = Inr x \<longleftrightarrow> m = Inr x"
  by (cases m) simp_all

lemma log_local_ok:
  assumes "log_local D L oper c i patch r st = (Inr n, st')"
  shows "\<exists>e. local_entry D (en_node_id st) oper c i patch r e \<and> op_append L e (en_oplog st) = (Inr n, en_oplog st')"
proof -
  from assms obtain t1 t2 t3 t4 where
    "validate_metadata (local_mutation D (en_node_id st) oper c i patch r t1 t2 t3) = Inr ()"
    "op_append L \<lparr>entry_seq = 0, entry_timestamp = t4,
       entry_mutation = local_mutation D (en_node_id st) oper c i patch r t1 t2 t3,
       entry_origin = Local, entry_applied = True, entry_snapshot_anchor = None\<rparr> (en_oplog st) =
     (Inr n, en_oplog st')"
    by (auto simp: log_local_def bind_op_Inr from_world_Inr lift_op_def Let_def oplog_append_eq)
  then show ?thesis by (intro exI conjI) (auto simp: local_entry_def)
qed

text \<open>The document a local write stores.\<close>

definition stamped :: "doc \<Rightarrow> revision \<Rightarrow> millis \<Rightarrow> string \<Rightarrow> doc" where
  "stamped d r t node = al_put (al_put (al_put d ''_rev'' (String r)) ''_updated_at'' (DateTime t))
     ''_source_node'' (String node)"

lemma commit_local_ok:
  assumes "commit_local D E L oper c i d patch r tally start x st = (Inr y, st')"
  shows "y = x \<and> se_put E (en_storage st) c i d = (Inr (), en_storage st') \<and>
    (\<exists>n e. local_entry D (en_node_id st) oper c i patch r e \<and>
      op_append L e (en_oplog st) = (Inr n, en_oplog st'))"
proof -
  from assms obtain s n st1 st2 where
    steps: "se_put E (en_storage st) c i d = (Inr (), s)"
      "log_local D L oper c i patch r (st\<lparr>en_storage := s\<rparr>) = (Inr n, st1)"
      "record_latency start (st1\<lparr>en_metrics := tally (en_metrics st1)\<rparr>) = (Inr (), st')" "y = x"
    by (auto simp: commit_local_def bind_op_Inr storage_put_eq record_op_Inr)
  from log_local_ok [OF steps(2)] log_local_frame [OF steps(2)] record_latency_frame [OF steps(3)]
    steps(1,4) show ?thesis by auto
qed

lemmas op_steps = bind_op_Inr from_world_Inr Let_def lift_op_def return_op_def

lemma insert_one_commits:
  assumes "insert_one D E L c d0 st = (Inr i, st')"
  shows "\<exists>j r t w start. (\<forall>v. al_get d0 ''_id'' = Some v \<longrightarrow> j = v) \<and>
    commit_local D E L Insert c j (al_del (stamped (al_put d0 ''_id'' j) r t (en_node_id st)) ''_deleted'')
      (Some (al_del (stamped (al_put d0 ''_id'' j) r t (en_node_id st)) ''_deleted'')) r
      record_insert start j (st\<lparr>en_world := w\<rparr>) = (Inr i, st')"
proof (cases "al_get d0 ''_id''")
  case (Some v)
  with assms show ?thesis
    by (clarsimp simp: insert_one_def op_steps stamped_def document_id_from_bson_def)
      (intro exI, assumption)
next
  case None
  with assms show ?thesis
    by (clarsimp simp: insert_one_def op_steps stamped_def) (intro exI, assumption)
qed

lemma insert_one_ok:
  assumes "insert_one D E L c d0 st = (Inr i, st')"
  shows "\<exists>r t n e d. d = al_del (stamped (al_put d0 ''_id'' i) r t (en_node_id st)) ''_deleted'' \<and>
    (\<forall>v. al_get d0 ''_id'' = Some v \<longrightarrow> i = v) \<and>
    se_put E (en_storage st) c i d = (Inr (), en_storage st') \<and>
    local_entry D (en_node_id st) Insert c i (Some d) r e \<and>
    op_append L e (en_oplog st) = (Inr n, en_oplog st')"
proof -
  obtain j r t w start where "\<forall>v. al_get d0 ''_id'' = Some v \<longrightarrow> j = v"
    and commit: "commit_local D E L Insert c j
      (al_del (stamped (al_put d0 ''_id'' j) r t (en_node_id st)) ''_deleted'')
      (Some (al_del (stamped (al_put d0 ''_id'' j) r t (en_node_id st)) ''_deleted'')) r
      record_insert start j (st\<lparr>en_world := w\<rparr>) = (Inr i, st')"
    using insert_one_commits [OF assms] by blast
  with commit_local_ok [OF commit] show ?thesis by auto
qed

lemma update_one_ok:
  assumes "update_one D E L c i u st = (Inr b, st')"
  shows "(\<not> b \<and> (\<exists>m. se_get E (en_storage st) c i = Inr m \<and> (\<forall>d. m = Some d \<longrightarrow> is_deleted d)) \<and>
      en_storage st' = en_storage st \<and> en_oplog st' = en_oplog st) \<or>
    (b \<and> (\<exists>d0 d1 r t n e. se_get E (en_storage st) c i = Inr (Some d0) \<and> \<not> is_deleted d0 \<and>
      apply_update d0 u = Inr d1 \<and>
      se_put E (en_storage st) c i (stamped d1 r t (en_node_id st)) = (Inr (), en_storage st') \<and>
      local_entry D (en_node_id st) Update c i (Some (stamped d1 r t (en_node_id st))) r e \<and>
      op_append L e (en_oplog st) = (Inr n, en_oplog st')))"
proof -
  from assms obtain m where m: "se_get E (en_storage st) c i = Inr m"
    by (auto simp: update_one_def op_steps storage_get_eq)
  show ?thesis
  proof (cases "\<exists>d0. m = Some d0 \<and> \<not> is_deleted d0")
    case False
    with assms m show ?thesis
      by (auto simp: update_one_def op_steps storage_get_eq split: option.splits if_splits)
  next
    case True
    then obtain d0 where d0: "m = Some d0" "\<not> is_deleted d0" by blast
    from assms m d0 have "\<exists>d1 r t w start. apply_update d0 u = Inr d1 \<and>
      commit_local D E L Update c i (stamped d1 r t (en_node_id st))
        (Some (stamped d1 r t (en_node_id st))) r record_update start True (st\<lparr>en_world := w\<rparr>) = (Inr b, st')"
      by (clarsimp simp: update_one_def op_steps storage_get_eq stamped_def) (intro exI conjI, assumption)
    then obtain d1 r t w start where u: "apply_update d0 u = Inr d1"
      and commit: "commit_local D E L Update c i (stamped d1 r t (en_node_id st))
        (Some (stamped d1 r t (en_node_id st))) r record_update start True (st\<lparr>en_world := w\<rparr>) = (Inr b, st')"
      by blast
    with commit_local_ok [OF commit] m d0 show ?thesis by auto
  qed
qed

lemma delete_one_ok:
  assumes "delete_one D E L c i st = (Inr b, st')"
  shows "(\<not> b \<and> se_get E (en_storage st) c i = Inr None \<and>
      en_storage st' = en_storage st \<and> en_oplog st' = en_oplog st) \<or>
    (b \<and> (\<exists>d0 r t n e. se_get E (en_storage st) c i = Inr (Some d0) \<and>
      se_put E (en_storage st) c i (stamped (al_put d0 ''_deleted'' (Boolean True)) r t (en_node_id st)) =
        (Inr (), en_storage st') \<and>
      local_entry D (en_node_id st) Delete c i None r e \<and>
      op_append L e (en_oplog st) = (Inr n, en_oplog st')))"
proof -
  from assms obtain m where m: "se_get E (en_storage st) c i = Inr m"
    by (auto simp: delete_one_def op_steps storage_get_eq)
  show ?thesis
  proof (cases m)
    case None
    with assms m show ?thesis by (auto simp: delete_one_def op_steps storage_get_eq)
  next
    case (Some d0)
    from assms m Some have "\<exists>r t w start.
      commit_local D E L Delete c i (stamped (al_put d0 ''_deleted'' (Boolean True)) r t (en_node_id st))
        None r record_delete start True (st\<lparr>en_world := w\<rparr>) = (Inr b, st')"
      by (clarsimp simp: delete_one_def op_steps storage_get_eq stamped_def) (intro exI, assumption)
    then obtain r t w start where commit:
      "commit_local D E L Delete c i (stamped (al_put d0 ''_deleted'' (Boolean True)) r t (en_node_id st))
        None r record_delete start True (st\<lparr>en_world := w\<rparr>) = (Inr b, st')" by blast
    with commit_local_ok [OF commit] m Some show ?thesis by auto
  qed
qed

section \<open>Effects on storage\<close>

lemma find_one_result:
  "fst (find_one E c i st) = try_r (se_get E (en_storage st) c i) (\<lambda>m. Inr (case m of
     Some d \<Rightarrow> if is_deleted d then None else Some \<lparr>doc_data = d\<rparr> | None \<Rightarrow> None))"
  by (cases "se_get E (en_storage st) c i")
    (simp_all add: find_one_def bind_op_def record_op_def storage_get_def return_op_def)

definition reserved :: "string set" where
  "reserved = {''_id'', ''_rev'', ''_updated_at'', ''_source_node'', ''_deleted''}"

lemma stamped_get:
  "al_get (stamped d r t node) k =
     (if k = ''_rev'' then Some (String r) else if k = ''_updated_at'' then Some (DateTime t)
      else if k = ''_source_node'' then Some (String node) else al_get d k)"
  by (auto simp: stamped_def)

lemma al_wf_stamped [simp]: "al_wf d \<Longrightarrow> al_wf (stamped d r t node)"
  by (simp add: stamped_def al_wf_put)

lemma is_deleted_iff: "is_deleted d \<longleftrightarrow> al_get d ''_deleted'' = Some (Boolean True)"
proof -
  have "as_bool v = Some b \<longleftrightarrow> v = Boolean b" for v b by (cases v) auto
  then show ?thesis by (auto simp: is_deleted_def get_as_def unwrap_or_def bind_eq_Some_conv split: option.splits)
qed

context storage_laws
begin

lemma insert_one_stores:
  assumes inv: "inv (en_storage st)" and c: "name_ok c" and wf: "al_wf d0"
    and ins: "insert_one D E L c d0 st = (Inr i, st')"
  shows "\<exists>d r n e. inv (en_storage st') \<and>
    fst (find_one E c i st') = Inr (Some \<lparr>doc_data = d\<rparr>) \<and>
    al_get d ''_id'' = Some i \<and> al_get d ''_rev'' = Some (String r) \<and>
    (\<forall>k. k \<notin> reserved \<longrightarrow> al_get d k = al_get d0 k) \<and>
    local_entry D (en_node_id st) Insert c i (Some d) r e \<and>
    op_append L e (en_oplog st) = (Inr n, en_oplog st') \<and>
    (\<forall>c' j. name_ok c' \<longrightarrow> c' \<noteq> c \<or> idtext j \<noteq> idtext i \<longrightarrow>
      se_get E (en_storage st') c' j = se_get E (en_storage st) c' j)"
proof -
  obtain r t n e d where d: "d = al_del (stamped (al_put d0 ''_id'' i) r t (en_node_id st)) ''_deleted''"
    and put: "se_put E (en_storage st) c i d = (Inr (), en_storage st')"
    and log: "local_entry D (en_node_id st) Insert c i (Some d) r e"
      "op_append L e (en_oplog st) = (Inr n, en_oplog st')"
    using insert_one_ok [OF ins] by blast
  have get: "al_get d k = (if k = ''_deleted'' then None
      else al_get (stamped (al_put d0 ''_id'' i) r t (en_node_id st)) k)" for k
    unfolding d using wf by (simp add: al_get_del al_wf_put)
  have "\<not> is_deleted d" by (simp add: is_deleted_iff get)
  moreover have "se_get E (en_storage st') c i = Inr (Some d)"
    using put_get [OF inv c c put] by simp
  moreover have "se_get E (en_storage st') c' j = se_get E (en_storage st) c' j"
    if "name_ok c'" "c' \<noteq> c \<or> idtext j \<noteq> idtext i" for c' j
    using put_get [OF inv c that(1) put] that(2) by auto
  ultimately show ?thesis
    using log put_inv [OF inv c put]
    by (intro exI [of _ d] exI [of _ r] exI [of _ n] exI [of _ e])
      (auto simp: find_one_result get stamped_get reserved_def)
qed

lemma delete_one_tombstones:
  assumes inv: "inv (en_storage st)" and c: "name_ok c"
    and del: "delete_one D E L c i st = (Inr b, st')"
  shows "b = (se_get E (en_storage st) c i \<noteq> Inr None) \<and> inv (en_storage st') \<and>
    fst (find_one E c i st') = Inr None \<and>
    (\<forall>d0. se_get E (en_storage st) c i = Inr (Some d0) \<longrightarrow> (\<exists>d. se_get E (en_storage st') c i = Inr (Some d) \<and>
      is_deleted d \<and> (\<forall>k. k \<notin> reserved \<longrightarrow> al_get d k = al_get d0 k))) \<and>
    (\<forall>c' j. name_ok c' \<longrightarrow> c' \<noteq> c \<or> idtext j \<noteq> idtext i \<longrightarrow>
      se_get E (en_storage st') c' j = se_get E (en_storage st) c' j)"
  using delete_one_ok [OF del]
proof (elim disjE conjE exE)
  assume "\<not> b" "se_get E (en_storage st) c i = Inr None" "en_storage st' = en_storage st"
  then show ?thesis using inv by (simp add: find_one_result)
next
  fix d0 r t n e
  let ?d = "stamped (al_put d0 ''_deleted'' (Boolean True)) r t (en_node_id st)"
  assume b: b and d0: "se_get E (en_storage st) c i = Inr (Some d0)"
    and put: "se_put E (en_storage st) c i ?d = (Inr (), en_storage st')"
  have "is_deleted ?d" by (simp add: is_deleted_iff stamped_get)
  moreover have "se_get E (en_storage st') c i = Inr (Some ?d)"
    using put_get [OF inv c c put] by simp
  moreover have "se_get E (en_storage st') c' j = se_get E (en_storage st) c' j"
    if "name_ok c'" "c' \<noteq> c \<or> idtext j \<noteq> idtext i" for c' j
    using put_get [OF inv c that(1) put] that(2) by auto
  ultimately show ?thesis
    using b d0 put_inv [OF inv c put]
    by (auto simp: find_one_result stamped_get reserved_def)
qed

lemma update_one_stores:
  assumes inv: "inv (en_storage st)" and c: "name_ok c"
    and upd: "update_one D E L c i u st = (Inr b, st')"
  shows "b = (\<exists>d. se_get E (en_storage st) c i = Inr (Some d) \<and> \<not> is_deleted d) \<and> inv (en_storage st') \<and>
    (b \<longrightarrow> (\<exists>d0 d1 d r n e. se_get E (en_storage st) c i = Inr (Some d0) \<and> apply_update d0 u = Inr d1 \<and>
      se_get E (en_storage st') c i = Inr (Some d) \<and> al_get d ''_rev'' = Some (String r) \<and>
      (\<forall>k. k \<notin> {''_rev'', ''_updated_at'', ''_source_node''} \<longrightarrow> al_get d k = al_get d1 k) \<and>
      local_entry D (en_node_id st) Update c i (Some d) r e \<and>
      op_append L e (en_oplog st) = (Inr n, en_oplog st'))) \<and>
    (\<not> b \<longrightarrow> en_storage st' = en_storage st \<and> en_oplog st' = en_oplog st)"
  using update_one_ok [OF upd]
proof (elim disjE conjE exE)
  fix m
  assume "\<not> b" "se_get E (en_storage st) c i = Inr m" "\<forall>d. m = Some d \<longrightarrow> is_deleted d"
    "en_storage st' = en_storage st" "en_oplog st' = en_oplog st"
  then show ?thesis using inv by auto
next
  fix d0 d1 r t n e
  let ?d = "stamped d1 r t (en_node_id st)"
  assume b: b and d0: "se_get E (en_storage st) c i = Inr (Some d0)" "\<not> is_deleted d0"
    and u: "apply_update d0 u = Inr d1"
    and put: "se_put E (en_storage st) c i ?d = (Inr (), en_storage st')"
    and log: "local_entry D (en_node_id st) Update c i (Some ?d) r e"
      "op_append L e (en_oplog st) = (Inr n, en_oplog st')"
  have "se_get E (en_storage st') c i = Inr (Some ?d)"
    using put_get [OF inv c c put] by simp
  with b d0 u log put_inv [OF inv c put] show ?thesis
    by (auto simp: stamped_get intro!: exI [of _ ?d] exI [of _ r])
qed

end

section \<open>Queries\<close>

definition live :: "deps \<Rightarrow> doc \<Rightarrow> doc \<Rightarrow> bool" where
  "live D flt d \<longleftrightarrow> \<not> is_deleted d \<and> filter_holds D d flt"

definition limited :: "nat option \<Rightarrow> 'a list \<Rightarrow> 'a list" where
  "limited limit xs = (case limit of Some n \<Rightarrow> take n xs | None \<Rightarrow> xs)"

lemma filtered_iter_ok:
  assumes "\<forall>d\<in>set ds. \<not> is_deleted d \<longrightarrow> filter_ok D d flt"
  shows "filtered_iter D flt False (map Inr ds) = map Inr (filter (live D flt) ds)"
  using assms
proof (induction ds)
  case (Cons d ds)
  show ?case
  proof (cases "is_deleted d")
    case False
    then have "matches D d flt = Inr (filter_holds D d flt)"
      using Cons.prems matches_complete(1) matches_sound(1) by fastforce
    with Cons False show ?thesis by (auto simp: live_def split: bool.splits)
  qed (use Cons in \<open>auto simp: live_def\<close>)
qed simp

lemma filtered_iter_all: "filtered_iter D [] True (map Inr ds) = map Inr ds"
  by (induction ds) simp_all

lemma find_stream_done:
  "n \<le> emitted \<Longrightarrow> find_stream D flt p sv (Some n) skipped emitted rows = []"
  by (cases rows) simp_all

lemma find_stream_ok:
  assumes "\<forall>d\<in>set ds. matches D d flt = Inr True"
  shows "find_stream D flt p sv limit skipped emitted (map Inr ds) =
    map (Inr \<circ> project_or_same p)
      (limited (map_option (\<lambda>n. n - emitted) limit) (drop (sv - skipped) ds))"
  using assms
proof (induction ds arbitrary: skipped emitted)
  case (Cons d ds)
  show ?case
  proof (cases "\<exists>n. limit = Some n \<and> n \<le> emitted")
    case True
    then show ?thesis by (auto simp: find_stream_done limited_def)
  next
    case open_limit: False
    show ?thesis
    proof (cases "skipped < sv")
      case True
      with Cons open_limit show ?thesis
        by (cases limit) (auto simp: limited_def Suc_diff_Suc [symmetric])
    next
      case False
      with Cons open_limit show ?thesis
        by (cases limit) (auto simp: limited_def Suc_diff_Suc [symmetric] not_le)
    qed
  qed
qed (auto simp: limited_def split: option.splits)

definition doc_key :: "deps \<Rightarrow> string \<Rightarrow> doc \<Rightarrow> sort_key" where
  "doc_key D field d = unwrap_or (ok_of (sort_key D d field)) KNull"

interpretation docs_order: total_comparator "sort_docs_cmp D field desc" "\<lambda>d. key_ok (doc_key D field d)"
  for D field desc
proof unfold_locales
  fix x y z
  assume x: "key_ok (doc_key D field x)"
  show "sort_docs_cmp D field desc x x = Equal"
    using key_order.cmp_refl [OF x] by (simp add: sort_docs_cmp_def doc_key_def Let_def)
  assume y: "key_ok (doc_key D field y)"
  show "sort_docs_cmp D field desc y x = reverse_ord (sort_docs_cmp D field desc x y)"
    using key_order.cmp_swap [OF x y] by (simp add: sort_docs_cmp_def doc_key_def Let_def)
  assume z: "key_ok (doc_key D field z)"
    and le: "sort_docs_cmp D field desc x y \<noteq> Greater" "sort_docs_cmp D field desc y z \<noteq> Greater"
  show "sort_docs_cmp D field desc x z \<noteq> Greater"
  proof (cases desc)
    case False
    with le key_order.cmp_trans [OF x y z] show ?thesis
      by (simp add: sort_docs_cmp_def doc_key_def Let_def)
  next
    case True
    have swap: "sort_key_cmp (doc_key D field b) (doc_key D field a) =
        reverse_ord (sort_key_cmp (doc_key D field a) (doc_key D field b))"
      if "key_ok (doc_key D field a)" "key_ok (doc_key D field b)" for a b
      by (rule key_order.cmp_swap [OF that])
    have "sort_key_cmp (doc_key D field z) (doc_key D field y) \<noteq> Greater"
      "sort_key_cmp (doc_key D field y) (doc_key D field x) \<noteq> Greater"
      using True le swap [OF x y] swap [OF y z]
      by (simp_all add: sort_docs_cmp_def doc_key_def [symmetric] Let_def)
    then have "sort_key_cmp (doc_key D field z) (doc_key D field x) \<noteq> Greater"
      by (rule key_order.cmp_trans [OF z y x])
    with True swap [OF x z] show ?thesis
      by (simp add: sort_docs_cmp_def doc_key_def [symmetric] Let_def)
  qed
qed

lemma find_docs_ok:
  assumes scan: "se_scan E (en_storage st) c = Inr (map Inr ds)"
    and ok: "\<forall>d\<in>set ds. \<not> is_deleted d \<longrightarrow> filter_ok D d flt"
  shows "find_docs D E st c flt p None skip limit =
      Inr (map (Inr \<circ> project_or_same p) (limited limit (drop (unwrap_or skip 0) (filter (live D flt) ds))))"
    and "find_docs D E st c flt p (Some (field, desc)) skip limit =
      Inr (map (Inr \<circ> project_or_same p) (limited limit (drop (unwrap_or skip 0)
        (sort_by (sort_docs_cmp D field desc) (filter (live D flt) ds)))))"
proof -
  have "matches D d flt = Inr True" if "d \<in> set (filter (live D flt) ds)" for d
    using that ok matches_complete(1) matches_sound(1) by (fastforce simp: live_def)
  then show "find_docs D E st c flt p None skip limit =
      Inr (map (Inr \<circ> project_or_same p) (limited limit (drop (unwrap_or skip 0) (filter (live D flt) ds))))"
    using scan find_stream_ok [of "filter (live D flt) ds" D flt p "unwrap_or skip 0" limit 0 0]
    by (simp add: find_docs_def filtered_iter_ok [OF ok] option.map_ident)
  show "find_docs D E st c flt p (Some (field, desc)) skip limit =
      Inr (map (Inr \<circ> project_or_same p) (limited limit (drop (unwrap_or skip 0)
        (sort_by (sort_docs_cmp D field desc) (filter (live D flt) ds)))))"
    using scan
    by (simp add: find_docs_def filtered_iter_ok [OF ok] Let_def limited_def split: option.splits)
qed

section \<open>A closed instance\<close>

definition sample_world_at :: "nat \<Rightarrow> u16 \<Rightarrow> world" where
  "sample_world_at n k = sample_world\<lparr>w_tick := n, w_counter := k\<rparr>"

lemma sample_world_steps [simp]:
  "instant_now (sample_world_at n k) = (n, sample_world_at (Suc n) k)"
  "datetime_now (sample_world_at n k) = (1000 + int n, sample_world_at (Suc n) k)"
  "revision_now D node (sample_world_at n k) =
     (revision_new D (1000 + of_nat n) k node, sample_world_at (Suc n) (k + 1))"
  by (simp_all add: sample_world_at_def instant_now_def datetime_now_def revision_now_def unix_now_def
      fetch_add_counter_def sample_world_def)

definition sample_engine :: "(memory_storage, null_oplog) engine" where
  "sample_engine = \<lparr>en_storage = memory_new, en_oplog = null_new, en_node_id = ''n'',
     en_metrics = metrics_default, en_config = default_config, en_applied_write_ids = {},
     en_world = sample_world_at 0 0\<rparr>"

lemma sample_engine_simps [simp]:
  "en_storage sample_engine = memory_new" "en_oplog sample_engine = null_new"
  "en_node_id sample_engine = ''n''" "en_config sample_engine = default_config"
  "en_world sample_engine = sample_world_at 0 0" "en_applied_write_ids sample_engine = {}"
  by (simp_all add: sample_engine_def)

lemma sample_revision: "revision_new (sample_deps ds) t n node = revision_new (sample_deps []) t n node"
  by (simp add: revision_new_def short_node_id_def)

abbreviation sample_doc :: doc where
  "sample_doc \<equiv> [(''_id'', String ''x''), (''a'', Int32 1)]"

definition sample_stored :: doc where
  "sample_stored = al_del (stamped (al_put sample_doc ''_id'' (String ''x''))
     (revision_new (sample_deps []) 1001 0 ''n'') 1002 ''n'') ''_deleted''"

abbreviation sample_engine_deps :: deps where
  "sample_engine_deps \<equiv> sample_deps [sample_doc, sample_stored]"

lemma sample_writes:
  "to_writer sample_engine_deps sample_doc = Inr [0]"
  "\<exists>b. to_writer sample_engine_deps sample_stored = Inr [b]"
  by (simp_all add: table_writer_def)

lemma sample_inv: "memory_inv (sample_deps ds) (en_storage sample_engine)"
  by (simp add: memory_inv_new)

lemma from_world_eq: "from_world f st = (Inr (fst (f (en_world st))), st\<lparr>en_world := snd (f (en_world st))\<rparr>)"
  by (simp add: from_world_def case_prod_beta)

lemma local_valid:
  assumes "node \<noteq> []" "c \<noteq> []" "document_id_to_string D i \<noteq> []" "t2 \<le> t3"
  shows "validate_metadata (local_mutation D node oper c i patch r t1 t2 t3) = Inr ()"
  using assms by (simp add: validate_metadata_ok metadata_valid_def local_mutation_def Let_def)

lemma sample_insert:
  "\<exists>st. insert_one sample_engine_deps (memory_engine sample_engine_deps) null_oplog_vt ''c'' sample_doc
     sample_engine = (Inr (String ''x''), st)"
proof -
  obtain b where b: "to_writer sample_engine_deps sample_stored = Inr [b]" using sample_writes(2) by blast
  have stored: "al_del (al_put (al_put (al_put (al_put sample_doc ''_id'' (String ''x'')) ''_rev''
      (String (revision_new sample_engine_deps 1001 0 ''n''))) ''_updated_at'' (DateTime 1002))
      ''_source_node'' (String ''n'')) ''_deleted'' = sample_stored"
    by (subst sample_revision) (simp only: sample_stored_def stamped_def)
  have size: "validate_document_size sample_engine_deps default_config sample_stored = Inr ()"
    "validate_document_size sample_engine_deps default_config sample_doc = Inr ()"
    using b sample_writes(1) by (simp_all add: validate_document_size_def default_config_def del: sample_deps_simps)
  obtain s where put: "memory_put sample_engine_deps memory_new ''c'' (String ''x'') sample_stored = (Inr (), s)"
    using b by (simp add: memory_put_def Let_def del: sample_deps_simps)
  have "document_id_to_string sample_engine_deps (String ''x'') \<noteq> []"
    by (simp add: document_id_to_string_def)
  then show ?thesis
    using stored size put
    by (simp add: insert_one_def from_world_eq commit_local_def storage_put_def
        log_local_def local_valid Let_def
        document_id_from_bson_def oplog_append_def record_op_def record_latency_def null_append_def
        del: sample_deps_simps)
qed

section \<open>Properties\<close>

text \<open>
  C10: a successful insert is durable, logged and visible: on any back end that keeps the storage
  laws, the document is stored under its identifier with the user's fields, a fresh revision and no
  tombstone, \<open>find_one\<close> returns exactly that document, the log received one local entry with it as
  its patch and a write identifier derived from it, and no other document changed.
\<close>

theorem insert_then_find:
  assumes "storage_laws E ok name_ok idtext" "ok (en_storage st)" "name_ok c" "al_wf d0"
    and "insert_one D E L c d0 st = (Inr i, st')"
  shows "\<exists>d r n e. ok (en_storage st') \<and>
    fst (find_one E c i st') = Inr (Some \<lparr>doc_data = d\<rparr>) \<and>
    al_get d ''_id'' = Some i \<and> al_get d ''_rev'' = Some (String r) \<and>
    (\<forall>k. k \<notin> reserved \<longrightarrow> al_get d k = al_get d0 k) \<and>
    local_entry D (en_node_id st) Insert c i (Some d) r e \<and>
    op_append L e (en_oplog st) = (Inr n, en_oplog st') \<and>
    (\<forall>c' j. name_ok c' \<longrightarrow> c' \<noteq> c \<or> idtext j \<noteq> idtext i \<longrightarrow>
      se_get E (en_storage st') c' j = se_get E (en_storage st) c' j)"
  by (rule storage_laws.insert_one_stores [OF assms])

theorem insert_then_find_witness:
  "\<exists>st d. insert_one sample_engine_deps (memory_engine sample_engine_deps) null_oplog_vt ''c'' sample_doc
       sample_engine = (Inr (String ''x''), st) \<and>
     fst (find_one (memory_engine sample_engine_deps) ''c'' (String ''x'') st) = Inr (Some \<lparr>doc_data = d\<rparr>) \<and>
     al_get d ''a'' = Some (Int32 1)"
proof -
  obtain st where ins: "insert_one sample_engine_deps (memory_engine sample_engine_deps) null_oplog_vt ''c''
      sample_doc sample_engine = (Inr (String ''x''), st)" using sample_insert by blast
  have "al_wf sample_doc" by (simp add: al_wf_def)
  from insert_then_find [OF mem.storage_laws_axioms sample_inv TrueI this ins]
  obtain d where
    "fst (find_one (memory_engine sample_engine_deps) ''c'' (String ''x'') st) = Inr (Some \<lparr>doc_data = d\<rparr>)"
    "\<forall>k. k \<notin> reserved \<longrightarrow> al_get d k = al_get sample_doc k" by blast
  with ins show ?thesis by (auto simp: reserved_def)
qed

text \<open>
  C5: \<open>find\<close> is filter, sort, skip, limit, project: on a collection whose live documents the filter
  can judge, the cursor yields exactly the live matching documents of the collection, each identifier's
  once, in the order of the scan or stably sorted by the sort keys (ascending or descending), without the first \<open>skip\<close>, at most
  \<open>limit\<close> of them, each projected; a sorted result is ordered when no key is NaN.
\<close>

theorem find_is_filter_sort_skip_limit:
  assumes "storage_scans E ok name_ok idtext" "ok (en_storage st)" "name_ok c"
    and "\<forall>i d. se_get E (en_storage st) c i = Inr (Some d) \<longrightarrow> \<not> is_deleted d \<longrightarrow> filter_ok D d flt"
  shows "\<exists>ds. scanned_once (se_get E (en_storage st) c) idtext ds \<and>
    find_docs D E st c flt p None skip limit = Inr (map (Inr \<circ> project_or_same p)
      (limited limit (drop (unwrap_or skip 0) (filter (live D flt) ds)))) \<and>
    find_docs D E st c flt p (Some (field, desc)) skip limit = Inr (map (Inr \<circ> project_or_same p)
      (limited limit (drop (unwrap_or skip 0)
        (sort_by (sort_docs_cmp D field desc) (filter (live D flt) ds))))) \<and>
    ((\<forall>d\<in>set ds. key_ok (doc_key D field d)) \<longrightarrow>
      sorted_wrt (\<lambda>a b. sort_docs_cmp D field desc a b \<noteq> Greater)
        (sort_by (sort_docs_cmp D field desc) (filter (live D flt) ds)))"
proof -
  obtain ds where scan: "se_scan E (en_storage st) c = Inr (map Inr ds)"
    using storage_laws.scan_get [OF storage_scans.axioms(1) [OF assms(1)] assms(2,3)] by blast
  have ds: "scanned_once (se_get E (en_storage st) c) idtext ds"
    by (rule storage_scans.scan_once [OF assms(1-3) scan])
  have ok: "\<forall>d\<in>set ds. \<not> is_deleted d \<longrightarrow> filter_ok D d flt"
    using assms(4) scanned_once_found [OF ds] by blast
  have "sorted_wrt (docs_order.le D field desc) (sort_by (sort_docs_cmp D field desc) (filter (live D flt) ds))"
    if "\<forall>d\<in>set ds. key_ok (doc_key D field d)"
    using that by (intro docs_order.sorted_sort_by) simp
  then show ?thesis
    using ds find_docs_ok [OF scan ok]
    by (intro exI [of _ ds]) (simp add: docs_order.le_def [abs_def])
qed

theorem find_is_filter_sort_skip_limit_witness:
  "find_docs (sample_deps []) (memory_engine (sample_deps [])) sample_engine ''c'' [] None None None None = Inr []"
proof -
  have "memory_get (sample_deps []) (en_storage sample_engine) ''c'' i = Inr None" for i
    by (simp add: memory_get_def memory_new_def)
  then have "ds = []" if "scanned_once (memory_get (sample_deps []) (en_storage sample_engine) ''c'') idtext ds" for idtext ds
    using scanned_once_found [OF that, of "hd ds"] by (cases ds) auto
  with find_is_filter_sort_skip_limit [OF mem_scans.storage_scans_axioms [of "sample_deps []"] sample_inv TrueI,
      where c = "''c''" and D = "sample_deps []" and flt = "[]" and p = None and skip = None and limit = None]
  show ?thesis by (fastforce simp: limited_def)
qed

text \<open>
  A failed insert may have stored the document: with an empty collection name the metadata
  check comes after the write, so the insert returns an error, the log is unchanged, and the storage
  is the one in which the document was put.
\<close>

theorem failed_insert_leaves_document:
  assumes "\<forall>d. validate_document_size D (en_config st) d = Inr ()"
    and "\<forall>i d. \<exists>s. se_put E (en_storage st) [] i d = (Inr (), s)"
  shows "\<exists>e st' i d. insert_one D E L [] d0 st = (Inl e, st') \<and> en_oplog st' = en_oplog st \<and>
    se_put E (en_storage st) [] i d = (Inr (), en_storage st') \<and>
    al_get d ''_rev'' \<noteq> None \<and> (\<forall>k. k \<notin> reserved \<longrightarrow> al_get d k = al_get d0 k)"
proof -
  have invalid: "\<exists>e. validate_metadata (local_mutation D node oper [] i patch r t1 t2 t3) = Inl e"
    for node oper i patch r t1 t2 t3
    by (cases rule: validate_metadata_cases [of "local_mutation D node oper [] i patch r t1 t2 t3"])
      (auto simp: metadata_valid_def local_mutation_def Let_def)
  have commit: "\<exists>e st'. commit_local D E L Insert [] i d p r tally start x s = (Inl e, st') \<and>
      en_oplog st' = en_oplog st \<and> se_put E (en_storage st) [] i d = (Inr (), en_storage st')"
    if "en_storage s = en_storage st" "en_oplog s = en_oplog st"
    for i d p r tally start s and x :: document_id
  proof -
    obtain s1 where put: "se_put E (en_storage st) [] i d = (Inr (), s1)" using assms(2) by blast
    obtain e where "validate_metadata (local_mutation D (en_node_id s) Insert [] i p r
        (fst (datetime_now (en_world s)))
        (fst (datetime_now (snd (datetime_now (en_world s)))))
        (fst (datetime_now (snd (datetime_now (snd (datetime_now (en_world s)))))))) = Inl e"
      using invalid by blast
    with put that show ?thesis
      by (simp add: commit_local_def storage_put_def log_local_def from_world_eq Let_def)
  qed
  have get: "al_get (al_del (stamped (al_put d0 ''_id'' i) r t node) ''_deleted'') k =
      al_get (stamped (al_put d0 ''_id'' i) r t node) k" if "k \<noteq> ''_deleted''" for i r t node k
    using that by simp
  have "\<exists>i r t w start. insert_one D E L [] d0 st =
      commit_local D E L Insert [] i (al_del (stamped (al_put d0 ''_id'' i) r t (en_node_id st)) ''_deleted'')
        (Some (al_del (stamped (al_put d0 ''_id'' i) r t (en_node_id st)) ''_deleted'')) r record_insert start i
        (st\<lparr>en_world := w\<rparr>)"
    by (cases "al_get d0 ''_id''")
      (simp_all add: insert_one_def from_world_eq assms(1) Let_def stamped_def, blast+)
  then obtain i r t w start where ins: "insert_one D E L [] d0 st =
      commit_local D E L Insert [] i (al_del (stamped (al_put d0 ''_id'' i) r t (en_node_id st)) ''_deleted'')
        (Some (al_del (stamped (al_put d0 ''_id'' i) r t (en_node_id st)) ''_deleted'')) r record_insert start i
        (st\<lparr>en_world := w\<rparr>)" by blast
  obtain e st' where "insert_one D E L [] d0 st = (Inl e, st')" "en_oplog st' = en_oplog st"
    "se_put E (en_storage st) [] i (al_del (stamped (al_put d0 ''_id'' i) r t (en_node_id st)) ''_deleted'') =
      (Inr (), en_storage st')"
    unfolding ins using commit [of "st\<lparr>en_world := w\<rparr>"] by fastforce
  then show ?thesis
    by (intro exI [of _ e] exI [of _ st'] exI [of _ i] exI [of _ "al_del (stamped (al_put d0 ''_id'' i) r t
        (en_node_id st)) ''_deleted''"]) (auto simp: get stamped_get reserved_def)
qed

theorem failed_insert_leaves_document_witness:
  "\<exists>D e st' i. insert_one D (memory_engine D) null_oplog_vt [] sample_doc sample_engine = (Inl e, st') \<and>
     en_oplog st' = en_oplog sample_engine \<and> al_get (en_storage st') [] = Some [(encode_key D [] i, [])]"
proof -
  let ?D = "(sample_deps [])\<lparr>to_writer := \<lambda>d. Inr []\<rparr>"
  have "validate_document_size ?D (en_config sample_engine) d = Inr ()" for d
    by (simp add: validate_document_size_def)
  moreover have "\<exists>s. se_put (memory_engine ?D) (en_storage sample_engine) [] i d = (Inr (), s)" for i d
    by (simp add: memory_put_def Let_def)
  ultimately obtain e st' i d where
    "insert_one ?D (memory_engine ?D) null_oplog_vt [] sample_doc sample_engine = (Inl e, st')"
    "en_oplog st' = en_oplog sample_engine"
    "se_put (memory_engine ?D) (en_storage sample_engine) [] i d = (Inr (), en_storage st')"
    using failed_insert_leaves_document [of ?D sample_engine "memory_engine ?D" null_oplog_vt sample_doc] by blast
  then have "al_get (en_storage st') [] = Some [(encode_key ?D [] i, [])]"
    by (auto simp: memory_put_def memory_new_def Let_def dest!: sym [of _ "en_storage st'"])
  with \<open>insert_one ?D _ _ _ _ _ = _\<close> \<open>en_oplog st' = _\<close> show ?thesis by blast
qed

end
