(* ===== verification/Rango_Engine_Sync.thy ===== *)
theory Rango_Engine_Sync
  imports Rango_Engine_Local
begin

text \<open>
  The replication side of the engine (\<open>core/src/engine.rs\<close>): last-writer-wins application of a
  remote document with its conflict list, the deterministic replay of a batch of mutations,
  snapshots, restore and rollback, conflict listing and resolution, garbage collection of
  tombstones, and the semantic projections.
\<close>

section \<open>Last writer wins\<close>

text \<open>A revision text that does not parse counts as the initial revision of the empty node.\<close>

definition doc_rev :: "deps \<Rightarrow> doc \<Rightarrow> revision" where
  "doc_rev D d =
     (case get_as as_str d ''_rev'' of
        Some s \<Rightarrow> (case revision_from_str s of Inr r \<Rightarrow> r | Inl _ \<Rightarrow> revision_initial D [])
      | None \<Rightarrow> revision_initial D [])"

definition add_conflict :: "doc \<Rightarrow> doc \<Rightarrow> doc" where
  "add_conflict loser winner =
     (let winner = (if al_get winner ''_conflicts'' = None then al_put winner ''_conflicts'' (Array [])
                    else winner)
      in case al_get winner ''_conflicts'' of
          Some (Array arr) \<Rightarrow>
            let arr = arr @ [Document loser]
            in al_put winner ''_conflicts'' (Array (drop (length arr - 10) arr))
        | _ \<Rightarrow> winner)"

text \<open>Both revisions are accepted ones, on which the comparison returns (\<open>revision_cmp_total\<close>).\<close>

definition apply_remote_mutation :: "deps \<Rightarrow> 's storage_engine \<Rightarrow> collection_name \<Rightarrow> doc \<Rightarrow>
    (('s, 'o) engine, unit) op" where
  "apply_remote_mutation D E c d =
     bind_op (lift_op (ok_or (al_get d ''_id'') (DocumentNotFound ''missing _id''))) (\<lambda>i.
     let remote_rev = doc_rev D d
     in bind_op (storage_get E c i) (\<lambda>found.
        case found of
          Some local_doc \<Rightarrow>
            if \<not> is_deleted local_doc then
              let local_rev = doc_rev D local_doc
              in if revision_cmp remote_rev local_rev = Some Greater
                 then storage_put E c i (add_conflict local_doc d)
                 else if revision_cmp remote_rev local_rev = Some Less
                 then storage_put E c i (add_conflict d local_doc)
                 else return_op ()
            else storage_put E c i d
        | None \<Rightarrow> storage_put E c i d))"

section \<open>Deterministic replay\<close>

definition id_text :: "deps \<Rightarrow> mutation \<Rightarrow> string" where
  "id_text D m = document_id_to_string D (mut_doc_id m)"

definition mutation_cmp :: "deps \<Rightarrow> mutation \<Rightarrow> mutation \<Rightarrow> rust_ordering" where
  "mutation_cmp D a b =
     then_ord (cmp_of (mut_collection a) (mut_collection b))
     (then_ord (cmp_of (mut_timestamp a) (mut_timestamp b))
     (then_ord (cmp_of (mut_seq a) (mut_seq b))
     (then_ord (cmp_of (id_text D a) (id_text D b))
       (cmp_of (mut_write_id a) (mut_write_id b)))))"

definition out_of_order :: "deps \<Rightarrow> mutation \<Rightarrow> mutation \<Rightarrow> bool" where
  "out_of_order D a b \<longleftrightarrow>
     mut_collection a > mut_collection b \<or>
     (mut_collection a = mut_collection b \<and> mut_timestamp a > mut_timestamp b) \<or>
     (mut_collection a = mut_collection b \<and> mut_timestamp a = mut_timestamp b \<and> mut_seq a > mut_seq b) \<or>
     (mut_collection a = mut_collection b \<and> mut_timestamp a = mut_timestamp b \<and> mut_seq a = mut_seq b \<and>
        id_text D a > id_text D b) \<or>
     (mut_collection a = mut_collection b \<and> mut_timestamp a = mut_timestamp b \<and> mut_seq a = mut_seq b \<and>
        id_text D a = id_text D b \<and> mut_write_id a > mut_write_id b)"

fun drift_in :: "deps \<Rightarrow> mutation list \<Rightarrow> bool" where
  "drift_in D (a # b # ms) \<longleftrightarrow> out_of_order D a b \<or> drift_in D (b # ms)"
| "drift_in D _ \<longleftrightarrow> False"

definition tombstone_of :: "string \<Rightarrow> mutation \<Rightarrow> doc" where
  "tombstone_of node m = [(''_id'', mut_doc_id m), (''_deleted'', Boolean True),
     (''_rev'', String (mut_rev m)), (''_updated_at'', DateTime (mut_timestamp m)),
     (''_source_node'', String node)]"

definition apply_one :: "deps \<Rightarrow> 's storage_engine \<Rightarrow> collection_name \<Rightarrow> mutation \<Rightarrow> (('s, 'o) engine, unit) op" where
  "apply_one D E default_collection m = get_op (\<lambda>st.
     let c = (if mut_collection m = [] then default_collection else mut_collection m)
     in case mut_patch m of
         Some d \<Rightarrow> apply_remote_mutation D E c d
       | None \<Rightarrow> apply_remote_mutation D E c (tombstone_of (en_node_id st) m))"

text \<open>
  The loop: \<open>seen\<close> is the batch's own set; the engine's set is written before the mutation is
  applied. It returns the number applied and whether a duplicate was met.
\<close>

fun replay_loop :: "deps \<Rightarrow> 's storage_engine \<Rightarrow> collection_name \<Rightarrow> mutation list \<Rightarrow> string set \<Rightarrow> nat \<Rightarrow>
    bool \<Rightarrow> (('s, 'o) engine, nat \<times> bool) op" where
  "replay_loop D E dc [] seen applied drift st = (Inr (applied, drift), st)"
| "replay_loop D E dc (m # ms) seen applied drift st =
     (case validate_metadata m of
        Inl e \<Rightarrow> (Inl (Sync (''invalid mutation metadata: '' @ e)), st)
      | Inr _ \<Rightarrow>
          let w = mut_write_id m
          in if w \<noteq> [] \<and> w \<in> seen then replay_loop D E dc ms seen applied True st
             else let seen' = (if w \<noteq> [] then insert w seen else seen)
               in if w \<noteq> [] \<and> w \<in> en_applied_write_ids st
                  then replay_loop D E dc ms seen' applied True st
                  else
                    let st1 = (if w \<noteq> []
                          then st\<lparr>en_applied_write_ids := insert w (en_applied_write_ids st)\<rparr> else st)
                    in bind_op (apply_one D E dc m) (\<lambda>_.
                       replay_loop D E dc ms seen' (applied + 1) drift) st1)"

definition apply_mutations_deterministic :: "deps \<Rightarrow> 's storage_engine \<Rightarrow> collection_name \<Rightarrow> mutation list \<Rightarrow>
    (('s, 'o) engine, nat) op" where
  "apply_mutations_deterministic D E dc mutations =
     bind_op (from_world instant_now) (\<lambda>replay_start.
     let drift0 = drift_in D mutations; sorted = sort_by (mutation_cmp D) mutations
     in bind_op (replay_loop D E dc sorted {} 0 drift0) (\<lambda>(applied, drift).
        bind_op (from_world instant_now) (\<lambda>t.
        bind_op (record_op (record_replay_duration_us (of_nat (t - replay_start)))) (\<lambda>_.
        bind_op (if drift then record_op record_replay_drift_detection else return_op ()) (\<lambda>_.
        return_op applied)))))"

section \<open>Snapshots\<close>

definition create_snapshot :: "deps \<Rightarrow> 's storage_engine \<Rightarrow> collection_name \<Rightarrow> string \<Rightarrow> string \<Rightarrow> u64 \<Rightarrow>
    (('s, 'o) engine, snapshot_unit) op" where
  "create_snapshot D E c tenant_id snapshot_id base_seq = get_op (\<lambda>st.
     bind_op (lift_op (find_all_raw D E st c)) (\<lambda>state.
     bind_op (from_world datetime_now) (\<lambda>now.
     return_op \<lparr>snap_id = snapshot_id, snap_tenant_id = tenant_id, snap_namespace = c,
       snap_base_seq = base_seq, snap_created_at = now, snap_state = state\<rparr>)))"

fun delete_all :: "'s storage_engine \<Rightarrow> collection_name \<Rightarrow> doc list \<Rightarrow> (('s, 'o) engine, unit) op" where
  "delete_all E c [] st = (Inr (), st)"
| "delete_all E c (d # ds) st =
     (case al_get d ''_id'' of
        Some i \<Rightarrow> bind_op (storage_delete E c i) (\<lambda>_. delete_all E c ds) st
      | None \<Rightarrow> delete_all E c ds st)"

fun put_all :: "'s storage_engine \<Rightarrow> collection_name \<Rightarrow> doc list \<Rightarrow> (('s, 'o) engine, unit) op" where
  "put_all E c [] st = (Inr (), st)"
| "put_all E c (d # ds) st =
     (case al_get d ''_id'' of
        Some i \<Rightarrow> bind_op (storage_put E c i d) (\<lambda>_. put_all E c ds) st
      | None \<Rightarrow> put_all E c ds st)"

definition restore_from_snapshot :: "deps \<Rightarrow> 's storage_engine \<Rightarrow> collection_name \<Rightarrow> snapshot_unit \<Rightarrow>
    mutation list \<Rightarrow> (('s, 'o) engine, nat) op" where
  "restore_from_snapshot D E c snapshot replay =
     (if snap_namespace snapshot \<noteq> c
      then fail_op (Conflict ''snapshot namespace does not match collection'')
      else get_op (\<lambda>st. bind_op (lift_op (find_all_raw D E st c)) (\<lambda>existing.
        bind_op (delete_all E c existing) (\<lambda>_.
        bind_op (put_all E c (snap_state snapshot)) (\<lambda>_.
        apply_mutations_deterministic D E c replay)))))"

definition rollback_to_snapshot :: "deps \<Rightarrow> 's storage_engine \<Rightarrow> collection_name \<Rightarrow> snapshot_unit \<Rightarrow>
    rollback_unit \<Rightarrow> mutation list \<Rightarrow> (('s, 'o) engine, nat \<times> rollback_audit) op" where
  "rollback_to_snapshot D E c snapshot rollback replay_window =
     (if rb_snapshot_id rollback \<noteq> snap_id snapshot
      then fail_op (Conflict ''rollback snapshot_id does not match provided snapshot'')
      else if rb_target_seq rollback < snap_base_seq snapshot
      then fail_op (Conflict ''rollback target_seq cannot be below snapshot base_seq'')
      else if snap_namespace snapshot \<noteq> c
      then fail_op (Conflict ''snapshot namespace does not match collection'')
      else
        let bounded_replay = filter (\<lambda>m. mut_seq m \<le> rb_target_seq rollback) replay_window
        in bind_op (restore_from_snapshot D E c snapshot bounded_replay) (\<lambda>applied.
           bind_op (from_world datetime_now) (\<lambda>now.
           return_op (applied, \<lparr>ra_rollback = rollback, ra_applied_at = now\<rparr>))))"

section \<open>Conflicts\<close>

fun conflicts_in :: "doc result list \<Rightarrow> (document_id \<times> doc list) list \<Rightarrow>
    (('s, 'o) engine, (document_id \<times> doc list) list) op" where
  "conflicts_in [] results st = (Inr results, st)"
| "conflicts_in (Inl e # rows) results st = (Inl e, st)"
| "conflicts_in (Inr d # rows) results st =
     (if is_deleted d then conflicts_in rows results st
      else case get_as as_array d ''_conflicts'' of
          Some arr \<Rightarrow>
            let conflicts = List.map_filter as_document arr
            in if conflicts \<noteq> [] then
                 bind_op (case al_get d ''_id'' of
                     Some v \<Rightarrow> return_op (document_id_from_bson v)
                   | None \<Rightarrow> from_world document_id_new_uuid_v7) (\<lambda>i.
                 conflicts_in rows (results @ [(i, conflicts)])) st
               else conflicts_in rows results st
        | None \<Rightarrow> conflicts_in rows results st)"

definition list_conflicts :: "'s storage_engine \<Rightarrow> collection_name \<Rightarrow>
    (('s, 'o) engine, (document_id \<times> doc list) list) op" where
  "list_conflicts E c = get_op (\<lambda>st.
     bind_op (lift_op (se_scan E (en_storage st) c)) (\<lambda>rows. conflicts_in rows []))"

text \<open>The scan over the conflict list: the last conflict with the chosen revision is taken out.\<close>

definition conflict_rev :: "doc \<Rightarrow> revision option" where
  "conflict_rev d = Option.bind (get_as as_str d ''_rev'') (\<lambda>s. ok_of (revision_from_str s))"

fun pick_conflict :: "revision \<Rightarrow> bson list \<Rightarrow> bson list \<Rightarrow> doc option \<Rightarrow> bson list \<times> doc option" where
  "pick_conflict chosen [] rest found = (rest, found)"
| "pick_conflict chosen (item # items) rest found =
     (case as_document item of
        Some d \<Rightarrow>
          if conflict_rev d = Some chosen then pick_conflict chosen items rest (Some d)
          else pick_conflict chosen items (rest @ [item]) found
      | None \<Rightarrow> pick_conflict chosen items rest found)"

definition resolve_conflict :: "deps \<Rightarrow> 's storage_engine \<Rightarrow> collection_name \<Rightarrow> document_id \<Rightarrow> revision \<Rightarrow>
    (('s, 'o) engine, unit) op" where
  "resolve_conflict D E c i chosen_rev =
     bind_op (storage_get E c i) (\<lambda>found.
     case found of
       None \<Rightarrow> fail_op (DocumentNotFound (document_id_to_string D i))
     | Some d \<Rightarrow>
         bind_op (lift_op (ok_or (get_as as_array d ''_conflicts'') (Conflict ''No conflicts found''))) (\<lambda>arr.
         case pick_conflict chosen_rev arr [] None of (new_conflicts, chosen) \<Rightarrow>
         bind_op (lift_op (ok_or chosen (Conflict ''Chosen revision not found in conflicts''))) (\<lambda>chosen_doc.
         storage_put E c i
           (if new_conflicts \<noteq> [] then al_put chosen_doc ''_conflicts'' (Array new_conflicts)
            else al_del chosen_doc ''_conflicts''))))"

section \<open>Tombstones\<close>

fun gc_rows :: "'s storage_engine \<Rightarrow> collection_name \<Rightarrow> doc result list \<Rightarrow> nat \<Rightarrow> (('s, 'o) engine, nat) op" where
  "gc_rows E c [] removed st = (Inr removed, st)"
| "gc_rows E c (Inl e # rows) removed st = (Inl e, st)"
| "gc_rows E c (Inr d # rows) removed st =
     (if is_deleted d then
        (case al_get d ''_id'' of
           Some i \<Rightarrow> bind_op (storage_delete E c i) (\<lambda>_. gc_rows E c rows (removed + 1)) st
         | None \<Rightarrow> gc_rows E c rows removed st)
      else gc_rows E c rows removed st)"

definition gc_deleted :: "'s storage_engine \<Rightarrow> collection_name \<Rightarrow> (('s, 'o) engine, nat) op" where
  "gc_deleted E c = get_op (\<lambda>st.
     bind_op (lift_op (se_scan E (en_storage st) c)) (\<lambda>rows. gc_rows E c rows 0))"

section \<open>Semantic projections\<close>

definition invalidate_semantic_projection :: "string \<Rightarrow> string \<Rightarrow> string \<Rightarrow> string \<Rightarrow> string \<Rightarrow> unit result" where
  "invalidate_semantic_projection tenant_id namespace canonical_id source_revision policy_version =
     (if tenant_id = [] \<or> namespace = [] \<or> source_revision = []
      then Inl (Storage ''tenant_id, namespace, and source_revision must be non-empty'')
      else Inr ())"

definition rebuild_semantic_projection :: "deps \<Rightarrow> string \<Rightarrow> string \<Rightarrow> string \<Rightarrow> string \<Rightarrow> memory_tier \<Rightarrow> doc \<Rightarrow>
    (('s, 'o) engine, artifact_envelope) op" where
  "rebuild_semantic_projection D tenant_id namespace canonical_id source_revision tier projection =
     (if tier \<noteq> Semantic
      then fail_op (Storage ''rebuild_semantic_projection requires semantic tier'')
      else bind_op (from_world datetime_now) (\<lambda>now. get_op (\<lambda>st.
        let metadata = \<lparr>gm_id = canonical_id, gm_namespace = namespace, gm_tenant_id = tenant_id,
              gm_type = ''semantic_projection'', gm_rev = source_revision, gm_created_at = now,
              gm_updated_at = now, gm_source = en_node_id st, gm_actor = ''semantic_rebuild'',
              gm_lineage = ''canonical:'' @ canonical_id, gm_schema_version = 1,
              gm_trust_score = Fin 1, gm_verified = Some True, gm_expires_at = None\<rparr>
        in bind_op (lift_op (storage_err (to_writer D projection))) (\<lambda>bs.
           lift_op (map_err Storage (new_semantic_projection metadata
             (''semantic-rebuild:'' @ tenant_id @ '':'' @ namespace @ '':'' @ canonical_id @ '':'' @ source_revision)
             source_revision bs None))))))"

end
