(* ===== verification/Rango_Engine_Replay.thy ===== *)
theory Rango_Engine_Replay
  imports Rango_Engine_Sync
begin

text \<open>
  What replication guarantees on any back end that keeps the storage laws: the winner of a conflict,
  order independence and idempotence of replay, and the case in which a mutation that failed is lost.
\<close>

section \<open>Last writer wins\<close>

lemma doc_rev_ok [simp]: "revision_ok (doc_rev D d)"
  by (auto simp: doc_rev_def revision_initial_def intro: revision_ok_from_str split: option.splits sum.splits)

lemma doc_rev_cmp: "revision_cmp (doc_rev D a) (doc_rev D b) = Some (revision_order (doc_rev D a) (doc_rev D b))"
  by (simp add: revision_cmp_total)

lemma add_conflict_get: "k \<noteq> ''_conflicts'' \<Longrightarrow> al_get (add_conflict loser winner) k = al_get winner k"
  by (auto simp: add_conflict_def Let_def split: option.splits bson.splits)

lemma add_conflict_rev [simp]: "doc_rev D (add_conflict loser winner) = doc_rev D winner"
  by (simp add: doc_rev_def get_as_def add_conflict_get)

lemma add_conflict_deleted [simp]: "is_deleted (add_conflict loser winner) = is_deleted winner"
  by (simp add: is_deleted_iff add_conflict_get)

definition conflicts_of :: "doc \<Rightarrow> bson list option" where
  "conflicts_of d = (case al_get d ''_conflicts'' of None \<Rightarrow> Some [] | Some v \<Rightarrow> as_array v)"

lemma add_conflict_conflicts:
  "conflicts_of (add_conflict loser winner) =
     map_option (\<lambda>arr. drop (length arr - 9) arr @ [Document loser]) (conflicts_of winner)"
proof (cases "al_get winner ''_conflicts''")
  case None
  then show ?thesis by (simp add: add_conflict_def conflicts_of_def Let_def)
next
  case (Some v)
  show ?thesis
  proof (cases "as_array v")
    case None
    with Some show ?thesis by (cases v) (simp_all add: add_conflict_def conflicts_of_def Let_def)
  next
    case (Some arr)
    have "Suc (length arr) - 10 = length arr - 9" by simp
    with Some \<open>al_get winner _ = _\<close> show ?thesis
      by (simp add: add_conflict_def conflicts_of_def Let_def)
  qed
qed

text \<open>What a remote document makes of the stored one.\<close>

definition merged :: "deps \<Rightarrow> doc option \<Rightarrow> doc \<Rightarrow> doc" where
  "merged D stored remote =
     (case stored of
        Some l \<Rightarrow>
          if is_deleted l then remote
          else (case revision_order (doc_rev D remote) (doc_rev D l) of
              Greater \<Rightarrow> add_conflict l remote | Less \<Rightarrow> add_conflict remote l | Equal \<Rightarrow> l)
      | None \<Rightarrow> remote)"

definition same_version :: "deps \<Rightarrow> doc option \<Rightarrow> doc \<Rightarrow> bool" where
  "same_version D stored remote \<longleftrightarrow>
     (case stored of Some l \<Rightarrow> \<not> is_deleted l \<and> revision_order (doc_rev D remote) (doc_rev D l) = Equal
      | None \<Rightarrow> False)"

lemma apply_remote_eq:
  assumes "al_get d ''_id'' = Some i" "se_get E (en_storage st) c i = Inr m"
  shows "apply_remote_mutation D E c d st =
    (if same_version D m d then (Inr (), st) else storage_put E c i (merged D m d) st)"
proof (cases m)
  case None
  with assms show ?thesis
    by (simp add: apply_remote_mutation_def storage_get_def Let_def merged_def same_version_def)
next
  case (Some l)
  with assms show ?thesis
    by (cases "revision_order (doc_rev D d) (doc_rev D l)")
      (simp_all add: apply_remote_mutation_def storage_get_def Let_def merged_def same_version_def doc_rev_cmp)
qed

lemma same_version_merged: "same_version D m d \<Longrightarrow> m = Some (merged D m d)"
  by (auto simp: same_version_def merged_def split: option.splits)

context storage_laws
begin

lemma apply_remote_merges:
  assumes inv: "inv (en_storage st)" and c: "name_ok c" and i: "al_get d ''_id'' = Some i"
    and app: "apply_remote_mutation D E c d st = (Inr (), st')"
  shows "inv (en_storage st') \<and>
    se_get E (en_storage st') c i = Inr (Some (merged D (holds_at (en_storage st) c i) d)) \<and>
    (\<forall>c' j. name_ok c' \<longrightarrow> c' \<noteq> c \<or> idtext j \<noteq> idtext i \<longrightarrow>
      se_get E (en_storage st') c' j = se_get E (en_storage st) c' j)"
proof -
  let ?m = "holds_at (en_storage st) c i"
  have get: "se_get E (en_storage st) c i = Inr ?m" by (rule get_holds_at [OF inv c])
  show ?thesis
  proof (cases "same_version D ?m d")
    case True
    with app apply_remote_eq [where E = E, OF i get] have "st' = st" by simp
    with get inv same_version_merged [OF True] show ?thesis by simp
  next
    case False
    with app apply_remote_eq [where E = E, OF i get]
    have put: "se_put E (en_storage st) c i (merged D ?m d) = (Inr (), en_storage st')"
      by (auto simp: storage_put_eq)
    show ?thesis
      using put_inv [OF inv c put] put_get [OF inv c c put, of i] put_get [OF inv c _ put] by auto
  qed
qed

end

section \<open>Replay\<close>

definition replay_key :: "deps \<Rightarrow> mutation \<Rightarrow> string \<times> millis \<times> u64 \<times> string \<times> string" where
  "replay_key D m = (mut_collection m, mut_timestamp m, mut_seq m, id_text D m, mut_write_id m)"

interpretation replay_order: total_comparator "mutation_cmp D" "\<lambda>m. True" for D
proof unfold_locales
  show "mutation_cmp D x x = Equal" for x by (simp add: mutation_cmp_def)
  show "mutation_cmp D y x = reverse_ord (mutation_cmp D x y)" for x y
    by (simp add: mutation_cmp_def reverse_then_ord cmp_of_swap [symmetric])
  show "mutation_cmp D x z \<noteq> Greater" if "mutation_cmp D x y \<noteq> Greater" "mutation_cmp D y z \<noteq> Greater" for x y z
    using that by (auto simp: mutation_cmp_def)
qed

lemma mutation_cmp_Equal: "mutation_cmp D a b = Equal \<longleftrightarrow> replay_key D a = replay_key D b"
  by (simp add: mutation_cmp_def replay_key_def)

lemma out_of_order_iff: "out_of_order D a b \<longleftrightarrow> mutation_cmp D a b = Greater"
  by (auto simp: out_of_order_def mutation_cmp_def)

text \<open>The drift flag only travels along.\<close>

definition same_replay :: "(nat \<times> bool) result \<times> 'e \<Rightarrow> (nat \<times> bool) result \<times> 'e \<Rightarrow> bool" where
  "same_replay p q \<longleftrightarrow> snd p = snd q \<and> map_sum id fst (fst p) = map_sum id fst (fst q)"

lemma replay_loop_drift:
  "same_replay (replay_loop D E dc ms seen n drift st) (replay_loop D E dc ms seen n drift' st)"
proof (induction ms arbitrary: seen n drift drift' st)
  case (Cons m ms)
  show ?case
    using Cons by (auto simp: bind_op_def same_replay_def Let_def split: sum.splits prod.splits)
qed (simp add: same_replay_def)

lemma bind_op_frame:
  assumes "\<And>r s'. m s = (r, s') \<Longrightarrow> P s'" "\<And>x s' r s''. m s = (Inr x, s') \<Longrightarrow> k x s' = (r, s'') \<Longrightarrow> P s''"
    and "bind_op m k s = (q, s'')"
  shows "P s''"
  using assms by (auto simp: bind_op_def split: prod.splits sum.splits)

lemma apply_one_frame:
  "apply_one D E dc m st = (r, st') \<Longrightarrow> en_applied_write_ids st' = en_applied_write_ids st \<and>
     en_world st' = en_world st \<and> en_metrics st' = en_metrics st \<and> en_oplog st' = en_oplog st \<and>
     en_node_id st' = en_node_id st"
  by (auto simp: apply_one_def apply_remote_mutation_def bind_op_def storage_put_def storage_get_def
      lift_op_def return_op_def Let_def split: option.splits prod.splits sum.splits if_splits)

lemma replay_loop_seen:
  assumes "replay_loop D E dc ms seen n drift st = (Inr p, st')"
  shows "en_applied_write_ids st \<subseteq> en_applied_write_ids st' \<and>
    (\<forall>m\<in>set ms. validate_metadata m = Inr () \<and>
      (mut_write_id m \<noteq> [] \<longrightarrow> mut_write_id m \<in> en_applied_write_ids st' \<union> seen))"
  using assms
proof (induction ms arbitrary: seen n drift st)
  case (Cons m ms)
  let ?w = "mut_write_id m"
  have valid: "validate_metadata m = Inr ()"
    using Cons.prems by (cases rule: validate_metadata_cases [of m]) auto
  show ?case
  proof (cases "?w \<noteq> [] \<and> ?w \<in> seen")
    case True
    with Cons.prems valid have "replay_loop D E dc ms seen n True st = (Inr p, st')" by (simp add: Let_def)
    from Cons.IH [OF this] True valid show ?thesis by auto
  next
    case fresh: False
    show ?thesis
    proof (cases "?w \<noteq> [] \<and> ?w \<in> en_applied_write_ids st")
      case True
      with Cons.prems fresh valid have "replay_loop D E dc ms (insert ?w seen) n True st = (Inr p, st')"
        by (simp add: Let_def)
      from Cons.IH [OF this] True valid show ?thesis by auto (metis subsetD)
    next
      case False
      let ?st1 = "if ?w \<noteq> [] then st\<lparr>en_applied_write_ids := insert ?w (en_applied_write_ids st)\<rparr> else st"
      from Cons.prems fresh False valid obtain st2 where
        one: "apply_one D E dc m ?st1 = (Inr (), st2)"
        and rest: "replay_loop D E dc ms (if ?w \<noteq> [] then insert ?w seen else seen) (n + 1) drift st2 = (Inr p, st')"
        by (auto simp: Let_def bind_op_Inr simp del: op_apply split: if_splits)
      have "en_applied_write_ids st2 = en_applied_write_ids ?st1" using apply_one_frame [OF one] by simp
      with Cons.IH [OF rest] valid show ?thesis by (auto split: if_splits)
    qed
  qed
qed simp

lemma replay_loop_skips:
  assumes "\<forall>m\<in>set ms. validate_metadata m = Inr () \<and> mut_write_id m \<noteq> [] \<and>
      mut_write_id m \<in> en_applied_write_ids st \<union> seen"
  shows "\<exists>drift'. replay_loop D E dc ms seen n drift st = (Inr (n, drift'), st)"
  using assms
proof (induction ms arbitrary: seen drift)
  case (Cons m ms)
  then show ?case
    using Cons.IH [of seen True] Cons.IH [of "insert (mut_write_id m) seen" True]
    by (auto simp: Let_def)
qed simp

lemma apply_mutations_Inr:
  "apply_mutations_deterministic D E dc ms st = (Inr n, st') \<Longrightarrow>
   \<exists>drift st1. replay_loop D E dc (sort_by (mutation_cmp D) ms) {} 0 (drift_in D ms)
       (st\<lparr>en_world := snd (instant_now (en_world st))\<rparr>) = (Inr (n, drift), st1) \<and>
     en_storage st' = en_storage st1 \<and> en_applied_write_ids st' = en_applied_write_ids st1"
  by (fastforce simp: apply_mutations_deterministic_def bind_op_Inr from_world_Inr Let_def record_op_Inr
      return_op_def split: prod.splits if_splits)

lemma apply_mutations_skips:
  assumes "\<forall>m\<in>set ms. validate_metadata m = Inr () \<and> mut_write_id m \<noteq> [] \<and>
      mut_write_id m \<in> en_applied_write_ids st"
  shows "\<exists>st'. apply_mutations_deterministic D E dc ms st = (Inr 0, st') \<and> en_storage st' = en_storage st \<and>
    en_applied_write_ids st' = en_applied_write_ids st"
proof -
  let ?s = "st\<lparr>en_world := snd (instant_now (en_world st))\<rparr>"
  obtain drift where "replay_loop D E dc (sort_by (mutation_cmp D) ms) {} 0 (drift_in D ms) ?s = (Inr (0, drift), ?s)"
    using replay_loop_skips [of "sort_by (mutation_cmp D) ms" ?s "{}" D E dc 0 "drift_in D ms"] assms by auto
  then show ?thesis
    by (simp add: apply_mutations_deterministic_def from_world_eq record_op_def)
qed

section \<open>Properties\<close>

lemma merged_rev:
  assumes "\<not> is_deleted l"
  shows "revision_order (doc_rev D (merged D (Some l) d)) (doc_rev D l) \<noteq> Less \<and>
    revision_order (doc_rev D (merged D (Some l) d)) (doc_rev D d) \<noteq> Less"
proof -
  have refl: "revision_order (doc_rev D x) (doc_rev D x) = Equal" for x
    using rev_order.cmp_refl by simp
  have swap: "revision_order (doc_rev D y) (doc_rev D x) = reverse_ord (revision_order (doc_rev D x) (doc_rev D y))"
    for x y by (rule rev_order.cmp_swap) simp_all
  show ?thesis
    using assms swap [of l d]
    by (cases "revision_order (doc_rev D d) (doc_rev D l)") (simp_all add: merged_def refl)
qed

text \<open>
  C8: the last writer wins over a live document and the loser is kept: when a remote document meets a
  live local one, the stored document afterwards has the greater of the two revisions; if they differ, the
  losing document is the newest entry of the winner's conflict list, which never grows past ten, the
  oldest entries leaving first; if they are equal nothing changes. Where there is no document, or a
  tombstone of whatever revision, the remote document is stored as it came. No other document changes.
\<close>

theorem remote_last_writer_wins:
  assumes "storage_laws E ok name_ok idtext" "ok (en_storage st)" "name_ok c" "al_get d ''_id'' = Some i"
    and found: "se_get E (en_storage st) c i = Inr found"
    and app: "apply_remote_mutation D E c d st = (Inr (), st')"
  shows "\<exists>w. se_get E (en_storage st') c i = Inr (Some w) \<and>
    (case found of
       Some l \<Rightarrow> if is_deleted l then w = d else
         revision_cmp (doc_rev D w) (doc_rev D l) \<noteq> Some Less \<and>
         revision_cmp (doc_rev D w) (doc_rev D d) \<noteq> Some Less \<and>
         (\<forall>arr. revision_cmp (doc_rev D d) (doc_rev D l) = Some Greater \<longrightarrow> conflicts_of d = Some arr \<longrightarrow>
           conflicts_of w = Some (drop (length arr - 9) arr @ [Document l])) \<and>
         (\<forall>arr. revision_cmp (doc_rev D d) (doc_rev D l) = Some Less \<longrightarrow> conflicts_of l = Some arr \<longrightarrow>
           conflicts_of w = Some (drop (length arr - 9) arr @ [Document d])) \<and>
         (revision_cmp (doc_rev D d) (doc_rev D l) = Some Equal \<longrightarrow> w = l)
     | None \<Rightarrow> w = d) \<and>
    (\<forall>c' j. name_ok c' \<longrightarrow> c' \<noteq> c \<or> idtext j \<noteq> idtext i \<longrightarrow>
      se_get E (en_storage st') c' j = se_get E (en_storage st) c' j)"
proof -
  have "storage_laws.holds_at E (en_storage st) c i = found"
    by (simp add: storage_laws.holds_at_def [OF assms(1)] found)
  with storage_laws.apply_remote_merges [OF assms(1-4) app]
  have m: "se_get E (en_storage st') c i = Inr (Some (merged D found d))"
    "\<forall>c' j. name_ok c' \<longrightarrow> c' \<noteq> c \<or> idtext j \<noteq> idtext i \<longrightarrow>
      se_get E (en_storage st') c' j = se_get E (en_storage st) c' j" by simp_all
  show ?thesis
  proof (cases "\<exists>l. found = Some l \<and> \<not> is_deleted l")
    case False
    then have "merged D found d = d" by (cases found) (simp_all add: merged_def)
    with False m show ?thesis by (auto split: option.split)
  next
    case True
    then obtain l where l: "found = Some l" "\<not> is_deleted l" by blast
    have merge: "conflicts_of (merged D (Some l) d) =
        (case revision_order (doc_rev D d) (doc_rev D l) of
           Greater \<Rightarrow> conflicts_of (add_conflict l d) | Less \<Rightarrow> conflicts_of (add_conflict d l)
         | Equal \<Rightarrow> conflicts_of l)"
      "revision_order (doc_rev D d) (doc_rev D l) = Equal \<Longrightarrow> merged D (Some l) d = l"
      using l(2) by (simp_all add: merged_def split: rust_ordering.splits)
    have ord: "revision_order (doc_rev D (merged D (Some l) d)) (doc_rev D l) \<noteq> Less"
      "revision_order (doc_rev D (merged D (Some l) d)) (doc_rev D d) \<noteq> Less"
      using merged_rev [OF l(2), of D d] by simp_all
    show ?thesis
      unfolding doc_rev_cmp option.inject
      using m l
      by (intro exI [of _ "merged D (Some l) d"])
        (simp add: ord merge add_conflict_conflicts)
  qed
qed

text \<open>A live document and a newer version of it, with revisions that parse.\<close>

definition versioned :: "string \<Rightarrow> u64 \<Rightarrow> bool \<Rightarrow> doc" where
  "versioned x t del = [(''_id'', String x), (''_rev'', String (revision_new (sample_deps []) t 0 ''n'')),
     (''_deleted'', Boolean del)]"

lemma versioned_simps [simp]:
  "al_get (versioned x t del) ''_id'' = Some (String x)" "is_deleted (versioned x t del) = del"
  "doc_rev D (versioned x t del) = revision_new (sample_deps []) t 0 ''n''"
  "conflicts_of (versioned x t del) = Some []"
  using revision_new_ok [of "sample_deps []" t 0 "''n''"]
  by (simp_all add: versioned_def is_deleted_iff doc_rev_def get_as_def revision_ok_def conflicts_of_def)

lemma revision_cmp_new:
  "revision_cmp (revision_new D t 0 n) (revision_new D u 0 n) = Some (cmp_of t u)"
  by (auto simp: revision_cmp_ok)

definition one_doc_engine :: "doc \<Rightarrow> deps \<Rightarrow> (memory_storage, null_oplog) engine" where
  "one_doc_engine d D = sample_engine\<lparr>en_storage := snd (memory_put D memory_new ''c'' (String ''x'') d)\<rparr>"

lemma one_doc_engine:
  assumes "codec_ok D" "hash_order_ok D" "to_writer D d = Inr bs"
  shows "memory_inv D (en_storage (one_doc_engine d D))"
    and "memory_get D (en_storage (one_doc_engine d D)) ''c'' (String ''x'') = Inr (Some d)"
proof -
  have inv: "memory_inv D memory_new" by (rule memory_inv_new [OF assms(1,2)])
  have put: "memory_put D memory_new ''c'' (String ''x'') d =
      (Inr (), snd (memory_put D memory_new ''c'' (String ''x'') d))"
    using assms(3) by (simp add: memory_put_def Let_def)
  show "memory_inv D (en_storage (one_doc_engine d D))"
    using mem.put_inv [OF inv] put by (auto simp: one_doc_engine_def)
  show "memory_get D (en_storage (one_doc_engine d D)) ''c'' (String ''x'') = Inr (Some d)"
    using mem.put_get [OF inv, where c = "''c''" and c' = "''c''" and i = "String ''x''" and i' = "String ''x''"] put
    by (simp add: one_doc_engine_def)
qed

theorem remote_last_writer_wins_witness:
  "\<exists>st w. apply_remote_mutation (sample_deps [versioned ''x'' 1 False, add_conflict (versioned ''x'' 1 False) (versioned ''x'' 2 False)])
      (memory_engine (sample_deps [versioned ''x'' 1 False, add_conflict (versioned ''x'' 1 False) (versioned ''x'' 2 False)]))
      ''c'' (versioned ''x'' 2 False)
      (one_doc_engine (versioned ''x'' 1 False) (sample_deps [versioned ''x'' 1 False, add_conflict (versioned ''x'' 1 False) (versioned ''x'' 2 False)])) =
      (Inr (), st) \<and> conflicts_of w = Some [Document (versioned ''x'' 1 False)]"
proof -
  let ?l = "versioned ''x'' 1 False" and ?d = "versioned ''x'' 2 False"
  let ?D = "sample_deps [?l, add_conflict ?l ?d]"
  have wr: "\<exists>bs. to_writer ?D ?l = Inr bs" "\<exists>bs. to_writer ?D (add_conflict ?l ?d) = Inr bs"
    by (auto simp: table_writer_def)
  then obtain bs where bs: "to_writer ?D ?l = Inr bs" by blast
  have get: "memory_get ?D (en_storage (one_doc_engine ?l ?D)) ''c'' (String ''x'') = Inr (Some ?l)"
    by (rule one_doc_engine(2) [OF _ _ bs]) simp_all
  have order: "revision_order (doc_rev ?D ?d) (doc_rev ?D ?l) = Greater"
    by (simp add: revision_order_def revision_cmp_new)
  have "\<exists>st. apply_remote_mutation ?D (memory_engine ?D) ''c'' ?d (one_doc_engine ?l ?D) = (Inr (), st)"
    using apply_remote_eq [of ?d "String ''x''" "memory_engine ?D" "one_doc_engine ?l ?D" "''c''" "Some ?l" ?D]
      get order wr(2)
    by (auto simp: same_version_def merged_def storage_put_def memory_put_def Let_def split: prod.splits)
  then obtain st where st: "apply_remote_mutation ?D (memory_engine ?D) ''c'' ?d (one_doc_engine ?l ?D) = (Inr (), st)"
    by blast
  have "memory_inv ?D (en_storage (one_doc_engine ?l ?D))"
    by (rule one_doc_engine(1) [OF _ _ bs]) simp_all
  from remote_last_writer_wins [OF mem.storage_laws_axioms this TrueI _ _ st, of "String ''x''" "Some ?l"]
  obtain w where "conflicts_of w = Some [Document ?l]"
    using get by (auto simp: revision_cmp_new)
  with st show ?thesis by blast
qed


subsection \<open>Order and repetition\<close>

lemma mutation_cmp_distinct:
  assumes "\<forall>a\<in>set ms. \<forall>b\<in>set ms. replay_key D a = replay_key D b \<longrightarrow> a = b" "mset ms = mset ms'"
  shows "sort_by (mutation_cmp D) ms = sort_by (mutation_cmp D) ms'"
proof (rule replay_order.sort_by_mset_eq [OF assms(2)])
  show "x = y" if "x \<in> set ms" "y \<in> set ms" "mutation_cmp D x y = Equal" for x y
    using that assms(1) by (simp add: mutation_cmp_Equal)
qed simp

lemma apply_mutations_frame:
  assumes "same_replay (replay_loop D E dc (sort_by (mutation_cmp D) ms) {} 0 (drift_in D ms)
      (st\<lparr>en_world := snd (instant_now (en_world st))\<rparr>))
    (replay_loop D E dc (sort_by (mutation_cmp D) ms') {} 0 (drift_in D ms')
      (st\<lparr>en_world := snd (instant_now (en_world st))\<rparr>))"
    and "apply_mutations_deterministic D E dc ms st = (r, s)"
    and "apply_mutations_deterministic D E dc ms' st = (r', s')"
  shows "r' = r \<and> s' = s\<lparr>en_metrics := en_metrics s'\<rparr>"
  using assms
  by (cases "replay_loop D E dc (sort_by (mutation_cmp D) ms) {} 0 (drift_in D ms)
      (st\<lparr>en_world := snd (instant_now (en_world st))\<rparr>)";
      cases "replay_loop D E dc (sort_by (mutation_cmp D) ms') {} 0 (drift_in D ms')
      (st\<lparr>en_world := snd (instant_now (en_world st))\<rparr>)")
    (auto simp: apply_mutations_deterministic_def bind_op_def from_world_eq Let_def same_replay_def
      record_op_def return_op_def map_sum_def split: sum.splits prod.splits if_splits)

text \<open>
  C3: replay does not depend on the order in which the mutations arrive: two batches with the
  same mutations, of which no two different ones agree on collection, timestamp, number, document
  and write identifier, give the same result and leave engines that differ in their counters at
  most, failures included.
\<close>

theorem replay_order_independent:
  assumes "mset ms = mset ms'"
    and "\<forall>a\<in>set ms. \<forall>b\<in>set ms. replay_key D a = replay_key D b \<longrightarrow> a = b"
    and "apply_mutations_deterministic D E dc ms st = (r, s)"
    and "apply_mutations_deterministic D E dc ms' st = (r', s')"
  shows "r' = r \<and> s' = s\<lparr>en_metrics := en_metrics s'\<rparr>"
  by (rule apply_mutations_frame [OF _ assms(3,4)])
    (simp add: mutation_cmp_distinct [OF assms(2,1)] replay_loop_drift)

theorem replay_order_independent_witness:
  "\<exists>r s s'. apply_mutations_deterministic (sample_deps []) (memory_engine (sample_deps [])) ''c''
      [sample_mutation, sample_mutation\<lparr>mut_seq := 2, mut_write_id := ''v''\<rparr>] sample_engine = (r, s) \<and>
    apply_mutations_deterministic (sample_deps []) (memory_engine (sample_deps [])) ''c''
      [sample_mutation\<lparr>mut_seq := 2, mut_write_id := ''v''\<rparr>, sample_mutation] sample_engine = (r, s') \<and>
    en_storage s' = en_storage s"
proof -
  let ?m = "sample_mutation\<lparr>mut_seq := 2, mut_write_id := ''v''\<rparr>" and ?D = "sample_deps []"
  obtain r s r' s' where
    a: "apply_mutations_deterministic ?D (memory_engine ?D) ''c'' [sample_mutation, ?m] sample_engine = (r, s)" and
    b: "apply_mutations_deterministic ?D (memory_engine ?D) ''c'' [?m, sample_mutation] sample_engine = (r', s')"
    by (meson surj_pair)
  have "r' = r \<and> s' = s\<lparr>en_metrics := en_metrics s'\<rparr>"
    by (rule replay_order_independent [OF _ _ a b]) (auto simp: replay_key_def sample_mutation_def)
  then have "r' = r" "en_storage s' = en_storage s"
    by (auto dest: arg_cong [where f = en_storage])
  with a b show ?thesis by blast
qed

text \<open>
  Replay is idempotent: when a batch whose mutations all carry a write identifier has been
  applied, applying any selection of it again applies nothing and leaves storage and the set of
  known identifiers as they are.
\<close>

theorem replay_idempotent:
  assumes "apply_mutations_deterministic D E dc ms st = (Inr n, st')"
    and "set ms' \<subseteq> set ms" "\<forall>m\<in>set ms. mut_write_id m \<noteq> []"
  shows "\<exists>st''. apply_mutations_deterministic D E dc' ms' st' = (Inr 0, st'') \<and>
    en_storage st'' = en_storage st' \<and> en_applied_write_ids st'' = en_applied_write_ids st'"
proof -
  obtain drift st1 where
    "replay_loop D E dc (sort_by (mutation_cmp D) ms) {} 0 (drift_in D ms)
       (st\<lparr>en_world := snd (instant_now (en_world st))\<rparr>) = (Inr (n, drift), st1)"
    "en_applied_write_ids st' = en_applied_write_ids st1"
    using apply_mutations_Inr [OF assms(1)] by blast
  with replay_loop_seen [OF this(1)] assms(2,3) show ?thesis
    by (intro apply_mutations_skips) auto
qed

lemma sample_valid [simp]: "validate_metadata sample_mutation = Inr ()"
  by (simp add: validate_metadata_ok metadata_valid_def sample_mutation_def in_unit_def f64_le_def)

lemma sample_replay:
  "\<exists>st. apply_mutations_deterministic (sample_deps [[(''_id'', String ''x'')]])
     (memory_engine (sample_deps [[(''_id'', String ''x'')]])) ''c'' [sample_mutation] sample_engine = (Inr 1, st)"
  by (simp add: apply_mutations_deterministic_def from_world_eq apply_one_def Let_def bind_op_def
      apply_remote_eq [where i = "String ''x''" and m = None] sample_mutation_def [THEN arg_cong, of mut_patch]
      sample_mutation_def [THEN arg_cong, of mut_collection] sample_mutation_def [THEN arg_cong, of mut_write_id]
      memory_get_def memory_new_def same_version_def merged_def storage_put_def memory_put_def record_op_def
      return_op_def table_writer_def)

theorem replay_idempotent_witness:
  "\<exists>st st'. apply_mutations_deterministic (sample_deps [[(''_id'', String ''x'')]])
     (memory_engine (sample_deps [[(''_id'', String ''x'')]])) ''c'' [sample_mutation] sample_engine = (Inr 1, st) \<and>
    apply_mutations_deterministic (sample_deps [[(''_id'', String ''x'')]])
     (memory_engine (sample_deps [[(''_id'', String ''x'')]])) ''c'' [sample_mutation] st = (Inr 0, st')"
proof -
  obtain st where "apply_mutations_deterministic (sample_deps [[(''_id'', String ''x'')]])
     (memory_engine (sample_deps [[(''_id'', String ''x'')]])) ''c'' [sample_mutation] sample_engine = (Inr 1, st)"
    using sample_replay by blast
  with replay_idempotent [OF this, of "[sample_mutation]" "''c''"] show ?thesis
    by (auto simp: sample_mutation_def)
qed

text \<open>
  A mutation whose storage write failed is lost: its identifier is recorded before the write,
  so the caller gets an error, and the retry of the same batch reports success with nothing applied
  and the storage unchanged.
\<close>

theorem failed_replay_is_not_retried:
  assumes "validate_metadata m = Inr ()" "mut_write_id m \<noteq> []" "mut_write_id m \<notin> en_applied_write_ids st"
    and "apply_mutations_deterministic D E dc [m] st = (Inl e, st')"
  shows "\<exists>st''. apply_mutations_deterministic D E dc [m] st' = (Inr 0, st'') \<and>
    en_storage st'' = en_storage st'"
proof -
  let ?s = "st\<lparr>en_world := snd (instant_now (en_world st)),
    en_applied_write_ids := insert (mut_write_id m) (en_applied_write_ids st)\<rparr>"
  obtain q s where one: "apply_one D E dc m ?s = (q, s)" by (cases "apply_one D E dc m ?s")
  have "en_applied_write_ids st' = insert (mut_write_id m) (en_applied_write_ids st)"
    using assms apply_one_frame [OF one] one
    by (auto simp: apply_mutations_deterministic_def from_world_eq Let_def bind_op_def record_op_def
        return_op_def split: sum.splits if_splits)
  with assms(1,2) apply_mutations_skips [of "[m]" st' D E dc] show ?thesis by auto
qed

theorem failed_replay_is_not_retried_witness:
  "\<exists>e st st'. apply_mutations_deterministic (sample_deps []) (memory_engine (sample_deps [])) ''c''
      [sample_mutation] sample_engine = (Inl e, st) \<and>
    apply_mutations_deterministic (sample_deps []) (memory_engine (sample_deps [])) ''c''
      [sample_mutation] st = (Inr 0, st')"
proof -
  have "\<exists>e st. apply_mutations_deterministic (sample_deps []) (memory_engine (sample_deps [])) ''c''
      [sample_mutation] sample_engine = (Inl e, st)"
    by (simp add: apply_mutations_deterministic_def from_world_eq apply_one_def Let_def bind_op_def
      apply_remote_eq [where i = "String ''x''" and m = None] sample_mutation_def [THEN arg_cong, of mut_patch]
      sample_mutation_def [THEN arg_cong, of mut_collection] sample_mutation_def [THEN arg_cong, of mut_write_id]
      memory_get_def memory_new_def same_version_def merged_def storage_put_def memory_put_def record_op_def
      return_op_def table_writer_def)
  then obtain e st where "apply_mutations_deterministic (sample_deps []) (memory_engine (sample_deps [])) ''c''
      [sample_mutation] sample_engine = (Inl e, st)" by blast
  with failed_replay_is_not_retried [OF sample_valid _ _ this] show ?thesis
    by (auto simp: sample_mutation_def [THEN arg_cong, of mut_write_id])
qed

end
