(* ===== verification/Rango_Engine_Snapshots.thy ===== *)
theory Rango_Engine_Snapshots
  imports Rango_Engine_Replay
begin

text \<open>
  Snapshots, restore, rollback and the collection of tombstones on any back end that keeps the
  storage laws: restoring gives back the snapshot's contents, replayed mutations that the engine
  already knows are left out, and collecting tombstones removes nothing else.
\<close>

section \<open>Deleting and putting many documents\<close>

text \<open>Every stored document carries the identifier it is stored under.\<close>

definition identified :: "'s storage_engine \<Rightarrow> (document_id \<Rightarrow> string) \<Rightarrow> 's \<Rightarrow> collection_name \<Rightarrow> bool" where
  "identified E idtext s c \<longleftrightarrow>
     (\<forall>i d. se_get E s c i = Inr (Some d) \<longrightarrow> (\<exists>j. al_get d ''_id'' = Some j \<and> idtext j = idtext i))"

text \<open>A document of the list is stored under an identifier with this text.\<close>

definition stores_id :: "(document_id \<Rightarrow> string) \<Rightarrow> doc list \<Rightarrow> string \<Rightarrow> bool" where
  "stores_id idtext ds t \<longleftrightarrow> (\<exists>d\<in>set ds. \<exists>j. al_get d ''_id'' = Some j \<and> idtext j = t)"

lemma stores_id_simps [simp]:
  "\<not> stores_id idtext [] t"
  "stores_id idtext (d # ds) t \<longleftrightarrow> (\<exists>j. al_get d ''_id'' = Some j \<and> idtext j = t) \<or> stores_id idtext ds t"
  by (auto simp: stores_id_def)

lemma delete_all_frame:
  "delete_all E c ds st = (r, st') \<Longrightarrow> en_applied_write_ids st' = en_applied_write_ids st \<and>
     en_world st' = en_world st \<and> en_oplog st' = en_oplog st"
  by (induction ds arbitrary: st)
    (fastforce simp: bind_op_def storage_delete_def split: option.splits prod.splits sum.splits)+

lemma put_all_frame:
  "put_all E c ds st = (r, st') \<Longrightarrow> en_applied_write_ids st' = en_applied_write_ids st \<and>
     en_world st' = en_world st \<and> en_oplog st' = en_oplog st"
  by (induction ds arbitrary: st)
    (fastforce simp: bind_op_def storage_put_def split: option.splits prod.splits sum.splits)+

context storage_laws
begin

lemma identified_iff:
  assumes "inv s" "name_ok c"
  shows "identified E idtext s c \<longleftrightarrow>
    (\<forall>i d. holds_at s c i = Some d \<longrightarrow> (\<exists>j. al_get d ''_id'' = Some j \<and> idtext j = idtext i))"
  by (simp add: identified_def get_holds_at [OF assms])

lemma holds_at_idtext: "inv s \<Longrightarrow> name_ok c \<Longrightarrow> idtext i = idtext j \<Longrightarrow> holds_at s c i = holds_at s c j"
  using get_idtext [of s c i j] by (simp add: holds_at_def)

lemma delete_all_holds:
  assumes "inv (en_storage st)" "name_ok c" "name_ok c'" "delete_all E c ds st = (Inr (), st')"
  shows "inv (en_storage st') \<and>
    holds_at (en_storage st') c' i =
      (if c' = c \<and> stores_id idtext ds (idtext i) then None else holds_at (en_storage st) c' i)"
  using assms
proof (induction ds arbitrary: st)
  case (Cons d ds)
  show ?case
  proof (cases "al_get d ''_id''")
    case None
    with Cons show ?thesis by simp
  next
    case (Some j)
    with Cons.prems(4) obtain b s where del: "se_delete E (en_storage st) c j = (Inr b, s)"
      and rest: "delete_all E c ds (st\<lparr>en_storage := s\<rparr>) = (Inr (), st')"
      by (auto simp: bind_op_Inr storage_delete_eq)
    have "inv s" by (rule delete_inv [OF Cons.prems(1,2) del])
    with Cons.IH [OF _ Cons.prems(2,3) rest] delete_holds_at [OF Cons.prems(1,2,3) del, of i] Some
    show ?thesis by auto
  qed
qed simp

lemma put_all_holds:
  assumes "inv (en_storage st)" "name_ok c" "name_ok c'" "put_all E c ds st = (Inr (), st')"
    and "\<forall>d\<in>set ds. \<forall>j. al_get d ''_id'' = Some j \<longrightarrow> f (idtext j) = Some d"
  shows "inv (en_storage st') \<and>
    holds_at (en_storage st') c' i =
      (if c' = c \<and> stores_id idtext ds (idtext i) then f (idtext i) else holds_at (en_storage st) c' i)"
  using assms
proof (induction ds arbitrary: st)
  case (Cons d ds)
  show ?case
  proof (cases "al_get d ''_id''")
    case None
    with Cons show ?thesis by simp
  next
    case (Some j)
    with Cons.prems(4) obtain s where put: "se_put E (en_storage st) c j d = (Inr (), s)"
      and rest: "put_all E c ds (st\<lparr>en_storage := s\<rparr>) = (Inr (), st')"
      by (auto simp: bind_op_Inr storage_put_eq)
    have "inv s" by (rule put_inv [OF Cons.prems(1,2) put])
    with Cons.IH [OF _ Cons.prems(2,3) rest] put_holds_at [OF Cons.prems(1,2,3) put, of i] Some Cons.prems(5)
    show ?thesis by auto
  qed
qed simp

lemma raw_contents:
  assumes "inv (en_storage st)" "name_ok c" "identified E idtext (en_storage st) c"
    and "find_all_raw D E st c = Inr ds"
  shows "stores_id idtext ds (idtext i) \<longleftrightarrow> holds_at (en_storage st) c i \<noteq> None"
    and "d \<in> set ds \<Longrightarrow> al_get d ''_id'' = Some j \<Longrightarrow> holds_at (en_storage st) c j = Some d"
proof -
  obtain rows where scan: "se_scan E (en_storage st) c = Inr (map Inr rows)"
    and rows: "\<And>d. d \<in> set rows \<longleftrightarrow> (\<exists>i. holds_at (en_storage st) c i = Some d)"
    using scan_holds_at [OF assms(1,2)] by blast
  have "ds = rows" using assms(4) by (simp add: find_all_raw_def scan filtered_iter_all)
  note in_ds = rows [folded this]
  note id = assms(3) [unfolded identified_iff [OF assms(1,2)]]
  note same = holds_at_idtext [OF assms(1,2)]
  show own: "holds_at (en_storage st) c j = Some d" if mem: "d \<in> set ds" and own_id: "al_get d ''_id'' = Some j" for d j
  proof -
    obtain k where k: "holds_at (en_storage st) c k = Some d" using mem in_ds by blast
    then have "\<exists>j. al_get d ''_id'' = Some j \<and> idtext j = idtext k" by (rule id [rule_format])
    with own_id have "idtext j = idtext k" by simp
    from same [OF this] k show ?thesis by simp
  qed
  show "stores_id idtext ds (idtext i) \<longleftrightarrow> holds_at (en_storage st) c i \<noteq> None"
  proof
    assume "stores_id idtext ds (idtext i)"
    then obtain d j where "d \<in> set ds" "al_get d ''_id'' = Some j" "idtext j = idtext i"
      by (auto simp: stores_id_def)
    with own [of d j] same [of j i] show "holds_at (en_storage st) c i \<noteq> None" by simp
  next
    assume "holds_at (en_storage st) c i \<noteq> None"
    then obtain d where d: "holds_at (en_storage st) c i = Some d" by blast
    then obtain j where "al_get d ''_id'' = Some j" "idtext j = idtext i" using id by blast
    with d in_ds show "stores_id idtext ds (idtext i)" by (auto simp: stores_id_def)
  qed
qed

lemma restore_contents:
  assumes source: "inv (en_storage st)" "identified E idtext (en_storage st) c"
      "create_snapshot D E c tenant sid n0 st = (Inr snap, st1)"
    and target: "inv (en_storage u)" "identified E idtext (en_storage u) c" and c: "name_ok c"
    and restore: "restore_from_snapshot D E c snap replay u = (Inr n, u')"
  shows "\<exists>v. inv (en_storage v) \<and> en_applied_write_ids v = en_applied_write_ids u \<and>
    (\<forall>i. holds_at (en_storage v) c i = holds_at (en_storage st) c i) \<and>
    (\<forall>c' i. name_ok c' \<longrightarrow> c' \<noteq> c \<longrightarrow>
      holds_at (en_storage v) c' i = holds_at (en_storage u) c' i) \<and>
    apply_mutations_deterministic D E c replay v = (Inr n, u')"
proof -
  have snap: "find_all_raw D E st c = Inr (snap_state snap)" "snap_namespace snap = c"
    using source(3) by (auto simp: create_snapshot_def bind_op_Inr from_world_Inr)
  obtain ds w v where old: "find_all_raw D E u c = Inr ds"
    and del: "delete_all E c ds u = (Inr (), w)" and put: "put_all E c (snap_state snap) w = (Inr (), v)"
    and rep: "apply_mutations_deterministic D E c replay v = (Inr n, u')"
    using restore snap(2) by (auto simp: restore_from_snapshot_def bind_op_Inr)
  note cleared = delete_all_holds [OF target(1) c _ del]
  let ?f = "\<lambda>t. if \<exists>j. idtext j = t then holds_at (en_storage st) c (SOME j. idtext j = t) else None"
  have f: "?f (idtext j) = holds_at (en_storage st) c j" for j
  proof -
    have "idtext (SOME k. idtext k = idtext j) = idtext j" by (rule someI) (rule refl)
    then have "holds_at (en_storage st) c (SOME k. idtext k = idtext j) = holds_at (en_storage st) c j"
      by (rule holds_at_idtext [OF source(1) c])
    then show ?thesis by auto
  qed
  have "\<forall>d\<in>set (snap_state snap). \<forall>j. al_get d ''_id'' = Some j \<longrightarrow> ?f (idtext j) = Some d"
    using raw_contents(2) [OF source(1) c source(2) snap(1)] f by simp
  note filled = put_all_holds [OF cleared [OF c, THEN conjunct1] c _ put this, unfolded f]
  have inv_v: "inv (en_storage v)" using filled [OF c] by blast
  have same: "holds_at (en_storage v) c i = holds_at (en_storage st) c i" for i
    using filled [OF c, of i] cleared [OF c, of i] raw_contents(1) [OF source(1) c source(2) snap(1), of i]
      raw_contents(1) [OF target(1) c target(2) old, of i] by (auto split: if_splits)
  have other: "holds_at (en_storage v) c' i = holds_at (en_storage u) c' i" if "name_ok c'" "c' \<noteq> c" for c' i
    using filled [OF that(1), of i] cleared [OF that(1), of i] that(2) by simp
  show ?thesis
    using inv_v same other rep delete_all_frame [OF del] put_all_frame [OF put]
    by (intro exI [of _ v]) simp
qed

lemma gc_rows_holds:
  assumes "inv (en_storage st)" "name_ok c" "name_ok c'" "gc_rows E c (map Inr ds) k st = (Inr n, st')"
  shows "inv (en_storage st') \<and>
    holds_at (en_storage st') c' i =
      (if c' = c \<and> stores_id idtext (filter is_deleted ds) (idtext i) then None
       else holds_at (en_storage st) c' i)"
  using assms
proof (induction ds arbitrary: st k)
  case (Cons d ds)
  show ?case
  proof (cases "is_deleted d \<and> al_get d ''_id'' \<noteq> None")
    case False
    with Cons show ?thesis by (auto split: if_splits)
  next
    case True
    with Cons.prems(4) obtain j b s where j: "al_get d ''_id'' = Some j"
      and del: "se_delete E (en_storage st) c j = (Inr b, s)"
      and rest: "gc_rows E c (map Inr ds) (k + 1) (st\<lparr>en_storage := s\<rparr>) = (Inr n, st')"
      by (auto simp: bind_op_Inr storage_delete_eq)
    have "inv s" by (rule delete_inv [OF Cons.prems(1,2) del])
    with Cons.IH [OF _ Cons.prems(2,3) rest] delete_holds_at [OF Cons.prems(1,2,3) del, of i] j True
    show ?thesis by auto
  qed
qed simp

lemma gc_deleted_holds:
  assumes "inv (en_storage st)" "name_ok c" "name_ok c'" "identified E idtext (en_storage st) c"
    and "gc_deleted E c st = (Inr n, st')"
  shows "inv (en_storage st') \<and>
    holds_at (en_storage st') c' i =
      (case holds_at (en_storage st) c' i of
         Some d \<Rightarrow> if c' = c \<and> is_deleted d then None else Some d | None \<Rightarrow> None)"
proof -
  obtain ds where scan: "se_scan E (en_storage st) c = Inr (map Inr ds)"
    "\<And>d. d \<in> set ds \<longleftrightarrow> (\<exists>i. holds_at (en_storage st) c i = Some d)"
    using scan_holds_at [OF assms(1,2)] by blast
  have "find_all_raw D E st c = Inr ds" for D
    by (simp add: find_all_raw_def scan(1) filtered_iter_all)
  note raw = raw_contents(2) [OF assms(1,2,4) this]
  note id = assms(4) [unfolded identified_iff [OF assms(1,2)]]
  have "stores_id idtext (filter is_deleted ds) (idtext i) \<longleftrightarrow>
      (\<exists>d. holds_at (en_storage st) c i = Some d \<and> is_deleted d)"
  proof
    assume "stores_id idtext (filter is_deleted ds) (idtext i)"
    then obtain d j where d: "d \<in> set ds" "is_deleted d" "al_get d ''_id'' = Some j" "idtext j = idtext i"
      by (auto simp: stores_id_def)
    with raw [OF d(1,3)] holds_at_idtext [OF assms(1,2) d(4)]
    show "\<exists>d. holds_at (en_storage st) c i = Some d \<and> is_deleted d" by simp
  next
    assume "\<exists>d. holds_at (en_storage st) c i = Some d \<and> is_deleted d"
    then obtain d where d: "holds_at (en_storage st) c i = Some d" "is_deleted d" by blast
    moreover have "d \<in> set ds" using d scan(2) by blast
    moreover obtain j where "al_get d ''_id'' = Some j" "idtext j = idtext i" using d id by blast
    ultimately show "stores_id idtext (filter is_deleted ds) (idtext i)" by (auto simp: stores_id_def)
  qed
  moreover have "gc_rows E c (map Inr ds) 0 st = (Inr n, st')"
    using assms(5) scan(1) by (simp add: gc_deleted_def)
  ultimately show ?thesis
    using gc_rows_holds [OF assms(1-3), of ds 0 n st' i] by (auto split: option.splits)
qed

end

section \<open>An engine with one document\<close>

lemma one_doc_storage:
  "en_storage (one_doc_engine d (sample_deps (d # ds))) =
     [(''c'', [(encode_key (sample_deps (d # ds)) ''c'' (String ''x''), [0])])]"
  by (simp add: one_doc_engine_def memory_put_def memory_new_def table_writer_def Let_def)

lemma one_doc_scan:
  "memory_scan (sample_deps (d # ds)) (en_storage (one_doc_engine d (sample_deps (d # ds)))) ''c'' = Inr [Inr d]"
  by (simp add: memory_scan_def one_doc_storage table_reader_def)

lemma one_doc_get:
  "memory_get (sample_deps (d # ds)) (en_storage (one_doc_engine d (sample_deps (d # ds)))) ''c'' i =
     (if document_id_to_string (sample_deps (d # ds)) i = document_id_to_string (sample_deps (d # ds)) (String ''x'')
      then Inr (Some d) else Inr None)"
  by (auto simp: memory_get_def one_doc_storage table_reader_def)

lemma one_doc_inv: "memory_inv (sample_deps (d # ds)) (en_storage (one_doc_engine d (sample_deps (d # ds))))"
  by (rule one_doc_engine(1) [where bs = "[0]"]) (simp_all add: table_writer_def)

lemma one_doc_identified:
  "al_get d ''_id'' = Some (String ''x'') \<Longrightarrow>
   identified (memory_engine (sample_deps (d # ds))) (document_id_to_string (sample_deps (d # ds)))
     (en_storage (one_doc_engine d (sample_deps (d # ds)))) ''c''"
  by (simp add: identified_def one_doc_get)

section \<open>Properties\<close>

text \<open>
  A deleted document comes back: over a tombstone the revisions are not compared, so a remote
  write replaces a later delete, and the document is found again.
\<close>

theorem tombstone_loses_to_older_write:
  assumes "storage_laws E ok name_ok idtext" "ok (en_storage st)" "name_ok c" "al_get d ''_id'' = Some i"
    and "se_get E (en_storage st) c i = Inr (Some l)" "is_deleted l" "\<not> is_deleted d"
    and "apply_remote_mutation D E c d st = (Inr (), st')"
  shows "fst (find_one E c i st') = Inr (Some \<lparr>doc_data = d\<rparr>)"
proof -
  have "storage_laws.holds_at E (en_storage st) c i = Some l"
    by (simp add: storage_laws.holds_at_def [OF assms(1)] assms(5))
  with storage_laws.apply_remote_merges [OF assms(1-4,8)] assms(6,7)
  have "se_get E (en_storage st') c i = Inr (Some d)" by (simp add: merged_def)
  with find_one_result [of E c i st'] assms(7) show ?thesis by simp
qed

theorem tombstone_loses_to_older_write_witness:
  "\<exists>st. apply_remote_mutation (sample_deps [versioned ''x'' 2 True, versioned ''x'' 1 False])
      (memory_engine (sample_deps [versioned ''x'' 2 True, versioned ''x'' 1 False])) ''c''
      (versioned ''x'' 1 False)
      (one_doc_engine (versioned ''x'' 2 True) (sample_deps [versioned ''x'' 2 True, versioned ''x'' 1 False])) =
      (Inr (), st) \<and>
    fst (find_one (memory_engine (sample_deps [versioned ''x'' 2 True, versioned ''x'' 1 False])) ''c''
      (String ''x'') st) = Inr (Some \<lparr>doc_data = versioned ''x'' 1 False\<rparr>)"
proof -
  let ?l = "versioned ''x'' 2 True" and ?d = "versioned ''x'' 1 False"
  let ?D = "sample_deps [?l, ?d]" and ?st = "one_doc_engine (versioned ''x'' 2 True) (sample_deps [?l, ?d])"
  have get: "memory_get ?D (en_storage ?st) ''c'' (String ''x'') = Inr (Some ?l)" by (simp add: one_doc_get)
  have wr: "\<exists>bs. to_writer ?D ?d = Inr bs" by (simp add: table_writer_def)
  have "\<exists>st. apply_remote_mutation ?D (memory_engine ?D) ''c'' ?d ?st = (Inr (), st)"
    using apply_remote_eq [of ?d "String ''x''" "memory_engine ?D" ?st "''c''" "Some ?l" ?D] get wr
    by (auto simp: same_version_def merged_def storage_put_def memory_put_def Let_def split: prod.splits)
  then obtain st where st: "apply_remote_mutation ?D (memory_engine ?D) ''c'' ?d ?st = (Inr (), st)" by blast
  with tombstone_loses_to_older_write [OF mem.storage_laws_axioms one_doc_inv TrueI _ _ _ _ st, of "String ''x''" ?l] get
  show ?thesis by simp
qed

text \<open>
  C12: a snapshot restores what was there: when every stored document carries the identifier it is
  stored under, restoring the snapshot of one engine into another one, whatever that one held,
  gives every identifier of the collection the document it had, tombstones included, leaves the
  other collections alone, and then replays the given mutations on that state.
\<close>

theorem snapshot_restores_contents:
  assumes laws: "storage_laws E ok name_ok idtext" and c: "name_ok c"
    and source: "ok (en_storage st)" "identified E idtext (en_storage st) c"
      "create_snapshot D E c tenant sid n0 st = (Inr snap, st1)"
    and target: "ok (en_storage u)" "identified E idtext (en_storage u) c"
    and restore: "restore_from_snapshot D E c snap replay u = (Inr n, u')"
  shows "\<exists>v. (\<forall>i. se_get E (en_storage v) c i = se_get E (en_storage st) c i) \<and>
    (\<forall>c' i. name_ok c' \<longrightarrow> c' \<noteq> c \<longrightarrow> se_get E (en_storage v) c' i = se_get E (en_storage u) c' i) \<and>
    apply_mutations_deterministic D E c replay v = (Inr n, u')"
proof -
  note get = storage_laws.get_holds_at [OF laws]
  obtain v where "ok (en_storage v)" "apply_mutations_deterministic D E c replay v = (Inr n, u')"
      "\<forall>i. storage_laws.holds_at E (en_storage v) c i = storage_laws.holds_at E (en_storage st) c i"
      "\<forall>c' i. name_ok c' \<longrightarrow> c' \<noteq> c \<longrightarrow>
        storage_laws.holds_at E (en_storage v) c' i = storage_laws.holds_at E (en_storage u) c' i"
    using storage_laws.restore_contents [OF laws source target c restore] by blast
  then show ?thesis
    by (intro exI [of _ v]) (simp add: get source(1) target(1) c)
qed

lemma sample_restore:
  assumes "al_get d ''_id'' = Some (String ''x'')"
  shows "\<exists>snap st1 v. create_snapshot (sample_deps [d]) (memory_engine (sample_deps [d])) ''c'' t sid n0
      (one_doc_engine d (sample_deps [d])) = (Inr snap, st1) \<and>
    (\<forall>replay. restore_from_snapshot (sample_deps [d]) (memory_engine (sample_deps [d])) ''c'' snap replay
      (one_doc_engine d (sample_deps [d])\<lparr>en_applied_write_ids := ws\<rparr>) =
      apply_mutations_deterministic (sample_deps [d]) (memory_engine (sample_deps [d])) ''c'' replay v) \<and>
    en_applied_write_ids v = ws"
proof -
  let ?D = "sample_deps [d]" and ?st = "one_doc_engine d (sample_deps [d])"
  have raw: "find_all_raw ?D (memory_engine ?D) u ''c'' = Inr [d]" if "en_storage u = en_storage ?st"
    for u :: "(memory_storage, null_oplog) engine"
    using that by (simp add: find_all_raw_def one_doc_scan)
  show ?thesis
    using raw assms
    by (simp add: create_snapshot_def from_world_eq restore_from_snapshot_def storage_delete_def
        memory_delete_def one_doc_storage Let_def storage_put_def memory_put_def table_writer_def)
      (intro exI conjI allI, rule refl, simp)
qed

theorem snapshot_restores_contents_witness:
  "\<exists>snap st1 n u'. create_snapshot (sample_deps [sample_doc]) (memory_engine (sample_deps [sample_doc])) ''c''
      ''t'' ''s'' 0 (one_doc_engine sample_doc (sample_deps [sample_doc])) = (Inr snap, st1) \<and>
    restore_from_snapshot (sample_deps [sample_doc]) (memory_engine (sample_deps [sample_doc])) ''c'' snap []
      (one_doc_engine sample_doc (sample_deps [sample_doc])\<lparr>en_applied_write_ids := {}\<rparr>) = (Inr n, u')"
proof -
  let ?D = "sample_deps [sample_doc]" and ?st = "one_doc_engine sample_doc (sample_deps [sample_doc])"
  have id: "al_get sample_doc ''_id'' = Some (String ''x'')" by simp
  obtain snap st1 v where create: "create_snapshot ?D (memory_engine ?D) ''c'' ''t'' ''s'' 0 ?st = (Inr snap, st1)"
    and restore: "\<forall>replay. restore_from_snapshot ?D (memory_engine ?D) ''c'' snap replay
      (?st\<lparr>en_applied_write_ids := {}\<rparr>) = apply_mutations_deterministic ?D (memory_engine ?D) ''c'' replay v"
    using sample_restore [OF id, of "''t''" "''s''" 0 "{}"] by blast
  obtain u' where "apply_mutations_deterministic ?D (memory_engine ?D) ''c'' [] v = (Inr 0, u')"
    using apply_mutations_skips [of "[]" v ?D "memory_engine ?D" "''c''"] by auto
  then have u': "restore_from_snapshot ?D (memory_engine ?D) ''c'' snap []
      (?st\<lparr>en_applied_write_ids := {}\<rparr>) = (Inr 0, u')" using restore [rule_format] by simp
  have "\<exists>v. apply_mutations_deterministic ?D (memory_engine ?D) ''c'' [] v = (Inr 0, u')"
    using snapshot_restores_contents [OF mem.storage_laws_axioms TrueI one_doc_inv one_doc_identified [OF id]
        create _ _ u'] one_doc_inv one_doc_identified [OF id] by auto
  with create u' show ?thesis by blast
qed

text \<open>
  Restore on the engine that made the snapshot does not replay: the mutations it has already
  seen are skipped, so the result counts none and the collection keeps the snapshot's contents,
  even where the mutations came after the snapshot.
\<close>

theorem restore_skips_known_mutations:
  assumes laws: "storage_laws E ok name_ok idtext" and c: "name_ok c"
    and source: "ok (en_storage st)" "identified E idtext (en_storage st) c"
      "create_snapshot D E c tenant sid n0 st = (Inr snap, st1)"
    and target: "ok (en_storage u)" "identified E idtext (en_storage u) c"
    and known: "\<forall>m\<in>set replay. validate_metadata m = Inr () \<and> mut_write_id m \<noteq> [] \<and>
      mut_write_id m \<in> en_applied_write_ids u"
    and restore: "restore_from_snapshot D E c snap replay u = (Inr n, u')"
  shows "n = 0 \<and> (\<forall>i. se_get E (en_storage u') c i = se_get E (en_storage st) c i)"
proof -
  note get = storage_laws.get_holds_at [OF laws]
  obtain v where v: "ok (en_storage v)" "apply_mutations_deterministic D E c replay v = (Inr n, u')"
      "\<forall>i. storage_laws.holds_at E (en_storage v) c i = storage_laws.holds_at E (en_storage st) c i"
      "en_applied_write_ids v = en_applied_write_ids u"
    using storage_laws.restore_contents [OF laws source target c restore] by blast
  then show ?thesis
    using apply_mutations_skips [of replay v D E c] known by (auto simp: get source(1) c)
qed

theorem restore_skips_known_mutations_witness:
  "\<exists>snap u'. restore_from_snapshot (sample_deps [sample_doc]) (memory_engine (sample_deps [sample_doc])) ''c'' snap
      [sample_mutation] (one_doc_engine sample_doc (sample_deps [sample_doc])\<lparr>en_applied_write_ids := {''w''}\<rparr>) =
      (Inr 0, u') \<and>
    memory_get (sample_deps [sample_doc]) (en_storage u') ''c'' (String ''x'') = Inr (Some sample_doc)"
proof -
  let ?D = "sample_deps [sample_doc]" and ?st = "one_doc_engine sample_doc (sample_deps [sample_doc])"
  have id: "al_get sample_doc ''_id'' = Some (String ''x'')" by simp
  have w: "mut_write_id sample_mutation = ''w''" by (simp add: sample_mutation_def)
  obtain snap st1 v where create: "create_snapshot ?D (memory_engine ?D) ''c'' ''t'' ''s'' 0 ?st = (Inr snap, st1)"
    and restore: "\<forall>replay. restore_from_snapshot ?D (memory_engine ?D) ''c'' snap replay
      (?st\<lparr>en_applied_write_ids := {''w''}\<rparr>) = apply_mutations_deterministic ?D (memory_engine ?D) ''c'' replay v"
    and seen: "en_applied_write_ids v = {''w''}"
    using sample_restore [OF id, of "''t''" "''s''" 0 "{''w''}"] by (elim exE conjE)
  have "\<forall>m\<in>set [sample_mutation]. validate_metadata m = Inr () \<and> mut_write_id m \<noteq> [] \<and>
      mut_write_id m \<in> en_applied_write_ids v" by (simp add: seen w)
  from apply_mutations_skips [OF this]
  obtain u' where "apply_mutations_deterministic ?D (memory_engine ?D) ''c'' [sample_mutation] v = (Inr 0, u')"
    by blast
  then have u': "restore_from_snapshot ?D (memory_engine ?D) ''c'' snap [sample_mutation]
      (?st\<lparr>en_applied_write_ids := {''w''}\<rparr>) = (Inr 0, u')" using restore [rule_format] by simp
  with restore_skips_known_mutations [OF mem.storage_laws_axioms TrueI one_doc_inv one_doc_identified [OF id]
      create _ _ _ u'] one_doc_inv [of sample_doc "[]"] one_doc_identified [OF id, of "[]"] w
  have "memory_get ?D (en_storage u') ''c'' (String ''x'') = Inr (Some sample_doc)"
    by (simp add: one_doc_get)
  with u' show ?thesis by blast
qed

text \<open>
  Collecting tombstones removes exactly the tombstones: every other document of every
  collection stays as it is.
\<close>

theorem gc_removes_exactly_tombstones:
  assumes "storage_laws E ok name_ok idtext" "ok (en_storage st)" "name_ok c"
    and "identified E idtext (en_storage st) c" "gc_deleted E c st = (Inr n, st')" "name_ok c'"
  shows "se_get E (en_storage st') c' i =
    (if c' = c \<and> (\<exists>d. se_get E (en_storage st) c i = Inr (Some d) \<and> is_deleted d) then Inr None
     else se_get E (en_storage st) c' i)"
  using storage_laws.gc_deleted_holds [OF assms(1-3,6,4,5), of i]
  by (auto simp: storage_laws.get_holds_at [OF assms(1)] assms(2,3,6) split: option.splits)

theorem gc_removes_exactly_tombstones_witness:
  "\<exists>st'. gc_deleted (memory_engine (sample_deps [versioned ''x'' 1 True])) ''c''
      (one_doc_engine (versioned ''x'' 1 True) (sample_deps [versioned ''x'' 1 True])) = (Inr 1, st') \<and>
    memory_get (sample_deps [versioned ''x'' 1 True]) (en_storage st') ''c'' (String ''x'') = Inr None"
proof -
  let ?d = "versioned ''x'' 1 True"
  let ?D = "sample_deps [?d]" and ?st = "one_doc_engine ?d (sample_deps [?d])"
  have "\<exists>st'. gc_deleted (memory_engine ?D) ''c'' ?st = (Inr 1, st')"
    by (simp add: gc_deleted_def one_doc_scan [unfolded one_doc_storage] storage_delete_def memory_delete_def one_doc_storage Let_def)
  then obtain st' where gc: "gc_deleted (memory_engine ?D) ''c'' ?st = (Inr 1, st')" by blast
  with gc_removes_exactly_tombstones [OF mem.storage_laws_axioms one_doc_inv TrueI one_doc_identified gc TrueI,
      where i = "String ''x''"]
  show ?thesis by (auto simp: one_doc_get)
qed

end
