(* ===== verification/Rango_Direct_Storage.thy ===== *)
theory Rango_Direct_Storage
  imports Rango_Engine_Local
begin

text \<open>
  A back end that keeps documents as they are, under their collection and the text of their
  identifier. It meets the contract of storage without a codec, and serves the closed instances of
  properties in which the engine writes many documents.
\<close>

type_synonym direct_storage = "((string \<times> string) \<times> doc) list"

definition direct_engine :: "deps \<Rightarrow> direct_storage storage_engine" where
  "direct_engine D =
     \<lparr>se_get = (\<lambda>s c i. Inr (al_get s (c, document_id_to_string D i))),
      se_put = (\<lambda>s c i d. (Inr (), al_put s (c, document_id_to_string D i) d)),
      se_delete = (\<lambda>s c i. (Inr (al_get s (c, document_id_to_string D i) \<noteq> None),
        al_del s (c, document_id_to_string D i))),
      se_scan = (\<lambda>s c. Inr (map (\<lambda>p. Inr (snd p)) (filter (\<lambda>p. fst (fst p) = c) s))),
      se_range = (\<lambda>s c from_key to_key. Inr [])\<rparr>"

lemma direct_engine_simps [simp]:
  "se_get (direct_engine D) s c i = Inr (al_get s (c, document_id_to_string D i))"
  "se_put (direct_engine D) s c i d = (Inr (), al_put s (c, document_id_to_string D i) d)"
  "se_delete (direct_engine D) s c i = (Inr (al_get s (c, document_id_to_string D i) \<noteq> None),
     al_del s (c, document_id_to_string D i))"
  "se_scan (direct_engine D) s c = Inr (map (\<lambda>p. Inr (snd p)) (filter (\<lambda>p. fst (fst p) = c) s))"
  by (simp_all add: direct_engine_def)

text \<open>Every key carries the text of an identifier.\<close>

definition direct_inv :: "deps \<Rightarrow> direct_storage \<Rightarrow> bool" where
  "direct_inv D s \<longleftrightarrow> al_wf s \<and> (\<forall>p\<in>set s. snd (fst p) \<in> range (document_id_to_string D))"

lemma direct_inv_Nil [simp]: "direct_inv D []"
  by (simp add: direct_inv_def)

interpretation direct: storage_laws "direct_engine D" "direct_inv D" "\<lambda>c. True" "document_id_to_string D" for D
proof (unfold_locales, simp_all only: direct_engine_simps)
  fix s s' :: direct_storage and c c' i i' d r q b
  assume inv: "direct_inv D s"
  show "direct_inv D s'" if "(Inr (), al_put s (c, document_id_to_string D i) d) = (r, s')"
    using that inv unfolding direct_inv_def by (fastforce simp: set_al_put)
  show "direct_inv D s'" if "(Inr (al_get s (c, document_id_to_string D i) \<noteq> None),
      al_del s (c, document_id_to_string D i)) = (q, s')"
    using that inv set_al_del_subset [of s "(c, document_id_to_string D i)"] unfolding direct_inv_def by auto
  show "\<exists>ds. Inr (map (\<lambda>p. Inr (snd p)) (filter (\<lambda>p. fst (fst p) = c) s)) = Inr (map Inr ds) \<and>
      set ds = {d. \<exists>i. Inr (al_get s (c, document_id_to_string D i)) = Inr (Some d)}"
  proof (intro exI conjI)
    let ?ds = "map snd (filter (\<lambda>p. fst (fst p) = c) s)"
    show "Inr (map (\<lambda>p. Inr (snd p)) (filter (\<lambda>p. fst (fst p) = c) s)) = Inr (map Inr ?ds)" by simp
    show "set ?ds = {d. \<exists>i. Inr (al_get s (c, document_id_to_string D i)) = Inr (Some d)}"
      using inv by (force simp: direct_inv_def al_wf_get_iff image_iff)
  qed
qed (auto simp: direct_inv_def al_get_del split: if_splits)

interpretation direct_scans: storage_scans "direct_engine D" "direct_inv D" "\<lambda>c. True" "document_id_to_string D" for D
proof (unfold_locales, simp_all only: direct_engine_simps)
  fix s :: direct_storage and c ds
  assume inv: "direct_inv D s" and scan: "Inr (map (\<lambda>p. Inr (snd p)) (filter (\<lambda>p. fst (fst p) = c) s)) =
    (Inr (map Inr ds) :: doc result list result)"
  let ?ps = "map (\<lambda>p. (snd (fst p), snd p)) (filter (\<lambda>p. fst (fst p) = c) s)"
  have "map Inr ds = (map Inr (map snd ?ps) :: doc result list)" using scan [THEN sym] by (simp add: comp_def)
  then have ds: "ds = map snd ?ps" by (simp add: inj_map_eq_map del: map_map)
  have "distinct (map fst ?ps)"
  proof -
    have "inj_on fst (set ?ps)"
    proof (rule inj_onI)
      fix p q assume pq: "p \<in> set ?ps" "q \<in> set ?ps" "fst p = fst q"
      then have "((c, fst p), snd p) \<in> set s" "((c, fst p), snd q) \<in> set s" by auto
      with inv have "snd p = snd q" by (auto simp: direct_inv_def al_wf_def dest: eq_key_imp_eq_value)
      with pq(3) show "p = q" by (simp add: prod_eq_iff)
    qed
    moreover have "distinct s" "inj_on fst (set s)" using inv by (simp_all add: direct_inv_def al_wf_def distinct_map)
    then have "distinct ?ps" by (auto simp: distinct_map inj_on_def prod_eq_iff)
    ultimately show ?thesis by (simp only: distinct_map)
  qed
  moreover have "\<exists>i. k = document_id_to_string D i \<and> al_get s (c, document_id_to_string D i) = Some d"
    if "(k, d) \<in> set ?ps" for k d
    using that inv by (fastforce simp: direct_inv_def al_wf_get_iff)
  moreover have "(document_id_to_string D i, d) \<in> set ?ps"
    if "al_get s (c, document_id_to_string D i) = Some d" for i d
    using that inv by (force simp: direct_inv_def al_wf_get_iff)
  ultimately show "scanned_once (se_get (direct_engine D) s c) (document_id_to_string D) ds"
    unfolding ds by (intro scanned_onceI [where key = "document_id_to_string D"]) simp_all
qed

section \<open>An engine on it\<close>

text \<open>Every document serializes to one byte, so no size limit is met.\<close>

definition direct_deps :: deps where
  "direct_deps = (sample_deps [])\<lparr>to_writer := \<lambda>d. Inr [0]\<rparr>"

definition direct_sample :: "(direct_storage, null_oplog) engine" where
  "direct_sample = \<lparr>en_storage = [], en_oplog = null_new, en_node_id = ''n'',
     en_metrics = metrics_default, en_config = default_config, en_applied_write_ids = {},
     en_world = sample_world_at 0 0\<rparr>"

lemma direct_sample_simps [simp]:
  "en_storage direct_sample = []" "en_oplog direct_sample = null_new"
  "en_node_id direct_sample = ''n''" "en_config direct_sample = default_config"
  "en_world direct_sample = sample_world_at 0 0"
  by (simp_all add: direct_sample_def)

lemma direct_size [simp]: "validate_document_size direct_deps default_config d = Inr ()"
  by (simp add: validate_document_size_def direct_deps_def default_config_def)

lemma direct_uuid: "document_id_to_string direct_deps (Binary uuid_subtype [b]) = [char_of (unat b)]"
  by (simp add: document_id_to_string_def direct_deps_def)

lemma sample_uuid:
  "document_id_new_uuid_v7 (sample_world_at n k) = (Binary uuid_subtype [of_nat n], sample_world_at (Suc n) k)"
  by (simp add: document_id_new_uuid_v7_def uuid_now_v7_def sample_world_at_def sample_world_def)

lemmas direct_steps = insert_one_def update_one_def delete_one_def find_one_def from_world_eq commit_local_def
  storage_put_def storage_get_def sample_uuid log_local_def local_valid Let_def direct_uuid null_oplog_vt_def
  document_id_from_bson_def oplog_append_def record_op_def record_latency_def null_append_def is_deleted_iff

end
