(* ===== verification/Rango_Engine_Effects.thy ===== *)
theory Rango_Engine_Effects
  imports Rango_Direct_Storage
begin

text \<open>
  Updates and deletes of the engine with every way they end: what a success leaves in storage and log, and
  which of its parts an error comes from. The instances run on the storage without a codec.
\<close>

section \<open>Where an error comes from\<close>

text \<open>The ends of a local write that fail: the storage, the validator of the mutation, the log.\<close>

definition commit_fails :: "'s storage_engine \<Rightarrow> 'o oplog_vt \<Rightarrow> mutation_op \<Rightarrow> collection_name \<Rightarrow> document_id \<Rightarrow>
    ('s, 'o) engine \<Rightarrow> rango_error \<Rightarrow> bool" where
  "commit_fails E L oper c i st e \<longleftrightarrow>
     (\<exists>d s. se_put E (en_storage st) c i d = (Inl e, s)) \<or>
     (\<exists>m x. mut_op m = oper \<and> mut_collection m = c \<and> mut_doc_id m = i \<and> validate_metadata m = Inl x \<and>
        e = Storage (''invalid local mutation metadata: '' @ x)) \<or>
     (\<exists>entry l. mut_op (entry_mutation entry) = oper \<and> mut_doc_id (entry_mutation entry) = i \<and>
        op_append L entry (en_oplog st) = (Inl e, l))"

lemma commit_fails_world [simp]: "commit_fails E L oper c i (st\<lparr>en_world := w\<rparr>) e = commit_fails E L oper c i st e"
  by (simp add: commit_fails_def)

lemma bind_op_Inl:
  "bind_op m k s = (Inl e, s') \<longleftrightarrow> m s = (Inl e, s') \<or> (\<exists>x t. m s = (Inr x, t) \<and> k x t = (Inl e, s'))"
  by (auto simp: bind_op_def split: prod.splits sum.splits)

lemma log_local_err:
  assumes "log_local D L oper c i patch r st = (Inl e, st')"
  shows "(\<exists>m x. mut_op m = oper \<and> mut_collection m = c \<and> mut_doc_id m = i \<and> validate_metadata m = Inl x \<and>
        e = Storage (''invalid local mutation metadata: '' @ x)) \<or>
     (\<exists>entry l. mut_op (entry_mutation entry) = oper \<and> mut_doc_id (entry_mutation entry) = i \<and>
        op_append L entry (en_oplog st) = (Inl e, l))"
proof -
  let ?m = "local_mutation D (en_node_id st) oper c i patch r"
  from assms have "(\<exists>t1 t2 t3 x. validate_metadata (?m t1 t2 t3) = Inl x \<and> e = Storage (''invalid local mutation metadata: '' @ x)) \<or>
     (\<exists>t1 t2 t3 t4 l. op_append L \<lparr>entry_seq = 0, entry_timestamp = t4, entry_mutation = ?m t1 t2 t3,
       entry_origin = Local, entry_applied = True, entry_snapshot_anchor = None\<rparr> (en_oplog st) = (Inl e, l))"
  proof -
    let ?w1 = "snd (datetime_now (en_world st))"
    let ?w2 = "snd (datetime_now ?w1)"
    let ?w3 = "snd (datetime_now ?w2)"
    let ?m' = "?m (fst (datetime_now (en_world st))) (fst (datetime_now ?w1)) (fst (datetime_now ?w2))"
    show ?thesis
    proof (cases "validate_metadata ?m'")
      case (Inl x)
      with assms have "e = Storage (''invalid local mutation metadata: '' @ x)"
        by (simp add: log_local_def from_world_eq Let_def lift_op_def)
      with Inl show ?thesis by blast
    next
      case (Inr u)
      with assms have "\<exists>l. op_append L \<lparr>entry_seq = 0, entry_timestamp = fst (datetime_now ?w3), entry_mutation = ?m',
          entry_origin = Local, entry_applied = True, entry_snapshot_anchor = None\<rparr> (en_oplog st) = (Inl e, l)"
        by (auto simp: log_local_def from_world_eq Let_def lift_op_def oplog_append_eq)
      then show ?thesis by blast
    qed
  qed
  then show ?thesis
  proof (elim disjE exE conjE)
    fix t1 t2 t3 x assume "validate_metadata (?m t1 t2 t3) = Inl x" "e = Storage (''invalid local mutation metadata: '' @ x)"
    then show ?thesis by (intro disjI1 exI [of _ "?m t1 t2 t3"] exI [of _ x]) simp
  next
    fix t1 t2 t3 t4 l
    let ?entry = "\<lparr>entry_seq = 0, entry_timestamp = t4, entry_mutation = ?m t1 t2 t3,
       entry_origin = Local, entry_applied = True, entry_snapshot_anchor = None\<rparr>"
    assume "op_append L ?entry (en_oplog st) = (Inl e, l)"
    then show ?thesis by (intro disjI2 exI [of _ ?entry] exI [of _ l]) simp
  qed
qed

lemma commit_local_err:
  assumes "commit_local D E L oper c i d patch r tally start x st = (Inl e, st')"
  shows "commit_fails E L oper c i st e"
proof -
  from assms have "(\<exists>s. se_put E (en_storage st) c i d = (Inl e, s)) \<or>
      (\<exists>s t. log_local D L oper c i patch r (st\<lparr>en_storage := s\<rparr>) = (Inl e, t))"
    by (auto simp: commit_local_def bind_op_Inl storage_put_eq record_op_Inr dest: record_latency_frame)
  then show ?thesis
  proof (elim disjE exE)
    fix s t assume "log_local D L oper c i patch r (st\<lparr>en_storage := s\<rparr>) = (Inl e, t)"
    moreover have "en_oplog (st\<lparr>en_storage := s\<rparr>) = en_oplog st" by simp
    ultimately show ?thesis using log_local_err [of D L oper c i patch r "st\<lparr>en_storage := s\<rparr>"] unfolding commit_fails_def by metis
  qed (auto simp: commit_fails_def)
qed

lemma delete_one_err:
  assumes "delete_one D E L c i st = (Inl e, st')" "\<exists>m. se_get E (en_storage st) c i = Inr m"
  shows "se_get E (en_storage st) c i \<noteq> Inr None \<and> commit_fails E L Delete c i st e"
proof -
  obtain m where m: "se_get E (en_storage st) c i = Inr m" using assms(2) by blast
  show ?thesis
  proof (cases m)
    case None
    with assms(1) m show ?thesis by (simp add: delete_one_def bind_op_Inl from_world_Inr storage_get_eq)
  next
    case (Some d0)
    with assms(1) m obtain d rv start w where
      "commit_local D E L Delete c i d None rv record_delete start True (st\<lparr>en_world := w\<rparr>) = (Inl e, st')"
      by (auto simp: delete_one_def bind_op_Inl from_world_Inr storage_get_eq Let_def)
    from commit_local_err [OF this] m Some show ?thesis by simp
  qed
qed

lemma update_one_err:
  assumes "update_one D E L c i u st = (Inl e, st')" "\<exists>m. se_get E (en_storage st) c i = Inr m"
  shows "\<exists>d0. se_get E (en_storage st) c i = Inr (Some d0) \<and> \<not> is_deleted d0 \<and>
    (apply_update d0 u = Inl e \<or> (\<exists>d. validate_document_size D (en_config st) d = Inl e) \<or> commit_fails E L Update c i st e)"
proof -
  obtain m where m: "se_get E (en_storage st) c i = Inr m" using assms(2) by blast
  show ?thesis
  proof (cases "\<exists>d0. m = Some d0 \<and> \<not> is_deleted d0")
    case False
    with assms(1) m show ?thesis
      by (auto simp: update_one_def bind_op_Inl from_world_Inr storage_get_eq split: option.splits if_splits)
  next
    case True
    then obtain d0 where d0: "m = Some d0" "\<not> is_deleted d0" by blast
    with assms(1) m have "apply_update d0 u = Inl e \<or> (\<exists>d. validate_document_size D (en_config st) d = Inl e) \<or>
        (\<exists>d rv start w. commit_local D E L Update c i d (Some d) rv record_update start True (st\<lparr>en_world := w\<rparr>) = (Inl e, st'))"
      by (auto simp: update_one_def bind_op_Inl from_world_Inr storage_get_eq Let_def lift_op_def)
    with commit_local_err m d0 show ?thesis by fastforce
  qed
qed

section \<open>Properties\<close>

text \<open>
  C17: an update applies the operators to a live document only: it returns true exactly when the
  document is there and not deleted, then stores what \<open>apply_update\<close> made of it with a fresh
  revision and logs the result; otherwise storage and log are as before. It fails only on a live document,
  with the error of the operators, the size check, the storage, the validator or the log.
\<close>

theorem update_applies_operators:
  assumes "storage_laws E ok name_ok idtext" "ok (en_storage st)" "name_ok c"
    and "update_one D E L c i u st = (r, st')"
  shows "case r of
    Inr b \<Rightarrow> b = (\<exists>d. se_get E (en_storage st) c i = Inr (Some d) \<and> \<not> is_deleted d) \<and> ok (en_storage st') \<and>
      (b \<longrightarrow> (\<exists>d0 d1 d rv n e. se_get E (en_storage st) c i = Inr (Some d0) \<and> apply_update d0 u = Inr d1 \<and>
        se_get E (en_storage st') c i = Inr (Some d) \<and> al_get d ''_rev'' = Some (String rv) \<and>
        (\<forall>k. k \<notin> {''_rev'', ''_updated_at'', ''_source_node''} \<longrightarrow> al_get d k = al_get d1 k) \<and>
        local_entry D (en_node_id st) Update c i (Some d) rv e \<and>
        op_append L e (en_oplog st) = (Inr n, en_oplog st'))) \<and>
      (\<not> b \<longrightarrow> en_storage st' = en_storage st \<and> en_oplog st' = en_oplog st)
  | Inl e \<Rightarrow> \<exists>d0. se_get E (en_storage st) c i = Inr (Some d0) \<and> \<not> is_deleted d0 \<and>
      (apply_update d0 u = Inl e \<or> (\<exists>d. validate_document_size D (en_config st) d = Inl e) \<or>
       commit_fails E L Update c i st e)"
proof (cases r)
  case (Inl e)
  with update_one_err [OF assms(4) [unfolded Inl]] storage_laws.get_ok [OF assms(1-3)] show ?thesis by simp
next
  case (Inr b)
  with storage_laws.update_one_stores [OF assms(1-3) assms(4) [unfolded Inr]] show ?thesis by simp
qed

text \<open>A stored document, and an update of it.\<close>

definition held_doc :: doc where
  "held_doc = [(''_id'', Binary uuid_subtype [1]), (''count'', Int32 1), (''name'', String ''a'')]"

definition holding :: "(direct_storage, null_oplog) engine" where
  "holding = direct_sample\<lparr>en_storage := [((''c'', [char_of (1 :: nat)]), held_doc)]\<rparr>"

lemma holding_simps [simp]:
  "en_storage holding = [((''c'', [char_of (1 :: nat)]), held_doc)]" "en_oplog holding = null_new" "en_node_id holding = ''n''"
  "en_config holding = default_config" "en_world holding = sample_world_at 0 0"
  by (simp_all add: holding_def)

lemma holding_inv: "direct_inv direct_deps (en_storage holding)"
proof -
  have "[char_of (1 :: nat)] \<in> range (document_id_to_string direct_deps)"
    using direct_uuid [of 1] by (metis rangeI unsigned_1)
  then show ?thesis by (simp add: direct_inv_def al_wf_def)
qed

theorem update_applies_operators_witness:
  "\<exists>st d. update_one direct_deps (direct_engine direct_deps) null_oplog_vt ''c'' (Binary uuid_subtype [1])
       [(''$inc'', Document [(''count'', Int32 2)])] holding = (Inr True, st) \<and>
     se_get (direct_engine direct_deps) (en_storage st) ''c'' (Binary uuid_subtype [1]) = Inr (Some d) \<and>
     al_get d ''count'' = Some (Int32 3) \<and> al_get d ''name'' = Some (String ''a'')"
proof -
  let ?E = "direct_engine direct_deps" and ?u = "[(''$inc'', Document [(''count'', Int32 2)])]"
  obtain r st where run: "update_one direct_deps ?E null_oplog_vt ''c'' (Binary uuid_subtype [1]) ?u holding = (r, st)" by fastforce
  have r: "r = Inr True" using run by (simp add: direct_steps held_doc_def apply_inc_def)
  have live: "se_get ?E (en_storage holding) ''c'' (Binary uuid_subtype [1]) = Inr (Some held_doc)"
    by (simp add: direct_uuid)
  have applied: "\<exists>d1. apply_update held_doc ?u = Inr d1 \<and> al_get d1 ''count'' = Some (Int32 3) \<and> al_get d1 ''name'' = Some (String ''a'')"
    by (simp add: held_doc_def apply_inc_def)
  note ran = update_applies_operators [OF direct.storage_laws_axioms holding_inv TrueI run [unfolded r], unfolded sum.case]
  from mp [OF conjunct1 [OF conjunct2 [OF conjunct2 [OF ran]]] TrueI]
  obtain d0 d1 d where d: "se_get ?E (en_storage holding) ''c'' (Binary uuid_subtype [1]) = Inr (Some d0)" "apply_update d0 ?u = Inr d1"
    "se_get ?E (en_storage st) ''c'' (Binary uuid_subtype [1]) = Inr (Some d)"
    "\<forall>k. k \<notin> {''_rev'', ''_updated_at'', ''_source_node''} \<longrightarrow> al_get d k = al_get d1 k"
    by (elim exE conjE) (rule that)
  have "d0 = held_doc" using d(1) live by simp
  then have "al_get d1 ''count'' = Some (Int32 3)" "al_get d1 ''name'' = Some (String ''a'')" using applied d(2) by auto
  moreover have "al_get d ''count'' = al_get d1 ''count''" "al_get d ''name'' = al_get d1 ''name''" using d(4) by simp_all
  ultimately show ?thesis using d(3) run r by metis
qed

text \<open>
  C16: a delete leaves a tombstone: it returns whether a document was there, afterwards \<open>find_one\<close>
  finds nothing, the stored document keeps its user fields and is marked deleted, and no other
  document changed. It fails only where a document is, with the error of the storage, the validator or
  the log.
\<close>

theorem delete_leaves_tombstone:
  assumes "storage_laws E ok name_ok idtext" "ok (en_storage st)" "name_ok c"
    and "delete_one D E L c i st = (r, st')"
  shows "case r of
    Inr b \<Rightarrow> b = (se_get E (en_storage st) c i \<noteq> Inr None) \<and> ok (en_storage st') \<and>
      fst (find_one E c i st') = Inr None \<and>
      (\<forall>d0. se_get E (en_storage st) c i = Inr (Some d0) \<longrightarrow> (\<exists>d. se_get E (en_storage st') c i = Inr (Some d) \<and>
        is_deleted d \<and> (\<forall>k. k \<notin> reserved \<longrightarrow> al_get d k = al_get d0 k))) \<and>
      (\<forall>c' j. name_ok c' \<longrightarrow> c' \<noteq> c \<or> idtext j \<noteq> idtext i \<longrightarrow>
        se_get E (en_storage st') c' j = se_get E (en_storage st) c' j)
  | Inl e \<Rightarrow> se_get E (en_storage st) c i \<noteq> Inr None \<and> commit_fails E L Delete c i st e"
proof (cases r)
  case (Inl e)
  with delete_one_err [OF assms(4) [unfolded Inl]] storage_laws.get_ok [OF assms(1-3)] show ?thesis by simp
next
  case (Inr b)
  with storage_laws.delete_one_tombstones [OF assms(1-3) assms(4) [unfolded Inr]] show ?thesis by simp
qed

theorem delete_leaves_tombstone_witness:
  "\<exists>st d. delete_one direct_deps (direct_engine direct_deps) null_oplog_vt ''c'' (Binary uuid_subtype [1]) holding = (Inr True, st) \<and>
     fst (find_one (direct_engine direct_deps) ''c'' (Binary uuid_subtype [1]) st) = Inr None \<and>
     se_get (direct_engine direct_deps) (en_storage st) ''c'' (Binary uuid_subtype [1]) = Inr (Some d) \<and>
     is_deleted d \<and> al_get d ''name'' = Some (String ''a'')"
proof -
  let ?E = "direct_engine direct_deps"
  obtain r st where run: "delete_one direct_deps ?E null_oplog_vt ''c'' (Binary uuid_subtype [1]) holding = (r, st)" by fastforce
  have "r = Inr True" using run by (simp add: direct_steps held_doc_def) 
  moreover have "''name'' \<notin> reserved" "al_get held_doc ''name'' = Some (String ''a'')"
    by (simp_all add: reserved_def held_doc_def)
  ultimately show ?thesis
    using delete_leaves_tombstone [OF direct.storage_laws_axioms holding_inv TrueI run] run by (auto simp: direct_uuid)
qed

end
