(* ===== verification/Rango_Engine_Types.thy ===== *)
theory Rango_Engine_Types
  imports Rango_Engine_Snapshots Rango_Direct_Storage
begin

text \<open>
  Types of the stored documents. BSON documents are untyped, but the engine relies on fields of its
  own: every document it stores has distinct field names, a text \<open>_rev\<close>, a time \<open>_updated_at\<close>, a text
  \<open>_source_node\<close>, and conflicts that are such documents again. This theory states that type and shows
  that every operation of the engine keeps it, failing ones included, by one rule for each call an
  operation is made of.
\<close>

section \<open>The type\<close>

definition own_fields :: "doc \<Rightarrow> bool" where
  "own_fields d \<longleftrightarrow> al_wf d \<and> (\<exists>r. al_get d ''_rev'' = Some (String r)) \<and>
     (\<exists>t. al_get d ''_updated_at'' = Some (DateTime t)) \<and> (\<exists>n. al_get d ''_source_node'' = Some (String n))"

inductive stored_doc :: "doc \<Rightarrow> bool" where
  stored_docI: "own_fields d \<Longrightarrow>
    \<forall>xs. conflicts_of d = Some xs \<longrightarrow> (\<forall>b\<in>set xs. \<exists>d'. b = Document d' \<and> stored_doc d') \<Longrightarrow> stored_doc d"

definition conflicts_ok :: "doc \<Rightarrow> bool" where
  "conflicts_ok d \<longleftrightarrow> (\<forall>xs. conflicts_of d = Some xs \<longrightarrow> (\<forall>b\<in>set xs. \<exists>d'. b = Document d' \<and> stored_doc d'))"

inductive_simps stored_doc_unfold: "stored_doc d"

lemma stored_doc_iff: "stored_doc d \<longleftrightarrow> own_fields d \<and> conflicts_ok d"
  by (subst stored_doc_unfold) (simp only: conflicts_ok_def)

lemma conflicts_ok_none: "al_get d ''_conflicts'' = None \<Longrightarrow> conflicts_ok d"
  by (simp add: conflicts_ok_def conflicts_of_def)

lemma conflicts_ok_cong: "al_get d ''_conflicts'' = al_get d' ''_conflicts'' \<Longrightarrow> conflicts_ok d = conflicts_ok d'"
  by (simp add: conflicts_ok_def conflicts_of_def)

lemma stored_stamped: "al_wf d \<Longrightarrow> conflicts_ok d \<Longrightarrow> stored_doc (stamped d r t node)"
  using conflicts_ok_cong [of "stamped d r t node" d] by (simp add: stored_doc_iff own_fields_def stamped_get)

lemma own_fields_put:
  "own_fields d \<Longrightarrow> k \<notin> {''_rev'', ''_updated_at'', ''_source_node''} \<Longrightarrow> own_fields (al_put d k v)"
  by (auto simp: own_fields_def)

lemma own_fields_del:
  "own_fields d \<Longrightarrow> k \<notin> {''_rev'', ''_updated_at'', ''_source_node''} \<Longrightarrow> own_fields (al_del d k)"
  by (auto simp: own_fields_def al_get_del)

lemma stored_del_deleted: "stored_doc d \<Longrightarrow> stored_doc (al_del d ''_deleted'')"
  using conflicts_ok_cong [of "al_del d ''_deleted''" d] by (simp add: stored_doc_iff own_fields_del)

lemma stored_add_conflict:
  assumes "stored_doc loser" "stored_doc winner"
  shows "stored_doc (add_conflict loser winner)"
proof -
  have winner: "own_fields winner" "conflicts_ok winner" using assms(2) by (simp_all add: stored_doc_iff)
  have "al_wf (add_conflict loser winner)"
    using winner(1) by (auto simp: own_fields_def add_conflict_def Let_def split: option.splits bson.splits)
  moreover have "\<exists>d'. b = Document d' \<and> stored_doc d'"
    if xs: "conflicts_of (add_conflict loser winner) = Some xs" and b: "b \<in> set xs" for xs b
  proof -
    obtain z where z: "conflicts_of winner = Some z" "xs = drop (length z - 9) z @ [Document loser]"
      using xs unfolding add_conflict_conflicts by blast
    have "\<forall>b\<in>set z. \<exists>d'. b = Document d' \<and> stored_doc d'"
      using winner(2) z(1) unfolding conflicts_ok_def by blast
    then show ?thesis using b assms(1) z(2) set_drop_subset [of "length z - 9" z] by auto
  qed
  then have "conflicts_ok (add_conflict loser winner)" unfolding conflicts_ok_def by blast
  ultimately show ?thesis
    using winner(1) by (simp add: stored_doc_iff own_fields_def add_conflict_get)
qed

section \<open>Updates\<close>

text \<open>
  An update that puts no ill-typed list of conflicts in place: what it sets \<open>_conflicts\<close> to, if that is
  a list, consists of documents of the type. Anything else may be set, removed and incremented.
\<close>

definition stored_item :: "bson \<Rightarrow> bool" where
  "stored_item b \<longleftrightarrow> (\<exists>d. b = Document d \<and> stored_doc d)"

lemma conflicts_ok_items: "conflicts_ok d \<longleftrightarrow> (\<forall>xs. conflicts_of d = Some xs \<longrightarrow> (\<forall>b\<in>set xs. stored_item b))"
  by (simp add: conflicts_ok_def stored_item_def)

definition types_conflicts :: "doc \<Rightarrow> bool" where
  "types_conflicts u \<longleftrightarrow> (\<forall>w xs. (''$set'', Document w) \<in> set u \<longrightarrow> (''_conflicts'', Array xs) \<in> set w \<longrightarrow>
     (\<forall>b\<in>set xs. stored_item b))"

definition doc_ok :: "doc \<Rightarrow> bool" where
  "doc_ok d \<longleftrightarrow> al_wf d \<and> conflicts_ok d"

lemma doc_ok_put: "doc_ok d \<Longrightarrow> (\<And>xs. k = ''_conflicts'' \<Longrightarrow> v = Array xs \<Longrightarrow> \<forall>b\<in>set xs. stored_item b) \<Longrightarrow> doc_ok (al_put d k v)"
  by (auto simp: doc_ok_def conflicts_ok_items conflicts_of_def al_wf_put split: bson.splits if_splits)

lemma doc_ok_del: "doc_ok d \<Longrightarrow> doc_ok (al_del d k)"
  by (auto simp: doc_ok_def conflicts_ok_items conflicts_of_def al_get_del split: bson.splits option.splits if_splits)

lemma doc_ok_inc: "doc_ok d \<Longrightarrow> doc_ok (apply_inc p d)"
  by (auto simp: apply_inc_def intro!: doc_ok_put split: prod.splits option.splits bson.splits)

lemma doc_ok_fold: "doc_ok d \<Longrightarrow> (\<And>p d. p \<in> set w \<Longrightarrow> doc_ok d \<Longrightarrow> doc_ok (f p d)) \<Longrightarrow> doc_ok (fold f w d)"
  by (induction w arbitrary: d) auto

lemma apply_update_ok: "apply_update d u = Inr d' \<Longrightarrow> doc_ok d \<Longrightarrow> types_conflicts u \<Longrightarrow> doc_ok d'"
proof (induction d u rule: apply_update.induct)
  case (2 d key val update)
  have rest: "types_conflicts update" using 2(6) by (simp add: types_conflicts_def)
  have set: "doc_ok (fold (\<lambda>(k, v) d. al_put d k v) w d)" if "key = ''$set''" "as_document val = Some w" for w
  proof (rule doc_ok_fold [OF 2(5)])
    have "val = Document w" using that(2) by (cases val) simp_all
    then have w: "(''_conflicts'', Array xs) \<in> set w \<Longrightarrow> \<forall>b\<in>set xs. stored_item b" for xs
      using 2(6) that(1) unfolding types_conflicts_def by auto
    show "doc_ok ((\<lambda>(k, v) d. al_put d k v) p e)" if "p \<in> set w" "doc_ok e" for p e
    proof -
      obtain k v where p: "p = (k, v)" by fastforce
      have "doc_ok (al_put e k v)" by (rule doc_ok_put [OF that(2)]) (use that(1) p w in blast)
      then show ?thesis by (simp add: p)
    qed
  qed
  have unset: "doc_ok (fold (\<lambda>(k, v) d. al_del d k) w d)" for w
    by (rule doc_ok_fold [OF 2(5)]) (auto intro: doc_ok_del)
  have inc: "doc_ok (fold apply_inc w d)" for w
    by (rule doc_ok_fold [OF 2(5)]) (rule doc_ok_inc)
  show ?case
    using 2 rest set unset inc by (auto split: if_splits option.splits)
qed simp

section \<open>Operations that keep it\<close>

text \<open>
  An operation that keeps a property of states whatever it returns: one rule for every way an operation
  is put together and for every call on the parts of the engine. What is read from the storage has the
  type, which the rule for a read hands to what follows.
\<close>

named_theorems keeps_rules \<open>rules for operations that keep a property of states\<close>

lemma keepsD: "preserves P m \<Longrightarrow> P s \<Longrightarrow> m s = (r, s') \<Longrightarrow> P s'"
  using preservesD [of P m s] by simp

lemma keeps_lift [keeps_rules]: "(\<And>x. r = Inr x \<Longrightarrow> preserves P (k x)) \<Longrightarrow> preserves P (bind_op (lift_op r) k)"
  by (cases r) (simp_all add: preserves_def)

lemma keeps_get [keeps_rules]: "(\<And>s. P s \<Longrightarrow> preserves P (h s)) \<Longrightarrow> preserves P (get_op h)"
  unfolding preserves_def op_apply by blast

lemma keeps_option [keeps_rules]:
  "(z = None \<Longrightarrow> preserves P m) \<Longrightarrow> (\<And>x. z = Some x \<Longrightarrow> preserves P (f x)) \<Longrightarrow>
     preserves P (case z of None \<Rightarrow> m | Some x \<Rightarrow> f x)"
  by (cases z) simp_all

lemma keeps_if [keeps_rules]: "(b \<Longrightarrow> preserves P m) \<Longrightarrow> (\<not> b \<Longrightarrow> preserves P n) \<Longrightarrow> preserves P (if b then m else n)"
  by simp

lemma keeps_prod [keeps_rules]: "(\<And>x y. p = (x, y) \<Longrightarrow> preserves P (f x y)) \<Longrightarrow> preserves P (case p of (x, y) \<Rightarrow> f x y)"
  by (cases p) simp

lemmas [keeps_rules] = preserves_basic

text \<open>States whose storage keeps its invariant and holds only documents of the type.\<close>

definition typed_storage :: "'s storage_engine \<Rightarrow> ('s \<Rightarrow> bool) \<Rightarrow> (collection_name \<Rightarrow> bool) \<Rightarrow> ('s, 'o) engine \<Rightarrow> bool" where
  "typed_storage E ok name_ok st \<longleftrightarrow> ok (en_storage st) \<and>
     (\<forall>c i d. name_ok c \<longrightarrow> se_get E (en_storage st) c i = Inr (Some d) \<longrightarrow> stored_doc d)"

lemma typed_storage_frame: "typed_storage E ok name_ok st \<Longrightarrow> en_storage st' = en_storage st \<Longrightarrow> typed_storage E ok name_ok st'"
  by (simp add: typed_storage_def)

lemma keeps_same_storage:
  "(\<And>s r s'. m s = (r, s') \<Longrightarrow> en_storage s' = en_storage s) \<Longrightarrow> preserves (typed_storage E ok name_ok) m"
  unfolding preserves_def by (blast intro: typed_storage_frame prod.collapse [symmetric])

lemma keeps_world [keeps_rules]: "preserves (typed_storage E ok name_ok) (from_world f)"
  by (rule keeps_same_storage) (auto simp: from_world_Inr)

lemma keeps_record [keeps_rules]: "preserves (typed_storage E ok name_ok) (record_op f)"
  by (rule keeps_same_storage) (simp add: record_op_Inr)

lemma keeps_latency [keeps_rules]: "preserves (typed_storage E ok name_ok) (record_latency t)"
  by (rule keeps_same_storage) (simp add: record_latency_frame)

lemma keeps_log [keeps_rules]: "preserves (typed_storage E ok name_ok) (log_local D L oper c i patch r)"
  by (rule keeps_same_storage) (simp add: log_local_frame)

lemma keeps_read [keeps_rules]:
  fixes k :: "doc option \<Rightarrow> (('s, 'o) engine, 'a) op"
  assumes "name_ok c" "\<And>m. (\<And>d. m = Some d \<Longrightarrow> stored_doc d) \<Longrightarrow> preserves (typed_storage E ok name_ok) (k m)"
  shows "preserves (typed_storage E ok name_ok) (bind_op (storage_get E c i) k)"
  unfolding preserves_def
proof (intro allI impI)
  fix s :: "('s, 'o) engine" assume s: "typed_storage E ok name_ok s"
  show "typed_storage E ok name_ok (snd (bind_op (storage_get E c i) k s))"
  proof (cases "se_get E (en_storage s) c i")
    case (Inl e)
    with s show ?thesis by (simp add: storage_get_def)
  next
    case (Inr m)
    moreover have "stored_doc d" if "m = Some d" for d using s assms(1) Inr that by (simp add: typed_storage_def)
    ultimately show ?thesis using preservesD [OF assms(2) s, of m] by (simp add: storage_get_def)
  qed
qed

text \<open>The mutations of a replay, and the choice among conflicts.\<close>

definition typed_mutation :: "(collection_name \<Rightarrow> bool) \<Rightarrow> mutation \<Rightarrow> bool" where
  "typed_mutation name_ok m \<longleftrightarrow> (mut_collection m = [] \<or> name_ok (mut_collection m)) \<and>
     (\<forall>d. mut_patch m = Some d \<longrightarrow> stored_doc d)"

lemma stored_tombstone: "stored_doc (tombstone_of node m)"
  by (simp add: stored_doc_iff own_fields_def tombstone_of_def al_wf_def conflicts_ok_none)

lemma pick_conflict_items:
  "\<forall>b\<in>set items. stored_item b \<Longrightarrow> \<forall>b\<in>set rest. stored_item b \<Longrightarrow> \<forall>d. found = Some d \<longrightarrow> stored_doc d \<Longrightarrow>
     pick_conflict chosen items rest found = (rest', found') \<Longrightarrow>
     (\<forall>b\<in>set rest'. stored_item b) \<and> (\<forall>d. found' = Some d \<longrightarrow> stored_doc d)"
  by (induction chosen items rest found rule: pick_conflict.induct)
    (auto simp: stored_item_def split: option.splits if_splits)

lemma stored_resolved:
  assumes "stored_doc d" "get_as as_array d ''_conflicts'' = Some arr"
    "pick_conflict chosen arr [] None = (rest, Some d')"
  shows "stored_doc (if rest \<noteq> [] then al_put d' ''_conflicts'' (Array rest) else al_del d' ''_conflicts'')"
proof -
  have "conflicts_of d = Some arr"
    using assms(2) by (auto simp: get_as_def conflicts_of_def bind_eq_Some_conv)
  then have "\<forall>b\<in>set arr. stored_item b" using assms(1) by (simp add: stored_doc_iff conflicts_ok_items)
  from pick_conflict_items [OF this _ _ assms(3)] have rest: "\<forall>b\<in>set rest. stored_item b" and d': "stored_doc d'" by simp_all
  then have own: "own_fields d'" by (simp add: stored_doc_iff)
  have "conflicts_ok (al_put d' ''_conflicts'' (Array rest))"
    using rest by (simp add: conflicts_ok_items conflicts_of_def)
  moreover have "conflicts_ok (al_del d' ''_conflicts'')"
    using own by (simp add: conflicts_ok_none al_get_del_same own_fields_def)
  ultimately show ?thesis using own by (simp add: stored_doc_iff own_fields_put own_fields_del)
qed

context storage_laws
begin

lemma keeps_put [keeps_rules]:
  assumes "name_ok c" "stored_doc d"
  shows "preserves (typed_storage E inv name_ok) (storage_put E c i d)"
  unfolding preserves_def
proof (intro allI impI)
  fix s assume s: "typed_storage E inv name_ok s"
  obtain r t where put: "se_put E (en_storage s) c i d = (r, t)" by fastforce
  have inv: "inv (en_storage s)" and old: "\<And>c i d. name_ok c \<Longrightarrow> holds_at (en_storage s) c i = Some d \<Longrightarrow> stored_doc d"
    using s get_holds_at [of "en_storage s"] by (auto simp: typed_storage_def)
  have "stored_doc d'" if "name_ok c'" "holds_at t c' j = Some d'" for c' j d'
    using that old [of c' j d'] assms put_holds_at [OF inv assms(1) that(1) put, of j] by (auto split: if_splits)
  with put_inv [OF inv assms(1) put] get_holds_at [of t] show "typed_storage E inv name_ok (snd (storage_put E c i d s))"
    by (simp add: typed_storage_def storage_put_def put)
qed

lemma keeps_delete [keeps_rules]:
  assumes "name_ok c"
  shows "preserves (typed_storage E inv name_ok) (storage_delete E c i)"
  unfolding preserves_def
proof (intro allI impI)
  fix s assume s: "typed_storage E inv name_ok s"
  obtain r t where del: "se_delete E (en_storage s) c i = (r, t)" by fastforce
  have inv: "inv (en_storage s)" and old: "\<And>c i d. name_ok c \<Longrightarrow> holds_at (en_storage s) c i = Some d \<Longrightarrow> stored_doc d"
    using s get_holds_at [of "en_storage s"] by (auto simp: typed_storage_def)
  have "stored_doc d'" if "name_ok c'" "holds_at t c' j = Some d'" for c' j d'
    using that old [of c' j d'] delete_holds_at [OF inv assms that(1) del, of j] by (auto split: if_splits)
  with delete_inv [OF inv assms del] get_holds_at [of t] show "typed_storage E inv name_ok (snd (storage_delete E c i s))"
    by (simp add: typed_storage_def storage_delete_def del)
qed

lemma keeps_commit [keeps_rules]:
  "name_ok c \<Longrightarrow> stored_doc d \<Longrightarrow>
     preserves (typed_storage E inv name_ok) (commit_local D E L oper c i d patch r tally start x)"
  unfolding commit_local_def by (rule keeps_rules preserves_bind | assumption)+

lemma keeps_insert:
  assumes "name_ok c" "doc_ok d0"
  shows "preserves (typed_storage E inv name_ok) (insert_one D E L c d0)"
proof -
  have "stored_doc (al_del (stamped (al_put d0 ''_id'' i) r t node) ''_deleted'')" for i r t node
    using doc_ok_put [OF assms(2), of "''_id''" i] by (intro stored_del_deleted stored_stamped) (simp_all add: doc_ok_def)
  note typed = this [unfolded stamped_def]
  show ?thesis unfolding insert_one_def Let_def by (rule keeps_rules preserves_bind assms(1) typed)+
qed

lemma keeps_update:
  assumes "name_ok c" "types_conflicts u"
  shows "preserves (typed_storage E inv name_ok) (update_one D E L c i u)"
proof -
  have "stored_doc (stamped d1 r t node)" if "\<And>d. z = Some d \<Longrightarrow> stored_doc d" "z = Some d" "apply_update d u = Inr d1"
    for z d d1 r t node
  proof -
    have "doc_ok d" using that(1) [OF that(2)] by (simp add: stored_doc_iff own_fields_def doc_ok_def)
    from apply_update_ok [OF that(3) this assms(2)] show ?thesis by (simp add: stored_stamped doc_ok_def)
  qed
  note typed = this [unfolded stamped_def]
  show ?thesis unfolding update_one_def Let_def by (rule keeps_rules preserves_bind assms(1) typed | assumption | blast)+
qed

lemma keeps_delete_one:
  assumes "name_ok c"
  shows "preserves (typed_storage E inv name_ok) (delete_one D E L c i)"
proof -
  have "stored_doc (stamped (al_put d ''_deleted'' (Boolean True)) r t node)"
    if "\<And>d. z = Some d \<Longrightarrow> stored_doc d" "z = Some d" for z d r t node
    by (rule stored_stamped)
      (use that(1) [OF that(2)] conflicts_ok_cong [of "al_put d ''_deleted'' (Boolean True)" d] in
        \<open>auto simp: stored_doc_iff own_fields_def\<close>)
  note typed = this [unfolded stamped_def]
  show ?thesis unfolding delete_one_def Let_def by (rule keeps_rules preserves_bind assms(1) typed | assumption | blast)+
qed

lemma keeps_remote [keeps_rules]:
  assumes "name_ok c" "stored_doc d"
  shows "preserves (typed_storage E inv name_ok) (apply_remote_mutation D E c d)"
  unfolding apply_remote_mutation_def Let_def
  by (rule keeps_rules preserves_bind assms stored_add_conflict | assumption | blast)+

lemma keeps_apply_one [keeps_rules]:
  assumes "name_ok dc" "typed_mutation name_ok m"
  shows "preserves (typed_storage E inv name_ok) (apply_one D E dc m)"
proof -
  have c: "name_ok (if mut_collection m = [] then dc else mut_collection m)"
    and patch: "mut_patch m = Some d \<Longrightarrow> stored_doc d" for d
    using assms by (auto simp: typed_mutation_def)
  show ?thesis unfolding apply_one_def Let_def by (rule keeps_rules c stored_tombstone | erule patch)+
qed

lemma keeps_replay_loop [keeps_rules]:
  "name_ok dc \<Longrightarrow> \<forall>m\<in>set ms. typed_mutation name_ok m \<Longrightarrow>
     preserves (typed_storage E inv name_ok :: ('s, 'o) engine \<Rightarrow> bool) (replay_loop D E dc ms seen applied drift)"
proof (induction ms arbitrary: seen applied drift)
  case (Cons m ms)
  then have rest: "preserves (typed_storage E inv name_ok :: ('s, 'o) engine \<Rightarrow> bool) (replay_loop D E dc ms seen applied drift)" for seen applied drift
    by simp
  have step: "preserves (typed_storage E inv name_ok :: ('s, 'o) engine \<Rightarrow> bool) (bind_op (apply_one D E dc m) (\<lambda>_. replay_loop D E dc ms seen applied drift))"
    for seen applied drift using Cons.prems by (intro preserves_bind keeps_apply_one rest) simp_all
  show ?case
    unfolding preserves_def
    using preservesD [OF rest] preservesD [OF step] typed_storage_frame [of E inv name_ok, where ?'b = 'o and ?'c = 'o]
    by (simp add: Let_def split: sum.splits)
qed (simp add: preserves_def)

lemma keeps_apply_mutations [keeps_rules]:
  assumes "name_ok dc" "\<forall>m\<in>set ms. typed_mutation name_ok m"
  shows "preserves (typed_storage E inv name_ok :: ('s, 'o) engine \<Rightarrow> bool) (apply_mutations_deterministic D E dc ms)"
  unfolding apply_mutations_deterministic_def Let_def
  by (rule keeps_rules preserves_bind assms(1) | simp add: assms(2))+

lemma keeps_delete_all [keeps_rules]: "name_ok c \<Longrightarrow> preserves (typed_storage E inv name_ok :: ('s, 'o) engine \<Rightarrow> bool) (delete_all E c ds)"
proof (induction ds)
  case (Cons d ds)
  then have "preserves (typed_storage E inv name_ok :: ('s, 'o) engine \<Rightarrow> bool) (bind_op (storage_delete E c i) (\<lambda>_. delete_all E c ds))" for i
    by (intro preserves_bind keeps_delete)
  with Cons show ?case by (auto simp: preserves_def split: option.splits)
qed (simp add: preserves_def)

lemma keeps_put_all [keeps_rules]:
  "name_ok c \<Longrightarrow> \<forall>d\<in>set ds. stored_doc d \<Longrightarrow> preserves (typed_storage E inv name_ok :: ('s, 'o) engine \<Rightarrow> bool) (put_all E c ds)"
proof (induction ds)
  case (Cons d ds)
  then have "preserves (typed_storage E inv name_ok :: ('s, 'o) engine \<Rightarrow> bool) (bind_op (storage_put E c i d) (\<lambda>_. put_all E c ds))" for i
    by (intro preserves_bind keeps_put) simp_all
  with Cons show ?case by (auto simp: preserves_def split: option.splits)
qed (simp add: preserves_def)

lemma keeps_restore [keeps_rules]:
  assumes "name_ok c" "\<forall>d\<in>set (snap_state s). stored_doc d" "\<forall>m\<in>set ms. typed_mutation name_ok m"
  shows "preserves (typed_storage E inv name_ok) (restore_from_snapshot D E c s ms)"
  unfolding restore_from_snapshot_def by (rule keeps_rules preserves_bind assms)+

lemma keeps_rollback:
  assumes "name_ok c" "\<forall>d\<in>set (snap_state s). stored_doc d" "\<forall>m\<in>set ms. typed_mutation name_ok m"
  shows "preserves (typed_storage E inv name_ok) (rollback_to_snapshot D E c s rb ms)"
  unfolding rollback_to_snapshot_def Let_def
  by (rule keeps_rules preserves_bind assms(1,2) | simp add: assms(3))+

lemma keeps_resolve:
  assumes "name_ok c"
  shows "preserves (typed_storage E inv name_ok) (resolve_conflict D E c i rv)"
proof -
  have typed: "stored_doc (if rest \<noteq> [] then al_put d' ''_conflicts'' (Array rest) else al_del d' ''_conflicts'')"
    if "\<And>d. m = Some d \<Longrightarrow> stored_doc d" "m = Some d" "ok_or (get_as as_array d ''_conflicts'') e = Inr arr"
      "pick_conflict rv arr [] None = (rest, ch)" "ok_or ch e' = Inr d'" for m d e e' arr rest ch d'
    using that stored_resolved [of d arr rv rest d'] by (cases ch; cases "get_as as_array d ''_conflicts''") auto
  show ?thesis
    unfolding resolve_conflict_def
    by (rule keeps_rules preserves_bind assms | assumption | (rule typed; blast))+
qed

lemma keeps_gc_rows [keeps_rules]: "name_ok c \<Longrightarrow> preserves (typed_storage E inv name_ok :: ('s, 'o) engine \<Rightarrow> bool) (gc_rows E c rows n)"
proof (induction rows arbitrary: n)
  case (Cons row rows)
  then have "preserves (typed_storage E inv name_ok :: ('s, 'o) engine \<Rightarrow> bool) (bind_op (storage_delete E c i) (\<lambda>_. gc_rows E c rows n))" for i n
    by (intro preserves_bind keeps_delete)
  with Cons show ?case by (cases row) (auto simp: preserves_def split: option.splits)
qed (simp add: preserves_def)

lemma keeps_gc: "name_ok c \<Longrightarrow> preserves (typed_storage E inv name_ok) (gc_deleted E c)"
  unfolding gc_deleted_def by (rule keeps_rules | assumption)+

end

section \<open>Runs of the engine\<close>

text \<open>
  One call on an engine, whatever it returns. An inserted document has distinct field names, and neither
  it nor an update brings an ill-typed list of conflicts; the documents that come from other nodes, in
  mutations and snapshots, have the type. Nothing else is asked of a call.
\<close>

inductive engine_call :: "deps \<Rightarrow> 's storage_engine \<Rightarrow> 'o oplog_vt \<Rightarrow> (collection_name \<Rightarrow> bool) \<Rightarrow>
    ('s, 'o) engine \<Rightarrow> ('s, 'o) engine \<Rightarrow> bool"
  for D :: deps and E :: "'s storage_engine" and L :: "'o oplog_vt" and name_ok :: "collection_name \<Rightarrow> bool" where
  call_insert: "insert_one D E L c d st = (r, st') \<Longrightarrow> name_ok c \<Longrightarrow> doc_ok d \<Longrightarrow>
    engine_call D E L name_ok st st'"
| call_update: "update_one D E L c i u st = (q, st') \<Longrightarrow> name_ok c \<Longrightarrow> types_conflicts u \<Longrightarrow>
    engine_call D E L name_ok st st'"
| call_delete: "delete_one D E L c i st = (q, st') \<Longrightarrow> name_ok c \<Longrightarrow> engine_call D E L name_ok st st'"
| call_remote: "apply_remote_mutation D E c d st = (z, st') \<Longrightarrow> name_ok c \<Longrightarrow> stored_doc d \<Longrightarrow>
    engine_call D E L name_ok st st'"
| call_replay: "apply_mutations_deterministic D E c ms st = (k, st') \<Longrightarrow> name_ok c \<Longrightarrow>
    \<forall>m\<in>set ms. typed_mutation name_ok m \<Longrightarrow> engine_call D E L name_ok st st'"
| call_rollback: "rollback_to_snapshot D E c s rb ms st = (a, st') \<Longrightarrow> name_ok c \<Longrightarrow>
    \<forall>d\<in>set (snap_state s). stored_doc d \<Longrightarrow> \<forall>m\<in>set ms. typed_mutation name_ok m \<Longrightarrow> engine_call D E L name_ok st st'"
| call_restore: "restore_from_snapshot D E c s ms st = (k, st') \<Longrightarrow> name_ok c \<Longrightarrow>
    \<forall>d\<in>set (snap_state s). stored_doc d \<Longrightarrow> \<forall>m\<in>set ms. typed_mutation name_ok m \<Longrightarrow> engine_call D E L name_ok st st'"
| call_resolve: "resolve_conflict D E c i rv st = (z, st') \<Longrightarrow> name_ok c \<Longrightarrow> engine_call D E L name_ok st st'"
| call_gc: "gc_deleted E c st = (k, st') \<Longrightarrow> name_ok c \<Longrightarrow> engine_call D E L name_ok st st'"

context storage_laws
begin

lemma engine_call_keeps:
  "engine_call D E L name_ok st st' \<Longrightarrow> typed_storage E inv name_ok st \<Longrightarrow> typed_storage E inv name_ok st'"
  by (induction rule: engine_call.induct)
    (blast intro: keepsD keeps_insert keeps_update keeps_delete_one keeps_remote keeps_apply_mutations keeps_rollback
      keeps_restore keeps_resolve keeps_gc)+

lemma inserted:
  "inv (en_storage st) \<Longrightarrow> name_ok c \<Longrightarrow> al_wf d0 \<Longrightarrow> insert_one D E L c d0 st = (Inr i, st') \<Longrightarrow>
     \<exists>d. se_get E (en_storage st') c i = Inr (Some d)"
  using insert_one_ok [of D E L c d0 st i st'] put_get [of "en_storage st" c c i] by fastforce

end

section \<open>Property\<close>

text \<open>
  C20: the engine is type safe: over every storage that keeps the storage laws, whatever calls are made
  on the engine and whichever of them fail, every stored document keeps the type the engine relies on,
  provided that no call brings an ill-typed document itself: documents from other nodes have the type, and
  a local write that sets the list of conflicts sets one of documents of the type.
\<close>

theorem engine_keeps_types:
  assumes "storage_laws E ok name_ok idtext" "ok (en_storage st)"
    and "\<forall>c i d. name_ok c \<longrightarrow> se_get E (en_storage st) c i = Inr (Some d) \<longrightarrow> stored_doc d"
    and "(engine_call D E L name_ok)\<^sup>*\<^sup>* st st'" "name_ok c" "se_get E (en_storage st') c i = Inr (Some d)"
  shows "stored_doc d"
proof -
  have "typed_storage E ok name_ok st" using assms(2,3) by (simp add: typed_storage_def)
  with assms(4) have "typed_storage E ok name_ok st'"
    by (induction rule: rtranclp_induct) (blast intro: storage_laws.engine_call_keeps [OF assms(1)])+
  with assms(5,6) show ?thesis by (simp add: typed_storage_def)
qed

theorem engine_keeps_types_witness:
  "\<exists>i st d. insert_one direct_deps (direct_engine direct_deps) null_oplog_vt ''c'' [(''a'', Null)] direct_sample = (Inr i, st) \<and>
     se_get (direct_engine direct_deps) (en_storage st) ''c'' i = Inr (Some d) \<and> stored_doc d"
proof -
  let ?E = "direct_engine direct_deps"
  have "\<exists>i st. insert_one direct_deps ?E null_oplog_vt ''c'' [(''a'', Null)] direct_sample = (Inr i, st)"
    by (simp add: direct_steps)
  then obtain i st where run: "insert_one direct_deps ?E null_oplog_vt ''c'' [(''a'', Null)] direct_sample = (Inr i, st)"
    by blast
  have wf: "al_wf [(''a'', Null)]" by (simp add: al_wf_def)
  have inv: "direct_inv direct_deps (en_storage direct_sample)" by (simp add: direct_inv_def)
  obtain d where d: "se_get ?E (en_storage st) ''c'' i = Inr (Some d)"
    using direct.inserted [OF inv TrueI wf run] by blast
  have "engine_call direct_deps ?E null_oplog_vt (\<lambda>_. True) direct_sample st"
    by (rule call_insert [OF run TrueI]) (simp add: doc_ok_def wf conflicts_ok_none)
  from engine_keeps_types [OF direct.storage_laws_axioms inv _ r_into_rtranclp [of "engine_call direct_deps ?E null_oplog_vt (\<lambda>_. True)",
      OF this] TrueI d]
  have "stored_doc d" by simp
  with run d show ?thesis by blast
qed

end
