(* ===== verification/Rango_Engine_Race.thy ===== *)
theory Rango_Engine_Race
  imports Rango_Direct_Storage
begin

text \<open>
  Calls of the engine on several threads. \<open>update_one\<close> of \<open>core/src/engine.rs\<close> holds no lock between its
  accesses: it fetches the document, draws a revision, stores the result and appends the mutation. This
  theory has these accesses as the steps of a thread and runs threads by a schedule. A thread alone runs
  the operation of \<open>Rango_Engine\<close>; an update that is overtaken undoes the one that overtook it.
\<close>

section \<open>Threads\<close>

datatype update_pc =
    Fetching
  | Stamping nat doc
  | Storing nat revision doc
  | Logging nat revision doc
  | Returned "bool result"

record update_thread =
  ut_collection :: collection_name
  ut_id :: document_id
  ut_update :: doc
  ut_pc :: update_pc

text \<open>An access that may fail, and where the thread goes with what it yields.\<close>

definition stage :: "('e, 'a) op \<Rightarrow> ('a \<Rightarrow> update_pc) \<Rightarrow> 'e \<Rightarrow> update_pc \<times> 'e" where
  "stage m next_pc st = (case m st of
     (Inl e, st) \<Rightarrow> (Returned (Inl e), st)
   | (Inr x, st) \<Rightarrow> (next_pc x, st))"

fun update_step :: "deps \<Rightarrow> 's storage_engine \<Rightarrow> 'o oplog_vt \<Rightarrow> collection_name \<Rightarrow> document_id \<Rightarrow> doc \<Rightarrow>
    update_pc \<Rightarrow> ('s, 'o) engine \<Rightarrow> update_pc \<times> ('s, 'o) engine" where
  "update_step D E L c i update Fetching st =
     stage (bind_op (from_world instant_now) (\<lambda>start.
         bind_op (storage_get E c i) (\<lambda>found. return_op (start, found))))
       (\<lambda>(start, found). case found of
          None \<Rightarrow> Returned (Inr False)
        | Some d0 \<Rightarrow>
            if is_deleted d0 then Returned (Inr False)
            else case apply_update d0 update of
                Inl e \<Rightarrow> Returned (Inl e)
              | Inr d1 \<Rightarrow> Stamping start d1) st"
| "update_step D E L c i update (Stamping start d1) st =
     stage (bind_op (from_world (revision_now D (en_node_id st))) (\<lambda>rv.
         bind_op (from_world datetime_now) (\<lambda>now.
         let d = al_put (al_put (al_put d1 ''_rev'' (String rv)) ''_updated_at'' (DateTime now))
               ''_source_node'' (String (en_node_id st))
         in bind_op (lift_op (validate_document_size D (en_config st) d)) (\<lambda>_. return_op (rv, d)))))
       (\<lambda>(rv, d). Storing start rv d) st"
| "update_step D E L c i update (Storing start rv d) st =
     stage (storage_put E c i d) (\<lambda>_. Logging start rv d) st"
| "update_step D E L c i update (Logging start rv d) st =
     stage (bind_op (log_local D L Update c i (Some d) rv) (\<lambda>_.
         bind_op (record_op record_update) (\<lambda>_. record_latency start)))
       (\<lambda>_. Returned (Inr True)) st"
| "update_step D E L c i update (Returned r) st = (Returned r, st)"

definition update_turn :: "deps \<Rightarrow> 's storage_engine \<Rightarrow> 'o oplog_vt \<Rightarrow> nat \<Rightarrow>
    update_thread list \<times> ('s, 'o) engine \<Rightarrow> update_thread list \<times> ('s, 'o) engine" where
  "update_turn D E L k cfg = (case cfg of (ts, st) \<Rightarrow>
     if k < length ts then
       (case update_step D E L (ut_collection (ts ! k)) (ut_id (ts ! k)) (ut_update (ts ! k)) (ut_pc (ts ! k)) st of
          (pc, st) \<Rightarrow> (ts[k := (ts ! k)\<lparr>ut_pc := pc\<rparr>], st))
     else (ts, st))"

definition run_updates :: "deps \<Rightarrow> 's storage_engine \<Rightarrow> 'o oplog_vt \<Rightarrow> nat list \<Rightarrow>
    update_thread list \<times> ('s, 'o) engine \<Rightarrow> update_thread list \<times> ('s, 'o) engine" where
  "run_updates D E L schedule cfg = fold (update_turn D E L) schedule cfg"

lemma run_updates_simps [simp]:
  "run_updates D E L [] cfg = cfg"
  "run_updates D E L (k # ks) cfg = run_updates D E L ks (update_turn D E L k cfg)"
  by (simp_all add: run_updates_def)

definition updater :: "collection_name \<Rightarrow> document_id \<Rightarrow> doc \<Rightarrow> update_pc \<Rightarrow> update_thread" where
  "updater c i u pc = \<lparr>ut_collection = c, ut_id = i, ut_update = u, ut_pc = pc\<rparr>"

lemma updater_simps [simp]:
  "ut_collection (updater c i u pc) = c" "ut_id (updater c i u pc) = i" "ut_update (updater c i u pc) = u"
  "ut_pc (updater c i u pc) = pc" "(updater c i u pc)\<lparr>ut_pc := pc'\<rparr> = updater c i u pc'"
  "updater c i u pc = updater c i u pc' \<longleftrightarrow> pc = pc'"
  by (simp_all add: updater_def)

text \<open>A thread that runs alone does what the operation does.\<close>

lemma update_turn_one: "update_turn D E L 0 ([updater c i u pc], st) =
    (case update_step D E L c i u pc st of (pc, st) \<Rightarrow> ([updater c i u pc], st))"
  by (simp add: update_turn_def split: prod.splits)

lemma update_alone:
  "run_updates D E L [0, 0, 0, 0] ([updater c i u Fetching], st) =
     (case update_one D E L c i u st of (r, st') \<Rightarrow> ([updater c i u (Returned r)], st'))"
  by (auto simp: update_turn_one stage_def update_one_def commit_local_def bind_op_def get_op_def from_world_def
      lift_op_def return_op_def storage_get_def record_op_def record_latency_def Let_def
      split: prod.splits sum.splits option.splits)

section \<open>The steps of an update that succeeds, from its end\<close>

lemma returns_True:
  assumes "update_step D E L c i u pc st = (Returned (Inr True), st')" "pc \<noteq> Returned (Inr True)"
  obtains start r d e n where "pc = Logging start r d" "local_entry D (en_node_id st) Update c i (Some d) r e"
    "op_append L e (en_oplog st) = (Inr n, en_oplog st')" "en_storage st' = en_storage st"
proof (cases pc)
  case Fetching
  with assms(1) show ?thesis
    by (auto simp: stage_def bind_op_def from_world_def storage_get_def
        split: prod.splits sum.splits option.splits if_splits)
next
  case (Logging start r d)
  obtain q st1 where log: "log_local D L Update c i (Some d) r st = (q, st1)" by fastforce
  obtain v st2 where lat: "record_latency start (st1\<lparr>en_metrics := record_update (en_metrics st1)\<rparr>) = (v, st2)" by fastforce
  from assms(1) Logging log lat obtain n where "q = Inr n" "st' = st2"
    by (cases q) (auto simp: stage_def bind_op_def record_op_def split: sum.splits)
  with log_local_ok [of D L Update c i "Some d" r st n st1] log_local_frame [OF log] record_latency_frame [OF lat] log Logging that
  show ?thesis by auto
qed (use assms in \<open>auto simp: stage_def split: prod.splits sum.splits\<close>)

lemma goes_Logging:
  assumes "update_step D E L c i u pc st = (Logging start r d, st')"
  shows "pc = Storing start r d \<and> se_put E (en_storage st) c i d = (Inr (), en_storage st') \<and>
    en_oplog st' = en_oplog st \<and> en_node_id st' = en_node_id st"
  using assms
  by (cases pc) (auto simp: stage_def bind_op_def from_world_def storage_get_def storage_put_def
      split: prod.splits sum.splits option.splits if_splits)

lemma goes_Storing:
  assumes "update_step D E L c i u pc st = (Storing start r d, st')"
  shows "\<exists>d1 t. pc = Stamping start d1 \<and> d = stamped d1 r t (en_node_id st) \<and> en_storage st' = en_storage st \<and>
    en_oplog st' = en_oplog st \<and> en_node_id st' = en_node_id st"
  using assms
  by (cases pc) (auto simp: stage_def bind_op_def from_world_def storage_get_def storage_put_def stamped_def lift_op_def Let_def
      split: prod.splits sum.splits option.splits if_splits)

lemma goes_Stamping:
  assumes "update_step D E L c i u pc st = (Stamping start d1, st')"
  shows "pc = Fetching \<and> (\<exists>d0. se_get E (en_storage st) c i = Inr (Some d0) \<and> apply_update d0 u = Inr d1) \<and>
    en_storage st' = en_storage st \<and> en_oplog st' = en_oplog st \<and> en_node_id st' = en_node_id st"
  using assms
  by (cases pc) (auto simp: stage_def bind_op_def from_world_def storage_get_def storage_put_def lift_op_def Let_def
      split: prod.splits sum.splits option.splits if_splits)

lemma update_node: "update_step D E L c i u pc st = (pc', st') \<Longrightarrow> en_node_id st' = en_node_id st"
  by (cases pc) (auto simp: stage_def bind_op_def from_world_def storage_get_def storage_put_def lift_op_def record_op_def
      record_latency_def Let_def dest: log_local_frame split: prod.splits sum.splits)

text \<open>Four steps from the start to success: what each was.\<close>

lemma four_steps:
  assumes "update_step D E L c i u Fetching st = (pc1, st1)" "update_step D E L c i u pc1 st1' = (pc2, st2)"
    and "update_step D E L c i u pc2 st2 = (pc3, st3)" "update_step D E L c i u pc3 st3 = (Returned (Inr True), st4)"
  obtains d0 d1 r t e n where "se_get E (en_storage st) c i = Inr (Some d0)" "apply_update d0 u = Inr d1"
    "en_storage st1 = en_storage st" "en_oplog st1 = en_oplog st" "en_node_id st1 = en_node_id st"
    "se_put E (en_storage st1') c i (stamped d1 r t (en_node_id st1')) = (Inr (), en_storage st4)"
    "local_entry D (en_node_id st1') Update c i (Some (stamped d1 r t (en_node_id st1'))) r e"
    "op_append L e (en_oplog st1') = (Inr n, en_oplog st4)"
proof -
  have "pc1 \<noteq> Returned (Inr True)" using returns_True [of D E L c i u Fetching st st1] assms(1) by fastforce
  then have "pc2 \<noteq> Returned (Inr True)" using returns_True [of D E L c i u pc1 st1' st2] assms(1,2) goes_Logging [of D E L c i u Fetching] by fastforce
  then have "pc3 \<noteq> Returned (Inr True)"
    using returns_True [of D E L c i u pc2 st2 st3] assms(1-3) goes_Logging [of D E L c i u pc1 st1' _ _ _ st2]
      goes_Storing [of D E L c i u Fetching] by fastforce
  with assms(4) obtain start r d e n where 4: "pc3 = Logging start r d" "local_entry D (en_node_id st3) Update c i (Some d) r e"
    "op_append L e (en_oplog st3) = (Inr n, en_oplog st4)" "en_storage st4 = en_storage st3"
    by (rule returns_True)
  with assms(3) goes_Logging [of D E L c i u pc2 st2 start r d st3]
  have 3: "pc2 = Storing start r d" "se_put E (en_storage st2) c i d = (Inr (), en_storage st3)"
    "en_oplog st3 = en_oplog st2" "en_node_id st3 = en_node_id st2" by auto
  with assms(2) goes_Storing [of D E L c i u pc1 st1' start r d st2] obtain d1 t where 2: "pc1 = Stamping start d1"
    "d = stamped d1 r t (en_node_id st1')" "en_storage st2 = en_storage st1'" "en_oplog st2 = en_oplog st1'"
    "en_node_id st2 = en_node_id st1'" by auto
  with assms(1) goes_Stamping [of D E L c i u Fetching st start d1 st1] obtain d0 where
    1: "se_get E (en_storage st) c i = Inr (Some d0)" "apply_update d0 u = Inr d1"
    "en_storage st1 = en_storage st" "en_oplog st1 = en_oplog st" "en_node_id st1 = en_node_id st" by auto
  show ?thesis by (rule that [of d0 d1 r t e n]) (use 1 2 3 4 in simp_all)
qed

section \<open>Properties\<close>

text \<open>
  C18: an overtaken update undoes the one that overtook it: when a thread fetches a document, another thread
  updates it from start to end, and the first one then goes on, both are told that their update was made and
  both are in the log, in the order of their ends, but the stored document is what the first update makes of
  the document before either: nothing of the second one is left.
\<close>

theorem overtaken_update_undoes_other:
  assumes "storage_laws E ok name_ok idtext" "ok (en_storage st)" "name_ok c"
    and "run_updates D E L [0, 1, 1, 1, 1, 0, 0, 0] ([updater c i u Fetching, updater c i v Fetching], st) =
      ([updater c i u (Returned (Inr True)), updater c i v (Returned (Inr True))], st')"
  shows "\<exists>d0 du dv d d' l r r' e e' n n'. se_get E (en_storage st) c i = Inr (Some d0) \<and>
    apply_update d0 u = Inr du \<and> apply_update d0 v = Inr dv \<and>
    se_get E (en_storage st') c i = Inr (Some d) \<and>
    (\<forall>k. k \<notin> {''_rev'', ''_updated_at'', ''_source_node''} \<longrightarrow> al_get d k = al_get du k \<and> al_get d' k = al_get dv k) \<and>
    local_entry D (en_node_id st) Update c i (Some d') r' e' \<and> op_append L e' (en_oplog st) = (Inr n', l) \<and>
    local_entry D (en_node_id st) Update c i (Some d) r e \<and> op_append L e l = (Inr n, en_oplog st')"
proof -
  obtain a1 s1 where a1: "update_step D E L c i u Fetching st = (a1, s1)" by fastforce
  obtain b1 t1 where b1: "update_step D E L c i v Fetching s1 = (b1, t1)" by fastforce
  obtain b2 t2 where b2: "update_step D E L c i v b1 t1 = (b2, t2)" by fastforce
  obtain b3 t3 where b3: "update_step D E L c i v b2 t2 = (b3, t3)" by fastforce
  obtain b4 t4 where b4: "update_step D E L c i v b3 t3 = (b4, t4)" by fastforce
  obtain a2 s2 where a2: "update_step D E L c i u a1 t4 = (a2, s2)" by fastforce
  obtain a3 s3 where a3: "update_step D E L c i u a2 s2 = (a3, s3)" by fastforce
  obtain a4 s4 where a4: "update_step D E L c i u a3 s3 = (a4, s4)" by fastforce
  have ends: "a4 = Returned (Inr True)" "b4 = Returned (Inr True)" "s4 = st'"
    using assms(4) a1 b1 b2 b3 b4 a2 a3 a4 by (simp_all add: update_turn_def)
  from a1 a2 a3 a4 [unfolded ends(1,3)] obtain d0 du r t e n where u:
    "se_get E (en_storage st) c i = Inr (Some d0)" "apply_update d0 u = Inr du"
    "en_storage s1 = en_storage st" "en_oplog s1 = en_oplog st" "en_node_id s1 = en_node_id st"
    "se_put E (en_storage t4) c i (stamped du r t (en_node_id t4)) = (Inr (), en_storage st')"
    "local_entry D (en_node_id t4) Update c i (Some (stamped du r t (en_node_id t4))) r e"
    "op_append L e (en_oplog t4) = (Inr n, en_oplog st')"
    by (rule four_steps)
  from b1 b2 b3 b4 [unfolded ends(2)] obtain dv r' t' e' n' where v:
    "apply_update d0 v = Inr dv" "en_node_id t1 = en_node_id st"
    "se_put E (en_storage st) c i (stamped dv r' t' (en_node_id st)) = (Inr (), en_storage t4)"
    "local_entry D (en_node_id st) Update c i (Some (stamped dv r' t' (en_node_id st))) r' e'"
    "op_append L e' (en_oplog st) = (Inr n', en_oplog t4)"
    by (rule four_steps) (use u in auto)
  have node: "en_node_id t4 = en_node_id st"
    using update_node [OF b4] update_node [OF b3] update_node [OF b2] v(2) by simp
  have ok: "ok (en_storage t4)" by (rule storage_laws.put_inv [OF assms(1-3) v(3)])
  note u' = u(6-8) [unfolded node]
  have get: "se_get E (en_storage st') c i = Inr (Some (stamped du r t (en_node_id st)))"
    using storage_laws.put_get [OF assms(1) ok assms(3,3) u'(1)] by simp
  have fields: "\<forall>k. k \<notin> {''_rev'', ''_updated_at'', ''_source_node''} \<longrightarrow>
      al_get (stamped du r t (en_node_id st)) k = al_get du k \<and> al_get (stamped dv r' t' (en_node_id st)) k = al_get dv k"
    by (simp add: stamped_get)
  show ?thesis
    by (intro exI conjI) (rule u(1) u(2) v(1) get fields v(4) v(5) u'(2) u'(3))+
qed

text \<open>Two increments of a counter, after which it stands at one.\<close>

definition counter_id :: document_id where
  "counter_id = Binary uuid_subtype [7]"

definition counter_engine :: "(direct_storage, null_oplog) engine" where
  "counter_engine = direct_sample\<lparr>en_storage :=
     [((''c'', document_id_to_string direct_deps counter_id), [(''_id'', counter_id), (''n'', Int32 0)])]\<rparr>"

definition increment :: doc where
  "increment = [(''$inc'', Document [(''n'', Int32 1)])]"

theorem overtaken_update_undoes_other_witness:
  "\<exists>st' d. run_updates direct_deps (direct_engine direct_deps) null_oplog_vt [0, 1, 1, 1, 1, 0, 0, 0]
       ([updater ''c'' counter_id increment Fetching, updater ''c'' counter_id increment Fetching], counter_engine) =
     ([updater ''c'' counter_id increment (Returned (Inr True)), updater ''c'' counter_id increment (Returned (Inr True))], st') \<and>
     se_get (direct_engine direct_deps) (en_storage st') ''c'' counter_id = Inr (Some d) \<and> al_get d ''n'' = Some (Int32 1)"
proof -
  obtain st' where run: "run_updates direct_deps (direct_engine direct_deps) null_oplog_vt [0, 1, 1, 1, 1, 0, 0, 0]
       ([updater ''c'' counter_id increment Fetching, updater ''c'' counter_id increment Fetching], counter_engine) =
     ([updater ''c'' counter_id increment (Returned (Inr True)), updater ''c'' counter_id increment (Returned (Inr True))], st')"
    by (simp add: update_turn_def stage_def counter_engine_def increment_def apply_inc_def counter_id_def direct_steps)
  have "direct_inv direct_deps (en_storage counter_engine)"
    by (simp add: counter_engine_def direct_inv_def al_wf_def)
  from overtaken_update_undoes_other [OF direct.storage_laws_axioms this TrueI run] run show ?thesis
    by (fastforce simp: counter_engine_def increment_def apply_inc_def)
qed

end
