(* ===== verification/Rango_Engine_Converge.thy ===== *)
theory Rango_Engine_Converge
  imports Rango_Engine_Replay Rango_Direct_Storage
begin

text \<open>
  Replicas: engines that receive batches of mutations through \<open>apply_mutations_deterministic\<close>. The theory
  follows a collection through any sequence of batches: what is stored under an identifier is, up to its
  conflict list, the version with the greatest revision among those received, so two replicas that have
  received the same mutations, in whatever order, batches and repetitions, hold the same documents.
\<close>

section \<open>Versions of a document\<close>

definition with_id :: "(document_id \<Rightarrow> string) \<Rightarrow> document_id \<Rightarrow> doc \<Rightarrow> bool" where
  "with_id idtext i d \<longleftrightarrow> (\<exists>j. al_get d ''_id'' = Some j \<and> idtext j = idtext i)"

definition same_fields :: "doc \<Rightarrow> doc \<Rightarrow> bool" where
  "same_fields w v \<longleftrightarrow> (\<forall>k. k \<noteq> ''_conflicts'' \<longrightarrow> al_get w k = al_get v k)"

definition rev_le :: "deps \<Rightarrow> doc \<Rightarrow> doc \<Rightarrow> bool" where
  "rev_le D u v \<longleftrightarrow> revision_order (doc_rev D u) (doc_rev D v) \<noteq> Greater"

definition newest :: "deps \<Rightarrow> doc set \<Rightarrow> doc \<Rightarrow> bool" where
  "newest D V w \<longleftrightarrow> (\<exists>v\<in>V. same_fields w v \<and> (\<forall>u\<in>V. rev_le D u v))"

lemma same_fields_refl [simp]: "same_fields d d"
  by (simp add: same_fields_def)

lemma same_fields_deleted: "same_fields w v \<Longrightarrow> is_deleted w = is_deleted v"
  by (simp add: same_fields_def is_deleted_iff)

lemma same_fields_rev: "same_fields w v \<Longrightarrow> doc_rev D w = doc_rev D v"
  by (simp add: same_fields_def doc_rev_def get_as_def)

lemma same_fields_conflict: "same_fields w v \<Longrightarrow> same_fields (add_conflict loser w) v"
  by (simp add: same_fields_def add_conflict_get)

lemma rev_le_refl [simp]: "rev_le D d d"
  by (simp add: rev_le_def rev_order.cmp_refl)

lemma rev_le_trans: "rev_le D a b \<Longrightarrow> rev_le D b c \<Longrightarrow> rev_le D a c"
  unfolding rev_le_def by (rule rev_order.cmp_trans [of _ "doc_rev D b"]) simp_all

lemma rev_le_total: "rev_le D a b \<or> rev_le D b a"
  using rev_order.cmp_swap [of "doc_rev D a" "doc_rev D b"] by (auto simp: rev_le_def)

lemma rev_le_antisym: "rev_le D a b \<Longrightarrow> rev_le D b a \<Longrightarrow> revision_order (doc_rev D a) (doc_rev D b) = Equal"
  using rev_order.cmp_swap [of "doc_rev D a" "doc_rev D b"]
  by (cases "revision_order (doc_rev D a) (doc_rev D b)") (simp_all add: rev_le_def)

text \<open>Merging keeps the stored document the newest version.\<close>

lemma newest_merged:
  assumes l: "newest D V l" and live: "\<forall>v\<in>V. \<not> is_deleted v"
  shows "newest D (insert d V) (merged D (Some l) d)"
proof -
  obtain v where v: "v \<in> V" "same_fields l v" "\<forall>u\<in>V. rev_le D u v" using l by (auto simp: newest_def)
  have alive: "\<not> is_deleted l" using live v same_fields_deleted by blast
  have rev: "doc_rev D l = doc_rev D v" by (rule same_fields_rev [OF v(2)])
  show ?thesis
  proof (cases "revision_order (doc_rev D d) (doc_rev D l)")
    case Greater
    then have "rev_le D v d" using rev_le_total [of D v d] rev by (auto simp: rev_le_def)
    then have "\<forall>u\<in>insert d V. rev_le D u d" using v(3) rev_le_trans by auto
    with Greater alive show ?thesis
      unfolding newest_def by (auto simp: merged_def intro: same_fields_conflict [OF same_fields_refl])
  next
    case Less
    then have "rev_le D d v" using rev by (simp add: rev_le_def)
    with Less alive v show ?thesis
      unfolding newest_def by (auto simp: merged_def intro!: bexI [of _ v] same_fields_conflict)
  next
    case Equal
    then have "rev_le D d v" using rev by (simp add: rev_le_def)
    with Equal alive v show ?thesis
      unfolding newest_def by (auto simp: merged_def intro!: bexI [of _ v])
  qed
qed

lemma newest_unique:
  assumes "newest D V w" "newest D V w'"
    and "\<forall>u\<in>V. \<forall>v\<in>V. revision_order (doc_rev D u) (doc_rev D v) = Equal \<longrightarrow> u = v"
  shows "same_fields w w'"
proof -
  obtain v v' where "v \<in> V" "same_fields w v" "v' \<in> V" "same_fields w' v'" "rev_le D v' v" "rev_le D v v'"
    using assms(1,2) by (auto simp: newest_def)
  moreover from this assms(3) have "v = v'" using rev_le_antisym by blast
  ultimately show ?thesis by (simp add: same_fields_def)
qed

section \<open>A replica of a set of versions\<close>

definition versions :: "(document_id \<Rightarrow> string) \<Rightarrow> document_id \<Rightarrow> doc set \<Rightarrow> doc set" where
  "versions idtext i V = {d \<in> V. with_id idtext i d}"

fun holds_newest :: "deps \<Rightarrow> doc set \<Rightarrow> doc option result \<Rightarrow> bool" where
  "holds_newest D V (Inl e) \<longleftrightarrow> False"
| "holds_newest D V (Inr None) \<longleftrightarrow> V = {}"
| "holds_newest D V (Inr (Some w)) \<longleftrightarrow> newest D V w"

definition replica_of :: "deps \<Rightarrow> 's storage_engine \<Rightarrow> (document_id \<Rightarrow> string) \<Rightarrow> collection_name \<Rightarrow> doc set \<Rightarrow> 's \<Rightarrow> bool" where
  "replica_of D E idtext c V s \<longleftrightarrow> 
     (\<forall>i. holds_newest D (versions idtext i V) (se_get E s c i))"

lemma holds_newest_cases:
  obtains (failed) e where "(r :: doc option result) = Inl e" | (absent) "r = Inr None" | (found) w where "r = Inr (Some w)"
  by (cases r) (metis option.exhaust)+

definition live_versions :: "doc set \<Rightarrow> bool" where
  "live_versions V \<longleftrightarrow> (\<forall>d\<in>V. \<not> is_deleted d \<and> al_get d ''_id'' \<noteq> None)"

lemma versions_insert: "versions idtext j (insert d V) =
    (if with_id idtext j d then insert d (versions idtext j V) else versions idtext j V)"
  by (auto simp: versions_def)

lemma replicas_agree:
  assumes "replica_of D E idtext c V s" "replica_of D E' idtext c V s'"
    and "\<forall>i. \<forall>u\<in>versions idtext i V. \<forall>v\<in>versions idtext i V. revision_order (doc_rev D u) (doc_rev D v) = Equal \<longrightarrow> u = v"
  shows "(se_get E s c i = Inr None \<and> se_get E' s' c i = Inr None) \<or>
    (\<exists>w w'. se_get E s c i = Inr (Some w) \<and> se_get E' s' c i = Inr (Some w') \<and> same_fields w w')"
proof -
  have a: "holds_newest D (versions idtext i V) (se_get E s c i)" "holds_newest D (versions idtext i V) (se_get E' s' c i)"
    using assms(1,2) by (simp_all add: replica_of_def)
  have unique: "newest D (versions idtext i V) w \<Longrightarrow> newest D (versions idtext i V) w' \<Longrightarrow> same_fields w w'" for w w'
    using newest_unique assms(3) by blast
  show ?thesis
  proof (cases "se_get E s c i" rule: holds_newest_cases)
    case (found w)
    with a unique show ?thesis by (cases "se_get E' s' c i" rule: holds_newest_cases) (auto simp: newest_def)
  qed (use a in \<open>cases "se_get E' s' c i" rule: holds_newest_cases; auto simp: newest_def\<close>)+
qed

context storage_laws
begin

lemma replica_of_empty: "\<forall>i. se_get E s c i = Inr None \<Longrightarrow> replica_of D E idtext c {} s"
  by (simp add: replica_of_def versions_def)

lemma replica_apply:
  assumes s: "inv (en_storage st)" "name_ok c" "replica_of D E idtext c V (en_storage st)"
    and live: "live_versions (insert d V)"
    and app: "apply_remote_mutation D E c d st = (Inr (), st')"
  shows "inv (en_storage st') \<and> replica_of D E idtext c (insert d V) (en_storage st')"
proof -
  obtain i where i: "al_get d ''_id'' = Some i" using live by (auto simp: live_versions_def)
  let ?l = "holds_at (en_storage st) c i"
  have get: "se_get E (en_storage st) c i = Inr ?l" by (rule get_holds_at [OF s(1,2)])
  have after: "inv (en_storage st')" "se_get E (en_storage st') c i = Inr (Some (merged D ?l d))"
    "\<And>j. idtext j \<noteq> idtext i \<Longrightarrow> se_get E (en_storage st') c j = se_get E (en_storage st) c j"
    using apply_remote_merges [OF s(1,2) i app] s(2) by auto
  have here: "newest D (insert d (versions idtext i V)) (merged D ?l d)"
  proof (cases ?l)
    case None
    then have "versions idtext i V = {}"
      using s(3) get unfolding replica_of_def by (auto dest!: spec [of _ i])
    with None show ?thesis by (simp add: newest_def merged_def)
  next
    case (Some l)
    then have "newest D (versions idtext i V) l"
      using s(3) get unfolding replica_of_def by (auto dest!: spec [of _ i])
    with Some live show ?thesis by (auto simp: live_versions_def versions_def intro: newest_merged)
  qed
  have same: "versions idtext j V = versions idtext i V" if "idtext j = idtext i" for j
    using that by (simp add: versions_def with_id_def)
  have "replica_of D E idtext c (insert d V) (en_storage st')"
    unfolding replica_of_def
  proof
    fix j
    show "holds_newest D (versions idtext j (insert d V)) (se_get E (en_storage st') c j)"
    proof (cases "idtext j = idtext i")
      case True
      then have "with_id idtext j d" using i by (simp add: with_id_def)
      moreover have "se_get E (en_storage st') c j = Inr (Some (merged D ?l d))"
        using get_idtext [OF after(1) s(2) True] after(2) by simp
      ultimately show ?thesis using here same [OF True] by (simp add: versions_insert)
    next
      case False
      then have "\<not> with_id idtext j d" using i by (auto simp: with_id_def)
      with after(3) [OF False] s(3) show ?thesis by (simp add: versions_insert replica_of_def)
    qed
  qed
  with after(1) show ?thesis by blast
qed

end

section \<open>Batches\<close>

text \<open>
  The mutations that circulate: writes of live documents of one collection, each with a write identifier
  that tells which document it writes.
\<close>

definition circulating :: "collection_name \<Rightarrow> mutation set \<Rightarrow> bool" where
  "circulating c M \<longleftrightarrow>
     (\<forall>m\<in>M. mut_collection m = c \<and> mut_write_id m \<noteq> [] \<and>
        (\<exists>d. mut_patch m = Some d \<and> \<not> is_deleted d \<and> al_get d ''_id'' \<noteq> None)) \<and>
     (\<forall>m\<in>M. \<forall>m'\<in>M. mut_write_id m = mut_write_id m' \<longrightarrow> mut_patch m = mut_patch m')"

lemma circulating_subset: "circulating c M \<Longrightarrow> N \<subseteq> M \<Longrightarrow> circulating c N"
  unfolding circulating_def by (meson subsetD)

definition docs_of :: "mutation set \<Rightarrow> doc set" where
  "docs_of M = {d. \<exists>m\<in>M. mut_patch m = Some d}"

fun receive_batches :: "deps \<Rightarrow> 's storage_engine \<Rightarrow> collection_name \<Rightarrow> mutation list list \<Rightarrow> (('s, 'o) engine, unit) op" where
  "receive_batches D E c [] = return_op ()"
| "receive_batches D E c (b # bs) = bind_op (apply_mutations_deterministic D E c b) (\<lambda>_. receive_batches D E c bs)"

text \<open>What a replica knows: the documents of the mutations it has received, all that its set of identifiers tells.\<close>

definition knows :: "deps \<Rightarrow> 's storage_engine \<Rightarrow> (document_id \<Rightarrow> string) \<Rightarrow> collection_name \<Rightarrow> mutation set \<Rightarrow>
    mutation set \<Rightarrow> ('s, 'o) engine \<Rightarrow> bool" where
  "knows D E idtext c M R st \<longleftrightarrow> R \<subseteq> M \<and> replica_of D E idtext c (docs_of R) (en_storage st) \<and>
     (\<forall>m\<in>M. mut_write_id m \<in> en_applied_write_ids st \<longrightarrow> docs_of {m} \<subseteq> docs_of R)"

lemma docs_of_insert: "docs_of (insert m R) = docs_of {m} \<union> docs_of R"
  by (auto simp: docs_of_def)

lemma circulating_live: "circulating c M \<Longrightarrow> R \<subseteq> M \<Longrightarrow> live_versions (docs_of R)"
proof -
  assume M: "circulating c M" "R \<subseteq> M"
  have "\<not> is_deleted d \<and> al_get d ''_id'' \<noteq> None" if "m \<in> R" "mut_patch m = Some d" for m d
  proof -
    have "m \<in> M" using M(2) that(1) by blast
    with M(1) obtain d' where "mut_patch m = Some d'" "\<not> is_deleted d' \<and> al_get d' ''_id'' \<noteq> None"
      unfolding circulating_def by blast
    with that(2) show ?thesis by simp
  qed
  then show ?thesis unfolding live_versions_def docs_of_def by blast
qed

context storage_laws
begin

lemma replay_knows:
  assumes "replay_loop D E c ms seen n drift st = (Inr p, st')" "circulating c M" "set ms \<subseteq> M" "name_ok c" "c \<noteq> []"
    and "inv (en_storage st)" "knows D E idtext c M R st"
    and "\<forall>m\<in>M. mut_write_id m \<in> seen \<longrightarrow> docs_of {m} \<subseteq> docs_of R"
  shows "inv (en_storage st') \<and> knows D E idtext c M (R \<union> set ms) st'"
  using assms
proof (induction ms arbitrary: seen n drift st R)
  case (Cons m ms)
  let ?w = "mut_write_id m"
  obtain d where d: "mut_patch m = Some d" "?w \<noteq> []" "mut_collection m = c"
    using Cons.prems(2,3) unfolding circulating_def by (metis list.set_intros(1) subsetD)
  then have docs: "docs_of {m} = {d}" by (auto simp: docs_of_def)
  have same: "docs_of {m'} \<subseteq> docs_of (insert m R)" if "m' \<in> M" "mut_write_id m' = ?w" for m'
  proof -
    have "mut_patch m' = Some d" using that Cons.prems(2,3) d(1) unfolding circulating_def by (metis list.set_intros(1) subsetD)
    with d(1) show ?thesis by (simp add: docs_of_def)
  qed
  have valid: "validate_metadata m = Inr ()"
    using Cons.prems(1) by (cases rule: validate_metadata_cases [of m]) auto
  show ?case
  proof (cases "?w \<in> seen \<or> ?w \<in> en_applied_write_ids st")
    case True
    then have in_R: "docs_of {m} \<subseteq> docs_of R" using Cons.prems(3,7,8) by (auto simp: knows_def)
    then have R: "docs_of (insert m R) = docs_of R" by (simp add: docs_of_insert [of m R] sup_absorb2)
    have k: "knows D E idtext c M (insert m R) st"
      using Cons.prems(3,7) R by (simp add: knows_def)
    obtain seen' where seen': "seen' = seen \<or> seen' = insert ?w seen"
      and rest: "replay_loop D E c ms seen' n True st = (Inr p, st')"
      using Cons.prems(1) True d(2) valid by (auto simp: Let_def split: if_splits)
    have "\<forall>m'\<in>M. mut_write_id m' \<in> seen' \<longrightarrow> docs_of {m'} \<subseteq> docs_of (insert m R)"
      using Cons.prems(8) same seen' R by auto
    from Cons.IH [OF rest Cons.prems(2) _ Cons.prems(4,5,6) k this] Cons.prems(3) show ?thesis by simp
  next
    case False
    let ?st1 = "st\<lparr>en_applied_write_ids := insert ?w (en_applied_write_ids st)\<rparr>"
    obtain st2 where one: "apply_one D E c m ?st1 = (Inr (), st2)"
      and rest: "replay_loop D E c ms (insert ?w seen) (n + 1) drift st2 = (Inr p, st')"
      using Cons.prems(1) False d(2) valid by (auto simp: Let_def bind_op_Inr simp del: op_apply)
    have app: "apply_remote_mutation D E c d ?st1 = (Inr (), st2)"
      using one d Cons.prems(5) by (simp add: apply_one_def Let_def)
    have live: "live_versions (insert d (docs_of R))"
      using circulating_live [OF Cons.prems(2), of "insert m R"] Cons.prems(3,7) docs
      by (simp add: knows_def docs_of_insert [of m R])
    have st2: "inv (en_storage st2)" "replica_of D E idtext c (docs_of (insert m R)) (en_storage st2)"
      using replica_apply [of ?st1 c D "docs_of R" d st2] Cons.prems(4,6,7) live app docs
      by (auto simp: knows_def docs_of_insert [of m R])
    have ids: "en_applied_write_ids st2 = insert ?w (en_applied_write_ids st)"
      using apply_one_frame [OF one] by simp
    have more: "docs_of R \<subseteq> docs_of (insert m R)" by (auto simp: docs_of_insert [of m R])
    then have k: "knows D E idtext c M (insert m R) st2"
      using Cons.prems(3,7) st2(2) ids same unfolding knows_def by (auto; blast)
    have "\<forall>m'\<in>M. mut_write_id m' \<in> insert ?w seen \<longrightarrow> docs_of {m'} \<subseteq> docs_of (insert m R)"
      using Cons.prems(8) same more by blast
    from Cons.IH [OF rest Cons.prems(2) _ Cons.prems(4,5) st2(1) k this] Cons.prems(3) show ?thesis by simp
  qed
qed simp

lemma receive_knows:
  assumes "receive_batches D E c bs st = (Inr (), st')" "circulating c M" "set (concat bs) \<subseteq> M" "name_ok c" "c \<noteq> []"
    and "inv (en_storage st)" "knows D E idtext c M R st"
  shows "inv (en_storage st') \<and> knows D E idtext c M (R \<union> set (concat bs)) st'"
  using assms
proof (induction bs arbitrary: st R)
  case (Cons b bs)
  obtain n st1 where one: "apply_mutations_deterministic D E c b st = (Inr n, st1)"
    and rest: "receive_batches D E c bs st1 = (Inr (), st')"
    using Cons.prems(1) by (auto simp: bind_op_Inr)
  obtain drift st2 where loop: "replay_loop D E c (sort_by (mutation_cmp D) b) {} 0 (drift_in D b)
      (st\<lparr>en_world := snd (instant_now (en_world st))\<rparr>) = (Inr (n, drift), st2)"
    "en_storage st1 = en_storage st2" "en_applied_write_ids st1 = en_applied_write_ids st2"
    using apply_mutations_Inr [OF one] by blast
  have "inv (en_storage st2) \<and> knows D E idtext c M (R \<union> set (sort_by (mutation_cmp D) b)) st2"
    by (rule replay_knows [OF loop(1) Cons.prems(2) _ Cons.prems(4,5)])
      (use Cons.prems(3,6,7) in \<open>simp_all add: knows_def\<close>)
  then have "inv (en_storage st1)" "knows D E idtext c M (R \<union> set b) st1" using loop(2,3) by (simp_all add: knows_def)
  from Cons.IH [OF rest Cons.prems(2) _ Cons.prems(4,5) this] Cons.prems(3) show ?case by (simp add: Un_assoc)
qed simp

lemma receive_from_empty:
  assumes "receive_batches D E c bs st = (Inr (), st')" "circulating c (set (concat bs))" "name_ok c" "c \<noteq> []"
    and "inv (en_storage st)" "\<forall>i. se_get E (en_storage st) c i = Inr None" "en_applied_write_ids st = {}"
  shows "replica_of D E idtext c (docs_of (set (concat bs))) (en_storage st')"
proof -
  have "docs_of {} = {}" by (simp add: docs_of_def)
  then have "knows D E idtext c (set (concat bs)) {} st"
    using replica_of_empty [OF assms(6)] assms(7) by (simp add: knows_def)
  from receive_knows [OF assms(1,2) _ assms(3,4,5) this] show ?thesis by (simp add: knows_def)
qed

end

section \<open>Properties\<close>

text \<open>
  C2: replicas converge: two engines, on back ends of any kind, that start without documents and receive the
  same mutations of live documents, split into batches and ordered in any way and repeated any number of
  times, hold documents under the same identifiers, and under each of them the same version up to the list
  of conflicts, provided no two versions of a document share their revision.
\<close>

theorem replicas_converge:
  assumes "storage_laws E ok name_ok idtext" "storage_laws E' ok' name_ok' idtext"
    and "ok (en_storage st)" "ok' (en_storage st')" "name_ok c" "name_ok' c" "c \<noteq> []"
    and "\<forall>i. se_get E (en_storage st) c i = Inr None" "\<forall>i. se_get E' (en_storage st') c i = Inr None"
    and "en_applied_write_ids st = {}" "en_applied_write_ids st' = {}"
    and "circulating c (set (concat bs))" "set (concat bs') = set (concat bs)"
    and "\<forall>u\<in>docs_of (set (concat bs)). \<forall>v\<in>docs_of (set (concat bs)). al_get u ''_id'' = al_get v ''_id'' \<or>
        idtext (the (al_get u ''_id'')) = idtext (the (al_get v ''_id'')) \<longrightarrow>
      revision_cmp (doc_rev D u) (doc_rev D v) = Some Equal \<longrightarrow> u = v"
    and "receive_batches D E c bs st = (Inr (), s)" "receive_batches D E' c bs' st' = (Inr (), s')"
  shows "(se_get E (en_storage s) c i = Inr None \<and> se_get E' (en_storage s') c i = Inr None) \<or>
    (\<exists>w w'. se_get E (en_storage s) c i = Inr (Some w) \<and> se_get E' (en_storage s') c i = Inr (Some w') \<and>
      (\<forall>k. k \<noteq> ''_conflicts'' \<longrightarrow> al_get w k = al_get w' k))"
proof -
  let ?V = "docs_of (set (concat bs))"
  have "replica_of D E idtext c ?V (en_storage s)"
    by (rule storage_laws.receive_from_empty [OF assms(1,15,12,5,7,3,8,10)])
  moreover have "replica_of D E' idtext c ?V (en_storage s')"
    using storage_laws.receive_from_empty [OF assms(2,16) _ assms(6,7,4,9,11)] assms(12,13) by simp
  moreover have "\<forall>i. \<forall>u\<in>versions idtext i ?V. \<forall>v\<in>versions idtext i ?V.
      revision_order (doc_rev D u) (doc_rev D v) = Equal \<longrightarrow> u = v"
    using assms(14) by (auto simp: versions_def with_id_def doc_rev_cmp)
  ultimately show ?thesis using replicas_agree [of D E idtext c ?V "en_storage s" E' "en_storage s'" i]
    by (auto simp: same_fields_def)
qed

text \<open>A back end that never fails takes every batch of valid mutations.\<close>

lemma apply_remote_runs:
  assumes "\<And>s i. \<exists>m. se_get E s c i = Inr m" "\<And>s i d. \<exists>s'. se_put E s c i d = (Inr (), s')" "al_get d ''_id'' \<noteq> None"
  shows "\<exists>st'. apply_remote_mutation D E c d st = (Inr (), st')"
proof -
  obtain i m where i: "al_get d ''_id'' = Some i" "se_get E (en_storage st) c i = Inr m" using assms(1,3) by blast
  obtain s' where "se_put E (en_storage st) c i (merged D m d) = (Inr (), s')" using assms(2) by blast
  then show ?thesis by (simp add: apply_remote_eq [where E = E, OF i] storage_put_def)
qed

lemma replay_runs:
  assumes "\<And>s i. \<exists>m. se_get E s c i = Inr m" "\<And>s i d. \<exists>s'. se_put E s c i d = (Inr (), s')" "c \<noteq> []"
    and "\<forall>m\<in>set ms. validate_metadata m = Inr ()" "circulating c (set ms)"
  shows "\<exists>p st'. replay_loop D E c ms seen n drift st = (Inr p, st')"
  using assms(4,5)
proof (induction ms arbitrary: seen n drift st)
  case (Cons m ms)
  obtain d where d: "mut_patch m = Some d" "al_get d ''_id'' \<noteq> None" "mut_collection m = c" "mut_write_id m \<noteq> []"
    using Cons.prems(2) by (auto simp: circulating_def)
  have IH: "\<exists>p st'. replay_loop D E c ms seen n drift st = (Inr p, st')" for seen n drift and st :: "('a, 'b) engine"
    using Cons.IH Cons.prems(1) circulating_subset [OF Cons.prems(2)] by (simp add: subset_insertI)
  let ?st1 = "st\<lparr>en_applied_write_ids := insert (mut_write_id m) (en_applied_write_ids st)\<rparr>"
  obtain st2 where "apply_remote_mutation D E c d ?st1 = (Inr (), st2)"
    using apply_remote_runs [where D = D and E = E and st = ?st1, OF assms(1,2) d(2)] by blast
  then have "apply_one D E c m ?st1 = (Inr (), st2)" using d assms(3) by (simp add: apply_one_def Let_def)
  then show ?case using Cons.prems(1) d(4) IH by (simp add: Let_def bind_op_def)
qed simp

lemma receive_runs:
  assumes "\<And>s i. \<exists>m. se_get E s c i = Inr m" "\<And>s i d. \<exists>s'. se_put E s c i d = (Inr (), s')" "c \<noteq> []"
    and "\<forall>m\<in>set (concat bs). validate_metadata m = Inr ()" "circulating c (set (concat bs))"
  shows "\<exists>st'. receive_batches D E c bs st = (Inr (), st')"
  using assms(4,5)
proof (induction bs arbitrary: st)
  case (Cons b bs)
  have b: "circulating c (set b)" "circulating c (set (concat bs))" using circulating_subset [OF Cons.prems(2)] by auto
  let ?st = "st\<lparr>en_world := snd (instant_now (en_world st))\<rparr>"
  have "\<exists>p st'. replay_loop D E c (sort_by (mutation_cmp D) b) {} 0 (drift_in D b) ?st = (Inr p, st')"
    by (rule replay_runs [OF assms(1-3)]) (use Cons.prems(1) b(1) in simp_all)
  then obtain n drift st2 where "replay_loop D E c (sort_by (mutation_cmp D) b) {} 0 (drift_in D b) ?st = (Inr (n, drift), st2)"
    by auto
  then have "\<exists>st1. apply_mutations_deterministic D E c b st = (Inr n, st1)"
    by (cases drift) (simp_all add: apply_mutations_deterministic_def from_world_eq record_op_def)
  then obtain st1 where "apply_mutations_deterministic D E c b st = (Inr n, st1)" by blast
  then show ?case using Cons.IH [of st1] Cons.prems(1) b(2) by simp
qed simp

text \<open>Two versions of one document, in order, and in reverse with a repetition.\<close>

definition version_write :: "u64 \<Rightarrow> string \<Rightarrow> mutation" where
  "version_write t w = sample_mutation\<lparr>mut_patch := Some (versioned ''x'' t False), mut_write_id := w\<rparr>"

theorem replicas_converge_witness:
  "\<exists>s s' w w'. receive_batches direct_deps (direct_engine direct_deps) ''c'' [[version_write 1 ''a''], [version_write 2 ''b'']]
       direct_sample = (Inr (), s) \<and>
     receive_batches direct_deps (direct_engine direct_deps) ''c'' [[version_write 2 ''b'', version_write 1 ''a''], [version_write 1 ''a'']]
       direct_sample = (Inr (), s') \<and>
     se_get (direct_engine direct_deps) (en_storage s) ''c'' (String ''x'') = Inr (Some w) \<and>
     se_get (direct_engine direct_deps) (en_storage s') ''c'' (String ''x'') = Inr (Some w') \<and> al_get w ''_rev'' = al_get w' ''_rev''"
proof -
  let ?a = "version_write 1 ''a''" and ?b = "version_write 2 ''b''" and ?E = "direct_engine direct_deps"
  have M: "circulating ''c'' {?a, ?b}"
    by (auto simp: circulating_def version_write_def sample_mutation_def)
  have valid: "validate_metadata ?a = Inr ()" "validate_metadata ?b = Inr ()"
    using sample_valid unfolding version_write_def validate_metadata_def by simp_all
  have docs: "docs_of {?a, ?b} = {versioned ''x'' 1 False, versioned ''x'' 2 False}"
    by (auto simp: docs_of_def version_write_def)
  obtain s where s: "receive_batches direct_deps ?E ''c'' [[?a], [?b]] direct_sample = (Inr (), s)"
    using receive_runs [of ?E "''c''" "[[?a], [?b]]" direct_deps direct_sample] M valid by auto
  obtain s' where s': "receive_batches direct_deps ?E ''c'' [[?b, ?a], [?a]] direct_sample = (Inr (), s')"
    using receive_runs [of ?E "''c''" "[[?b, ?a], [?a]]" direct_deps direct_sample] M valid by (auto simp: insert_commute)
  have start: "direct_inv direct_deps (en_storage direct_sample)" "\<forall>i. se_get ?E (en_storage direct_sample) ''c'' i = Inr None"
    "en_applied_write_ids direct_sample = {}"
    by (simp_all add: direct_sample_def)
  have "(se_get ?E (en_storage s) ''c'' (String ''x'') = Inr None \<and> se_get ?E (en_storage s') ''c'' (String ''x'') = Inr None) \<or>
    (\<exists>w w'. se_get ?E (en_storage s) ''c'' (String ''x'') = Inr (Some w) \<and> se_get ?E (en_storage s') ''c'' (String ''x'') = Inr (Some w') \<and>
      (\<forall>k. k \<noteq> ''_conflicts'' \<longrightarrow> al_get w k = al_get w' k))"
    by (rule replicas_converge [OF direct.storage_laws_axioms direct.storage_laws_axioms start(1) start(1) TrueI TrueI _
          start(2) start(2) start(3) start(3) _ _ _ s s'])
      (use M in \<open>auto simp: docs revision_cmp_new insert_commute\<close>)
  moreover have "se_get ?E (en_storage s) ''c'' (String ''x'') \<noteq> Inr None"
  proof -
    have "replica_of direct_deps ?E (document_id_to_string direct_deps) ''c'' (docs_of {?a, ?b}) (en_storage s)"
      using direct.receive_from_empty [OF s _ TrueI _ start] M by simp
    moreover have "versioned ''x'' 1 False \<in> versions (document_id_to_string direct_deps) (String ''x'') (docs_of {?a, ?b})"
      by (simp add: docs versions_def with_id_def)
    ultimately show ?thesis unfolding replica_of_def by (metis empty_iff holds_newest.simps(2))
  qed
  ultimately show ?thesis using s s' by fastforce
qed

end
