(* ===== verification/Rango_Control_Plane.thy ===== *)
theory Rango_Control_Plane
  imports Rango_Envelope
begin

text \<open>
  The governance control plane (\<open>core/src/control_plane.rs\<close>): the hooks as a record of functions,
  the no-op hooks of the default plane, and the write, read and promotion paths. The two hooks that
  return nothing, the audit sink and the anomaly signal, are the trace of calls each path makes, in
  order.
\<close>

section \<open>Requests and payloads\<close>

record write_context =
  wc_tenant_id :: string
  wc_namespace :: string
  wc_actor :: string
  wc_source :: string
  wc_tier :: memory_tier

record read_request =
  rr_tenant_id :: string
  rr_namespace :: string
  rr_tier :: memory_tier
  rr_limit :: nat

record promotion_request =
  pr_tenant_id :: string
  pr_namespace :: string
  pr_from :: memory_tier
  pr_to :: memory_tier
  pr_candidate_id :: string

datatype write_payload =
    PlainState doc
  | StateWithTrust doc f64
  | EventPayload event_envelope
  | ArtifactPayload artifact_envelope
  | SemanticPayload doc

section \<open>Hooks\<close>

record control_plane =
  cp_validate :: "write_context \<Rightarrow> write_payload \<Rightarrow> governance_decision"
  cp_score :: "write_context \<Rightarrow> write_payload \<Rightarrow> f64"
  cp_sanitize :: "promotion_request \<Rightarrow> write_payload \<Rightarrow> write_payload"
  cp_promotion_allow :: "promotion_request \<Rightarrow> write_payload \<Rightarrow> governance_decision"
  cp_retrieval_allow :: "read_request \<Rightarrow> governance_decision"
  cp_bounded_context :: "read_request \<Rightarrow> doc list \<Rightarrow> doc list"

datatype signal = Audited string governance_decision | Signalled string governance_decision

definition emit :: "string \<Rightarrow> governance_decision \<Rightarrow> signal list" where
  "emit stage d = [Audited stage d, Signalled stage d]"

definition noop_validate :: "write_context \<Rightarrow> write_payload \<Rightarrow> governance_decision" where
  "noop_validate ctx payload = \<lparr>gd_decision = Allow, gd_reason = ''validation_pass''\<rparr>"

definition noop_score :: "write_context \<Rightarrow> write_payload \<Rightarrow> f64" where
  "noop_score ctx payload = (case payload of StateWithTrust d trust_score \<Rightarrow> trust_score | _ \<Rightarrow> Fin 1)"

definition noop_sanitize :: "promotion_request \<Rightarrow> write_payload \<Rightarrow> write_payload" where
  "noop_sanitize request payload = payload"

definition noop_promotion_allow :: "promotion_request \<Rightarrow> write_payload \<Rightarrow> governance_decision" where
  "noop_promotion_allow request payload = \<lparr>gd_decision = Allow, gd_reason = ''promotion_allowed''\<rparr>"

definition noop_retrieval_allow :: "read_request \<Rightarrow> governance_decision" where
  "noop_retrieval_allow request = \<lparr>gd_decision = Allow, gd_reason = ''retrieval_allowed''\<rparr>"

definition noop_bounded_context :: "read_request \<Rightarrow> doc list \<Rightarrow> doc list" where
  "noop_bounded_context request candidates = candidates"

definition default_control_plane :: control_plane where
  "default_control_plane = \<lparr>cp_validate = noop_validate, cp_score = noop_score,
     cp_sanitize = noop_sanitize, cp_promotion_allow = noop_promotion_allow,
     cp_retrieval_allow = noop_retrieval_allow, cp_bounded_context = noop_bounded_context\<rparr>"

section \<open>Guards\<close>

definition is_reject :: "governance_decision \<Rightarrow> bool" where
  "is_reject d \<longleftrightarrow> gd_decision d = Reject"

definition decision_label :: "governance_decision \<Rightarrow> string" where
  "decision_label d =
     (case gd_decision d of Allow \<Rightarrow> ''allow'' | Sanitize \<Rightarrow> ''sanitize'' | Reject \<Rightarrow> ''reject'')"

definition reject_decision :: "string \<Rightarrow> governance_decision" where
  "reject_decision reason = \<lparr>gd_decision = Reject, gd_reason = reason\<rparr>"

definition validate_semantic_promotion :: "promotion_request \<Rightarrow> governance_decision" where
  "validate_semantic_promotion r =
     (if pr_from r = Episodic \<and> pr_to r = Semantic
      then \<lparr>gd_decision = Allow, gd_reason = ''semantic_promotion_path_valid''\<rparr>
      else \<lparr>gd_decision = Reject, gd_reason = ''semantic_promotion_requires_episodic_to_semantic''\<rparr>)"

definition validate_write_payload :: "deps \<Rightarrow> write_payload \<Rightarrow> governance_decision + unit" where
  "validate_write_payload D payload =
     (case payload of
        EventPayload e \<Rightarrow>
          map_err (\<lambda>err. reject_decision (''invalid_event_envelope:'' @ err)) (validate_event_envelope e)
      | ArtifactPayload a \<Rightarrow>
          map_err (\<lambda>err. reject_decision (''invalid_artifact_envelope:'' @ err)) (validate_artifact_envelope a)
      | StateWithTrust d trust_score \<Rightarrow>
          if is_finite trust_score \<and> in_unit trust_score then Inr ()
          else Inl (reject_decision (''invalid_trust_score:'' @ f64_display D trust_score))
      | _ \<Rightarrow> Inr ())"

definition validate_read_request :: "read_request \<Rightarrow> governance_decision + unit" where
  "validate_read_request r =
     (if rr_tenant_id r = [] then Inl (reject_decision ''invalid_read_request:empty_tenant_id'')
      else if rr_namespace r = [] then Inl (reject_decision ''invalid_read_request:empty_namespace'')
      else if rr_limit r = 0 then Inl (reject_decision ''invalid_read_request:limit_must_be_positive'')
      else Inr ())"

section \<open>Paths\<close>

definition write_path :: "deps \<Rightarrow> control_plane \<Rightarrow> write_context \<Rightarrow> write_payload \<Rightarrow>
    governance_decision result \<times> signal list" where
  "write_path D cp ctx payload =
     (let validation = cp_validate cp ctx payload; trace = emit ''write.validate'' validation
      in if gd_decision validation = Reject then (Inr validation, trace)
         else case validate_write_payload D payload of
             Inl decision \<Rightarrow> (Inr decision, trace @ emit ''write.payload'' decision)
           | Inr _ \<Rightarrow>
               let trust = cp_score cp ctx payload
               in if \<not> is_finite trust \<or> \<not> in_unit trust
                  then let decision = reject_decision (''invalid_trust_score:'' @ f64_display D trust)
                    in (Inr decision, trace @ emit ''write.trust'' decision)
                  else
                    let decision =
                      (if f64_lt trust (Fin (1 / 4))
                       then \<lparr>gd_decision = Reject,
                         gd_reason = ''trust_score_below_threshold:'' @ f64_display2 D trust\<rparr>
                       else \<lparr>gd_decision = Allow, gd_reason = ''trust_score:'' @ f64_display2 D trust\<rparr>)
                    in (Inr decision, trace @ emit ''write.trust'' decision))"

definition read_path :: "control_plane \<Rightarrow> read_request \<Rightarrow> doc list \<Rightarrow>
    (governance_decision \<times> doc list) result \<times> signal list" where
  "read_path cp request candidates =
     (case validate_read_request request of
        Inl decision \<Rightarrow> (Inr (decision, []), emit ''read.gate'' decision)
      | Inr _ \<Rightarrow>
          let retrieval = cp_retrieval_allow cp request; trace = emit ''read.gate'' retrieval
          in if gd_decision retrieval = Reject then (Inr (retrieval, []), trace)
             else let filtered = cp_bounded_context cp request candidates
               in (Inr (retrieval,
                     if rr_limit request < length filtered then take (rr_limit request) filtered
                     else filtered), trace))"

definition promotion_path :: "control_plane \<Rightarrow> promotion_request \<Rightarrow> write_payload \<Rightarrow>
    (governance_decision \<times> write_payload) result \<times> signal list" where
  "promotion_path cp request payload =
     (let semantic_path = validate_semantic_promotion request
      in if gd_decision semantic_path = Reject
         then (Inr (semantic_path, payload), emit ''promotion.path'' semantic_path)
         else let sanitized = cp_sanitize cp request payload;
               decision = cp_promotion_allow cp request sanitized
           in (Inr (decision, sanitized), emit ''promotion.gate'' decision))"

section \<open>What the paths decide\<close>

text \<open>A payload the plane accepts: its envelope is valid, or its trust score is in range.\<close>

fun payload_valid :: "write_payload \<Rightarrow> bool" where
  "payload_valid (EventPayload e) \<longleftrightarrow> validate_event_envelope e = Inr ()"
| "payload_valid (ArtifactPayload a) \<longleftrightarrow> validate_artifact_envelope a = Inr ()"
| "payload_valid (StateWithTrust d t) \<longleftrightarrow> in_unit t"
| "payload_valid _ \<longleftrightarrow> True"

lemma is_finite_in_unit [simp]: "in_unit x \<Longrightarrow> is_finite x"
  by (auto simp: in_unit_iff is_finite_def)

lemma reject_decision_simps [simp]: "gd_decision (reject_decision r) = Reject" "gd_reason (reject_decision r) = r"
  by (simp_all add: reject_decision_def)

lemma validate_write_payload_ok: "validate_write_payload D p = Inr () \<longleftrightarrow> payload_valid p"
  by (cases p) (auto simp: validate_write_payload_def map_err_def split: sum.splits)

lemma validate_write_payload_Inl: "validate_write_payload D p = Inl d \<Longrightarrow> gd_decision d = Reject"
  by (cases p) (auto simp: validate_write_payload_def map_err_def split: sum.splits if_splits)

lemma validate_read_request_Inl: "validate_read_request r = Inl d \<Longrightarrow> gd_decision d = Reject"
  by (auto simp: validate_read_request_def split: if_splits)

text \<open>Every decision in a trace is audited and then signalled, and the last one is the one returned.\<close>

inductive paired :: "signal list \<Rightarrow> governance_decision \<Rightarrow> bool" where
  last_pair: "paired [Audited stage d, Signalled stage d] d"
| more_pairs: "paired tr d \<Longrightarrow> paired (Audited stage e # Signalled stage e # tr) d"

inductive_simps paired_simps: "paired [] d" "paired (Audited stage e # tr) d" "paired (Signalled stage e # tr) d"

lemma paired_emit [simp]: "paired (emit stage d) d" "paired (emit stage e @ tr) d \<longleftrightarrow> paired tr d \<or> tr = [] \<and> e = d"
  by (auto simp: emit_def paired_simps intro: paired.intros)

text \<open>
  A write is admitted exactly when the validation hook does not reject it, its payload is
  valid and its trust score lies between a quarter and one; otherwise it is rejected. Every decision
  taken on the way is audited and then signalled, and the last one is the decision returned.
\<close>

theorem write_path_decides:
  "\<exists>d tr. write_path D cp ctx p = (Inr d, tr) \<and> paired tr d \<and>
    (gd_decision d = Allow \<longleftrightarrow> gd_decision (cp_validate cp ctx p) \<noteq> Reject \<and> payload_valid p \<and>
      in_unit (cp_score cp ctx p) \<and> f64_le (Fin (1 / 4)) (cp_score cp ctx p)) \<and>
    gd_decision d \<noteq> Sanitize"
proof (cases "gd_decision (cp_validate cp ctx p) = Reject")
  case True
  then show ?thesis by (simp add: write_path_def Let_def)
next
  case admitted: False
  show ?thesis
  proof (cases "validate_write_payload D p")
    case (Inl d)
    then have "\<not> payload_valid p" by (simp add: validate_write_payload_ok [of D, symmetric])
    with Inl admitted validate_write_payload_Inl [OF Inl] show ?thesis
      by (simp add: write_path_def Let_def)
  next
    case (Inr u)
    then have "payload_valid p" by (simp add: validate_write_payload_ok [of D, symmetric])
    with Inr admitted show ?thesis
      by (auto simp: write_path_def Let_def in_unit_iff f64_lt_def f64_le_def is_finite_def not_less)
  qed
qed

text \<open>
  A read returns at most \<open>limit\<close> documents, all of them from the bounded-context filter, and
  none when it is rejected, which it always is without a tenant, without a namespace or with a zero
  limit.
\<close>

theorem read_path_bounded:
  "\<exists>d ds tr. read_path cp r cs = (Inr (d, ds), tr) \<and> paired tr d \<and> length ds \<le> rr_limit r \<and>
    (\<exists>n. ds = take n (cp_bounded_context cp r cs)) \<and> (gd_decision d = Reject \<longrightarrow> ds = []) \<and>
    (rr_tenant_id r = [] \<or> rr_namespace r = [] \<or> rr_limit r = 0 \<longrightarrow> gd_decision d = Reject)"
proof (cases "validate_read_request r")
  case (Inl d)
  then show ?thesis
    using validate_read_request_Inl [OF Inl] by (auto simp: read_path_def intro: exI [of _ 0])
next
  case (Inr u)
  then have "rr_tenant_id r \<noteq> []" "rr_namespace r \<noteq> []" "rr_limit r \<noteq> 0"
    by (auto simp: validate_read_request_def split: if_splits)
  with Inr show ?thesis
    by (auto simp: read_path_def Let_def intro: exI [of _ 0] exI [of _ "rr_limit r"]
        exI [of _ "length (cp_bounded_context cp r cs)"])
qed

theorem read_path_bounded_witness:
  "\<exists>d ds tr. read_path default_control_plane
      \<lparr>rr_tenant_id = ''t'', rr_namespace = '''', rr_tier = State, rr_limit = 1\<rparr> [[], []] = (Inr (d, ds), tr) \<and>
    gd_decision d = Reject \<and> ds = []"
  using read_path_bounded [of default_control_plane
      "\<lparr>rr_tenant_id = ''t'', rr_namespace = '''', rr_tier = State, rr_limit = 1\<rparr>" "[[], []]"]
  by auto

text \<open>
  Only an episodic candidate is promoted, and only to the semantic tier: any other promotion is
  rejected with the payload unchanged and without consulting the hooks; on the valid path the gate
  sees and returns the sanitized payload.
\<close>

theorem promotion_path_guarded:
  "\<exists>d q tr. promotion_path cp r p = (Inr (d, q), tr) \<and> paired tr d \<and>
    (if pr_from r = Episodic \<and> pr_to r = Semantic
     then q = cp_sanitize cp r p \<and> d = cp_promotion_allow cp r q
     else gd_decision d = Reject \<and> q = p)"
  by (simp add: promotion_path_def validate_semantic_promotion_def Let_def)

end
