(* ===== verification/Rango_File_Device.thy ===== *)
theory Rango_File_Device
  imports Rango_File_Oplog
begin

text \<open>
  A file that is rewritten as a whole, as the sync queue and the checkpoint store do: its bytes, the
  optional cipher with its nonces, and for every file-system call in turn the fault it meets, an
  error and the number of bytes that were written before it. The stores extend the record.
\<close>

record 'c file_device =
  dv_file :: "bytes option"
  dv_crypto :: "'c option"
  dv_nonces :: "nat \<Rightarrow> bytes"
  dv_drawn :: nat
  dv_faults :: "nat \<Rightarrow> (string \<times> nat) option"
  dv_calls :: nat

text \<open>The file-system calls: create empties the file, a write may stop half way.\<close>

definition dev_call :: "(bytes option \<Rightarrow> bytes option) \<Rightarrow> (nat \<Rightarrow> bytes option \<Rightarrow> bytes option) \<Rightarrow>
    (('c, 'z) file_device_scheme, unit) op" where
  "dev_call ok_file part_file s = (let s1 = s\<lparr>dv_calls := Suc (dv_calls s)\<rparr>
     in case dv_faults s (dv_calls s) of
         Some (e, n) \<Rightarrow> (Inl (Storage e), s1\<lparr>dv_file := part_file n (dv_file s)\<rparr>)
       | None \<Rightarrow> (Inr (), s1\<lparr>dv_file := ok_file (dv_file s)\<rparr>))"

definition dev_create :: "(('c, 'z) file_device_scheme, unit) op" where
  "dev_create = dev_call (\<lambda>f. Some []) (\<lambda>n f. f)"

definition dev_write :: "bytes \<Rightarrow> (('c, 'z) file_device_scheme, unit) op" where
  "dev_write bs = dev_call (\<lambda>f. Some (unwrap_or f [] @ bs)) (\<lambda>n f. Some (unwrap_or f [] @ take n bs))"

definition dev_sync :: "(('c, 'z) file_device_scheme, unit) op" where
  "dev_sync = dev_call (\<lambda>f. f) (\<lambda>n f. f)"

definition dev_seal :: "'c crypto_api \<Rightarrow> bytes \<Rightarrow> (('c, 'z) file_device_scheme, bytes) op" where
  "dev_seal A bs s =
     (case dv_crypto s of
        Some c \<Rightarrow> (Inr (crypto_encrypt A c (dv_nonces s (dv_drawn s)) bs), s\<lparr>dv_drawn := Suc (dv_drawn s)\<rparr>)
      | None \<Rightarrow> (Inr bs, s))"

text \<open>The cipher works as documented and draws nonces of its length.\<close>

definition device_ok :: "'c crypto_api \<Rightarrow> ('c, 'z) file_device_scheme \<Rightarrow> bool" where
  "device_ok A s \<longleftrightarrow> cipher_ok A \<and> (\<forall>n. length (dv_nonces s n) = 12)"

lemma dev_call_Inr:
  "dev_call f g s = (Inr (), s') \<Longrightarrow>
     dv_file s' = f (dv_file s) \<and> dv_crypto s' = dv_crypto s \<and> dv_nonces s' = dv_nonces s"
  by (auto simp: dev_call_def Let_def split: option.splits prod.splits)

lemma dev_seal_Inr:
  assumes "device_ok A s" "dev_seal A bs s = (q, s')" "length bs < 2 ^ 31"
  shows "\<exists>b. q = Inr b \<and> unseal A (dv_crypto s) b = Inr bs \<and> length b < 2 ^ 32 \<and>
    dv_file s' = dv_file s \<and> dv_crypto s' = dv_crypto s \<and> dv_nonces s' = dv_nonces s"
  using assms crypto_round_trip [of A] crypto_encrypt_length [of A]
  by (auto simp: dev_seal_def device_ok_def unseal_def split: option.splits)

end
