(* ===== verification/Rango_Checkpoint.thy ===== *)
theory Rango_Checkpoint
  imports Rango_File_Device
begin

text \<open>
  The checkpoint store (\<open>sync/src/checkpoint.rs\<close>): one JSON object with the number of the last
  acknowledged mutation, optionally encrypted. \<open>String::from_utf8\<close> is written out; the JSON printer
  and parser come in as a record. The interface of checkpoint stores is a record of functions with
  its contract as a locale.
\<close>

section \<open>UTF-8\<close>

definition utf8_cont :: "u8 \<Rightarrow> bool" where
  "utf8_cont b \<longleftrightarrow> 0x80 \<le> b \<and> b \<le> 0xBF"

text \<open>The well-formed sequences of \<open>core::str::from_utf8\<close>.\<close>

fun utf8_valid :: "bytes \<Rightarrow> bool" where
  "utf8_valid [] \<longleftrightarrow> True"
| "utf8_valid (b # bs) \<longleftrightarrow>
     (if b < 0x80 then utf8_valid bs
      else if 0xC2 \<le> b \<and> b \<le> 0xDF then
        (case bs of c # r \<Rightarrow> utf8_cont c \<and> utf8_valid r | [] \<Rightarrow> False)
      else if 0xE0 \<le> b \<and> b \<le> 0xEF then
        (case bs of c # c' # r \<Rightarrow>
           (if b = 0xE0 then 0xA0 \<le> c \<and> c \<le> 0xBF
            else if b = 0xED then 0x80 \<le> c \<and> c \<le> 0x9F else utf8_cont c) \<and>
           utf8_cont c' \<and> utf8_valid r
         | _ \<Rightarrow> False)
      else if 0xF0 \<le> b \<and> b \<le> 0xF4 then
        (case bs of c # c' # c'' # r \<Rightarrow>
           (if b = 0xF0 then 0x90 \<le> c \<and> c \<le> 0xBF
            else if b = 0xF4 then 0x80 \<le> c \<and> c \<le> 0x8F else utf8_cont c) \<and>
           utf8_cont c' \<and> utf8_cont c'' \<and> utf8_valid r
         | _ \<Rightarrow> False)
      else False)"

definition byte_char :: "u8 \<Rightarrow> char" where
  "byte_char b = char_of (unat b)"

definition bytes_str :: "bytes \<Rightarrow> string" where
  "bytes_str bs = map byte_char bs"

lemma byte_char_char_byte [simp]: "byte_char (char_byte c) = c"
proof -
  have "of_char c < (256 :: nat)" by (metis of_char_of of_char_mod_256 mod_less_divisor zero_less_numeral)
  then have "unat (of_nat (of_char c) :: 8 word) = of_char c" by (simp add: unat_of_nat)
  then show ?thesis by (simp add: byte_char_def char_byte_def)
qed

lemma bytes_str_bytes [simp]: "bytes_str (str_bytes s) = s"
  by (induction s) (simp_all add: bytes_str_def)

section \<open>JSON\<close>

text \<open>
  The values the store looks at: objects and unsigned numbers. Every other value is \<open>JOther\<close> with
  its text.
\<close>

datatype json = JUint u64 | JObject "(string \<times> json) list" | JOther string

record json_api =
  js_to_string :: "json \<Rightarrow> string"
  js_from_str :: "string \<Rightarrow> string + json"
  js_utf8_error :: "bytes \<Rightarrow> string"

definition json_get :: "json \<Rightarrow> string \<Rightarrow> json option" where
  "json_get v k = (case v of JObject m \<Rightarrow> al_get m k | _ \<Rightarrow> None)"

definition json_as_u64 :: "json \<Rightarrow> u64 option" where
  "json_as_u64 v = (case v of JUint n \<Rightarrow> Some n | _ \<Rightarrow> None)"

definition last_seq_object :: "u64 \<Rightarrow> json" where
  "last_seq_object c = JObject [(''last_seq'', JUint c)]"

text \<open>Documented behaviour: the object is printed as UTF-8 text that parses back.\<close>

definition json_ok :: "json_api \<Rightarrow> bool" where
  "json_ok J \<longleftrightarrow> (\<forall>c. utf8_valid (str_bytes (js_to_string J (last_seq_object c))) \<and>
     js_from_str J (js_to_string J (last_seq_object c)) = Inr (last_seq_object c))"

section \<open>The interface\<close>

record 'k checkpoint_vt =
  ck_get :: "'k \<Rightarrow> checkpoint result"
  ck_set :: "checkpoint \<Rightarrow> ('k, unit) op"

locale checkpoint_laws =
  fixes K :: "'k checkpoint_vt" and inv :: "'k \<Rightarrow> bool"
  assumes set_inv: "inv s \<Longrightarrow> ck_set K c s = (r, s') \<Longrightarrow> inv s'"
    and set_get: "inv s \<Longrightarrow> ck_set K c s = (Inr (), s') \<Longrightarrow> ck_get K s' = Inr c"

section \<open>The file store\<close>

definition file_checkpoint_new ::
  "'c option \<Rightarrow> bytes option \<Rightarrow> (nat \<Rightarrow> bytes) \<Rightarrow> (nat \<Rightarrow> (string \<times> nat) option) \<Rightarrow> 'c file_device" where
  "file_checkpoint_new crypto disk nonces faults =
     \<lparr>dv_file = disk, dv_crypto = crypto, dv_nonces = nonces, dv_drawn = 0, dv_faults = faults, dv_calls = 0\<rparr>"

definition file_checkpoint_get :: "json_api \<Rightarrow> 'c crypto_api \<Rightarrow> 'c file_device \<Rightarrow> checkpoint result" where
  "file_checkpoint_get J A s =
     (case dv_file s of
        None \<Rightarrow> Inr checkpoint_initial
      | Some buf \<Rightarrow>
          try_r (unseal A (dv_crypto s) buf) (\<lambda>plaintext.
          if \<not> utf8_valid plaintext then Inl (Storage (''invalid UTF-8: '' @ js_utf8_error J plaintext))
          else try_r (storage_err (js_from_str J (bytes_str plaintext))) (\<lambda>val.
            Inr (unwrap_or (Option.bind (json_get val ''last_seq'') json_as_u64) 0))))"

definition file_checkpoint_set :: "json_api \<Rightarrow> 'c crypto_api \<Rightarrow> checkpoint \<Rightarrow> ('c file_device, unit) op" where
  "file_checkpoint_set J A c =
     bind_op (dev_seal A (str_bytes (js_to_string J (last_seq_object c)))) (\<lambda>bs.
     bind_op dev_create (\<lambda>_. bind_op (dev_write bs) (\<lambda>_. dev_sync)))"

definition file_checkpoint_vt :: "json_api \<Rightarrow> 'c crypto_api \<Rightarrow> 'c file_device checkpoint_vt" where
  "file_checkpoint_vt J A = \<lparr>ck_get = file_checkpoint_get J A, ck_set = file_checkpoint_set J A\<rparr>"

lemma file_checkpoint_vt_simps [simp]:
  "ck_get (file_checkpoint_vt J A) = file_checkpoint_get J A"
  "ck_set (file_checkpoint_vt J A) = file_checkpoint_set J A"
  by (simp_all add: file_checkpoint_vt_def)

definition checkpoint_inv :: "json_api \<Rightarrow> 'c crypto_api \<Rightarrow> 'c file_device \<Rightarrow> bool" where
  "checkpoint_inv J A s \<longleftrightarrow> json_ok J \<and> device_ok A s"

lemma dev_call_env: "dev_call f g s = (r, s') \<Longrightarrow> device_ok A s' = device_ok A s \<and> dv_crypto s' = dv_crypto s"
  by (auto simp: dev_call_def device_ok_def Let_def split: option.splits)

lemma dev_seal_env: "dev_seal A bs s = (r, s') \<Longrightarrow> device_ok A s' = device_ok A s \<and> dv_crypto s' = dv_crypto s"
  by (auto simp: dev_seal_def device_ok_def split: option.splits)

lemma dev_seal_unseal:
  "device_ok A s \<Longrightarrow> dev_seal A bs s = (q, s') \<Longrightarrow> \<exists>b. q = Inr b \<and> unseal A (dv_crypto s) b = Inr bs"
  using crypto_round_trip [of A] by (auto simp: dev_seal_def device_ok_def unseal_def split: option.splits)

interpretation file_checkpoint: checkpoint_laws "file_checkpoint_vt J A" "checkpoint_inv J A" for J A
proof (unfold_locales, simp_all only: file_checkpoint_vt_simps)
  fix s s' :: "'a file_device" and c r
  assume inv: "checkpoint_inv J A s"
  show "checkpoint_inv J A s'" if "file_checkpoint_set J A c s = (r, s')"
    using that inv
    by (auto simp: file_checkpoint_set_def checkpoint_inv_def bind_op_def dev_create_def dev_write_def dev_sync_def
        dest!: dev_call_env [where A = A] dev_seal_env split: prod.splits sum.splits)
  let ?text = "str_bytes (js_to_string J (last_seq_object c))"
  show "file_checkpoint_get J A s' = Inr c" if set: "file_checkpoint_set J A c s = (Inr (), s')"
  proof -
    obtain b s1 s2 s3 where seal: "dev_seal A ?text s = (Inr b, s1)" and "dev_create s1 = (Inr (), s2)"
      "dev_write b s2 = (Inr (), s3)" "dev_sync s3 = (Inr (), s')"
      using set by (auto simp: file_checkpoint_set_def bind_op_Inr)
    then have "dv_file s' = Some b" "dv_crypto s' = dv_crypto s"
      using dev_seal_env [OF seal] by (auto simp: dev_create_def dev_write_def dev_sync_def dest!: dev_call_Inr)
    moreover have "unseal A (dv_crypto s) b = Inr ?text"
      using dev_seal_unseal [OF _ seal] inv by (simp add: checkpoint_inv_def)
    ultimately show ?thesis
      using inv by (simp add: file_checkpoint_get_def checkpoint_inv_def json_ok_def json_get_def json_as_u64_def
          last_seq_object_def)
  qed
qed

text \<open>
  A checkpoint that was stored is read back, with or without encryption, from the same store or
  from one reopened on the same file with the same key.
\<close>

theorem checkpoint_round_trip:
  assumes "json_ok J" "device_ok A s" "file_checkpoint_set J A c s = (Inr (), s')"
  shows "file_checkpoint_get J A s' = Inr c \<and>
    file_checkpoint_get J A (file_checkpoint_new (dv_crypto s') (dv_file s') nonces faults) = Inr c"
proof -
  have "file_checkpoint_get J A s' = Inr c"
    using file_checkpoint.set_get [of J A s c s'] assms by (simp add: checkpoint_inv_def)
  moreover have "file_checkpoint_get J A (file_checkpoint_new (dv_crypto s') (dv_file s') nonces faults) =
      file_checkpoint_get J A s'"
    by (simp only: file_checkpoint_get_def file_checkpoint_new_def file_device.simps)
  ultimately show ?thesis by simp
qed

text \<open>A printer and parser for these objects: the number alone.\<close>

definition number_json :: json_api where
  "number_json = \<lparr>js_to_string = \<lambda>v. case v of JObject [(k, JUint c)] \<Rightarrow> show_nat (unat c) | _ \<Rightarrow> [],
     js_from_str = \<lambda>s. case digits_value 0 s of Some n \<Rightarrow> Inr (last_seq_object (of_nat n)) | None \<Rightarrow> Inl ''?'',
     js_utf8_error = \<lambda>b. ''?''\<rparr>"

lemma utf8_ascii: "\<forall>b\<in>set bs. b < 0x80 \<Longrightarrow> utf8_valid bs"
  by (induction bs) simp_all

lemma digit_ascii: "is_digit c \<Longrightarrow> char_byte c < 0x80"
  by (auto simp: is_digit_def char_digit_def char_byte_def word_less_nat_alt unat_of_nat split: if_splits)

lemma number_json_ok: "json_ok number_json"
  by (auto simp: json_ok_def number_json_def last_seq_object_def str_bytes_def
      intro!: utf8_ascii digit_ascii dest: show_nat_digits)

theorem checkpoint_round_trip_witness:
  "\<exists>s'. file_checkpoint_set number_json tag_cipher 42
      (file_checkpoint_new (Some ()) None (\<lambda>n. replicate 12 7) (\<lambda>n. None)) = (Inr (), s') \<and>
    file_checkpoint_get number_json tag_cipher (file_checkpoint_new (Some ()) (dv_file s') (\<lambda>n. replicate 12 9) (\<lambda>n. None)) = Inr 42"
proof -
  let ?s = "file_checkpoint_new (Some ()) None (\<lambda>n. replicate 12 7) (\<lambda>n. None)"
  have "\<exists>s'. file_checkpoint_set number_json tag_cipher 42 ?s = (Inr (), s') \<and> dv_crypto s' = Some ()"
    by (simp add: file_checkpoint_set_def file_checkpoint_new_def dev_seal_def dev_create_def dev_write_def
        dev_sync_def dev_call_def Let_def)
  then obtain s' where set: "file_checkpoint_set number_json tag_cipher 42 ?s = (Inr (), s')"
    and key: "dv_crypto s' = Some ()" by blast
  have "device_ok tag_cipher ?s" by (simp add: device_ok_def tag_cipher_ok file_checkpoint_new_def)
  with checkpoint_round_trip [OF number_json_ok this set] set key show ?thesis by auto
qed

end
