(* ===== verification/Rango_Sync_Queue.thy ===== *)
theory Rango_Sync_Queue
  imports Rango_File_Device
begin

text \<open>
  The persistent sync queue (\<open>sync/src/queue.rs\<close>): numbers of log entries, each pending, in flight,
  acknowledged or failed. The interface is a record of functions with its contract as a locale over
  the state of each number; the file queue keeps its entries in a hash map and rewrites its file
  after every change. The map changes before the file is written, so a failed write leaves the two
  apart; the iteration order of the map is a parameter.
\<close>

section \<open>The interface\<close>

record 'q sync_queue_vt =
  sq_enqueue :: "u64 \<Rightarrow> ('q, unit) op"
  sq_next_batch :: "nat \<Rightarrow> ('q, sync_queue_entry list) op"
  sq_mark_inflight :: "u64 list \<Rightarrow> ('q, unit) op"
  sq_mark_acked :: "u64 list \<Rightarrow> ('q, unit) op"
  sq_mark_failed :: "u64 \<Rightarrow> string \<Rightarrow> ('q, unit) op"

text \<open>The states of the numbers, and what a mark makes of them.\<close>

type_synonym queue_view = "u64 \<Rightarrow> queue_state option"

definition marked :: "u64 set \<Rightarrow> queue_state \<Rightarrow> queue_view \<Rightarrow> queue_view" where
  "marked ns x f = (\<lambda>n. if n \<in> ns \<and> f n \<noteq> None then Some x else f n)"

lemma marked_apply: "marked ns x f n = (if n \<in> ns \<and> f n \<noteq> None then Some x else f n)"
  by (simp add: marked_def)

lemma marked_empty [simp]: "marked {} x f = f"
  by (simp add: marked_def)

lemma marked_marked: "marked ms x (marked ns x f) = marked (ns \<union> ms) x f"
  by (auto simp: marked_def)

locale sync_queue_laws =
  fixes Q :: "'q sync_queue_vt" and inv :: "'q \<Rightarrow> bool" and view :: "'q \<Rightarrow> queue_view"
  assumes enqueue_view: "inv s \<Longrightarrow> sq_enqueue Q n s = (r, s') \<Longrightarrow>
      inv s' \<and> view s' = (if view s n = None then (view s)(n \<mapsto> Pending) else view s)"
    and next_view: "inv s \<Longrightarrow> sq_next_batch Q k s = (q, s') \<Longrightarrow>
      \<exists>ns. inv s' \<and> distinct ns \<and> length ns \<le> k \<and> (\<forall>n\<in>set ns. view s n = Some Pending) \<and>
        (length ns < k \<longrightarrow> {n. view s n = Some Pending} = set ns) \<and>
        view s' = marked (set ns) Inflight (view s) \<and> (\<forall>batch. q = Inr batch \<longrightarrow> map q_seq batch = ns)"
    and inflight_view: "inv s \<Longrightarrow> sq_mark_inflight Q ns s = (r, s') \<Longrightarrow>
      inv s' \<and> view s' = marked (set ns) Inflight (view s)"
    and acked_view: "inv s \<Longrightarrow> sq_mark_acked Q ns s = (r, s') \<Longrightarrow>
      inv s' \<and> view s' = marked (set ns) Acked (view s)"
    and failed_view: "inv s \<Longrightarrow> sq_mark_failed Q n err s = (r, s') \<Longrightarrow>
      inv s' \<and> view s' = marked {n} Failed (view s)"

text \<open>A run of calls, with the numbers its batches handed out.\<close>

datatype queue_call =
    Enqueue u64
  | NextBatch nat
  | MarkInflight "u64 list"
  | MarkAcked "u64 list"
  | MarkFailed u64 string

definition handed_out :: "sync_queue_entry list result \<Rightarrow> u64 list" where
  "handed_out r = (case r of Inr batch \<Rightarrow> map q_seq batch | Inl e \<Rightarrow> [])"

fun queue_step :: "'q sync_queue_vt \<Rightarrow> queue_call \<Rightarrow> 'q \<Rightarrow> u64 list \<times> 'q" where
  "queue_step Q (Enqueue n) s = ([], snd (sq_enqueue Q n s))"
| "queue_step Q (NextBatch k) s = (case sq_next_batch Q k s of (r, s') \<Rightarrow> (handed_out r, s'))"
| "queue_step Q (MarkInflight ns) s = ([], snd (sq_mark_inflight Q ns s))"
| "queue_step Q (MarkAcked ns) s = ([], snd (sq_mark_acked Q ns s))"
| "queue_step Q (MarkFailed n err) s = ([], snd (sq_mark_failed Q n err s))"

fun queue_run :: "'q sync_queue_vt \<Rightarrow> queue_call list \<Rightarrow> 'q \<Rightarrow> u64 list \<times> 'q" where
  "queue_run Q [] s = ([], s)"
| "queue_run Q (c # cs) s =
     (case queue_step Q c s of (out, s1) \<Rightarrow> (case queue_run Q cs s1 of (out', s2) \<Rightarrow> (out @ out', s2)))"

text \<open>A number that is not pending has left the queue for good.\<close>

definition gone :: "queue_state option \<Rightarrow> bool" where
  "gone x \<longleftrightarrow> x \<noteq> None \<and> x \<noteq> Some Pending"

lemma not_gone_Pending [simp]: "\<not> gone (Some Pending)" "\<not> gone None"
  by (simp_all add: gone_def)

lemma gone_marked [simp]: "x \<noteq> Pending \<Longrightarrow> gone (f n) \<Longrightarrow> gone (marked ns x f n)"
  by (simp add: gone_def marked_apply)

context sync_queue_laws
begin

lemma step_gone:
  assumes "inv s" "queue_step Q c s = (out, s')"
  shows "inv s' \<and> distinct out \<and> (\<forall>n. gone (view s n) \<longrightarrow> gone (view s' n)) \<and>
    (\<forall>n\<in>set out. view s n = Some Pending \<and> gone (view s' n))"
proof (cases c)
  case (Enqueue n)
  with assms show ?thesis
    using enqueue_view [OF assms(1), of n] by (cases "sq_enqueue Q n s") (auto simp: gone_def)
next
  case (NextBatch k)
  obtain q t where call: "sq_next_batch Q k s = (q, t)" by (cases "sq_next_batch Q k s")
  with NextBatch assms have out: "out = handed_out q" "s' = t" by auto
  obtain ns where ns: "inv s'" "distinct ns" "\<forall>n\<in>set ns. view s n = Some Pending"
      "view s' = marked (set ns) Inflight (view s)" "\<forall>batch. q = Inr batch \<longrightarrow> map q_seq batch = ns"
    using next_view [OF assms(1) call] out(2) by blast
  have "out = ns \<or> out = []" using ns(5) out(1) by (cases q) (auto simp: handed_out_def)
  with ns show ?thesis by (auto simp: gone_def marked_apply)
next
  case (MarkInflight ns)
  with assms show ?thesis
    using inflight_view [OF assms(1), of ns] by (cases "sq_mark_inflight Q ns s") auto
next
  case (MarkAcked ns)
  with assms show ?thesis
    using acked_view [OF assms(1), of ns] by (cases "sq_mark_acked Q ns s") auto
next
  case (MarkFailed n err)
  with assms show ?thesis
    using failed_view [OF assms(1), of n err] by (cases "sq_mark_failed Q n err s") auto
qed

lemma run_at_most_once:
  assumes "inv s" "queue_run Q cs s = (out, s')"
  shows "inv s' \<and> distinct out \<and> (\<forall>n. gone (view s n) \<longrightarrow> gone (view s' n)) \<and>
    (\<forall>n\<in>set out. \<not> gone (view s n) \<and> gone (view s' n))"
  using assms
proof (induction cs arbitrary: s out)
  case (Cons c cs)
  obtain out1 s1 where one: "queue_step Q c s = (out1, s1)" by (cases "queue_step Q c s")
  obtain out2 where rest: "queue_run Q cs s1 = (out2, s')" and out: "out = out1 @ out2"
    using Cons.prems(2) one by (auto split: prod.splits)
  have first: "inv s1" "distinct out1" "\<forall>n. gone (view s n) \<longrightarrow> gone (view s1 n)"
    "\<forall>n\<in>set out1. \<not> gone (view s n) \<and> gone (view s1 n)"
    using step_gone [OF Cons.prems(1) one] by simp_all
  with Cons.IH [OF _ rest] show ?case
    by (auto simp: out)
qed simp

end

section \<open>The file queue\<close>

record queue_codec =
  ser_queue_entry :: "sync_queue_entry \<Rightarrow> string + doc"
  de_queue_entry :: "doc \<Rightarrow> string + sync_queue_entry"
  entries_order :: "(u64 \<times> sync_queue_entry) list \<Rightarrow> (u64 \<times> sync_queue_entry) list"

record 'c file_sync_queue = "'c file_device" +
  fq_entries :: "(u64 \<times> sync_queue_entry) list"

text \<open>\<open>read_all\<close>: frames that do not decrypt or decode are skipped.\<close>

fun queue_entries_in :: "deps \<Rightarrow> queue_codec \<Rightarrow> 'c crypto_api \<Rightarrow> 'c option \<Rightarrow> bytes list \<Rightarrow>
    (u64 \<times> sync_queue_entry) list \<Rightarrow> (u64 \<times> sync_queue_entry) list" where
  "queue_entries_in D K A crypto [] entries = entries"
| "queue_entries_in D K A crypto (buf # bufs) entries =
     (case unseal A crypto buf of
        Inl e \<Rightarrow> queue_entries_in D K A crypto bufs entries
      | Inr plaintext \<Rightarrow>
          (case from_reader D plaintext of
             Inr d \<Rightarrow>
               (case de_queue_entry K d of
                  Inr entry \<Rightarrow> queue_entries_in D K A crypto bufs (al_put entries (q_seq entry) entry)
                | Inl _ \<Rightarrow> queue_entries_in D K A crypto bufs entries)
           | Inl _ \<Rightarrow> queue_entries_in D K A crypto bufs entries))"

definition queue_read_all :: "deps \<Rightarrow> queue_codec \<Rightarrow> 'c crypto_api \<Rightarrow> 'c option \<Rightarrow> bytes option \<Rightarrow>
    (u64 \<times> sync_queue_entry) list result" where
  "queue_read_all D K A crypto file =
     (case file of
        None \<Rightarrow> Inr []
      | Some bs \<Rightarrow> Inr (queue_entries_in D K A crypto (read_frames bs) []))"

definition file_queue_open :: "deps \<Rightarrow> queue_codec \<Rightarrow> 'c crypto_api \<Rightarrow> 'c option \<Rightarrow> bytes option \<Rightarrow>
    (nat \<Rightarrow> bytes) \<Rightarrow> (nat \<Rightarrow> (string \<times> nat) option) \<Rightarrow> 'c file_sync_queue result" where
  "file_queue_open D K A crypto disk nonces faults =
     try_r (queue_read_all D K A crypto disk) (\<lambda>entries.
     Inr \<lparr>dv_file = disk, dv_crypto = crypto, dv_nonces = nonces, dv_drawn = 0, dv_faults = faults,
       dv_calls = 0, fq_entries = entries\<rparr>)"

fun queue_write_entries :: "deps \<Rightarrow> queue_codec \<Rightarrow> 'c crypto_api \<Rightarrow> sync_queue_entry list \<Rightarrow>
    ('c file_sync_queue, unit) op" where
  "queue_write_entries D K A [] s = (Inr (), s)"
| "queue_write_entries D K A (entry # entries) s =
     bind_op (lift_op (storage_err (ser_queue_entry K entry))) (\<lambda>d.
     bind_op (lift_op (storage_err (to_writer D d))) (\<lambda>bs.
     bind_op (dev_seal A bs) (\<lambda>bs.
     bind_op (dev_write (u32_le (of_nat (length bs)))) (\<lambda>_.
     bind_op (dev_write bs) (\<lambda>_. queue_write_entries D K A entries))))) s"

definition queue_write_all :: "deps \<Rightarrow> queue_codec \<Rightarrow> 'c crypto_api \<Rightarrow> ('c file_sync_queue, unit) op" where
  "queue_write_all D K A =
     bind_op dev_create (\<lambda>_. get_op (\<lambda>s.
     bind_op (queue_write_entries D K A (map snd (entries_order K (fq_entries s)))) (\<lambda>_. dev_sync)))"

definition file_enqueue :: "deps \<Rightarrow> queue_codec \<Rightarrow> 'c crypto_api \<Rightarrow> u64 \<Rightarrow> ('c file_sync_queue, unit) op" where
  "file_enqueue D K A seq = get_op (\<lambda>s.
     if al_get (fq_entries s) seq = None then
       bind_op (modify_op (\<lambda>s. s\<lparr>fq_entries := al_put (fq_entries s) seq
           \<lparr>q_seq = seq, q_state = Pending, q_retries = 0, q_last_error = None\<rparr>\<rparr>)) (\<lambda>_.
       queue_write_all D K A)
     else return_op ())"

definition file_next_batch :: "deps \<Rightarrow> queue_codec \<Rightarrow> 'c crypto_api \<Rightarrow> nat \<Rightarrow>
    ('c file_sync_queue, sync_queue_entry list) op" where
  "file_next_batch D K A limit = get_op (\<lambda>s.
     let batch = map (\<lambda>e. e\<lparr>q_state := Inflight\<rparr>)
           (take limit (filter (\<lambda>e. q_state e = Pending) (map snd (entries_order K (fq_entries s)))))
     in bind_op (modify_op (\<lambda>s. s\<lparr>fq_entries := fold (\<lambda>e m. al_put m (q_seq e) e) batch (fq_entries s)\<rparr>)) (\<lambda>_.
        bind_op (if batch \<noteq> [] then queue_write_all D K A else return_op ()) (\<lambda>_. return_op batch)))"

text \<open>\<open>get_mut\<close> on the map: change the entry under a number, if there is one.\<close>

definition update_entry :: "u64 \<Rightarrow> (sync_queue_entry \<Rightarrow> sync_queue_entry) \<Rightarrow>
    (u64 \<times> sync_queue_entry) list \<Rightarrow> (u64 \<times> sync_queue_entry) list" where
  "update_entry seq f m = (case al_get m seq of Some e \<Rightarrow> al_put m seq (f e) | None \<Rightarrow> m)"

definition file_mark :: "deps \<Rightarrow> queue_codec \<Rightarrow> 'c crypto_api \<Rightarrow> u64 list \<Rightarrow>
    (sync_queue_entry \<Rightarrow> sync_queue_entry) \<Rightarrow> ('c file_sync_queue, unit) op" where
  "file_mark D K A seqs f =
     bind_op (modify_op (\<lambda>s. s\<lparr>fq_entries := fold (\<lambda>seq. update_entry seq f) seqs (fq_entries s)\<rparr>)) (\<lambda>_.
     queue_write_all D K A)"

definition file_mark_inflight :: "deps \<Rightarrow> queue_codec \<Rightarrow> 'c crypto_api \<Rightarrow> u64 list \<Rightarrow>
    ('c file_sync_queue, unit) op" where
  "file_mark_inflight D K A seqs = file_mark D K A seqs (\<lambda>e. e\<lparr>q_state := Inflight\<rparr>)"

definition file_mark_acked :: "deps \<Rightarrow> queue_codec \<Rightarrow> 'c crypto_api \<Rightarrow> u64 list \<Rightarrow>
    ('c file_sync_queue, unit) op" where
  "file_mark_acked D K A seqs = file_mark D K A seqs (\<lambda>e. e\<lparr>q_state := Acked\<rparr>)"

definition file_mark_failed :: "deps \<Rightarrow> queue_codec \<Rightarrow> 'c crypto_api \<Rightarrow> u64 \<Rightarrow> string \<Rightarrow>
    ('c file_sync_queue, unit) op" where
  "file_mark_failed D K A seq error = file_mark D K A [seq]
     (\<lambda>e. e\<lparr>q_state := Failed, q_retries := q_retries e + 1, q_last_error := Some error\<rparr>)"

definition file_queue_vt :: "deps \<Rightarrow> queue_codec \<Rightarrow> 'c crypto_api \<Rightarrow> 'c file_sync_queue sync_queue_vt" where
  "file_queue_vt D K A = \<lparr>sq_enqueue = file_enqueue D K A, sq_next_batch = file_next_batch D K A,
     sq_mark_inflight = file_mark_inflight D K A, sq_mark_acked = file_mark_acked D K A,
     sq_mark_failed = file_mark_failed D K A\<rparr>"

lemma file_queue_vt_simps [simp]:
  "sq_enqueue (file_queue_vt D K A) = file_enqueue D K A"
  "sq_next_batch (file_queue_vt D K A) = file_next_batch D K A"
  "sq_mark_inflight (file_queue_vt D K A) = file_mark_inflight D K A"
  "sq_mark_acked (file_queue_vt D K A) = file_mark_acked D K A"
  "sq_mark_failed (file_queue_vt D K A) = file_mark_failed D K A"
  by (simp_all add: file_queue_vt_def)

section \<open>The contract\<close>

definition queue_view_of :: "'c file_sync_queue \<Rightarrow> queue_view" where
  "queue_view_of s = (\<lambda>n. map_option q_state (al_get (fq_entries s) n))"

text \<open>Entries stand under their own numbers, and the map yields each of its pairs once.\<close>

definition entries_ok :: "(u64 \<times> sync_queue_entry) list \<Rightarrow> bool" where
  "entries_ok m \<longleftrightarrow> al_wf m \<and> (\<forall>(n, e)\<in>set m. q_seq e = n)"

definition order_ok :: "queue_codec \<Rightarrow> bool" where
  "order_ok K \<longleftrightarrow> (\<forall>m. mset (entries_order K m) = mset m)"

definition queue_inv :: "queue_codec \<Rightarrow> 'c file_sync_queue \<Rightarrow> bool" where
  "queue_inv K s \<longleftrightarrow> order_ok K \<and> entries_ok (fq_entries s)"

lemma entries_ok_get: "entries_ok m \<Longrightarrow> al_get m n = Some e \<Longrightarrow> q_seq e = n"
  by (auto simp: entries_ok_def dest!: al_get_SomeD)

lemma entries_ok_put: "entries_ok m \<Longrightarrow> q_seq e = n \<Longrightarrow> entries_ok (al_put m n e)"
  by (auto simp: entries_ok_def set_al_put)

lemma entries_ok_Nil [simp]: "entries_ok []"
  by (simp add: entries_ok_def)

lemma dev_frame:
  "dev_create s = (r, s') \<Longrightarrow> fq_entries s' = fq_entries s"
  "dev_write bs s = (r, s') \<Longrightarrow> fq_entries s' = fq_entries s"
  "dev_sync s = (r, s') \<Longrightarrow> fq_entries s' = fq_entries s"
  "dev_seal A bs s = (q, s') \<Longrightarrow> fq_entries s' = fq_entries s"
  by (auto simp: dev_create_def dev_write_def dev_sync_def dev_call_def dev_seal_def Let_def split: option.splits)

lemma queue_write_entries_frame:
  "queue_write_entries D K A es s = (r, s') \<Longrightarrow> fq_entries s' = fq_entries s"
proof (induction es arbitrary: s)
  case (Cons e es)
  then show ?case
    by (auto simp: bind_op_def lift_op_def dest!: dev_frame split: prod.splits sum.splits)
qed simp

lemma queue_write_all_frame:
  "queue_write_all D K A s = (r, s') \<Longrightarrow> fq_entries s' = fq_entries s"
  by (auto simp: queue_write_all_def bind_op_def dest!: dev_frame queue_write_entries_frame
      split: prod.splits sum.splits)

lemma update_entry_view:
  assumes "entries_ok m" "\<And>e. q_seq (f e) = q_seq e" "\<And>e. q_state (f e) = x"
  shows "entries_ok (fold (\<lambda>n. update_entry n f) ns m) \<and>
    (\<lambda>n. map_option q_state (al_get (fold (\<lambda>n. update_entry n f) ns m) n)) =
      marked (set ns) x (\<lambda>n. map_option q_state (al_get m n))"
  using assms(1)
proof (induction ns arbitrary: m)
  case (Cons n ns)
  have ok: "entries_ok (update_entry n f m)"
    using Cons.prems entries_ok_get [OF Cons.prems, of n] assms(2)
    by (auto simp: update_entry_def split: option.splits intro!: entries_ok_put)
  have view: "(\<lambda>k. map_option q_state (al_get (update_entry n f m) k)) =
      marked {n} x (\<lambda>k. map_option q_state (al_get m k))"
    using assms(3) by (auto simp: update_entry_def marked_def split: option.splits)
  show ?case using Cons.IH [OF ok] view by (simp add: marked_marked)
qed simp

lemma file_mark_view:
  assumes "queue_inv K s" "file_mark D K A ns f s = (r, s')"
    and "\<And>e. q_seq (f e) = q_seq e" "\<And>e. q_state (f e) = x"
  shows "queue_inv K s' \<and> queue_view_of s' = marked (set ns) x (queue_view_of s)"
proof -
  have "fq_entries s' = fold (\<lambda>n. update_entry n f) ns (fq_entries s)"
    using assms(2) by (auto simp: file_mark_def dest: queue_write_all_frame)
  with update_entry_view [where f = f and x = x and ns = ns and m = "fq_entries s"] assms show ?thesis
    by (simp add: queue_inv_def queue_view_of_def)
qed

lemma fold_put_entries:
  assumes "entries_ok m" "distinct (map q_seq es)"
  shows "entries_ok (fold (\<lambda>e m. al_put m (q_seq e) e) es m) \<and>
    al_get (fold (\<lambda>e m. al_put m (q_seq e) e) es m) n =
      (case find (\<lambda>e. q_seq e = n) es of Some e \<Rightarrow> Some e | None \<Rightarrow> al_get m n)"
  using assms
proof (induction es arbitrary: m)
  case (Cons e es)
  have "find (\<lambda>e. q_seq e = n) es = None" if "q_seq e = n"
    using Cons.prems(2) that by (auto simp: find_None_iff) (metis image_eqI)
  with Cons.IH [of "al_put m (q_seq e) e"] Cons.prems entries_ok_put [of m e] show ?case
    by (auto split: option.splits)
qed simp

text \<open>The pending entries in the map's order, of which a batch is the first \<open>limit\<close>.\<close>

definition pending_entries :: "queue_codec \<Rightarrow> 'c file_sync_queue \<Rightarrow> sync_queue_entry list" where
  "pending_entries K s = filter (\<lambda>e. q_state e = Pending) (map snd (entries_order K (fq_entries s)))"

lemma pending_entries:
  assumes "queue_inv K s"
  shows "distinct (map q_seq (pending_entries K s))"
    and "e \<in> set (pending_entries K s) \<longleftrightarrow> al_get (fq_entries s) (q_seq e) = Some e \<and> q_state e = Pending"
proof -
  have perm: "mset (entries_order K (fq_entries s)) = mset (fq_entries s)"
    and ok: "entries_ok (fq_entries s)" using assms by (auto simp: queue_inv_def order_ok_def)
  have "\<forall>p\<in>set (entries_order K (fq_entries s)). q_seq (snd p) = fst p"
    using ok mset_eq_setD [OF perm] by (auto simp: entries_ok_def)
  then have keys: "map q_seq (map snd (entries_order K (fq_entries s))) = map fst (entries_order K (fq_entries s))"
    by simp
  have "mset (map fst (entries_order K (fq_entries s))) = mset (map fst (fq_entries s))" by (simp add: perm)
  then have "distinct (map fst (entries_order K (fq_entries s)))"
    using ok by (metis entries_ok_def al_wf_def mset_eq_imp_distinct_iff)
  then show "distinct (map q_seq (pending_entries K s))"
    unfolding pending_entries_def keys [symmetric] by (rule distinct_map_filter)
  show "e \<in> set (pending_entries K s) \<longleftrightarrow> al_get (fq_entries s) (q_seq e) = Some e \<and> q_state e = Pending"
    using ok mset_eq_setD [OF perm] by (force simp: pending_entries_def entries_ok_def al_wf_get_iff)
qed

lemma file_next_batch_view:
  assumes inv: "queue_inv K s" and call: "file_next_batch D K A k s = (q, s')"
  shows "\<exists>ns. queue_inv K s' \<and> distinct ns \<and> length ns \<le> k \<and> (\<forall>n\<in>set ns. queue_view_of s n = Some Pending) \<and>
    (length ns < k \<longrightarrow> {n. queue_view_of s n = Some Pending} = set ns) \<and>
    queue_view_of s' = marked (set ns) Inflight (queue_view_of s) \<and>
    (\<forall>batch. q = Inr batch \<longrightarrow> map q_seq batch = ns)"
proof -
  define picked where "picked = take k (pending_entries K s)"
  define batch where "batch = map (\<lambda>e. e\<lparr>q_state := Inflight\<rparr>) picked"
  have seqs: "map q_seq batch = map q_seq picked" by (simp add: batch_def)
  have dist: "distinct (map q_seq picked)"
    unfolding picked_def take_map [symmetric] by (rule distinct_take) (rule pending_entries(1) [OF inv])
  have entries: "fq_entries s' = fold (\<lambda>e m. al_put m (q_seq e) e) batch (fq_entries s)"
    and q: "q = Inr b \<Longrightarrow> b = batch" for b
    using call by (auto simp: file_next_batch_def Let_def bind_op_def batch_def picked_def pending_entries_def
        dest!: queue_write_all_frame split: if_splits prod.splits sum.splits)
  have ok: "entries_ok (fq_entries s)" using inv by (simp add: queue_inv_def)
  note folded = fold_put_entries [OF ok, of batch, unfolded seqs, OF dist, folded entries]
  have mem: "e \<in> set picked \<Longrightarrow> al_get (fq_entries s) (q_seq e) = Some e \<and> q_state e = Pending" for e
    using pending_entries(2) [OF inv] set_take_subset by (fastforce simp: picked_def)
  have view: "queue_view_of s' = marked (set (map q_seq picked)) Inflight (queue_view_of s)"
  proof
    fix n
    show "queue_view_of s' n = marked (set (map q_seq picked)) Inflight (queue_view_of s) n"
    proof (cases "\<exists>e\<in>set picked. q_seq e = n")
      case True
      then obtain e where e: "e \<in> set picked" "q_seq e = n" by blast
      then obtain b where "find (\<lambda>e. q_seq e = n) batch = Some b"
        by (cases "find (\<lambda>e. q_seq e = n) batch") (auto simp: find_None_iff batch_def)
      moreover from this have "q_state b = Inflight" by (auto simp: find_Some_iff batch_def)
      ultimately show ?thesis
        using folded [of n] mem [OF e(1)] e by (auto simp: queue_view_of_def marked_apply)
    next
      case False
      then have "find (\<lambda>e. q_seq e = n) batch = None" by (auto simp: find_None_iff batch_def)
      with folded [of n] False show ?thesis by (auto simp: queue_view_of_def marked_apply)
    qed
  qed
  have all: "{n. queue_view_of s n = Some Pending} = set (map q_seq picked)" if "length picked < k"
  proof -
    have "picked = pending_entries K s" using that by (simp add: picked_def min_def split: if_splits)
    with pending_entries(2) [OF inv] entries_ok_get [OF ok] show ?thesis
      by (force simp: queue_view_of_def image_iff)
  qed
  have inv': "queue_inv K s'" using folded inv by (simp add: queue_inv_def)
  have pend: "\<forall>n\<in>set (map q_seq picked). queue_view_of s n = Some Pending"
    using mem by (auto simp: queue_view_of_def)
  have "length picked \<le> k" by (simp add: picked_def)
  moreover have "\<forall>b. q = Inr b \<longrightarrow> map q_seq b = map q_seq picked" using q seqs by blast
  ultimately show ?thesis
    using inv' dist pend all view by (intro exI [of _ "map q_seq picked"]) simp
qed

interpretation file_queue: sync_queue_laws "file_queue_vt D K A" "queue_inv K" queue_view_of for D K A
proof (unfold_locales, simp_all only: file_queue_vt_simps)
  fix s s' :: "'a file_sync_queue" and n r k q ns err
  assume inv: "queue_inv K s"
  show "queue_inv K s' \<and> queue_view_of s' =
      (if queue_view_of s n = None then (queue_view_of s)(n \<mapsto> Pending) else queue_view_of s)"
    if "file_enqueue D K A n s = (r, s')"
  proof (cases "al_get (fq_entries s) n")
    case None
    with that have "fq_entries s' = al_put (fq_entries s) n \<lparr>q_seq = n, q_state = Pending, q_retries = 0, q_last_error = None\<rparr>"
      by (auto simp: file_enqueue_def dest: queue_write_all_frame)
    with inv None show ?thesis by (auto simp: queue_inv_def queue_view_of_def intro: entries_ok_put)
  next
    case (Some e)
    with that inv show ?thesis by (auto simp: file_enqueue_def queue_view_of_def)
  qed
  show "\<exists>ns. queue_inv K s' \<and> distinct ns \<and> length ns \<le> k \<and> (\<forall>n\<in>set ns. queue_view_of s n = Some Pending) \<and>
      (length ns < k \<longrightarrow> {n. queue_view_of s n = Some Pending} = set ns) \<and>
      queue_view_of s' = marked (set ns) Inflight (queue_view_of s) \<and>
      (\<forall>batch. q = Inr batch \<longrightarrow> map q_seq batch = ns)" if "file_next_batch D K A k s = (q, s')"
    by (rule file_next_batch_view [OF inv that])
  show "queue_inv K s' \<and> queue_view_of s' = marked (set ns) Inflight (queue_view_of s)"
    if "file_mark_inflight D K A ns s = (r, s')"
    by (rule file_mark_view [OF inv that [unfolded file_mark_inflight_def]]) simp_all
  show "queue_inv K s' \<and> queue_view_of s' = marked (set ns) Acked (queue_view_of s)"
    if "file_mark_acked D K A ns s = (r, s')"
    by (rule file_mark_view [OF inv that [unfolded file_mark_acked_def]]) simp_all
  show "queue_inv K s' \<and> queue_view_of s' = marked {n} Failed (queue_view_of s)"
    if "file_mark_failed D K A n err s = (r, s')"
    using file_mark_view [OF inv that [unfolded file_mark_failed_def], of Failed] by simp
qed

section \<open>Restarts\<close>

definition queue_codec_ok :: "deps \<Rightarrow> queue_codec \<Rightarrow> 'c crypto_api \<Rightarrow> 'c file_sync_queue \<Rightarrow> bool" where
  "queue_codec_ok D K A s \<longleftrightarrow> codec_ok D \<and> device_ok A s \<and>
     (\<forall>e d. ser_queue_entry K e = Inr d \<longrightarrow> de_queue_entry K d = Inr e) \<and>
     (\<forall>d bs. to_writer D d = Inr bs \<longrightarrow> length bs < 2 ^ 31)"

text \<open>The bytes of a frame stand for this entry.\<close>

definition stands_for :: "deps \<Rightarrow> queue_codec \<Rightarrow> 'c crypto_api \<Rightarrow> 'c option \<Rightarrow> sync_queue_entry \<Rightarrow> bytes \<Rightarrow> bool" where
  "stands_for D K A crypto e b \<longleftrightarrow> length b < 2 ^ 32 \<and>
     (\<exists>p d. unseal A crypto b = Inr p \<and> from_reader D p = Inr d \<and> de_queue_entry K d = Inr e)"

lemma queue_write_entries_Inr:
  assumes "queue_codec_ok D K A s" "queue_write_entries D K A es s = (Inr (), s')" "dv_file s = Some f"
  shows "\<exists>bodies. dv_file s' = Some (f @ frames bodies) \<and> list_all2 (stands_for D K A (dv_crypto s)) es bodies"
  using assms
proof (induction es arbitrary: s f)
  case (Cons e es)
  from Cons.prems(2) obtain d bs b s1 s2 s3 where
    d: "ser_queue_entry K e = Inr d" "to_writer D d = Inr bs" and
    seal: "dev_seal A bs s = (Inr b, s1)" and
    len: "dev_write (u32_le (of_nat (length b))) s1 = (Inr (), s2)" and
    body: "dev_write b s2 = (Inr (), s3)" and rest: "queue_write_entries D K A es s3 = (Inr (), s')"
    by (auto simp: bind_op_Inr)
  have small: "length bs < 2 ^ 31" and dec: "de_queue_entry K d = Inr e" "from_reader D bs = Inr d"
    and dev: "device_ok A s"
    using Cons.prems(1) d by (auto simp: queue_codec_ok_def codec_ok_def)
  note sealed = dev_seal_Inr [OF dev seal small]
  note w = dev_call_Inr [OF len [unfolded dev_write_def]] dev_call_Inr [OF body [unfolded dev_write_def]]
  have "queue_codec_ok D K A s3" using Cons.prems(1) sealed w by (auto simp: queue_codec_ok_def device_ok_def)
  moreover have "dv_file s3 = Some (f @ frame b)" using sealed w Cons.prems(3) by (simp add: frame_def)
  ultimately obtain bodies where "dv_file s' = Some ((f @ frame b) @ frames bodies)"
    "list_all2 (stands_for D K A (dv_crypto s3)) es bodies" using Cons.IH [OF _ rest] by blast
  moreover have "stands_for D K A (dv_crypto s) e b" using sealed dec by (auto simp: stands_for_def)
  ultimately show ?case using sealed w by (intro exI [of _ "b # bodies"]) (simp add: frames_def)
qed (simp add: frames_def exI [of _ "[]"])

lemma queue_entries_in_bodies:
  "list_all2 (stands_for D K A crypto) es bodies \<Longrightarrow>
   queue_entries_in D K A crypto bodies m = fold (\<lambda>e m. al_put m (q_seq e) e) es m"
proof (induction arbitrary: m rule: list_all2_induct)
  case (Cons e es b bodies)
  then obtain p d where "unseal A crypto b = Inr p" "from_reader D p = Inr d" "de_queue_entry K d = Inr e"
    by (auto simp: stands_for_def)
  with Cons.IH show ?case by simp
qed simp

lemma read_frames_bodies: "list_all2 (stands_for D K A crypto) es bodies \<Longrightarrow> read_frames (frames bodies) = bodies"
  by (rule read_frames_frames) (auto simp: list_all2_conv_all_nth stands_for_def in_set_conv_nth)

lemma find_entry:
  assumes "entries_ok m" "mset es = mset (map snd m)"
  shows "find (\<lambda>e. q_seq e = n) es = al_get m n"
proof -
  have mem: "e \<in> set es \<longleftrightarrow> al_get m (q_seq e) = Some e" for e
    using assms mset_eq_setD [OF assms(2)] by (force simp: entries_ok_def al_wf_get_iff)
  show ?thesis
  proof (cases "find (\<lambda>e. q_seq e = n) es")
    case None
    have "al_get m n \<noteq> Some e" for e
      using None mem [of e] entries_ok_get [OF assms(1), of n e] by (auto simp: find_None_iff)
    with None show ?thesis by (cases "al_get m n") auto
  next
    case (Some e)
    then have "e \<in> set es" "q_seq e = n" by (auto simp: find_Some_iff)
    with Some mem [of e] show ?thesis by simp
  qed
qed

lemma queue_file_read:
  assumes inv: "queue_inv K s" and codec: "queue_codec_ok D K A s"
    and wr: "queue_write_all D K A s = (Inr (), s')"
  shows "\<exists>m. queue_read_all D K A (dv_crypto s) (dv_file s') = Inr m \<and> entries_ok m \<and>
    (\<forall>n. al_get m n = al_get (fq_entries s') n)"
proof -
  let ?es = "map snd (entries_order K (fq_entries s))"
  from wr obtain s1 s2 where create: "dev_create s = (Inr (), s1)"
    and entries: "queue_write_entries D K A (map snd (entries_order K (fq_entries s1))) s1 = (Inr (), s2)"
    and sync: "dev_sync s2 = (Inr (), s')" by (auto simp: queue_write_all_def bind_op_Inr)
  note c = dev_call_Inr [OF create [unfolded dev_create_def]] dev_frame(1) [OF create]
  have "queue_codec_ok D K A s1" using codec c by (simp add: queue_codec_ok_def device_ok_def)
  with queue_write_entries_Inr [OF _ entries] c dev_call_Inr [OF sync [unfolded dev_sync_def]]
  obtain bodies where written: "dv_file s' = Some (frames bodies)"
    and bodies: "list_all2 (stands_for D K A (dv_crypto s)) ?es bodies" by auto
  have perm: "mset ?es = mset (map snd (fq_entries s))" and ok: "entries_ok (fq_entries s)"
    using inv by (simp_all add: queue_inv_def order_ok_def)
  have "map q_seq (map snd (fq_entries s)) = map fst (fq_entries s)"
    using ok by (auto simp: entries_ok_def)
  then have "distinct (map q_seq (map snd (fq_entries s)))" using ok by (simp only: entries_ok_def al_wf_def)
  then have "distinct (map q_seq ?es)" using perm by (metis mset_eq_imp_distinct_iff mset_map)
  note puts = fold_put_entries [OF entries_ok_Nil this]
  have "fq_entries s' = fq_entries s" by (rule queue_write_all_frame [OF wr])
  with puts find_entry [OF ok perm] written show ?thesis
    by (auto simp: queue_read_all_def read_frames_bodies [OF bodies] queue_entries_in_bodies [OF bodies]
        split: option.splits)
qed

section \<open>Properties\<close>

text \<open>
  C9: a number is handed out at most once: over any sequence of calls on the file queue, failed
  writes included, the batches returned hold no number twice and none that had already left the
  pending state; what has left it never returns, so a failed or interrupted transfer is not retried.
\<close>

theorem queue_hands_out_at_most_once:
  assumes "order_ok K" "entries_ok (fq_entries s)" "queue_run (file_queue_vt D K A) calls s = (out, s')"
  shows "distinct out \<and> (\<forall>n. gone (queue_view_of s n) \<longrightarrow> n \<notin> set out \<and> gone (queue_view_of s' n)) \<and>
    (\<forall>n\<in>set out. gone (queue_view_of s' n))"
  using file_queue.run_at_most_once [OF _ assms(3)] assms(1,2) by (auto simp: queue_inv_def)

text \<open>An empty queue without encryption, and one with a single pending entry.\<close>

definition empty_queue :: "unit file_sync_queue" where
  "empty_queue = \<lparr>dv_file = None, dv_crypto = None, dv_nonces = \<lambda>n. replicate 12 0, dv_drawn = 0,
     dv_faults = \<lambda>n. None, dv_calls = 0, fq_entries = []\<rparr>"

abbreviation blank_codec :: queue_codec where
  "blank_codec \<equiv> \<lparr>ser_queue_entry = \<lambda>e. Inr [], de_queue_entry = \<lambda>d. Inl ''?'', entries_order = \<lambda>m. m\<rparr>"

theorem queue_hands_out_at_most_once_witness:
  "\<exists>s'. queue_run (file_queue_vt (sample_deps [[]]) blank_codec tag_cipher)
     [Enqueue 1, NextBatch 5, MarkFailed 1 ''timeout'', NextBatch 5] empty_queue = ([1], s') \<and>
     gone (queue_view_of s' 1)"
proof -
  have "\<exists>s'. queue_run (file_queue_vt (sample_deps [[]]) blank_codec tag_cipher)
     [Enqueue 1, NextBatch 5, MarkFailed 1 ''timeout'', NextBatch 5] empty_queue = ([1], s')"
    by (simp add: empty_queue_def file_enqueue_def file_next_batch_def file_mark_failed_def file_mark_def
        queue_write_all_def dev_create_def dev_write_def dev_sync_def dev_call_def dev_seal_def update_entry_def
        handed_out_def table_writer_def Let_def)
  then obtain s' where run: "queue_run (file_queue_vt (sample_deps [[]]) blank_codec tag_cipher)
     [Enqueue 1, NextBatch 5, MarkFailed 1 ''timeout'', NextBatch 5] empty_queue = ([1], s')" by blast
  with queue_hands_out_at_most_once [OF _ _ run] show ?thesis
    by (auto simp: order_ok_def empty_queue_def)
qed

text \<open>
  The queue survives a restart: after a rewrite of the file that reported success, reopening it
  with the same key yields the entries held in memory, each with its state, retries and error.
\<close>

theorem queue_reopens:
  assumes "queue_inv K s" "queue_codec_ok D K A s" "queue_write_all D K A s = (Inr (), s')"
  shows "\<exists>t. file_queue_open D K A (dv_crypto s) (dv_file s') nonces faults = Inr t \<and>
    queue_inv K t \<and> (\<forall>n. al_get (fq_entries t) n = al_get (fq_entries s') n)"
  using queue_file_read [OF assms] assms(1) by (auto simp: file_queue_open_def queue_inv_def)

abbreviation one_entry :: sync_queue_entry where
  "one_entry \<equiv> \<lparr>q_seq = 1, q_state = Failed, q_retries = 3, q_last_error = Some ''timeout''\<rparr>"

abbreviation one_codec :: queue_codec where
  "one_codec \<equiv> \<lparr>ser_queue_entry = \<lambda>e. if e = one_entry then Inr [] else Inl ''?'',
     de_queue_entry = \<lambda>d. Inr one_entry, entries_order = \<lambda>m. m\<rparr>"

theorem queue_reopens_witness:
  "\<exists>s' t. queue_write_all (sample_deps [[]]) one_codec tag_cipher (empty_queue\<lparr>fq_entries := [(1, one_entry)]\<rparr>) =
      (Inr (), s') \<and>
    file_queue_open (sample_deps [[]]) one_codec tag_cipher None (dv_file s') (dv_nonces empty_queue)
      (dv_faults empty_queue) = Inr t \<and> al_get (fq_entries t) 1 = Some one_entry"
proof -
  let ?s = "empty_queue\<lparr>fq_entries := [(1, one_entry)]\<rparr>"
  have "\<exists>s'. queue_write_all (sample_deps [[]]) one_codec tag_cipher ?s = (Inr (), s')"
    by (simp add: empty_queue_def queue_write_all_def dev_create_def dev_write_def dev_sync_def dev_call_def
        dev_seal_def table_writer_def Let_def)
  then obtain s' where wr: "queue_write_all (sample_deps [[]]) one_codec tag_cipher ?s = (Inr (), s')" by blast
  have "queue_inv one_codec ?s" by (simp add: queue_inv_def order_ok_def entries_ok_def)
  moreover have "queue_codec_ok (sample_deps [[]]) one_codec tag_cipher ?s"
    by (auto simp: queue_codec_ok_def device_ok_def tag_cipher_ok empty_queue_def table_writer_def split: option.splits if_splits)
  moreover have "fq_entries s' = [(1, one_entry)]" using queue_write_all_frame [OF wr] by simp
  ultimately show ?thesis
    using queue_reopens [OF _ _ wr, of "dv_nonces empty_queue" "dv_faults empty_queue"] wr
    by (auto simp: empty_queue_def)
qed

end
