(* ===== verification/Rango_Sync.thy ===== *)
theory Rango_Sync
  imports Rango_Sync_Queue Rango_Checkpoint
begin

text \<open>
  The sync protocol, its HTTP client and the one-shot scheduler (\<open>sync/src/protocol.rs\<close>,
  \<open>client.rs\<close>, \<open>scheduler.rs\<close>). Sending a request, the text of a status and parsing a response body
  are the HTTP library's and come in as a record over a network state. The scheduler works on the
  four stores of a node behind their interfaces.
\<close>

section \<open>Protocol\<close>

record push_request =
  pq_node_id :: string
  pq_tenant_id :: string
  pq_namespace :: string
  pq_mutations :: "mutation list"
  pq_last_checkpoint :: checkpoint

record push_response =
  ps_accepted_seqs :: "u64 list"
  ps_new_checkpoint :: checkpoint
  ps_rejected_non_owner_count :: u64
  ps_rejected_cross_tenant_count :: u64
  ps_audit :: "governance_decision list"

record pull_request =
  lq_node_id :: string
  lq_tenant_id :: string
  lq_namespace :: string
  lq_since_checkpoint :: checkpoint

record pull_response =
  ls_mutations :: "mutation list"
  ls_new_checkpoint :: checkpoint
  ls_audit :: "governance_decision list"

record promote_request =
  mq_node_id :: string
  mq_tenant_id :: string
  mq_namespace :: string
  mq_mutation :: mutation
  mq_from_tier :: memory_tier
  mq_to_tier :: memory_tier
  mq_candidate_id :: string
  mq_last_checkpoint :: checkpoint

record promote_response =
  ms_accepted_seqs :: "u64 list"
  ms_new_checkpoint :: checkpoint
  ms_rejected_count :: u64
  ms_audit :: "governance_decision list"

section \<open>Client\<close>

datatype request_body = PushBody push_request | PullBody pull_request | PromoteBody promote_request

record http_request =
  hq_url :: string
  hq_headers :: "(string \<times> string) list"
  hq_json :: request_body

record http_response =
  hs_status :: nat
  hs_body :: string

record 'n http_api =
  ht_send :: "http_request \<Rightarrow> 'n \<Rightarrow> (string + http_response) \<times> 'n"
  ht_status_text :: "nat \<Rightarrow> string"
  ht_push_json :: "string \<Rightarrow> string + push_response"
  ht_pull_json :: "string \<Rightarrow> string + pull_response"
  ht_promote_json :: "string \<Rightarrow> string + promote_response"

record sync_client =
  cl_server_url :: string
  cl_node_token :: string

definition status_is_success :: "nat \<Rightarrow> bool" where
  "status_is_success n \<longleftrightarrow> 200 \<le> n \<and> n < 300"

text \<open>The part the three calls share: post the body, check the status, parse the answer.\<close>

definition post_json :: "'n http_api \<Rightarrow> sync_client \<Rightarrow> string \<Rightarrow> string \<Rightarrow> request_body \<Rightarrow>
    (string \<Rightarrow> string + 'a) \<Rightarrow> ('n, 'a) op" where
  "post_json H cl path what body parse net =
     (case ht_send H \<lparr>hq_url = cl_server_url cl @ path,
          hq_headers = [(''X-Rango-Protocol-Version'', ''1''), (''Authorization'', ''Bearer '' @ cl_node_token cl)],
          hq_json = body\<rparr> net of
        (Inl e, net') \<Rightarrow> (Inl (Sync e), net')
      | (Inr resp, net') \<Rightarrow>
          if \<not> status_is_success (hs_status resp)
          then (Inl (Sync (what @ '' failed: '' @ ht_status_text H (hs_status resp))), net')
          else (map_err Sync (parse (hs_body resp)), net'))"

definition client_push_scoped :: "'n http_api \<Rightarrow> sync_client \<Rightarrow> string \<Rightarrow> string \<Rightarrow> string \<Rightarrow> mutation list \<Rightarrow>
    checkpoint \<Rightarrow> ('n, push_response) op" where
  "client_push_scoped H cl node tenant namespace mutations c =
     post_json H cl ''/push'' ''Push''
       (PushBody \<lparr>pq_node_id = node, pq_tenant_id = tenant, pq_namespace = namespace,
          pq_mutations = mutations, pq_last_checkpoint = c\<rparr>) (ht_push_json H)"

definition client_push :: "'n http_api \<Rightarrow> sync_client \<Rightarrow> string \<Rightarrow> mutation list \<Rightarrow> checkpoint \<Rightarrow>
    ('n, push_response) op" where
  "client_push H cl node mutations c = client_push_scoped H cl node ''default'' ''default'' mutations c"

definition client_pull_scoped :: "'n http_api \<Rightarrow> sync_client \<Rightarrow> string \<Rightarrow> string \<Rightarrow> string \<Rightarrow> checkpoint \<Rightarrow>
    ('n, pull_response) op" where
  "client_pull_scoped H cl node tenant namespace c =
     post_json H cl ''/pull'' ''Pull''
       (PullBody \<lparr>lq_node_id = node, lq_tenant_id = tenant, lq_namespace = namespace,
          lq_since_checkpoint = c\<rparr>) (ht_pull_json H)"

definition client_pull :: "'n http_api \<Rightarrow> sync_client \<Rightarrow> string \<Rightarrow> checkpoint \<Rightarrow> ('n, pull_response) op" where
  "client_pull H cl node c = client_pull_scoped H cl node ''default'' ''default'' c"

definition client_promote_scoped :: "'n http_api \<Rightarrow> sync_client \<Rightarrow> string \<Rightarrow> string \<Rightarrow> string \<Rightarrow> mutation \<Rightarrow>
    memory_tier \<Rightarrow> memory_tier \<Rightarrow> string \<Rightarrow> checkpoint \<Rightarrow> ('n, promote_response) op" where
  "client_promote_scoped H cl node tenant namespace m from_tier to_tier candidate c =
     post_json H cl ''/promote'' ''Promote''
       (PromoteBody \<lparr>mq_node_id = node, mq_tenant_id = tenant, mq_namespace = namespace, mq_mutation = m,
          mq_from_tier = from_tier, mq_to_tier = to_tier, mq_candidate_id = candidate,
          mq_last_checkpoint = c\<rparr>) (ht_promote_json H)"

definition client_promote :: "'n http_api \<Rightarrow> sync_client \<Rightarrow> string \<Rightarrow> mutation \<Rightarrow> memory_tier \<Rightarrow> memory_tier \<Rightarrow>
    string \<Rightarrow> checkpoint \<Rightarrow> ('n, promote_response) op" where
  "client_promote H cl node m from_tier to_tier candidate c =
     client_promote_scoped H cl node ''default'' ''default'' m from_tier to_tier candidate c"

section \<open>Scheduler\<close>

text \<open>\<open>Display for RangoError\<close>.\<close>

fun error_text :: "rango_error \<Rightarrow> string" where
  "error_text (DocumentNotFound s) = ''document not found: '' @ s"
| "error_text (CollectionNotFound s) = ''collection not found: '' @ s"
| "error_text (InvalidQueryOperator s) = ''invalid query operator: '' @ s"
| "error_text (Storage s) = ''storage error: '' @ s"
| "error_text (Sync s) = ''sync error: '' @ s"
| "error_text (Conflict s) = ''conflict detected for document '' @ s"
| "error_text (DocumentTooLarge n bound) = ''document too large: '' @ show_nat n @
     '' bytes exceeds limit of '' @ show_nat bound @ '' bytes''"

record sync_config =
  sc_batch_size :: nat
  sc_poll_interval_ms :: nat
  sc_max_retries :: u32

definition default_sync_config :: sync_config where
  "default_sync_config = \<lparr>sc_batch_size = 100, sc_poll_interval_ms = 5000, sc_max_retries = 10\<rparr>"

record sync_result =
  sr_pushed :: nat
  sr_pulled :: nat

record ('q, 'o, 'k, 'n) node_stores =
  ns_queue :: 'q
  ns_oplog :: 'o
  ns_checkpoint :: 'k
  ns_net :: 'n

definition on_queue :: "('q, 'a) op \<Rightarrow> (('q, 'o, 'k, 'n) node_stores, 'a) op" where
  "on_queue m s = (case m (ns_queue s) of (r, q) \<Rightarrow> (r, s\<lparr>ns_queue := q\<rparr>))"

definition on_checkpoint :: "('k, 'a) op \<Rightarrow> (('q, 'o, 'k, 'n) node_stores, 'a) op" where
  "on_checkpoint m s = (case m (ns_checkpoint s) of (r, k) \<Rightarrow> (r, s\<lparr>ns_checkpoint := k\<rparr>))"

text \<open>A call of the client whose error is matched on, not propagated.\<close>

definition try_net :: "('n, 'a) op \<Rightarrow> (('q, 'o, 'k, 'n) node_stores, 'a result) op" where
  "try_net m s = (case m (ns_net s) of (r, n) \<Rightarrow> (Inr r, s\<lparr>ns_net := n\<rparr>))"

fun mark_all_failed :: "'q sync_queue_vt \<Rightarrow> string \<Rightarrow> u64 list \<Rightarrow> (('q, 'o, 'k, 'n) node_stores, unit) op" where
  "mark_all_failed Q err [] s = (Inr (), s)"
| "mark_all_failed Q err (n # ns) s =
     bind_op (on_queue (sq_mark_failed Q n err)) (\<lambda>_. mark_all_failed Q err ns) s"

definition push_phase :: "sync_config \<Rightarrow> string \<Rightarrow> 'q sync_queue_vt \<Rightarrow> 'o oplog_vt \<Rightarrow> 'k checkpoint_vt \<Rightarrow>
    'n http_api \<Rightarrow> sync_client \<Rightarrow> (('q, 'o, 'k, 'n) node_stores, nat) op" where
  "push_phase cfg node Q L K H cl =
     bind_op (on_queue (sq_next_batch Q (sc_batch_size cfg))) (\<lambda>batch.
     if batch = [] then return_op 0
     else let seqs = map q_seq batch in get_op (\<lambda>s.
       bind_op (lift_op (op_read_since L (ns_oplog s) (seqs ! 0) (length seqs))) (\<lambda>entries.
       let mutations = map entry_mutation entries
       in bind_op (lift_op (ck_get K (ns_checkpoint s))) (\<lambda>checkpoint.
          bind_op (try_net (client_push H cl node mutations checkpoint)) (\<lambda>answer.
          case answer of
            Inr resp \<Rightarrow>
              bind_op (on_queue (sq_mark_acked Q (ps_accepted_seqs resp))) (\<lambda>_.
              bind_op (on_checkpoint (ck_set K (ps_new_checkpoint resp))) (\<lambda>_.
              return_op (length (ps_accepted_seqs resp))))
          | Inl e \<Rightarrow> bind_op (mark_all_failed Q (error_text e) seqs) (\<lambda>_. return_op 0))))))"

definition pull_phase :: "string \<Rightarrow> 'k checkpoint_vt \<Rightarrow> 'n http_api \<Rightarrow> sync_client \<Rightarrow>
    (('q, 'o, 'k, 'n) node_stores, nat) op" where
  "pull_phase node K H cl = get_op (\<lambda>s.
     bind_op (lift_op (ck_get K (ns_checkpoint s))) (\<lambda>checkpoint.
     bind_op (try_net (client_pull H cl node checkpoint)) (\<lambda>answer.
     case answer of
       Inr resp \<Rightarrow>
         bind_op (on_checkpoint (ck_set K (ls_new_checkpoint resp))) (\<lambda>_.
         return_op (length (ls_mutations resp)))
     | Inl e \<Rightarrow> return_op 0)))"

definition run_once :: "sync_config \<Rightarrow> string \<Rightarrow> 'q sync_queue_vt \<Rightarrow> 'o oplog_vt \<Rightarrow> 'k checkpoint_vt \<Rightarrow>
    'n http_api \<Rightarrow> sync_client \<Rightarrow> (('q, 'o, 'k, 'n) node_stores, sync_result) op" where
  "run_once cfg node Q L K H cl =
     bind_op (push_phase cfg node Q L K H cl) (\<lambda>pushed.
     bind_op (pull_phase node K H cl) (\<lambda>pulled.
     return_op \<lparr>sr_pushed = pushed, sr_pulled = pulled\<rparr>))"

section \<open>What one run does\<close>

text \<open>The same network with a record of the requests sent.\<close>

definition recorded :: "'n http_api \<Rightarrow> (http_request list \<times> 'n) http_api" where
  "recorded H = \<lparr>ht_send = \<lambda>rq (sent, n). (case ht_send H rq n of (r, n') \<Rightarrow> (r, (sent @ [rq], n'))),
     ht_status_text = ht_status_text H, ht_push_json = ht_push_json H, ht_pull_json = ht_pull_json H,
     ht_promote_json = ht_promote_json H\<rparr>"

definition pushed_mutations :: "http_request list \<Rightarrow> mutation list" where
  "pushed_mutations sent = concat (map (\<lambda>rq. case hq_json rq of PushBody p \<Rightarrow> pq_mutations p | _ \<Rightarrow> []) sent)"

lemma pushed_mutations_append [simp]:
  "pushed_mutations (xs @ ys) = pushed_mutations xs @ pushed_mutations ys" "pushed_mutations [] = []"
  by (simp_all add: pushed_mutations_def)

lemma recorded_post:
  "post_json (recorded H) cl path what body parse (sent, n) = (r, net) \<Longrightarrow>
   \<exists>rq n'. net = (sent @ [rq], n') \<and> hq_json rq = body"
  by (auto simp: post_json_def recorded_def split: prod.splits sum.splits if_splits)

lemma recorded_push:
  "client_push (recorded H) cl node ms c (sent, n) = (r, net) \<Longrightarrow> \<exists>sent' n'. net = (sent', n') \<and>
     pushed_mutations sent' = pushed_mutations sent @ ms"
  by (fastforce simp: client_push_def client_push_scoped_def pushed_mutations_def dest: recorded_post)

lemma recorded_pull:
  "client_pull (recorded H) cl node c (sent, n) = (r, net) \<Longrightarrow> \<exists>sent' n'. net = (sent', n') \<and>
     pushed_mutations sent' = pushed_mutations sent"
  by (fastforce simp: client_pull_def client_pull_scoped_def pushed_mutations_def dest: recorded_post)

lemma on_queue_eq: "on_queue m s = (r, s') \<longleftrightarrow> (\<exists>q. m (ns_queue s) = (r, q) \<and> s' = s\<lparr>ns_queue := q\<rparr>)"
  by (auto simp: on_queue_def split: prod.splits)

lemma on_checkpoint_eq:
  "on_checkpoint m s = (r, s') \<longleftrightarrow> (\<exists>k. m (ns_checkpoint s) = (r, k) \<and> s' = s\<lparr>ns_checkpoint := k\<rparr>)"
  by (auto simp: on_checkpoint_def split: prod.splits)

lemma try_net_eq: "try_net m s = (r, s') \<longleftrightarrow> (\<exists>x n. m (ns_net s) = (x, n) \<and> r = Inr x \<and> s' = s\<lparr>ns_net := n\<rparr>)"
  by (auto simp: try_net_def split: prod.splits)

lemmas store_eqs = on_queue_eq on_checkpoint_eq try_net_eq

context sync_queue_laws
begin

lemma marked_gone: "x \<noteq> Pending \<Longrightarrow> inv q' \<and> view q' = marked ns x (view q) \<Longrightarrow> gone (view q n) \<Longrightarrow> gone (view q' n)"
  by simp

lemma mark_all_failed_gone:
  "mark_all_failed Q err ns s = (r, s') \<Longrightarrow> inv (ns_queue s) \<Longrightarrow>
   inv (ns_queue s') \<and> ns_net s' = ns_net s \<and> (\<forall>n. gone (view (ns_queue s) n) \<longrightarrow> gone (view (ns_queue s') n))"
proof (induction ns arbitrary: s)
  case (Cons m ns)
  obtain q1 r1 where one: "sq_mark_failed Q m err (ns_queue s) = (r1, q1)"
    by (cases "sq_mark_failed Q m err (ns_queue s)")
  have "inv q1 \<and> view q1 = marked {m} Failed (view (ns_queue s))" by (rule failed_view [OF Cons.prems(2) one])
  then have "inv q1" "\<forall>n. gone (view (ns_queue s) n) \<longrightarrow> gone (view q1 n)" by simp_all
  with Cons.IH [of "s\<lparr>ns_queue := q1\<rparr>"] Cons.prems(1) one show ?case
    by (auto simp: bind_op_def on_queue_def split: sum.splits)
qed simp

lemma push_phase_effect:
  assumes call: "push_phase cfg node Q L K (recorded H) cl s = (r, s')"
    and inv: "inv (ns_queue s)" and net: "ns_net s = (sent, n0)"
    and batch: "sq_next_batch Q (sc_batch_size cfg) (ns_queue s) = (Inr batch, q)" "batch \<noteq> []"
    and read: "op_read_since L (ns_oplog s) (q_seq (hd batch)) (length batch) = Inr entries"
  shows "\<exists>sent' n'. ns_net s' = (sent', n') \<and> (\<forall>e\<in>set batch. gone (view (ns_queue s') (q_seq e))) \<and>
    (pushed_mutations sent' = pushed_mutations sent \<or>
     pushed_mutations sent' = pushed_mutations sent @ map entry_mutation entries)"
proof -
  have "\<exists>ns. inv q \<and> (\<forall>n\<in>set ns. view (ns_queue s) n = Some Pending) \<and>
      view q = marked (set ns) Inflight (view (ns_queue s)) \<and> map q_seq batch = ns"
    using next_view [OF inv batch(1)] by blast
  then have q: "inv q" "\<forall>e\<in>set batch. gone (view q (q_seq e))" by (auto simp: gone_def marked_apply)
  have hd: "map q_seq batch ! 0 = q_seq (hd batch)" using batch(2) by (cases batch) simp_all
  show ?thesis
  proof (cases "ck_get K (ns_checkpoint s)")
    case (Inl e)
    with call batch read hd q net show ?thesis
      by (auto simp: push_phase_def bind_op_def on_queue_def Let_def)
  next
    case (Inr c)
    obtain answer net' where push: "client_push (recorded H) cl node (map entry_mutation entries) c (sent, n0) = (answer, net')"
      by (cases "client_push (recorded H) cl node (map entry_mutation entries) c (sent, n0)")
    obtain sent' n' where net': "net' = (sent', n')"
      "pushed_mutations sent' = pushed_mutations sent @ map entry_mutation entries"
      using recorded_push [OF push] by blast
    let ?s2 = "s\<lparr>ns_queue := q, ns_net := (sent', n')\<rparr>"
    have rest: "(case answer of
          Inr resp \<Rightarrow> bind_op (on_queue (sq_mark_acked Q (ps_accepted_seqs resp))) (\<lambda>_.
            bind_op (on_checkpoint (ck_set K (ps_new_checkpoint resp))) (\<lambda>_.
            return_op (length (ps_accepted_seqs resp))))
        | Inl e \<Rightarrow> bind_op (mark_all_failed Q (error_text e) (map q_seq batch)) (\<lambda>_. return_op 0)) ?s2 = (r, s')"
      using call batch read hd Inr net push net'(1)
      by (simp add: push_phase_def on_queue_def try_net_def Let_def)
    have "ns_net s' = (sent', n') \<and> (\<forall>e\<in>set batch. gone (view (ns_queue s') (q_seq e)))"
    proof (cases answer)
      case (Inl e)
      obtain x s3 where m: "mark_all_failed Q (error_text e) (map q_seq batch) ?s2 = (x, s3)" by fastforce
      with Inl rest have "s' = s3" by (cases x) auto
      with mark_all_failed_gone [OF m] q show ?thesis by simp
    next
      case (Inr resp)
      obtain x q3 where m: "sq_mark_acked Q (ps_accepted_seqs resp) q = (x, q3)" by fastforce
      have "inv q3 \<and> view q3 = marked (set (ps_accepted_seqs resp)) Acked (view q)" by (rule acked_view [OF q(1) m])
      moreover have "ns_queue s' = q3 \<and> ns_net s' = (sent', n')"
        using Inr rest m by (auto simp: bind_op_def on_queue_def on_checkpoint_def split: sum.splits prod.splits)
      ultimately show ?thesis using q(2) by simp
    qed
    with net'(2) show ?thesis by blast
  qed
qed

lemma pull_phase_effect:
  assumes "pull_phase node K (recorded H) cl s = (r, s')" "ns_net s = (sent, n0)"
  shows "ns_queue s' = ns_queue s \<and> ns_oplog s' = ns_oplog s \<and>
    (\<exists>sent' n'. ns_net s' = (sent', n') \<and> pushed_mutations sent' = pushed_mutations sent)"
  using assms
  by (auto simp: pull_phase_def bind_op_def on_checkpoint_def try_net_def dest!: recorded_pull
      split: sum.splits prod.splits)

end

text \<open>
  An out-of-order batch loses mutations: the scheduler reads the log from the number of the
  first entry the queue hands out, and the queue's order is arbitrary. A number of the batch below
  the first one is never sent: every mutation pushed comes from a later log entry, and the number has
  left the pending state, so no later run sends it either.
\<close>

theorem unordered_batch_loses_mutation:
  assumes "sync_queue_laws Q ok view" "oplog_keeps L log_ok log_of"
    and "ok (ns_queue s)" "log_ok (ns_oplog s)" "ns_net s = ([], n0)"
    and batch: "sq_next_batch Q (sc_batch_size cfg) (ns_queue s) = (Inr batch, q)"
    and late: "n \<in> q_seq ` set batch" "n < q_seq (hd batch)"
    and run: "run_once cfg node Q L K (recorded H) cl s = (r, s')"
  shows "gone (view (ns_queue s') n) \<and>
    (\<forall>m\<in>set (pushed_mutations (fst (ns_net s'))).
      \<exists>e\<in>set (log_of (ns_oplog s)). entry_mutation e = m \<and> n < entry_seq e)"
proof -
  have nonempty: "batch \<noteq> []" using late(1) by auto
  have read: "op_read_since L (ns_oplog s) (q_seq (hd batch)) (length batch) =
      Inr (take (length batch) (filter (\<lambda>e. q_seq (hd batch) \<le> entry_seq e) (log_of (ns_oplog s))))"
    using oplog_keeps.read_log [OF assms(2,4)] nonempty by simp
  obtain p s1 where push: "push_phase cfg node Q L K (recorded H) cl s = (p, s1)" by fastforce
  obtain sent1 n1 where one: "ns_net s1 = (sent1, n1)" "gone (view (ns_queue s1) n)"
      "pushed_mutations sent1 = [] \<or> pushed_mutations sent1 = map entry_mutation
        (take (length batch) (filter (\<lambda>e. q_seq (hd batch) \<le> entry_seq e) (log_of (ns_oplog s))))"
    using sync_queue_laws.push_phase_effect [OF assms(1) push assms(3,5) batch nonempty read] late(1) by auto
  obtain x s2 where pull: "pull_phase node K (recorded H) cl s1 = (x, s2)" by fastforce
  note two = sync_queue_laws.pull_phase_effect [OF assms(1) pull one(1)]
  have "s' = s1 \<or> s' = s2" using run push pull by (cases p; cases x) (auto simp: run_once_def)
  then have "gone (view (ns_queue s') n)" "pushed_mutations (fst (ns_net s')) = pushed_mutations sent1"
    using one two by auto
  with one(3) late(2) show ?thesis by (auto dest!: in_set_takeD) (metis order.strict_trans2)
qed

text \<open>Two pending numbers that the map yields in reverse, a log with entry 1, and no network.\<close>

abbreviation reverse_codec :: queue_codec where
  "reverse_codec \<equiv> \<lparr>ser_queue_entry = \<lambda>e. Inr [], de_queue_entry = \<lambda>d. Inl ''?'', entries_order = List.rev\<rparr>"

definition two_pending :: "unit file_sync_queue" where
  "two_pending = empty_queue\<lparr>fq_entries :=
     [(1, \<lparr>q_seq = 1, q_state = Pending, q_retries = 0, q_last_error = None\<rparr>),
      (2, \<lparr>q_seq = 2, q_state = Pending, q_retries = 0, q_last_error = None\<rparr>)]\<rparr>"

definition offline :: "unit http_api" where
  "offline = \<lparr>ht_send = \<lambda>rq n. (Inl ''connection refused'', n), ht_status_text = \<lambda>n. [],
     ht_push_json = \<lambda>s. Inl ''?'', ht_pull_json = \<lambda>s. Inl ''?'', ht_promote_json = \<lambda>s. Inl ''?''\<rparr>"

theorem unordered_batch_loses_mutation_witness:
  "\<exists>log r s'. run_once default_sync_config ''n'' (file_queue_vt (sample_deps [[]]) reverse_codec tag_cipher)
      (file_oplog_vt sample_log_deps sample_codec tag_cipher) (file_checkpoint_vt number_json tag_cipher)
      (recorded offline) \<lparr>cl_server_url = ''http://s'', cl_node_token = ''k''\<rparr>
      \<lparr>ns_queue = two_pending, ns_oplog = log, ns_checkpoint = file_checkpoint_new None None (\<lambda>n. []) (\<lambda>n. None),
        ns_net = ([], ())\<rparr> = (r, s') \<and>
    file_log sample_log_deps sample_codec tag_cipher log = [sample_entry 1] \<and>
    gone (queue_view_of (ns_queue s') 1) \<and> pushed_mutations (fst (ns_net s')) = []"
proof -
  let ?Q = "file_queue_vt (sample_deps [[]]) reverse_codec tag_cipher"
  obtain log where app: "file_append sample_log_deps sample_codec tag_cipher (sample_entry 0) sample_log = (Inr 1, log)"
    using sample_log_append by blast
  have empty: "file_log sample_log_deps sample_codec tag_cipher sample_log = []"
    by (simp add: file_log_def sample_log_def map_filter_simps)
  have log: "file_inv sample_log_deps sample_codec tag_cipher log"
    "file_log sample_log_deps sample_codec tag_cipher log = [sample_entry 1]"
    using file_append_ok [OF sample_log_inv app] file_log.append_log [OF sample_log_inv, of _ _ "sample_entry 0" 1 log] app
      empty by simp_all
  let ?s = "\<lparr>ns_queue = two_pending, ns_oplog = log,
    ns_checkpoint = file_checkpoint_new None None (\<lambda>n. []) (\<lambda>n. None), ns_net = ([], ())\<rparr> ::
    (unit file_sync_queue, unit file_oplog, unit file_device, http_request list \<times> unit) node_stores"
  have "\<exists>batch q. file_next_batch (sample_deps [[]]) reverse_codec tag_cipher 100 two_pending = (Inr batch, q) \<and>
      q_seq ` set batch = {2, 1} \<and> q_seq (hd batch) = 2"
    by (simp add: two_pending_def empty_queue_def file_next_batch_def queue_write_all_def dev_create_def dev_write_def
        dev_sync_def dev_call_def dev_seal_def table_writer_def Let_def)
  then obtain batch q where b: "sq_next_batch ?Q (sc_batch_size default_sync_config) (ns_queue ?s) = (Inr batch, q)"
    and seqs: "q_seq ` set batch = {2, 1}" "q_seq (hd batch) = 2" by (auto simp: default_sync_config_def)
  have late: "1 \<in> q_seq ` set batch" "1 < q_seq (hd batch)" using seqs by simp_all
  have queue: "queue_inv reverse_codec (ns_queue ?s)"
    by (simp add: queue_inv_def order_ok_def entries_ok_def two_pending_def al_wf_def)
  obtain r s' where run: "run_once default_sync_config ''n'' ?Q (file_oplog_vt sample_log_deps sample_codec tag_cipher)
      (file_checkpoint_vt number_json tag_cipher) (recorded offline)
      \<lparr>cl_server_url = ''http://s'', cl_node_token = ''k''\<rparr> ?s = (r, s')" by fastforce
  have "file_inv sample_log_deps sample_codec tag_cipher (ns_oplog ?s)" using log by simp
  from unordered_batch_loses_mutation [OF file_queue.sync_queue_laws_axioms file_log.oplog_keeps_axioms queue this _ b
      late run] log(2)
  have "gone (queue_view_of (ns_queue s') 1) \<and> pushed_mutations (fst (ns_net s')) = []"
    by (auto simp: set_empty [symmetric] simp del: set_empty)
  with run log(2) show ?thesis by blast
qed

end
