(* ===== verification/Rango_Retrieval.thy ===== *)
theory Rango_Retrieval
  imports Rango_Deps
begin

text \<open>
  Retrieval on the server (\<open>server/src/retrieval/\<close>): the adapters for vector and graph stores, the
  runtime that asks both and tolerates one being down, and the ranking of the candidates. An
  adapter is a function of the request and the outside world, whose clock it reads.
\<close>

section \<open>Adapters\<close>

datatype adapter_error_kind = Timeout | Unavailable | Unauthorized | InvalidRequest | NotConfigured

record adapter_error =
  ae_kind :: adapter_error_kind
  ae_reason :: string

definition adapter_unavailable :: "string \<Rightarrow> adapter_error" where
  "adapter_unavailable reason = \<lparr>ae_kind = Unavailable, ae_reason = reason\<rparr>"

definition adapter_not_configured :: "string \<Rightarrow> adapter_error" where
  "adapter_not_configured reason = \<lparr>ae_kind = NotConfigured, ae_reason = reason\<rparr>"

type_synonym adapter_query =
  "retrieval_request \<Rightarrow> world \<Rightarrow> (adapter_error + retrieval_candidate list) \<times> world"

definition fallback_vector_query :: adapter_query where
  "fallback_vector_query request w = (Inl (adapter_unavailable ''vector_adapter_unavailable''), w)"

definition fallback_graph_query :: adapter_query where
  "fallback_graph_query request w = (Inl (adapter_unavailable ''graph_adapter_unavailable''), w)"

definition qdrant_filter_scope :: "retrieval_request \<Rightarrow> doc" where
  "qdrant_filter_scope request =
     [(''tenant_id'', String (rq_tenant_id request)), (''namespace'', String (rq_namespace request))]"

definition qdrant_query :: "bool \<Rightarrow> adapter_query" where
  "qdrant_query available request w =
     (if \<not> available then (Inl (adapter_unavailable ''qdrant_adapter_unavailable''), w)
      else case datetime_now w of (now, w') \<Rightarrow>
        (Inr [\<lparr>cand_id = ''vector:mock-1'', cand_tenant_id = rq_tenant_id request,
            cand_namespace = rq_namespace request, cand_source = Vector, cand_lineage = ''mock-lineage'',
            cand_timestamp_ms = now,
            cand_payload = [(''candidate_id'', String ''vector:mock-1''), (''text'', String (rq_query request))],
            cand_signals = \<lparr>sig_relevance = f64_lit (7 / 10), sig_trust = f64_lit (8 / 10),
              sig_recency = f64_lit (6 / 10), sig_provenance = f64_lit (5 / 10)\<rparr>,
            cand_score = f64_lit 0, cand_explainability = None\<rparr>], w'))"

definition qdrant_health_check :: "bool \<Rightarrow> adapter_error + unit" where
  "qdrant_health_check available =
     (if \<not> available then Inl (adapter_unavailable ''qdrant_not_available'') else Inr ())"

definition neo4j_query :: "bool \<Rightarrow> adapter_query" where
  "neo4j_query available request w =
     (if \<not> available then (Inl (adapter_unavailable ''neo4j_adapter_unavailable''), w)
      else case datetime_now w of (now, w') \<Rightarrow>
        (Inr [\<lparr>cand_id = ''graph:mock-1'', cand_tenant_id = rq_tenant_id request,
            cand_namespace = rq_namespace request, cand_source = Graph, cand_lineage = ''mock-lineage'',
            cand_timestamp_ms = now,
            cand_payload = [(''candidate_id'', String ''graph:mock-1''), (''text'', String (rq_query request))],
            cand_signals = \<lparr>sig_relevance = f64_lit (65 / 100), sig_trust = f64_lit (85 / 100),
              sig_recency = f64_lit (55 / 100), sig_provenance = f64_lit (75 / 100)\<rparr>,
            cand_score = f64_lit 0, cand_explainability = None\<rparr>], w'))"

definition neo4j_health_check :: "bool \<Rightarrow> adapter_error + unit" where
  "neo4j_health_check available =
     (if \<not> available then Inl (adapter_unavailable ''neo4j_not_available'') else Inr ())"

section \<open>The runtime\<close>

record retrieval_runtime =
  rt_vector :: adapter_query
  rt_graph :: adapter_query

definition fallback_only :: retrieval_runtime where
  "fallback_only = \<lparr>rt_vector = fallback_vector_query, rt_graph = fallback_graph_query\<rparr>"

definition tolerable :: "adapter_error \<Rightarrow> bool" where
  "tolerable e \<longleftrightarrow> ae_kind e = Unavailable \<or> ae_kind e = Timeout"

definition collect :: "(adapter_error + retrieval_candidate list) \<Rightarrow> retrieval_candidate list \<Rightarrow>
    adapter_error + retrieval_candidate list" where
  "collect answer candidates =
     (case answer of
        Inr items \<Rightarrow> Inr (candidates @ items)
      | Inl e \<Rightarrow> if \<not> tolerable e then Inl e else Inr candidates)"

definition retrieve :: "retrieval_runtime \<Rightarrow> adapter_query" where
  "retrieve R request w =
     (case rt_vector R request w of (vector, w1) \<Rightarrow> (case rt_graph R request w1 of (graph, w2) \<Rightarrow>
        (try_r (collect vector []) (\<lambda>candidates.
         try_r (collect graph candidates) (\<lambda>candidates.
         if candidates = [] then Inl (adapter_unavailable ''adapter_unavailable'') else Inr candidates)), w2)))"

section \<open>Ranking\<close>

definition scored :: "retrieval_candidate \<Rightarrow> retrieval_candidate" where
  "scored c =
     (let score = deterministic_score_v1 (cand_signals c)
      in c\<lparr>cand_score := score,
        cand_explainability := Some \<lparr>ex_formula_version = ''v1'',
          ex_relevance_weight = f64_lit (35 / 100), ex_trust_weight = f64_lit (30 / 100),
          ex_recency_weight = f64_lit (20 / 100), ex_provenance_weight = f64_lit (15 / 100),
          ex_relevance_component = f64_mul (f64_lit (35 / 100)) (sig_relevance (cand_signals c)),
          ex_trust_component = f64_mul (f64_lit (30 / 100)) (sig_trust (cand_signals c)),
          ex_recency_component = f64_mul (f64_lit (20 / 100)) (sig_recency (cand_signals c)),
          ex_provenance_component = f64_mul (f64_lit (15 / 100)) (sig_provenance (cand_signals c)),
          ex_total_score = score\<rparr>\<rparr>)"

definition rank_cmp :: "retrieval_candidate \<Rightarrow> retrieval_candidate \<Rightarrow> rust_ordering" where
  "rank_cmp a b =
     then_ord (unwrap_or (f64_cmp (cand_score b) (cand_score a)) Equal) (cmp_of (cand_id a) (cand_id b))"

definition rank_candidates_v1 :: "retrieval_candidate list \<Rightarrow> retrieval_candidate list" where
  "rank_candidates_v1 candidates = sort_by rank_cmp (map scored candidates)"

text \<open>Off NaN the comparison of floats is a total order.\<close>

fun f64_rank :: "f64 \<Rightarrow> int \<times> rat" where
  "f64_rank NaN = (0, 0)"
| "f64_rank NegInf = (-1, 0)"
| "f64_rank (Fin x) = (0, x)"
| "f64_rank PosInf = (1, 0)"

lemma f64_cmp_rank:
  "x \<noteq> NaN \<Longrightarrow> y \<noteq> NaN \<Longrightarrow> f64_cmp x y = Some (then_ord (cmp_of (fst (f64_rank x)) (fst (f64_rank y)))
     (cmp_of (snd (f64_rank x)) (snd (f64_rank y))))"
  by (cases x; cases y) simp_all

interpretation rank_order: total_comparator rank_cmp "\<lambda>c. cand_score c \<noteq> NaN"
proof unfold_locales
  fix x y z :: retrieval_candidate
  assume x: "cand_score x \<noteq> NaN"
  show "rank_cmp x x = Equal" using x by (simp add: rank_cmp_def f64_cmp_refl)
  assume y: "cand_score y \<noteq> NaN"
  show "rank_cmp y x = reverse_ord (rank_cmp x y)"
    using x y by (simp add: rank_cmp_def f64_cmp_rank reverse_then_ord cmp_of_swap [symmetric])
  assume z: "cand_score z \<noteq> NaN" and le: "rank_cmp x y \<noteq> Greater" "rank_cmp y z \<noteq> Greater"
  show "rank_cmp x z \<noteq> Greater"
    using le x y z by (auto simp: rank_cmp_def f64_cmp_rank)
qed

lemma rank_cmp_Equal: "rank_cmp a b = Equal \<Longrightarrow> cand_id a = cand_id b"
  by (simp add: rank_cmp_def)

lemma scored_simps [simp]: "cand_id (scored c) = cand_id c" "cand_signals (scored c) = cand_signals c"
  "cand_score (scored c) = deterministic_score_v1 (cand_signals c)" "cand_payload (scored c) = cand_payload c"
  by (simp_all add: scored_def Let_def)

text \<open>
  Ranking is deterministic: the ranked list is a rearrangement of the scored candidates, best
  score first and ties by identifier, and it is the same for every order in which the adapters
  deliver candidates with distinct identifiers; no score is NaN.
\<close>

theorem ranking_is_deterministic:
  assumes "\<forall>c\<in>set cs. deterministic_score_v1 (cand_signals c) \<noteq> NaN"
    and "distinct (map cand_id cs)" "mset cs' = mset cs"
  shows "rank_candidates_v1 cs' = rank_candidates_v1 cs \<and>
    mset (rank_candidates_v1 cs) = image_mset scored (mset cs) \<and>
    sorted_wrt (\<lambda>a b. f64_lt (cand_score b) (cand_score a) \<or>
      cand_score a = cand_score b \<and> cand_id a \<le> cand_id b) (rank_candidates_v1 cs)"
proof -
  have not_nan: "cand_score c \<noteq> NaN" if "c \<in> set (map scored cs)" for c
    using that assms(1) by auto
  have same: "sort_by rank_cmp (map scored cs') = sort_by rank_cmp (map scored cs)"
  proof (rule rank_order.sort_by_mset_eq)
    show "mset (map scored cs') = mset (map scored cs)" using assms(3) by simp
    show "cand_score c \<noteq> NaN" if "c \<in> set (map scored cs')" for c
      using that assms(1) mset_eq_setD [OF assms(3)] by auto
    show "x = y" if mem: "x \<in> set (map scored cs')" "y \<in> set (map scored cs')"
      and eq: "rank_cmp x y = Equal" for x y
    proof -
      obtain a b where ab: "a \<in> set cs" "b \<in> set cs" "x = scored a" "y = scored b"
        using mem mset_eq_setD [OF assms(3)] by auto
      with rank_cmp_Equal [OF eq] have "cand_id a = cand_id b" by simp
      with ab assms(2) show ?thesis by (auto simp: distinct_map inj_on_def)
    qed
  qed
  have "sorted_wrt rank_order.le (rank_candidates_v1 cs)"
    unfolding rank_candidates_v1_def by (rule rank_order.sorted_sort_by) (rule not_nan)
  moreover have "f64_lt (cand_score b) (cand_score a) \<or> cand_score a = cand_score b \<and> cand_id a \<le> cand_id b"
    if "a \<in> set (rank_candidates_v1 cs)" "b \<in> set (rank_candidates_v1 cs)" "rank_order.le a b" for a b
  proof -
    have "cand_score a \<noteq> NaN" "cand_score b \<noteq> NaN"
      using that(1,2) not_nan by (auto simp: rank_candidates_v1_def)
    moreover from this obtain q where q: "f64_cmp (cand_score b) (cand_score a) = Some q" using f64_cmp_rank by blast
    ultimately show ?thesis
      using that(3) f64_cmp_Equal_iff [of "cand_score b" "cand_score a"]
      by (cases q) (auto simp: rank_order.le_def rank_cmp_def f64_lt_def not_less)
  qed
  ultimately have sorted: "sorted_wrt (\<lambda>a b. f64_lt (cand_score b) (cand_score a) \<or>
      cand_score a = cand_score b \<and> cand_id a \<le> cand_id b) (rank_candidates_v1 cs)"
    by (rule sorted_wrt_mono_rel [rotated])
  with same show ?thesis by (simp add: rank_candidates_v1_def del: sort_by_simps)
qed

definition sample_candidate :: "string \<Rightarrow> retrieval_candidate" where
  "sample_candidate i = \<lparr>cand_id = i, cand_tenant_id = ''t'', cand_namespace = ''n'', cand_source = Vector,
     cand_lineage = ''l'', cand_timestamp_ms = 0, cand_payload = [],
     cand_signals = \<lparr>sig_relevance = Fin 0, sig_trust = Fin 0, sig_recency = Fin 0, sig_provenance = Fin 0\<rparr>,
     cand_score = Fin 0, cand_explainability = None\<rparr>"

text \<open>The four weights are finite, so a zero signal contributes zero.\<close>

lemma floor_numeral_quotient: "\<lfloor>(numeral a / numeral b :: rat)\<rfloor> = numeral a div numeral b"
  by (metis floor_divide_of_int_eq of_int_numeral)

lemma weight_quotients:
  "quotient_of (7 / 20) = (7, 20)" "quotient_of (3 / 10) = (3, 10)" "quotient_of (1 / 5) = (1, 5)"
  "quotient_of (3 / 20) = (3, 20)"
  by code_simp+

lemma weight_bitlens: "bitlen 7 = 3" "bitlen 20 = 5" "bitlen 3 = 2" "bitlen 10 = 4" "bitlen 1 = 1" "bitlen 5 = 3"
  by code_simp+

lemma weight_ulps: "ulp_exp (7 / 20) = -54" "ulp_exp (3 / 10) = -54" "ulp_exp (1 / 5) = -55" "ulp_exp (3 / 20) = -55"
  by (simp_all add: ulp_exp_def weight_quotients weight_bitlens Let_def)

lemma weights_finite:
  "\<exists>z. f64_lit (35 / 100) = Fin z" "\<exists>z. f64_lit (30 / 100) = Fin z" "\<exists>z. f64_lit (20 / 100) = Fin z"
  "\<exists>z. f64_lit (15 / 100) = Fin z"
proof -
  have quot: "\<exists>z :: rat. z * a = b" if "a \<noteq> 0" for a b
    using that by (intro exI [of _ "b / a"]) simp
  show "\<exists>z. f64_lit (35 / 100) = Fin z" "\<exists>z. f64_lit (30 / 100) = Fin z" "\<exists>z. f64_lit (20 / 100) = Fin z"
    "\<exists>z. f64_lit (15 / 100) = Fin z"
    by (simp_all add: f64_lit_def round_f64_def weight_ulps Let_def two_pow_def round_half_even_def
        floor_numeral_quotient f64_max_def quot)
qed

lemma sample_score: "deterministic_score_v1 (cand_signals (sample_candidate i)) = Fin 0"
proof -
  have "f64_mul (f64_lit (35 / 100)) (Fin 0) = Fin 0" "f64_mul (f64_lit (30 / 100)) (Fin 0) = Fin 0"
    "f64_mul (f64_lit (20 / 100)) (Fin 0) = Fin 0" "f64_mul (f64_lit (15 / 100)) (Fin 0) = Fin 0"
    using weights_finite by (metis f64_mul.simps(1) mult_zero_right round_f64_zero)+
  then show ?thesis by (simp only: deterministic_score_v1_def sample_candidate_def retrieval_candidate.simps
        ranking_signals.simps f64_add.simps add_0 round_f64_zero)
qed

theorem ranking_is_deterministic_witness:
  "rank_candidates_v1 [sample_candidate ''b'', sample_candidate ''a''] =
   rank_candidates_v1 [sample_candidate ''a'', sample_candidate ''b'']"
  using ranking_is_deterministic [of "[sample_candidate ''a'', sample_candidate ''b'']"
      "[sample_candidate ''b'', sample_candidate ''a'']"]
  by (auto simp: sample_score sample_candidate_def [THEN arg_cong, of cand_id] simp del: sort_by_simps)

end
