(* ===== verification/Rango_Server.thy ===== *)
theory Rango_Server
  imports Rango_Sync Rango_Control_Plane Rango_Retrieval
begin

text \<open>
  The server's state and its push, pull and promote operations (\<open>server/src/routes.rs\<close>): tokens,
  rejection counters, the containment of noisy scopes, the indexes by scope rebuilt from the log,
  the audit trail kept in the log itself, and the governance hooks. An operation returns a response
  or an HTTP status and the new state; every audit record is written on a best-effort basis, as in
  the source. The hooks that return nothing are the trace \<open>sv_signals\<close>. Instants are microseconds.
\<close>

section \<open>Containment\<close>

datatype containment_mode = NormalMode | ThrottleMode | RejectMode

record containment_state =
  cs_mode :: containment_mode
  cs_reject_count :: u32
  cs_last_event :: nat

definition throttle_threshold :: u32 where
  "throttle_threshold = 3"

definition reject_threshold :: u32 where
  "reject_threshold = 5"

definition cooldown :: nat where
  "cooldown = 500 * 1000"

definition containment_default :: "world \<Rightarrow> containment_state \<times> world" where
  "containment_default w = (case instant_now w of (now, w') \<Rightarrow>
     (\<lparr>cs_mode = NormalMode, cs_reject_count = 0, cs_last_event = now\<rparr>, w'))"

definition maybe_reset_after_cooldown :: "containment_state \<Rightarrow> world \<Rightarrow> containment_state \<times> world" where
  "maybe_reset_after_cooldown c w = (case instant_now w of (now, w') \<Rightarrow>
     (if cooldown \<le> now - cs_last_event c then c\<lparr>cs_mode := NormalMode, cs_reject_count := 0\<rparr> else c, w'))"

definition observe_decision :: "governance_decision \<Rightarrow> containment_state \<Rightarrow> world \<Rightarrow> containment_state \<times> world" where
  "observe_decision d c w = (case instant_now w of (now, w') \<Rightarrow>
     let c = c\<lparr>cs_last_event := now\<rparr>
     in (if gd_decision d = Reject then
           let c = c\<lparr>cs_reject_count := cs_reject_count c + 1\<rparr>
           in if reject_threshold \<le> cs_reject_count c then c\<lparr>cs_mode := RejectMode\<rparr>
              else if throttle_threshold \<le> cs_reject_count c then c\<lparr>cs_mode := ThrottleMode\<rparr>
              else c
         else c\<lparr>cs_mode := NormalMode, cs_reject_count := 0\<rparr>, w'))"

section \<open>State\<close>

record auth_principal =
  ap_node_id :: string
  ap_tenant_id :: string

type_synonym scope = "string \<times> string"

text \<open>One addition to a metrics counter, with its attributes.\<close>

record metric_add =
  ma_counter :: string
  ma_amount :: int
  ma_attrs :: "(string \<times> string) list"

record 'o server_state =
  sv_oplog :: 'o
  sv_tokens :: "(string \<times> auth_principal) list"
  sv_non_owner_rejections :: u64
  sv_cross_tenant_rejections :: u64
  sv_control_plane :: control_plane
  sv_containment :: "(scope \<times> containment_state) list"
  sv_latest :: "(scope \<times> u64) list"
  sv_write_ids :: "((string \<times> string \<times> string) \<times> u64) list"
  sv_audit_counter :: u64
  sv_retrieval :: retrieval_runtime
  sv_metrics :: "metric_add list option"
  sv_signals :: "signal list"
  sv_world :: world

definition server_world :: "(world \<Rightarrow> 'a \<times> world) \<Rightarrow> 'o server_state \<Rightarrow> 'a \<times> 'o server_state" where
  "server_world f s = (case f (sv_world s) of (x, w) \<Rightarrow> (x, s\<lparr>sv_world := w\<rparr>))"

section \<open>Indexes by scope\<close>

definition audit_collection :: string where
  "audit_collection = ''__governance_audit''"

definition scope_of :: "mutation \<Rightarrow> scope" where
  "scope_of m = (md_tenant_id (mut_metadata m), md_namespace (mut_metadata m))"

definition raise_latest :: "u64 \<Rightarrow> scope \<Rightarrow> (scope \<times> u64) list \<Rightarrow> (scope \<times> u64) list" where
  "raise_latest seq sc latest =
     al_put latest sc (case al_get latest sc of Some current \<Rightarrow> max current seq | None \<Rightarrow> seq)"

definition put_write_id ::
  "u64 \<Rightarrow> mutation \<Rightarrow> ((string \<times> string \<times> string) \<times> u64) list \<Rightarrow> ((string \<times> string \<times> string) \<times> u64) list" where
  "put_write_id seq m ids =
     al_put ids (md_tenant_id (mut_metadata m), md_namespace (mut_metadata m), mut_write_id m) seq"

fun index_entries :: "oplog_entry list \<Rightarrow> (scope \<times> u64) list \<times> ((string \<times> string \<times> string) \<times> u64) list \<Rightarrow>
    (scope \<times> u64) list \<times> ((string \<times> string \<times> string) \<times> u64) list" where
  "index_entries [] idx = idx"
| "index_entries (e # es) (latest, ids) =
     (if mut_collection (entry_mutation e) = audit_collection then index_entries es (latest, ids)
      else index_entries es (raise_latest (entry_seq e) (scope_of (entry_mutation e)) latest,
             put_write_id (entry_seq e) (entry_mutation e) ids))"

text \<open>\<open>latest as usize + 1\<close> wraps at 64 bits.\<close>

definition build_scoped_indexes :: "'o oplog_vt \<Rightarrow> 'o \<Rightarrow>
    (scope \<times> u64) list \<times> ((string \<times> string \<times> string) \<times> u64) list" where
  "build_scoped_indexes L lg =
     (case op_latest_seq L lg of
        Inl _ \<Rightarrow> ([], [])
      | Inr latest \<Rightarrow>
          if latest = 0 then ([], [])
          else case op_read_since L lg 1 (unat (latest + 1)) of
              Inl _ \<Rightarrow> ([], [])
            | Inr entries \<Rightarrow> index_entries entries ([], []))"

definition server_with_control_plane :: "'o oplog_vt \<Rightarrow> 'o \<Rightarrow> control_plane \<Rightarrow> world \<Rightarrow> 'o server_state" where
  "server_with_control_plane L lg cp w =
     (case build_scoped_indexes L lg of (latest, ids) \<Rightarrow>
        \<lparr>sv_oplog = lg, sv_tokens = [], sv_non_owner_rejections = 0, sv_cross_tenant_rejections = 0,
         sv_control_plane = cp, sv_containment = [], sv_latest = latest, sv_write_ids = ids,
         sv_audit_counter = 0, sv_retrieval = fallback_only, sv_metrics = None, sv_signals = [],
         sv_world = w\<rparr>)"

definition server_new :: "'o oplog_vt \<Rightarrow> 'o \<Rightarrow> world \<Rightarrow> 'o server_state" where
  "server_new L lg w = server_with_control_plane L lg default_control_plane w"

definition with_metrics :: "'o server_state \<Rightarrow> 'o server_state" where
  "with_metrics s = s\<lparr>sv_metrics := Some []\<rparr>"

definition add_token_with_tenant :: "string \<Rightarrow> string \<Rightarrow> string \<Rightarrow> 'o server_state \<Rightarrow> 'o server_state" where
  "add_token_with_tenant token node tenant s =
     s\<lparr>sv_tokens := al_put (sv_tokens s) token \<lparr>ap_node_id = node, ap_tenant_id = tenant\<rparr>\<rparr>"

definition add_token :: "string \<Rightarrow> string \<Rightarrow> 'o server_state \<Rightarrow> 'o server_state" where
  "add_token token node s = add_token_with_tenant token node ''default'' s"

definition validate_token :: "'o server_state \<Rightarrow> string option \<Rightarrow> auth_principal option" where
  "validate_token s auth_header =
     Option.bind auth_header (\<lambda>h. Option.bind (strip_prefix ''Bearer '' h) (\<lambda>token. al_get (sv_tokens s) token))"

definition scoped_latest_seq :: "'o server_state \<Rightarrow> string \<Rightarrow> string \<Rightarrow> u64" where
  "scoped_latest_seq s tenant ns = unwrap_or (al_get (sv_latest s) (tenant, ns)) 0"

definition scoped_latest_checkpoint :: "'o server_state \<Rightarrow> string \<Rightarrow> string \<Rightarrow> checkpoint" where
  "scoped_latest_checkpoint s tenant ns =
     (let latest = scoped_latest_seq s tenant ns
      in if latest = 0 then checkpoint_initial else latest)"

definition lookup_scoped_write_id_seq :: "'o server_state \<Rightarrow> string \<Rightarrow> string \<Rightarrow> string \<Rightarrow> u64 option" where
  "lookup_scoped_write_id_seq s tenant ns write_id = al_get (sv_write_ids s) (tenant, ns, write_id)"

definition index_mutation :: "u64 \<Rightarrow> mutation \<Rightarrow> 'o server_state \<Rightarrow> 'o server_state" where
  "index_mutation seq m s =
     (if mut_collection m = audit_collection then s
      else s\<lparr>sv_latest := raise_latest seq (scope_of m) (sv_latest s),
             sv_write_ids := put_write_id seq m (sv_write_ids s)\<rparr>)"

section \<open>Containment of a scope\<close>

definition containment_entry :: "scope \<Rightarrow> 'o server_state \<Rightarrow> containment_state \<times> 'o server_state" where
  "containment_entry sc s =
     (case al_get (sv_containment s) sc of
        Some c \<Rightarrow> (c, s)
      | None \<Rightarrow> server_world containment_default s)"

definition containment_gate :: "string \<Rightarrow> string \<Rightarrow> 'o server_state \<Rightarrow>
    governance_decision option \<times> 'o server_state" where
  "containment_gate tenant ns s =
     (case containment_entry (tenant, ns) s of (c, s1) \<Rightarrow>
      case server_world (maybe_reset_after_cooldown c) s1 of (c, s2) \<Rightarrow>
        ((case cs_mode c of
            NormalMode \<Rightarrow> None
          | ThrottleMode \<Rightarrow> Some (reject_decision ''containment_throttle'')
          | RejectMode \<Rightarrow> Some (reject_decision ''containment_reject'')),
         s2\<lparr>sv_containment := al_put (sv_containment s2) (tenant, ns) c\<rparr>))"

definition register_decision_outcome :: "string \<Rightarrow> string \<Rightarrow> governance_decision \<Rightarrow> 'o server_state \<Rightarrow>
    'o server_state" where
  "register_decision_outcome tenant ns d s =
     (case containment_entry (tenant, ns) s of (c, s1) \<Rightarrow>
      case server_world (observe_decision d c) s1 of (c, s2) \<Rightarrow>
        s2\<lparr>sv_containment := al_put (sv_containment s2) (tenant, ns) c\<rparr>)"

section \<open>The audit trail\<close>

definition audit_mutation :: "deps \<Rightarrow> string \<Rightarrow> string \<Rightarrow> string \<Rightarrow> string option \<Rightarrow> governance_decision \<Rightarrow>
    document_id \<Rightarrow> revision \<Rightarrow> u64 \<Rightarrow> millis \<Rightarrow> millis \<Rightarrow> millis \<Rightarrow> millis \<Rightarrow> mutation" where
  "audit_mutation D stage tenant ns write_id d i rv event_num recorded_at timestamp created_at updated_at =
     \<lparr>mut_op = Insert, mut_collection = audit_collection, mut_doc_id = i,
      mut_patch = Some [(''stage'', String stage), (''decision'', String (decision_label d)),
        (''reason'', String (gd_reason d)), (''tenant_id'', String tenant), (''namespace'', String ns),
        (''write_id'', String (unwrap_or write_id ''none'')), (''recorded_at'', DateTime recorded_at)],
      mut_seq = 0, mut_timestamp = timestamp, mut_rev = rv,
      mut_write_id = ''governance-audit:'' @ tenant @ '':'' @ ns @ '':'' @ stage @ '':'' @
        unwrap_or write_id ''none'' @ '':'' @ show_nat (unat event_num),
      mut_metadata = \<lparr>md_id = i, md_namespace = ns, md_tenant_id = tenant, md_type = ''governance_audit'',
        md_rev = rv, md_created_at = created_at, md_updated_at = updated_at, md_source = ''server.runtime'',
        md_actor = ''governance'', md_lineage = document_id_to_string D i, md_schema_version = 1,
        md_trust_score = Fin 1, md_verified = Some True, md_expires_at = None\<rparr>\<rparr>"

definition server_append :: "'o oplog_vt \<Rightarrow> oplog_entry \<Rightarrow> ('o server_state, u64) op" where
  "server_append L e s = (case op_append L e (sv_oplog s) of (r, l) \<Rightarrow> (r, s\<lparr>sv_oplog := l\<rparr>))"

definition persist_audit_evidence :: "deps \<Rightarrow> 'o oplog_vt \<Rightarrow> string \<Rightarrow> string \<Rightarrow> string \<Rightarrow> string option \<Rightarrow>
    governance_decision \<Rightarrow> ('o server_state, u64) op" where
  "persist_audit_evidence D L stage tenant ns write_id d s =
     (case server_world document_id_new_uuid_v7 s of (i, s) \<Rightarrow>
      case server_world (revision_now D ''governance-runtime'') s of (rv, s) \<Rightarrow>
      case server_world datetime_now s of (recorded_at, s) \<Rightarrow>
      let event_num = sv_audit_counter s + 1; s = s\<lparr>sv_audit_counter := event_num\<rparr>
      in case server_world datetime_now s of (timestamp, s) \<Rightarrow>
         case server_world datetime_now s of (created_at, s) \<Rightarrow>
         case server_world datetime_now s of (updated_at, s) \<Rightarrow>
         let m = audit_mutation D stage tenant ns write_id d i rv event_num recorded_at timestamp
               created_at updated_at
         in bind_op (lift_op (map_err (\<lambda>e. Sync (''invalid_audit_metadata:'' @ e)) (validate_metadata m))) (\<lambda>_ s.
            case server_world datetime_now s of (entry_time, s) \<Rightarrow>
            bind_op (server_append L \<lparr>entry_seq = 0, entry_timestamp = entry_time, entry_mutation = m,
              entry_origin = Local, entry_applied = True, entry_snapshot_anchor = None\<rparr>) (\<lambda>seq s.
            (Inr seq, index_mutation seq m s)) s) s)"

text \<open>The pair of calls after every decision: persist the evidence, ignoring a failure, then register.\<close>

definition note_decision :: "deps \<Rightarrow> 'o oplog_vt \<Rightarrow> string \<Rightarrow> string \<Rightarrow> string \<Rightarrow> string option \<Rightarrow>
    governance_decision \<Rightarrow> 'o server_state \<Rightarrow> 'o server_state" where
  "note_decision D L stage tenant ns write_id d s =
     register_decision_outcome tenant ns d (snd (persist_audit_evidence D L stage tenant ns write_id d s))"

section \<open>Appending a mutation\<close>

definition append_mutation :: "'o oplog_vt \<Rightarrow> mutation \<Rightarrow> string \<Rightarrow> string \<Rightarrow> ('o server_state, u64) op" where
  "append_mutation L m tenant ns =
     bind_op (lift_op (map_err (\<lambda>e. Sync (''invalid_metadata:'' @ e)) (validate_metadata m))) (\<lambda>_.
     if scope_of m \<noteq> (tenant, ns)
     then fail_op (Sync ''mutation tenant/namespace does not match request scope'')
     else get_op (\<lambda>s.
       case lookup_scoped_write_id_seq s tenant ns (mut_write_id m) of
         Some existing_seq \<Rightarrow> return_op existing_seq
       | None \<Rightarrow> (\<lambda>s. case server_world datetime_now s of (entry_time, s) \<Rightarrow>
           bind_op (server_append L \<lparr>entry_seq = 0, entry_timestamp = entry_time, entry_mutation = m,
             entry_origin = Remote, entry_applied = False, entry_snapshot_anchor = None\<rparr>) (\<lambda>seq s.
           (Inr seq, index_mutation seq m s)) s)))"

end
