(* ===== verification/Rango_Server_Requests.thy ===== *)
theory Rango_Server_Requests
  imports Rango_Server
begin

text \<open>
  The server's requests (\<open>server/src/routes.rs\<close>, \<open>observability.rs\<close>, \<open>lib.rs\<close>): processing of push, pull
  and promote with every early return, the HTTP handlers that check the protocol version and the
  token, retrieval, health and readiness, the metrics counters, and the rate limiter. A handler's
  headers are a function from a name to its text, absent when \<open>to_str\<close> fails.
\<close>

type_synonym ('o, 'a) reply = "'o server_state \<Rightarrow> (nat + 'a) \<times> 'o server_state"

definition bad_request :: nat where "bad_request = 400"
definition unauthorized :: nat where "unauthorized = 401"
definition forbidden :: nat where "forbidden = 403"
definition internal_server_error :: nat where "internal_server_error = 500"

definition count_non_owner :: "'o server_state \<Rightarrow> 'o server_state" where
  "count_non_owner s = s\<lparr>sv_non_owner_rejections := sv_non_owner_rejections s + 1\<rparr>"

definition count_cross_tenant :: "'o server_state \<Rightarrow> 'o server_state" where
  "count_cross_tenant s = s\<lparr>sv_cross_tenant_rejections := sv_cross_tenant_rejections s + 1\<rparr>"

definition signals :: "signal list \<Rightarrow> 'o server_state \<Rightarrow> 'o server_state" where
  "signals tr s = s\<lparr>sv_signals := sv_signals s @ tr\<rparr>"

section \<open>Push\<close>

definition normalize_write_decision :: "governance_decision \<Rightarrow> governance_decision" where
  "normalize_write_decision d =
     (if gd_decision d = Reject \<and> starts_with ''trust_score_below_threshold'' (gd_reason d)
      then d\<lparr>gd_reason := ''poisoning_low_trust:'' @ gd_reason d\<rparr> else d)"

text \<open>The loop over the mutations: accepted numbers, rejected count, decisions.\<close>

fun push_loop :: "deps \<Rightarrow> 'o oplog_vt \<Rightarrow> string \<Rightarrow> string \<Rightarrow> mutation list \<Rightarrow> u64 list \<Rightarrow> u64 \<Rightarrow>
    governance_decision list \<Rightarrow> ('o, u64 list \<times> u64 \<times> governance_decision list) reply" where
  "push_loop D L tenant ns [] accepted cross audit s = (Inr (accepted, cross, audit), s)"
| "push_loop D L tenant ns (m # ms) accepted cross audit s =
     (let note = (\<lambda>d. note_decision D L ''write'' tenant ns (Some (mut_write_id m)) d)
      in case containment_gate tenant ns s of
          (Some containment, s) \<Rightarrow>
            push_loop D L tenant ns ms accepted cross (audit @ [containment]) (note containment s)
        | (None, s) \<Rightarrow>
            (case validate_metadata m of
               Inl err \<Rightarrow>
                 let d = reject_decision (''invalid_metadata:'' @ err)
                 in push_loop D L tenant ns ms accepted cross (audit @ [d]) (note d s)
             | Inr _ \<Rightarrow>
                 if scope_of m \<noteq> (tenant, ns) then
                   let d = reject_decision ''cross_tenant_or_namespace_mutation''
                   in push_loop D L tenant ns ms accepted (cross + 1) (audit @ [d])
                        (note d (count_cross_tenant s))
                 else
                   let ctx = \<lparr>wc_tenant_id = tenant, wc_namespace = ns, wc_actor = md_actor (mut_metadata m),
                         wc_source = md_source (mut_metadata m), wc_tier = State\<rparr>;
                       payload = StateWithTrust (unwrap_or (mut_patch m) []) (md_trust_score (mut_metadata m))
                   in case write_path D (sv_control_plane s) ctx payload of
                       (Inl e, tr) \<Rightarrow> (Inl internal_server_error, signals tr s)
                     | (Inr d, tr) \<Rightarrow>
                         let d = normalize_write_decision d; s = note d (signals tr s)
                         in if is_reject d then push_loop D L tenant ns ms accepted cross (audit @ [d]) s
                            else case append_mutation L m tenant ns s of
                                (Inl e, s) \<Rightarrow> (Inl internal_server_error, s)
                              | (Inr seq, s) \<Rightarrow>
                                  push_loop D L tenant ns ms (accepted @ [seq]) cross (audit @ [d]) s))"

definition process_push :: "deps \<Rightarrow> 'o oplog_vt \<Rightarrow> push_request \<Rightarrow> auth_principal \<Rightarrow>
    ('o, push_response) reply" where
  "process_push D L req who s =
     (let tenant = pq_tenant_id req; ns = pq_namespace req
      in if pq_node_id req \<noteq> ap_node_id who then
           let d = reject_decision ''node_mismatch'';
               s = note_decision D L ''write'' tenant ns None d (count_non_owner s)
           in (Inr \<lparr>ps_accepted_seqs = [], ps_new_checkpoint = scoped_latest_checkpoint s tenant ns,
                 ps_rejected_non_owner_count = 1, ps_rejected_cross_tenant_count = 0, ps_audit = [d]\<rparr>, s)
         else if tenant \<noteq> ap_tenant_id who then
           let d = reject_decision ''tenant_mismatch'';
               s = note_decision D L ''write'' tenant ns None d (count_cross_tenant s)
           in (Inr \<lparr>ps_accepted_seqs = [], ps_new_checkpoint = scoped_latest_checkpoint s tenant ns,
                 ps_rejected_non_owner_count = 0, ps_rejected_cross_tenant_count = 1, ps_audit = [d]\<rparr>, s)
         else case push_loop D L tenant ns (pq_mutations req) [] 0 [] s of
             (Inl e, s) \<Rightarrow> (Inl e, s)
           | (Inr (accepted, cross, audit), s) \<Rightarrow>
               (Inr \<lparr>ps_accepted_seqs = accepted, ps_new_checkpoint = scoped_latest_checkpoint s tenant ns,
                  ps_rejected_non_owner_count = 0, ps_rejected_cross_tenant_count = cross,
                  ps_audit = audit\<rparr>, s))"

section \<open>Pull\<close>

definition identity_seq_field :: string where "identity_seq_field = ''__rango_candidate_seq''"
definition identity_write_id_field :: string where "identity_write_id_field = ''__rango_candidate_write_id''"

definition add_candidate_identity :: "oplog_entry \<Rightarrow> doc option" where
  "add_candidate_identity e =
     (case mut_patch (entry_mutation e) of
        None \<Rightarrow> None
      | Some candidate \<Rightarrow> Some (al_put (al_put candidate identity_seq_field (Int64 (entry_seq e)))
          identity_write_id_field (String (mut_write_id (entry_mutation e)))))"

definition candidate_identity :: "doc \<Rightarrow> (u64 \<times> string) option" where
  "candidate_identity d =
     Option.bind (get_as as_i64 d identity_seq_field) (\<lambda>seq.
     Option.bind (get_as as_str d identity_write_id_field) (\<lambda>w. Some (seq, w)))"

definition mutation_visible_for_tier :: "mutation \<Rightarrow> memory_tier \<Rightarrow> bool" where
  "mutation_visible_for_tier m tier \<longleftrightarrow>
     (case tier of
        Semantic \<Rightarrow> md_type (mut_metadata m) = ''semantic_projection''
      | _ \<Rightarrow> md_type (mut_metadata m) \<noteq> ''semantic_projection'')"

definition annotate_mutation_for_read_tier :: "mutation \<Rightarrow> memory_tier \<Rightarrow> mutation" where
  "annotate_mutation_for_read_tier m tier =
     (if tier = Semantic
      then m\<lparr>mut_patch := map_option (\<lambda>p. al_put (al_put p ''derived'' (Boolean True)) ''canonical'' (Boolean False))
             (mut_patch m)\<rparr>
      else m)"

definition in_scope :: "string \<Rightarrow> string \<Rightarrow> memory_tier \<Rightarrow> oplog_entry \<Rightarrow> bool" where
  "in_scope tenant ns tier e \<longleftrightarrow>
     md_tenant_id (mut_metadata (entry_mutation e)) = tenant \<and>
     md_namespace (mut_metadata (entry_mutation e)) = ns \<and>
     md_type (mut_metadata (entry_mutation e)) \<noteq> ''governance_audit'' \<and>
     mutation_visible_for_tier (entry_mutation e) tier"

fun identity_counts :: "doc list \<Rightarrow> ((u64 \<times> string) \<times> nat) list \<Rightarrow> ((u64 \<times> string) \<times> nat) list" where
  "identity_counts [] counts = counts"
| "identity_counts (d # ds) counts =
     (case candidate_identity d of
        None \<Rightarrow> identity_counts ds counts
      | Some key \<Rightarrow> identity_counts ds (al_put counts key (unwrap_or (al_get counts key) 0 + 1)))"

fun pull_loop :: "memory_tier \<Rightarrow> oplog_entry list \<Rightarrow> ((u64 \<times> string) \<times> nat) list \<Rightarrow> mutation list" where
  "pull_loop tier [] counts = []"
| "pull_loop tier (e # es) counts =
     (if mut_patch (entry_mutation e) = None then pull_loop tier es counts
      else let key = (entry_seq e, mut_write_id (entry_mutation e))
        in case al_get counts key of
            None \<Rightarrow> pull_loop tier es counts
          | Some remaining \<Rightarrow>
              if 0 < remaining
              then annotate_mutation_for_read_tier (entry_mutation e) tier #
                pull_loop tier es (al_put counts key (remaining - 1))
              else pull_loop tier es counts)"

definition process_pull :: "deps \<Rightarrow> 'o oplog_vt \<Rightarrow> pull_request \<Rightarrow> auth_principal \<Rightarrow> memory_tier \<Rightarrow>
    ('o, pull_response) reply" where
  "process_pull D L req who tier s =
     (let tenant = lq_tenant_id req; ns = lq_namespace req;
          answer = (\<lambda>ms d s. (Inr \<lparr>ls_mutations = ms,
            ls_new_checkpoint = scoped_latest_checkpoint s tenant ns, ls_audit = [d]\<rparr>, s))
      in if ap_node_id who \<noteq> lq_node_id req \<or> ap_tenant_id who \<noteq> tenant then
           let other_tenant = ap_tenant_id who \<noteq> tenant;
               s = (if other_tenant then count_cross_tenant s else s);
               d = reject_decision (if other_tenant then ''tenant_mismatch'' else ''node_mismatch'')
           in answer [] d (note_decision D L ''read'' tenant ns None d s)
         else case op_read_since L (sv_oplog s) (lq_since_checkpoint req + 1) 1000 of
             Inl e \<Rightarrow> (Inl internal_server_error, s)
           | Inr entries \<Rightarrow>
               let scoped = filter (in_scope tenant ns tier) entries;
                   candidates = List.map_filter add_candidate_identity scoped;
                   request = \<lparr>rr_tenant_id = tenant, rr_namespace = ns, rr_tier = tier, rr_limit = 1000\<rparr>
               in case read_path (sv_control_plane s) request candidates of
                   (Inl e, tr) \<Rightarrow> (Inl internal_server_error, signals tr s)
                 | (Inr (read_decision, filtered), tr) \<Rightarrow>
                     (case containment_gate tenant ns (signals tr s) of (gate, s) \<Rightarrow>
                        let d = unwrap_or gate read_decision; s = note_decision D L ''read'' tenant ns None d s
                        in if is_reject d then answer [] d s
                           else answer (pull_loop tier scoped (identity_counts filtered [])) d s))"

section \<open>Promote\<close>

definition process_promote :: "deps \<Rightarrow> 'o oplog_vt \<Rightarrow> promote_request \<Rightarrow> auth_principal \<Rightarrow>
    ('o, promote_response) reply" where
  "process_promote D L req who s =
     (let tenant = mq_tenant_id req; ns = mq_namespace req; m = mq_mutation req;
          note = (\<lambda>d. note_decision D L ''promotion'' tenant ns (Some (mut_write_id m)) d);
          rejected = (\<lambda>d s. (Inr \<lparr>ms_accepted_seqs = [],
            ms_new_checkpoint = scoped_latest_checkpoint s tenant ns, ms_rejected_count = 1,
            ms_audit = [d]\<rparr>, s))
      in if mq_node_id req \<noteq> ap_node_id who then
           let d = reject_decision ''node_mismatch'' in rejected d (note d (count_non_owner s))
         else if tenant \<noteq> ap_tenant_id who then
           let d = reject_decision ''tenant_mismatch'' in rejected d (note d (count_cross_tenant s))
         else case validate_metadata m of
             Inl err \<Rightarrow>
               let d = reject_decision (''invalid_metadata:'' @ err) in rejected d (note d s)
           | Inr _ \<Rightarrow>
               if scope_of m \<noteq> (tenant, ns) then
                 let d = reject_decision ''cross_tenant_or_namespace_mutation''
                 in rejected d (note d (count_cross_tenant s))
               else
                 let request = \<lparr>pr_tenant_id = tenant, pr_namespace = ns, pr_from = mq_from_tier req,
                       pr_to = mq_to_tier req, pr_candidate_id = mq_candidate_id req\<rparr>;
                     semantic_path = validate_semantic_promotion request
                 in if is_reject semantic_path then rejected semantic_path (note semantic_path s)
                    else case promotion_path (sv_control_plane s) request
                          (StateWithTrust (unwrap_or (mut_patch m) []) (md_trust_score (mut_metadata m))) of
                        (Inl e, tr) \<Rightarrow> (Inl internal_server_error, signals tr s)
                      | (Inr (promotion, sanitized), tr) \<Rightarrow>
                          (case containment_gate tenant ns (signals tr s) of (gate, s) \<Rightarrow>
                             let d = unwrap_or gate promotion; s = note d s
                             in if gd_decision d \<noteq> Allow then rejected d s
                                else case append_mutation L m tenant ns s of
                                    (Inl e, s) \<Rightarrow> (Inl internal_server_error, s)
                                  | (Inr seq, s) \<Rightarrow>
                                      (Inr \<lparr>ms_accepted_seqs = [seq],
                                         ms_new_checkpoint = scoped_latest_checkpoint s tenant ns,
                                         ms_rejected_count = 0, ms_audit = [d]\<rparr>, s)))"

section \<open>Metrics\<close>

definition operation_attrs :: "string \<Rightarrow> string \<Rightarrow> string \<Rightarrow> (string \<times> string) list" where
  "operation_attrs tenant ns decision = [(''tenant_id'', tenant), (''namespace'', ns), (''decision'', decision)]"

definition record_push :: "string \<Rightarrow> string \<Rightarrow> string \<Rightarrow> metric_add" where
  "record_push tenant ns decision =
     \<lparr>ma_counter = ''rango_push_operations_total'', ma_amount = 1, ma_attrs = operation_attrs tenant ns decision\<rparr>"

definition record_pull :: "string \<Rightarrow> string \<Rightarrow> string \<Rightarrow> metric_add" where
  "record_pull tenant ns decision =
     \<lparr>ma_counter = ''rango_pull_operations_total'', ma_amount = 1, ma_attrs = operation_attrs tenant ns decision\<rparr>"

definition record_promote :: "string \<Rightarrow> string \<Rightarrow> string \<Rightarrow> metric_add" where
  "record_promote tenant ns decision =
     \<lparr>ma_counter = ''rango_promote_operations_total'', ma_amount = 1, ma_attrs = operation_attrs tenant ns decision\<rparr>"

definition record_retrieval :: "string \<Rightarrow> string \<Rightarrow> string \<Rightarrow> metric_add" where
  "record_retrieval tenant ns decision =
     \<lparr>ma_counter = ''rango_retrieval_operations_total'', ma_amount = 1, ma_attrs = operation_attrs tenant ns decision\<rparr>"

definition record_rejection :: "string \<Rightarrow> string \<Rightarrow> string \<Rightarrow> string \<Rightarrow> metric_add" where
  "record_rejection tenant ns reason stage =
     \<lparr>ma_counter = ''rango_rejected_operations_total'', ma_amount = 1,
      ma_attrs = [(''tenant_id'', tenant), (''namespace'', ns), (''reason'', reason), (''stage'', stage)]\<rparr>"

definition connection_up :: metric_add where
  "connection_up = \<lparr>ma_counter = ''rango_active_connections'', ma_amount = 1, ma_attrs = []\<rparr>"

definition connection_down :: metric_add where
  "connection_down = \<lparr>ma_counter = ''rango_active_connections'', ma_amount = -1, ma_attrs = []\<rparr>"

definition record_metric :: "metric_add \<Rightarrow> 'o server_state \<Rightarrow> 'o server_state" where
  "record_metric a s = (case sv_metrics s of Some adds \<Rightarrow> s\<lparr>sv_metrics := Some (adds @ [a])\<rparr> | None \<Rightarrow> s)"

section \<open>Handlers\<close>

type_synonym headers = "string \<Rightarrow> string option"

definition parse_read_tier :: "string option \<Rightarrow> memory_tier" where
  "parse_read_tier header = (if header = Some ''semantic'' then Semantic else State)"

text \<open>What every handler checks first: the protocol version, then the token.\<close>

definition authenticated :: "headers \<Rightarrow> (auth_principal \<Rightarrow> ('o, 'a) reply) \<Rightarrow> ('o, 'a) reply" where
  "authenticated hdr k s =
     (if hdr ''X-Rango-Protocol-Version'' \<noteq> Some ''1'' then (Inl bad_request, s)
      else case validate_token s (hdr ''Authorization'') of
          None \<Rightarrow> (Inl unauthorized, s)
        | Some who \<Rightarrow> k who s)"

definition handle_push :: "deps \<Rightarrow> 'o oplog_vt \<Rightarrow> headers \<Rightarrow> push_request \<Rightarrow> ('o, push_response) reply" where
  "handle_push D L hdr req = authenticated hdr (\<lambda>who s.
     case process_push D L req who s of
       (Inl e, s) \<Rightarrow> (Inl e, s)
     | (Inr resp, s) \<Rightarrow>
         (Inr resp, record_metric (record_push (pq_tenant_id req) (pq_namespace req)
            (if ps_accepted_seqs resp = [] then ''reject'' else ''allow'')) s))"

definition handle_pull :: "deps \<Rightarrow> 'o oplog_vt \<Rightarrow> headers \<Rightarrow> pull_request \<Rightarrow> ('o, pull_response) reply" where
  "handle_pull D L hdr req = authenticated hdr (\<lambda>who s.
     case process_pull D L req who (parse_read_tier (hdr ''X-Rango-Read-Tier'')) s of
       (Inl e, s) \<Rightarrow> (Inl e, s)
     | (Inr resp, s) \<Rightarrow>
         (Inr resp, record_metric (record_pull (lq_tenant_id req) (lq_namespace req)
            (if ls_mutations resp = [] then ''empty'' else ''allow'')) s))"

definition handle_promote :: "deps \<Rightarrow> 'o oplog_vt \<Rightarrow> headers \<Rightarrow> promote_request \<Rightarrow> ('o, promote_response) reply" where
  "handle_promote D L hdr req = authenticated hdr (\<lambda>who s.
     case process_promote D L req who s of
       (Inl e, s) \<Rightarrow> (Inl e, s)
     | (Inr resp, s) \<Rightarrow>
         (Inr resp, record_metric (record_promote (mq_tenant_id req) (mq_namespace req)
            (if ms_accepted_seqs resp = [] then ''reject'' else ''allow'')) s))"

text \<open>Here the decision is registered before its evidence is persisted.\<close>

definition note_retrieval :: "deps \<Rightarrow> 'o oplog_vt \<Rightarrow> string \<Rightarrow> string \<Rightarrow> governance_decision \<Rightarrow>
    'o server_state \<Rightarrow> 'o server_state" where
  "note_retrieval D L tenant ns d s =
     snd (persist_audit_evidence D L ''retrieval'' tenant ns None d (register_decision_outcome tenant ns d s))"

definition process_retrieval :: "deps \<Rightarrow> 'o oplog_vt \<Rightarrow> retrieval_request \<Rightarrow> ('o, retrieval_response) reply" where
  "process_retrieval D L req s =
     (let tenant = rq_tenant_id req; ns = rq_namespace req;
          request = \<lparr>rr_tenant_id = tenant, rr_namespace = ns, rr_tier = State, rr_limit = rq_limit req\<rparr>
      in case server_world (retrieve (sv_retrieval s) req) s of
          (Inr candidates, s) \<Rightarrow>
            let ranked = rank_candidates_v1 candidates
            in (case read_path (sv_control_plane s) request (map cand_payload ranked) of
                (Inl e, tr) \<Rightarrow> (Inl internal_server_error, signals tr s)
              | (Inr (d, filtered), tr) \<Rightarrow>
                  let filtered_ids = List.map_filter (\<lambda>d. get_as as_str d ''candidate_id'') filtered;
                      bounded = take (rq_limit req) (filter (\<lambda>c. cand_id c \<in> set filtered_ids) ranked)
                  in (Inr \<lparr>rs_status = Healthy, rs_status_reason = gd_reason d, rs_canonical_fallback = False,
                        rs_candidates = bounded\<rparr>, note_retrieval D L tenant ns d (signals tr s)))
        | (Inl err, s) \<Rightarrow>
            let d = \<lparr>gd_decision = Sanitize, gd_reason = ae_reason err\<rparr>
            in (Inr \<lparr>rs_status = Degraded, rs_status_reason = ae_reason err, rs_canonical_fallback = True,
                  rs_candidates = []\<rparr>, note_retrieval D L tenant ns d s))"

definition handle_retrieval_read :: "deps \<Rightarrow> 'o oplog_vt \<Rightarrow> headers \<Rightarrow> retrieval_request \<Rightarrow>
    ('o, retrieval_response) reply" where
  "handle_retrieval_read D L hdr req = authenticated hdr (\<lambda>who s.
     if ap_tenant_id who \<noteq> rq_tenant_id req then (Inl forbidden, s)
     else case process_retrieval D L req s of
         (Inl e, s) \<Rightarrow> (Inl e, s)
       | (Inr resp, s) \<Rightarrow>
           (Inr resp, record_metric (record_retrieval (rq_tenant_id req) (rq_namespace req)
              (case rs_status resp of Healthy \<Rightarrow> ''allow'' | Degraded \<Rightarrow> ''degraded'' | _ \<Rightarrow> ''unknown'')) s))"

record ready_response =
  rd_status :: string
  rd_reason :: "string option"

definition handle_health :: "nat \<times> string" where
  "handle_health = (200, ''healthy'')"

definition handle_ready :: "'o oplog_vt \<Rightarrow> 'o server_state \<Rightarrow> nat \<times> ready_response" where
  "handle_ready L s =
     (case op_latest_seq L (sv_oplog s) of
        Inr _ \<Rightarrow> (200, \<lparr>rd_status = ''ready'', rd_reason = None\<rparr>)
      | Inl e \<Rightarrow> (503, \<lparr>rd_status = ''not_ready'', rd_reason = Some (error_text e)\<rparr>))"

section \<open>Rate limit\<close>

record rate_limiter =
  rl_window_start :: nat
  rl_count :: u32
  rl_burst :: u32

definition rate_limiter_new :: "u32 \<Rightarrow> nat \<Rightarrow> rate_limiter" where
  "rate_limiter_new burst now = \<lparr>rl_window_start = now, rl_count = 0, rl_burst = burst\<rparr>"

text \<open>Instants are microseconds, \<open>Instant::duration_since\<close> saturates at zero.\<close>

definition rate_check :: "nat \<Rightarrow> rate_limiter \<Rightarrow> bool \<times> rate_limiter" where
  "rate_check now r =
     (let r = (if 1000000 \<le> now - rl_window_start r then r\<lparr>rl_window_start := now, rl_count := 0\<rparr> else r)
      in if rl_count r < rl_burst r then (True, r\<lparr>rl_count := rl_count r + 1\<rparr>) else (False, r))"

text \<open>The middleware around every route, with the limiter of the \<open>OnceLock\<close>.\<close>

definition rate_limit_burst :: u32 where
  "rate_limit_burst = 200"

definition rate_limit_middleware :: "nat \<Rightarrow> nat \<Rightarrow> rate_limiter option \<Rightarrow> ('o, 'a) reply \<Rightarrow> 'o server_state \<Rightarrow>
    rate_limiter \<times> (nat + 'a) \<times> 'o server_state" where
  "rate_limit_middleware created now limiter run_next s =
     (let r = (case limiter of Some r \<Rightarrow> r | None \<Rightarrow> rate_limiter_new rate_limit_burst created)
      in case rate_check now r of (admitted, r) \<Rightarrow>
           (r, if admitted then run_next s else (Inl 429, s)))"

end
