(* ===== verification/Rango_Server_Safety.thy ===== *)
theory Rango_Server_Safety
  imports Rango_Server_Requests
begin

text \<open>
  What a request may change, whatever the hooks decide: a relation between states that the bookkeeping
  steps, the audit evidence and the appends of one scope keep is kept by every request (a locale), and
  the instance in which the log grows by entries of a kind and the indexes follow it. The theories on
  the server's log and its replies build on it.
\<close>

section \<open>What a request may change\<close>

text \<open>The log grows by entries of a kind, and the indexes follow it.\<close>

definition server_extends :: "('o \<Rightarrow> bool) \<Rightarrow> ('o \<Rightarrow> oplog_entry list) \<Rightarrow> (oplog_entry \<Rightarrow> bool) \<Rightarrow>
    'o server_state \<Rightarrow> 'o server_state \<Rightarrow> bool" where
  "server_extends log_ok log_of kind s s' \<longleftrightarrow>
     (log_ok (sv_oplog s) \<longrightarrow> log_ok (sv_oplog s') \<and>
       (\<exists>es. log_of (sv_oplog s') = log_of (sv_oplog s) @ es \<and> (\<forall>e\<in>set es. kind e) \<and>
         (sv_latest s', sv_write_ids s') = index_entries es (sv_latest s, sv_write_ids s))) \<and>
     sv_tokens s' = sv_tokens s \<and> sv_control_plane s' = sv_control_plane s"

definition audit_evidence :: "oplog_entry \<Rightarrow> bool" where
  "audit_evidence e \<longleftrightarrow> mut_collection (entry_mutation e) = audit_collection \<and> entry_origin e = Local \<and>
     validate_metadata (entry_mutation e) = Inr ()"

definition scoped_write :: "string \<Rightarrow> string \<Rightarrow> oplog_entry \<Rightarrow> bool" where
  "scoped_write tenant ns e \<longleftrightarrow> entry_origin e = Remote \<and> scope_of (entry_mutation e) = (tenant, ns) \<and>
     validate_metadata (entry_mutation e) = Inr ()"

definition push_entry :: "string \<Rightarrow> string \<Rightarrow> oplog_entry \<Rightarrow> bool" where
  "push_entry tenant ns e \<longleftrightarrow> audit_evidence e \<or> scoped_write tenant ns e"

lemma push_entryI: "audit_evidence e \<Longrightarrow> push_entry tenant ns e" "scoped_write tenant ns e \<Longrightarrow> push_entry tenant ns e"
  by (simp_all add: push_entry_def)

lemma index_entries_append:
  "index_entries (es @ fs) idx = index_entries fs (index_entries es idx)"
  by (induction es idx rule: index_entries.induct) auto

lemma server_extends_refl [simp]: "server_extends log_ok log_of kind s s"
  by (auto simp: server_extends_def intro: exI [of _ "[]"])

lemma server_extends_trans:
  assumes "server_extends log_ok log_of kind s t" "server_extends log_ok log_of kind t u"
  shows "server_extends log_ok log_of kind s u"
proof -
  { assume "log_ok (sv_oplog s)"
    then have "log_ok (sv_oplog t)" using assms(1) by (simp add: server_extends_def)
    obtain es where es: "log_of (sv_oplog t) = log_of (sv_oplog s) @ es" "\<forall>e\<in>set es. kind e"
      "(sv_latest t, sv_write_ids t) = index_entries es (sv_latest s, sv_write_ids s)"
      using assms(1) \<open>log_ok (sv_oplog s)\<close> unfolding server_extends_def by blast
    obtain fs where fs: "log_of (sv_oplog u) = log_of (sv_oplog t) @ fs" "\<forall>e\<in>set fs. kind e"
      "(sv_latest u, sv_write_ids u) = index_entries fs (sv_latest t, sv_write_ids t)"
      using assms(2) \<open>log_ok (sv_oplog t)\<close> unfolding server_extends_def by blast
    have "log_of (sv_oplog u) = log_of (sv_oplog s) @ es @ fs" "\<forall>e\<in>set (es @ fs). kind e"
      "(sv_latest u, sv_write_ids u) = index_entries (es @ fs) (sv_latest s, sv_write_ids s)"
      using es fs by (simp, auto, simp add: index_entries_append)
    then have "\<exists>es. log_of (sv_oplog u) = log_of (sv_oplog s) @ es \<and> (\<forall>e\<in>set es. kind e) \<and>
        (sv_latest u, sv_write_ids u) = index_entries es (sv_latest s, sv_write_ids s)"
      by blast }
  with assms show ?thesis by (simp add: server_extends_def)
qed

lemma server_extends_mono:
  "server_extends log_ok log_of kind s t \<Longrightarrow> (\<And>e. kind e \<Longrightarrow> kind' e) \<Longrightarrow> server_extends log_ok log_of kind' s t"
  by (fastforce simp: server_extends_def)

text \<open>Steps that leave log, indexes, tokens and hooks alone.\<close>

definition server_same :: "'o server_state \<Rightarrow> 'o server_state \<Rightarrow> bool" where
  "server_same s s' \<longleftrightarrow> sv_oplog s' = sv_oplog s \<and> sv_latest s' = sv_latest s \<and> sv_write_ids s' = sv_write_ids s \<and>
     sv_tokens s' = sv_tokens s \<and> sv_control_plane s' = sv_control_plane s"

lemma server_same_refl [simp]: "server_same s s"
  by (simp add: server_same_def)

lemma server_same_trans: "server_same s t \<Longrightarrow> server_same t u \<Longrightarrow> server_same s u"
  by (simp add: server_same_def)

lemma server_extends_same: "server_same s s' \<Longrightarrow> server_extends log_ok log_of kind s s'"
  by (auto simp: server_same_def server_extends_def intro: exI [of _ "[]"])

lemma server_world_same: "server_world f s = (x, s') \<Longrightarrow> server_same s s' \<and> sv_containment s' = sv_containment s"
  by (auto simp: server_world_def server_same_def split: prod.splits)

lemma containment_entry_same: "containment_entry sc s = (x, s') \<Longrightarrow> server_same s s'"
  by (auto simp: containment_entry_def dest!: server_world_same split: option.splits)

lemma containment_gate_same: "containment_gate tenant ns s = (g, s') \<Longrightarrow> server_same s s'"
  by (auto simp: containment_gate_def server_same_def dest!: server_world_same containment_entry_same split: prod.splits)

lemma register_same [simp]: "server_same s (register_decision_outcome tenant ns d s)"
  by (auto simp: register_decision_outcome_def server_same_def dest!: server_world_same containment_entry_same
      split: prod.splits)

lemma trace_same [simp]:
  "server_same s (signals tr s)" "server_same s (count_non_owner s)" "server_same s (count_cross_tenant s)"
  "server_same s (record_metric a s)"
  by (simp_all add: server_same_def signals_def count_non_owner_def count_cross_tenant_def record_metric_def
      split: option.splits)

section \<open>Relations every request keeps\<close>

text \<open>
  A transitive relation between states that the bookkeeping steps keep, and so do persisting evidence
  and appending a mutation of one scope, holds across every request on that scope.
\<close>

locale server_relation =
  fixes D :: deps and L :: "'o oplog_vt" and tenant ns :: string
    and R :: "'o server_state \<Rightarrow> 'o server_state \<Rightarrow> bool"
  assumes R_same: "server_same s s' \<Longrightarrow> R s s'"
    and R_trans: "R s t \<Longrightarrow> R t u \<Longrightarrow> R s u"
    and R_persist: "R s (snd (persist_audit_evidence D L stage t' n write_id d s))"
    and R_append: "append_mutation L m tenant ns s = (r, s') \<Longrightarrow> R s s'"
begin

lemma R_refl [simp]: "R s s"
  by (rule R_same) simp

text \<open>The relation to a state carries over a further step.\<close>

lemma R_trace: "R s t \<Longrightarrow> R s (signals tr t)" "R s t \<Longrightarrow> R s (count_non_owner t)"
  "R s t \<Longrightarrow> R s (count_cross_tenant t)" "R s t \<Longrightarrow> R s (record_metric a t)"
  by (rule R_trans [OF _ R_same], assumption, simp)+

lemma R_register: "R s t \<Longrightarrow> R s (register_decision_outcome t' n d t)"
  by (rule R_trans [OF _ R_same], assumption, simp)

lemma R_persists: "R s t \<Longrightarrow> R s (snd (persist_audit_evidence D L stage t' n w d t))"
  by (rule R_trans [OF _ R_persist])

lemma R_note: "R s t \<Longrightarrow> R s (note_decision D L stage t' n w d t)"
  unfolding note_decision_def by (intro R_register R_persists)

lemma R_gate: "R s t \<Longrightarrow> containment_gate t' n t = (g, u) \<Longrightarrow> R s u"
  by (rule R_trans [OF _ R_same [OF containment_gate_same]])

lemma R_appends: "R s t \<Longrightarrow> append_mutation L m tenant ns t = (r, u) \<Longrightarrow> R s u"
  by (rule R_trans [OF _ R_append])

lemma R_push_loop: "push_loop D L tenant ns ms acc cross audit s = (r, s') \<Longrightarrow> R s s'"
proof (induction ms arbitrary: acc cross audit s)
  case Nil
  then show ?case by simp
next
  case (Cons m ms)
  let ?note = "\<lambda>d. note_decision D L ''write'' tenant ns (Some (mut_write_id m)) d"
  have IH: "R s1 s2 \<Longrightarrow> push_loop D L tenant ns ms a c u s2 = (r, s') \<Longrightarrow> R s1 s'" for s1 s2 a c u
    using R_trans Cons.IH by blast
  obtain g s1 where g: "containment_gate tenant ns s = (g, s1)" by fastforce
  have gate: "R s s1" by (rule R_gate [OF R_refl g])
  show ?case
  proof (cases g)
    case (Some d)
    then show ?thesis using Cons.prems g IH [OF R_note [OF gate]] by (simp add: Let_def)
  next
    case None
    show ?thesis
    proof (cases "validate_metadata m")
      case (Inl e)
      then show ?thesis using Cons.prems g None IH [OF R_note [OF gate]] by (simp add: Let_def)
    next
      case (Inr u)
      show ?thesis
      proof (cases "scope_of m = (tenant, ns)")
        case False
        then show ?thesis
          using Cons.prems g None Inr IH [OF R_note [OF R_trace(3) [OF gate]]] by (simp add: Let_def)
      next
        case True
        let ?ctx = "\<lparr>wc_tenant_id = tenant, wc_namespace = ns, wc_actor = md_actor (mut_metadata m),
          wc_source = md_source (mut_metadata m), wc_tier = State\<rparr>"
        let ?payload = "StateWithTrust (unwrap_or (mut_patch m) []) (md_trust_score (mut_metadata m))"
        obtain w tr where w: "write_path D (sv_control_plane s1) ?ctx ?payload = (w, tr)" by fastforce
        show ?thesis
        proof (cases w)
          case (Inl e)
          then show ?thesis using Cons.prems g None Inr True w R_trace(1) [OF gate] by (auto simp: Let_def)
        next
          case (Inr d)
          let ?d = "normalize_write_decision d" and ?s2 = "?note (normalize_write_decision d) (signals tr s1)"
          obtain q s3 where q: "append_mutation L m tenant ns ?s2 = (q, s3)" by fastforce
          note s2 = R_note [OF R_trace(1) [OF gate, of tr], of "''write''" tenant ns "Some (mut_write_id m)" ?d]
          note run = Cons.prems g None \<open>validate_metadata m = Inr u\<close> True w Inr q
          show ?thesis
            using run IH [OF s2] R_appends [OF s2 q] IH [OF R_appends [OF s2 q]]
            by (cases "is_reject ?d"; cases q) (simp_all add: Let_def)
        qed
      qed
    qed
  qed
qed

lemma R_push:
  assumes "process_push D L req who s = (r, s')" "ap_tenant_id who = tenant" "pq_namespace req = ns"
  shows "R s s'"
proof (cases "pq_node_id req = ap_node_id who \<and> pq_tenant_id req = tenant")
  case False
  with assms show ?thesis
    by (auto simp: process_push_def Let_def intro!: R_note R_trace R_refl split: if_splits)
next
  case True
  obtain q s1 where q: "push_loop D L tenant ns (pq_mutations req) [] 0 [] s = (q, s1)" by fastforce
  have "s' = s1"
    using assms True q by (auto simp: process_push_def Let_def split: sum.splits prod.splits)
  then show ?thesis using R_push_loop [OF q] by simp
qed

lemma R_pull: "process_pull D L req who tier s = (r, s') \<Longrightarrow> R s s'"
  by (auto simp: process_pull_def Let_def intro!: R_note R_trace intro: R_gate [OF R_trace(1) [OF R_refl]]
      split: if_splits sum.splits prod.splits)

lemma R_promote:
  assumes "process_promote D L req who s = (r, s')" "ap_tenant_id who = tenant" "mq_namespace req = ns"
  shows "R s s'"
  using assms(1)
  unfolding process_promote_def Let_def
  by (auto simp: assms(2,3) intro!: R_note R_trace intro: R_gate [OF R_trace(1) [OF R_refl]]
      R_appends [OF R_note [OF R_gate [OF R_trace(1) [OF R_refl]]]]
      split: if_splits sum.splits prod.splits)

lemma R_retrieval: "process_retrieval D L req s = (r, s') \<Longrightarrow> R s s'"
  by (auto simp: process_retrieval_def note_retrieval_def Let_def dest!: server_world_same
      intro!: R_persists R_register R_trace intro: R_same split: sum.splits prod.splits)

text \<open>The handlers; an unauthenticated request changes nothing.\<close>

lemma R_handle_push:
  assumes "handle_push D L hdr req s = (r, s')"
    and "\<And>who. validate_token s (hdr ''Authorization'') = Some who \<Longrightarrow> ap_tenant_id who = tenant"
    and "pq_namespace req = ns"
  shows "R s s'"
  using assms(1)
  by (auto simp: handle_push_def authenticated_def assms(2,3) intro!: R_trace(4) intro: R_push
      split: if_splits option.splits sum.splits prod.splits)

lemma R_handle_pull: "handle_pull D L hdr req s = (r, s') \<Longrightarrow> R s s'"
  by (auto simp: handle_pull_def authenticated_def intro!: R_trace(4) intro: R_pull
      split: if_splits option.splits sum.splits prod.splits)

lemma R_handle_promote:
  assumes "handle_promote D L hdr req s = (r, s')"
    and "\<And>who. validate_token s (hdr ''Authorization'') = Some who \<Longrightarrow> ap_tenant_id who = tenant"
    and "mq_namespace req = ns"
  shows "R s s'"
  using assms(1)
  by (auto simp: handle_promote_def authenticated_def assms(2,3) intro!: R_trace(4) intro: R_promote
      split: if_splits option.splits sum.splits prod.splits)

lemma R_handle_retrieval: "handle_retrieval_read D L hdr req s = (r, s') \<Longrightarrow> R s s'"
  by (auto simp: handle_retrieval_read_def authenticated_def intro!: R_trace(4) intro: R_retrieval
      split: if_splits option.splits sum.splits prod.splits)

end

section \<open>The log and the indexes grow together\<close>

lemma validate_audit_mutation: "mut_collection (audit_mutation D stage t ns w d i rv n r ts c u) = audit_collection"
  by (simp add: audit_mutation_def)

context oplog_keeps
begin

abbreviation grows :: "(oplog_entry \<Rightarrow> bool) \<Rightarrow> 'o server_state \<Rightarrow> 'o server_state \<Rightarrow> bool" where
  "grows \<equiv> server_extends inv log_of"

text \<open>Appending one entry and indexing its mutation.\<close>

lemma append_index_extends:
  assumes "server_append L e s = (r, s1)" "\<And>n. kind (e\<lparr>entry_seq := n\<rparr>)"
  shows "grows kind s (case r of Inr n \<Rightarrow> index_mutation n (entry_mutation e) s1 | Inl x \<Rightarrow> s1)"
proof -
  obtain l where app: "op_append L e (sv_oplog s) = (r, l)" and s1: "s1 = s\<lparr>sv_oplog := l\<rparr>"
    using assms(1) by (auto simp: server_append_def split: prod.splits)
  show ?thesis
  proof (cases r)
    case (Inl x)
    then show ?thesis
      using append_inv app append_err_log by (auto simp: server_extends_def s1 intro: exI [of _ "[]"])
  next
    case (Inr n)
    have idx: "(sv_latest (index_mutation n (entry_mutation e) s1), sv_write_ids (index_mutation n (entry_mutation e) s1)) =
        index_entries [e\<lparr>entry_seq := n\<rparr>] (sv_latest s, sv_write_ids s)"
      by (simp add: index_mutation_def s1)
    have "inv (sv_oplog s) \<Longrightarrow> log_of l = log_of (sv_oplog s) @ [e\<lparr>entry_seq := n\<rparr>]"
      using append_log app Inr by simp
    with Inr assms(2) append_inv app idx show ?thesis
      by (auto simp: server_extends_def s1 index_mutation_def intro!: exI [of _ "[e\<lparr>entry_seq := n\<rparr>]"])
  qed
qed

lemma persist_extends: "grows audit_evidence s (snd (persist_audit_evidence D L stage tenant ns write_id d s))"
proof -
  obtain i s1 where 1: "server_world document_id_new_uuid_v7 s = (i, s1)" by fastforce
  obtain rv s2 where 2: "server_world (revision_now D ''governance-runtime'') s1 = (rv, s2)" by fastforce
  obtain t0 s3 where 3: "server_world datetime_now s2 = (t0, s3)" by fastforce
  let ?s3 = "s3\<lparr>sv_audit_counter := sv_audit_counter s3 + 1\<rparr>"
  obtain t1 s4 where 4: "server_world datetime_now ?s3 = (t1, s4)" by fastforce
  obtain t2 s5 where 5: "server_world datetime_now s4 = (t2, s5)" by fastforce
  obtain t3 s6 where 6: "server_world datetime_now s5 = (t3, s6)" by fastforce
  let ?m = "audit_mutation D stage tenant ns write_id d i rv (sv_audit_counter s3 + 1) t0 t1 t2 t3"
  have same: "grows audit_evidence s s6"
    by (rule server_extends_same)
      (use 1 2 3 4 5 6 in \<open>auto simp: server_same_def dest!: server_world_same\<close>)
  show ?thesis
  proof (cases "validate_metadata ?m")
    case (Inl e)
    with 1 2 3 4 5 6 same show ?thesis by (simp add: persist_audit_evidence_def Let_def)
  next
    case (Inr u)
    obtain t4 s7 where 7: "server_world datetime_now s6 = (t4, s7)" by fastforce
    let ?e = "\<lparr>entry_seq = 0, entry_timestamp = t4, entry_mutation = ?m, entry_origin = Local,
      entry_applied = True, entry_snapshot_anchor = None\<rparr>"
    obtain r s8 where 8: "server_append L ?e s7 = (r, s8)" by fastforce
    have "grows audit_evidence s6 s7" by (rule server_extends_same) (use 7 in \<open>auto dest!: server_world_same\<close>)
    moreover have "grows audit_evidence s7 (case r of Inr n \<Rightarrow> index_mutation n (entry_mutation ?e) s8 | Inl x \<Rightarrow> s8)"
      by (rule append_index_extends [OF 8]) (use Inr in \<open>simp add: audit_evidence_def validate_audit_mutation\<close>)
    moreover have "snd (persist_audit_evidence D L stage tenant ns write_id d s) =
        (case r of Inr n \<Rightarrow> index_mutation n (entry_mutation ?e) s8 | Inl x \<Rightarrow> s8)"
      using 1 2 3 4 5 6 7 8 Inr by (cases r) (simp_all add: persist_audit_evidence_def Let_def)
    ultimately show ?thesis using same server_extends_trans by metis
  qed
qed

lemma append_mutation_extends:
  assumes "append_mutation L m tenant ns s = (r, s')" "\<And>e. scoped_write tenant ns e \<Longrightarrow> kind e"
  shows "grows kind s s'"
proof (cases "validate_metadata m = Inr () \<and> scope_of m = (tenant, ns) \<and>
    lookup_scoped_write_id_seq s tenant ns (mut_write_id m) = None")
  case False
  then have "s' = s"
    using assms(1) by (cases "validate_metadata m") (auto simp: append_mutation_def split: if_splits option.splits)
  then show ?thesis by simp
next
  case True
  obtain t s1 where 1: "server_world datetime_now s = (t, s1)" by fastforce
  let ?e = "\<lparr>entry_seq = 0, entry_timestamp = t, entry_mutation = m, entry_origin = Remote,
    entry_applied = False, entry_snapshot_anchor = None\<rparr>"
  obtain q s2 where 2: "server_append L ?e s1 = (q, s2)" by fastforce
  have "grows kind s s1" by (rule server_extends_same) (use 1 in \<open>auto dest!: server_world_same\<close>)
  moreover have "grows kind s1 (case q of Inr n \<Rightarrow> index_mutation n (entry_mutation ?e) s2 | Inl x \<Rightarrow> s2)"
    by (rule append_index_extends [OF 2]) (use True in \<open>simp add: scoped_write_def assms(2)\<close>)
  moreover have "s' = (case q of Inr n \<Rightarrow> index_mutation n (entry_mutation ?e) s2 | Inl x \<Rightarrow> s2)"
    using assms(1) True 1 2 by (cases q) (auto simp: append_mutation_def)
  ultimately show ?thesis using server_extends_trans by blast
qed

end

sublocale oplog_keeps < growth: server_relation D L tenant ns "server_extends inv log_of (push_entry tenant ns)"
  for D tenant ns
proof unfold_locales
  fix s t u :: "'o server_state" and stage t' n write_id d m r
  show "server_extends inv log_of (push_entry tenant ns) s t" if "server_same s t"
    by (rule server_extends_same [OF that])
  show "server_extends inv log_of (push_entry tenant ns) s u"
    if "server_extends inv log_of (push_entry tenant ns) s t" "server_extends inv log_of (push_entry tenant ns) t u"
    by (rule server_extends_trans [OF that])
  show "server_extends inv log_of (push_entry tenant ns) s
      (snd (persist_audit_evidence D L stage t' n write_id d s))"
    by (rule server_extends_mono [OF persist_extends push_entryI(1)])
  show "server_extends inv log_of (push_entry tenant ns) s t" if "append_mutation L m tenant ns s = (r, t)"
    by (rule append_mutation_extends [OF that push_entryI(2)])
qed

end
