(* ===== verification/Rango_Server_Log.thy ===== *)
theory Rango_Server_Log
  imports Rango_Server_Safety
begin

text \<open>
  The server as a state machine over its requests: the invariant that its indexes by scope are
  those of its log and that the log holds each client write at most once, kept by every request;
  the numbers it answers with; and what a restart rebuilds.
\<close>

section \<open>Requests and runs\<close>

datatype server_request =
    PushReq headers push_request
  | PullReq headers pull_request
  | PromoteReq headers promote_request
  | RetrievalReq headers retrieval_request

definition serve :: "deps \<Rightarrow> 'o oplog_vt \<Rightarrow> server_request \<Rightarrow> 'o server_state \<Rightarrow> 'o server_state" where
  "serve D L q s = (case q of
     PushReq hdr req \<Rightarrow> snd (handle_push D L hdr req s)
   | PullReq hdr req \<Rightarrow> snd (handle_pull D L hdr req s)
   | PromoteReq hdr req \<Rightarrow> snd (handle_promote D L hdr req s)
   | RetrievalReq hdr req \<Rightarrow> snd (handle_retrieval_read D L hdr req s))"

text \<open>The scope a request may write: the tenant of its token and the namespace it names.\<close>

fun request_headers :: "server_request \<Rightarrow> headers" where
  "request_headers (PushReq hdr req) = hdr"
| "request_headers (PullReq hdr req) = hdr"
| "request_headers (PromoteReq hdr req) = hdr"
| "request_headers (RetrievalReq hdr req) = hdr"

fun request_namespace :: "server_request \<Rightarrow> string" where
  "request_namespace (PushReq hdr req) = pq_namespace req"
| "request_namespace (PullReq hdr req) = lq_namespace req"
| "request_namespace (PromoteReq hdr req) = mq_namespace req"
| "request_namespace (RetrievalReq hdr req) = rq_namespace req"

definition request_principal :: "'o server_state \<Rightarrow> server_request \<Rightarrow> auth_principal option" where
  "request_principal s q = validate_token s (request_headers q ''Authorization'')"

definition request_scope :: "'o server_state \<Rightarrow> server_request \<Rightarrow> scope" where
  "request_scope s q =
     ((case request_principal s q of Some who \<Rightarrow> ap_tenant_id who | None \<Rightarrow> ''''), request_namespace q)"

lemma server_start_oplog [simp]: "sv_oplog (server_with_control_plane L lg cp w) = lg"
  by (simp add: server_with_control_plane_def split: prod.splits)

lemma serve_unauthenticated: "request_principal s q = None \<Longrightarrow> serve D L q s = s"
  by (cases q) (simp_all add: serve_def request_principal_def authenticated_def handle_push_def handle_pull_def
      handle_promote_def handle_retrieval_read_def)

inductive serves :: "deps \<Rightarrow> 'o oplog_vt \<Rightarrow> 'o server_state \<Rightarrow> 'o server_state \<Rightarrow> bool" for D L s where
  serves_refl: "serves D L s s"
| serves_step: "serves D L s t \<Longrightarrow> serves D L s (serve D L q t)"

context server_relation
begin

lemma R_serve:
  assumes "request_scope s q = (tenant, ns)"
  shows "R s (serve D L q s)"
proof (cases q)
  case (PushReq hdr req)
  obtain r s' where r: "handle_push D L hdr req s = (r, s')" by fastforce
  have "R s s'"
    using assms by (intro R_handle_push [OF r]) (auto simp: PushReq request_scope_def request_principal_def)
  then show ?thesis by (simp add: PushReq serve_def r)
next
  case (PullReq hdr req)
  obtain r s' where r: "handle_pull D L hdr req s = (r, s')" by fastforce
  show ?thesis using R_handle_pull [OF r] r by (simp add: PullReq serve_def)
next
  case (PromoteReq hdr req)
  obtain r s' where r: "handle_promote D L hdr req s = (r, s')" by fastforce
  have "R s s'"
    using assms by (intro R_handle_promote [OF r]) (auto simp: PromoteReq request_scope_def request_principal_def)
  then show ?thesis by (simp add: PromoteReq serve_def r)
next
  case (RetrievalReq hdr req)
  obtain r s' where r: "handle_retrieval_read D L hdr req s = (r, s')" by fastforce
  show ?thesis using R_handle_retrieval [OF r] r by (simp add: RetrievalReq serve_def)
qed

end

section \<open>The invariant of log and indexes\<close>

definition counted :: "oplog_entry \<Rightarrow> bool" where
  "counted e \<longleftrightarrow> mut_collection (entry_mutation e) \<noteq> audit_collection"

definition write_key :: "mutation \<Rightarrow> string \<times> string \<times> string" where
  "write_key m = (md_tenant_id (mut_metadata m), md_namespace (mut_metadata m), mut_write_id m)"

definition indexed :: "('o \<Rightarrow> oplog_entry list) \<Rightarrow> 'o server_state \<Rightarrow> bool" where
  "indexed log_of s \<longleftrightarrow> (sv_latest s, sv_write_ids s) = index_entries (log_of (sv_oplog s)) ([], [])"

definition writes_once :: "oplog_entry list \<Rightarrow> bool" where
  "writes_once es \<longleftrightarrow> distinct (map (write_key \<circ> entry_mutation) (filter counted es))"

definition server_ok :: "('o \<Rightarrow> bool) \<Rightarrow> ('o \<Rightarrow> oplog_entry list) \<Rightarrow> 'o server_state \<Rightarrow> bool" where
  "server_ok log_ok log_of s \<longleftrightarrow>
     log_ok (sv_oplog s) \<and> indexed log_of s \<and> writes_once (log_of (sv_oplog s))"

lemma index_write_ids:
  "al_get (snd (index_entries es idx)) k =
     (case filter (\<lambda>e. counted e \<and> write_key (entry_mutation e) = k) es of
        [] \<Rightarrow> al_get (snd idx) k | xs \<Rightarrow> Some (entry_seq (last xs)))"
  by (induction es idx rule: index_entries.induct)
    (auto simp: counted_def write_key_def put_write_id_def split: list.splits)

lemma index_None:
  assumes "indexed log_of s"
  shows "lookup_scoped_write_id_seq s tenant ns w = None \<longleftrightarrow>
    (\<forall>e\<in>set (log_of (sv_oplog s)). counted e \<longrightarrow> write_key (entry_mutation e) \<noteq> (tenant, ns, w))"
proof -
  let ?xs = "filter (\<lambda>e. counted e \<and> write_key (entry_mutation e) = (tenant, ns, w)) (log_of (sv_oplog s))"
  have "sv_write_ids s = snd (index_entries (log_of (sv_oplog s)) ([], []))"
    using assms by (metis indexed_def snd_conv)
  then have "lookup_scoped_write_id_seq s tenant ns w =
      (case ?xs of [] \<Rightarrow> None | xs \<Rightarrow> Some (entry_seq (last xs)))"
    by (simp add: lookup_scoped_write_id_seq_def index_write_ids cong: list.case_cong)
  then have "lookup_scoped_write_id_seq s tenant ns w = None \<longleftrightarrow> ?xs = []"
    by (cases ?xs) simp_all
  then show ?thesis unfolding filter_empty_conv by blast
qed


lemma index_Some:
  assumes "indexed log_of s" "al_get (sv_write_ids s) k = Some n"
  obtains e where "e \<in> set (log_of (sv_oplog s))" "counted e" "write_key (entry_mutation e) = k" "entry_seq e = n"
proof -
  let ?xs = "filter (\<lambda>e. counted e \<and> write_key (entry_mutation e) = k) (log_of (sv_oplog s))"
  have "sv_write_ids s = snd (index_entries (log_of (sv_oplog s)) ([], []))"
    using assms(1) by (metis indexed_def snd_conv)
  then have xs: "?xs \<noteq> []" "n = entry_seq (last ?xs)"
    using assms(2) by (auto simp: index_write_ids split: list.splits)
  from last_in_set [OF xs(1)] have "last ?xs \<in> set ?xs" .
  with xs(2) that [of "last ?xs"] show ?thesis by simp
qed

text \<open>A number under which a log holds a write: the entry has its key, and counts as a client write if the write does.\<close>

definition holds_write :: "oplog_entry list \<Rightarrow> mutation \<Rightarrow> u64 \<Rightarrow> bool" where
  "holds_write es m n \<longleftrightarrow> (\<exists>e\<in>set es. entry_seq e = n \<and> write_key (entry_mutation e) = write_key m \<and>
     (mut_collection m \<noteq> audit_collection \<longrightarrow> counted e))"

lemma holds_write_append: "holds_write es m n \<Longrightarrow> holds_write (es @ fs) m n"
  by (auto simp: holds_write_def)

lemma write_key_scope: "scope_of m = (tenant, ns) \<Longrightarrow> write_key m = (tenant, ns, mut_write_id m)"
  by (simp add: scope_of_def write_key_def)

lemma audit_not_counted: "audit_evidence e \<Longrightarrow> \<not> counted e"
  by (simp add: audit_evidence_def counted_def)

lemma writes_once_audit:
  "writes_once es \<Longrightarrow> \<forall>e\<in>set fs. \<not> counted e \<Longrightarrow> writes_once (es @ fs)"
  by (simp add: writes_once_def)

lemma writes_once_snoc:
  "writes_once es \<Longrightarrow> (counted e \<Longrightarrow> \<forall>f\<in>set es. counted f \<longrightarrow> write_key (entry_mutation f) \<noteq> write_key (entry_mutation e)) \<Longrightarrow>
   writes_once (es @ [e])"
  by (auto simp: writes_once_def)

context oplog_keeps
begin

abbreviation ok :: "'o server_state \<Rightarrow> bool" where
  "ok \<equiv> server_ok inv log_of"

lemma grows_indexed:
  assumes "grows kind s s'" "ok s"
  shows "inv (sv_oplog s') \<and> indexed log_of s'"
proof -
  obtain es where "inv (sv_oplog s')" "log_of (sv_oplog s') = log_of (sv_oplog s) @ es"
    "(sv_latest s', sv_write_ids s') = index_entries es (sv_latest s, sv_write_ids s)"
    using assms by (auto simp: server_extends_def server_ok_def)
  moreover have "(sv_latest s, sv_write_ids s) = index_entries (log_of (sv_oplog s)) ([], [])"
    using assms(2) by (simp add: server_ok_def indexed_def)
  ultimately show ?thesis by (simp add: indexed_def index_entries_append)
qed

text \<open>Appending a mutation adds one entry for it, with the number returned, or changes nothing.\<close>

lemma append_mutation_log:
  assumes "append_mutation L m tenant ns s = (r, s')" "inv (sv_oplog s)"
  obtains "log_of (sv_oplog s') = log_of (sv_oplog s)"
    "\<And>n. r = Inr n \<Longrightarrow> scope_of m = (tenant, ns) \<and> lookup_scoped_write_id_seq s tenant ns (mut_write_id m) = Some n"
  | e where "log_of (sv_oplog s') = log_of (sv_oplog s) @ [e]" "entry_mutation e = m" "r = Inr (entry_seq e)"
    "scope_of m = (tenant, ns)" "lookup_scoped_write_id_seq s tenant ns (mut_write_id m) = None"
proof (cases "validate_metadata m = Inr () \<and> scope_of m = (tenant, ns) \<and>
    lookup_scoped_write_id_seq s tenant ns (mut_write_id m) = None")
  case False
  then have "s' = s" "r = Inr n \<Longrightarrow> scope_of m = (tenant, ns) \<and> lookup_scoped_write_id_seq s tenant ns (mut_write_id m) = Some n" for n
    using assms(1) by (cases "validate_metadata m"; auto simp: append_mutation_def split: if_splits option.splits)+
  then show ?thesis using that(1) by simp
next
  case True
  obtain t s1 where 1: "server_world datetime_now s = (t, s1)" by fastforce
  then have same: "sv_oplog s1 = sv_oplog s" by (auto dest: server_world_same simp: server_same_def)
  let ?e = "\<lparr>entry_seq = 0, entry_timestamp = t, entry_mutation = m, entry_origin = Remote,
    entry_applied = False, entry_snapshot_anchor = None\<rparr>"
  obtain q l where q: "op_append L ?e (sv_oplog s) = (q, l)" by fastforce
  show ?thesis
  proof (cases q)
    case (Inl x)
    then have "sv_oplog s' = l"
      using assms(1) True 1 q same by (auto simp: append_mutation_def server_append_def)
    moreover have "r = Inl x"
      using assms(1) True 1 q same Inl by (auto simp: append_mutation_def server_append_def)
    ultimately show ?thesis using append_err_log [OF assms(2)] q Inl that(1) by simp
  next
    case (Inr n)
    then have "sv_oplog s' = l" "r = Inr n"
      using assms(1) True 1 q same by (auto simp: append_mutation_def server_append_def index_mutation_def split: if_splits)
    then show ?thesis using append_log [OF assms(2)] q Inr True that(2) [of "?e\<lparr>entry_seq := n\<rparr>"] by simp
  qed
qed

lemma persist_ok: "ok s \<Longrightarrow> ok (snd (persist_audit_evidence D L stage t n w d s))"
proof -
  let ?s = "snd (persist_audit_evidence D L stage t n w d s)"
  assume s: "ok s"
  then obtain es where "log_of (sv_oplog ?s) = log_of (sv_oplog s) @ es" "\<forall>e\<in>set es. audit_evidence e"
    using persist_extends [of s D stage t n w d] by (auto simp: server_extends_def server_ok_def)
  with s grows_indexed [OF persist_extends s] show ?thesis
    by (simp add: server_ok_def writes_once_audit audit_not_counted)
qed

lemma append_ok:
  assumes "append_mutation L m tenant ns s = (r, s')" "ok s"
  shows "ok s'"
proof -
  have s: "inv (sv_oplog s)" "indexed log_of s" "writes_once (log_of (sv_oplog s))"
    using assms(2) by (simp_all add: server_ok_def)
  have "writes_once (log_of (sv_oplog s'))"
  proof (rule append_mutation_log [OF assms(1) s(1)])
    assume "log_of (sv_oplog s') = log_of (sv_oplog s)"
    with s(3) show ?thesis by simp
  next
    fix e
    assume e: "log_of (sv_oplog s') = log_of (sv_oplog s) @ [e]" "entry_mutation e = m"
      "scope_of m = (tenant, ns)" "lookup_scoped_write_id_seq s tenant ns (mut_write_id m) = None"
    show ?thesis
      using s(3) e index_None [OF s(2)] by (simp add: writes_once_snoc write_key_scope)
  qed
  with grows_indexed [OF append_mutation_extends [OF assms(1)] assms(2), of "\<lambda>e. True"] show ?thesis
    by (simp add: server_ok_def)
qed

end

sublocale oplog_keeps < safe: server_relation D L tenant ns "\<lambda>s s'. server_ok inv log_of s \<longrightarrow> server_ok inv log_of s'"
  for D tenant ns
proof unfold_locales
  fix s t u :: "'o server_state" and stage t' n write_id d m r
  show "server_ok inv log_of s \<longrightarrow> server_ok inv log_of t" if "server_same s t"
    using that by (simp add: server_same_def server_ok_def indexed_def)
  show "server_ok inv log_of s \<longrightarrow> server_ok inv log_of (snd (persist_audit_evidence D L stage t' n write_id d s))"
    using persist_ok by blast
  show "server_ok inv log_of s \<longrightarrow> server_ok inv log_of t" if "append_mutation L m tenant ns s = (r, t)"
    using append_ok [OF that] by blast
qed blast

section \<open>Starting from a log\<close>

text \<open>A log whose numbers ascend from one to the latest, below the largest number.\<close>

definition numbered :: "'o oplog_vt \<Rightarrow> ('o \<Rightarrow> oplog_entry list) \<Rightarrow> 'o \<Rightarrow> bool" where
  "numbered L log_of lg \<longleftrightarrow> sorted_wrt (<) (map entry_seq (log_of lg)) \<and>
     (\<exists>latest. op_latest_seq L lg = Inr latest \<and> latest + 1 \<noteq> 0 \<and>
       (\<forall>e\<in>set (log_of lg). 0 < entry_seq e \<and> entry_seq e \<le> latest))"

lemma ascending_bounded_length:
  assumes "sorted_wrt (<) (map entry_seq es)" "\<forall>e\<in>set es. 0 < entry_seq e \<and> entry_seq e \<le> latest"
  shows "length es \<le> unat latest"
proof -
  let ?ns = "map (\<lambda>e. unat (entry_seq e)) es"
  have "sorted_wrt (<) ?ns"
    using assms(1) by (simp add: sorted_wrt_map word_less_nat_alt)
  then have "distinct ?ns" by (simp only: strict_sorted_iff)
  moreover have "set ?ns \<subseteq> {1..unat latest}"
    using assms(2) by (auto simp: word_less_nat_alt word_le_nat_alt Suc_le_eq)
  ultimately show ?thesis
    using card_mono [of "{1..unat latest}" "set ?ns"] distinct_card [of ?ns] by simp
qed

context oplog_keeps
begin

lemma build_indexes:
  assumes "inv lg" "numbered L log_of lg"
  shows "build_scoped_indexes L lg = index_entries (log_of lg) ([], [])"
proof -
  obtain latest where l: "op_latest_seq L lg = Inr latest" "latest + 1 \<noteq> 0"
      "\<forall>e\<in>set (log_of lg). 0 < entry_seq e \<and> entry_seq e \<le> latest"
    and asc: "sorted_wrt (<) (map entry_seq (log_of lg))"
    using assms(2) by (auto simp: numbered_def)
  have len: "length (log_of lg) \<le> unat latest" by (rule ascending_bounded_length [OF asc l(3)])
  show ?thesis
  proof (cases "latest = 0")
    case True
    with len l(1) show ?thesis by (simp add: build_scoped_indexes_def)
  next
    case False
    have more: "unat (latest + 1) = Suc (unat latest)" using l(2) by (simp add: unatSuc add.commute)
    have all: "filter (\<lambda>e. 1 \<le> entry_seq e) (log_of lg) = log_of lg"
      using l(3) by (simp add: filter_id_conv word_le_nat_alt word_less_nat_alt Suc_le_eq)
    have "op_read_since L lg 1 (unat (latest + 1)) = Inr (log_of lg)"
      using read_log [OF assms(1), of "unat (latest + 1)" 1] len by (simp add: more all)
    with False l(1) show ?thesis by (simp add: build_scoped_indexes_def)
  qed
qed

lemma start_ok:
  assumes "inv lg" "numbered L log_of lg" "writes_once (log_of lg)"
  shows "ok ((server_with_control_plane L lg cp w)\<lparr>sv_tokens := tokens\<rparr>)"
  using assms build_indexes [OF assms(1,2)]
  by (simp add: server_ok_def indexed_def server_with_control_plane_def split: prod.splits)

lemma serves_ok: "serves D L s t \<Longrightarrow> ok s \<Longrightarrow> ok t"
proof (induction rule: serves.induct)
  case (serves_step t q)
  obtain tenant ns where "request_scope t q = (tenant, ns)" by fastforce
  from safe.R_serve [OF this] serves_step show ?case by blast
qed

lemma restart_indexes:
  assumes "ok s" "numbered L log_of (sv_oplog s)"
  shows "sv_latest (server_with_control_plane L (sv_oplog s) cp w) = sv_latest s \<and>
    sv_write_ids (server_with_control_plane L (sv_oplog s) cp w) = sv_write_ids s"
  using assms build_indexes [of "sv_oplog s"]
  by (auto simp: server_ok_def indexed_def server_with_control_plane_def split: prod.splits)

text \<open>A write already in the log is answered with its number.\<close>

lemma append_again:
  assumes "ok s" "e \<in> set (log_of (sv_oplog s))" "counted e" "write_key (entry_mutation e) = write_key m"
    and "validate_metadata m = Inr ()" "scope_of m = (tenant, ns)"
  shows "append_mutation L m tenant ns s = (Inr (entry_seq e), s)"
proof -
  let ?es = "log_of (sv_oplog s)" and ?k = "(tenant, ns, mut_write_id m)"
  have s: "indexed log_of s" "writes_once ?es" using assms(1) by (simp_all add: server_ok_def)
  have k: "write_key m = ?k" by (rule write_key_scope [OF assms(6)])
  obtain xs ys where split: "?es = xs @ e # ys" using assms(2) by (meson split_list)
  have "\<forall>f\<in>set xs \<union> set ys. counted f \<longrightarrow> write_key (entry_mutation f) \<noteq> ?k"
    using s(2) assms(3,4) by (auto simp: writes_once_def split k comp_def image_iff)
  then have none: "filter (\<lambda>f. counted f \<and> write_key (entry_mutation f) = ?k) xs = []"
      "filter (\<lambda>f. counted f \<and> write_key (entry_mutation f) = ?k) ys = []"
    by (auto simp: filter_empty_conv)
  then have only: "filter (\<lambda>f. counted f \<and> write_key (entry_mutation f) = ?k) ?es = [e]"
    using assms(3,4) by (simp add: split k)
  have "sv_write_ids s = snd (index_entries ?es ([], []))"
    using s(1) by (metis indexed_def snd_conv)
  then have "lookup_scoped_write_id_seq s tenant ns (mut_write_id m) = Some (entry_seq e)"
    by (simp add: lookup_scoped_write_id_seq_def index_write_ids only)
  with assms(5,6) show ?thesis by (simp add: append_mutation_def)
qed

text \<open>A number that is returned is the number of an entry with the write.\<close>

lemma append_mutation_holds:
  assumes "append_mutation L m tenant ns s = (Inr n, s')" "ok s"
  shows "scope_of m = (tenant, ns) \<and> holds_write (log_of (sv_oplog s')) m n"
proof -
  have s: "inv (sv_oplog s)" "indexed log_of s" using assms(2) by (simp_all add: server_ok_def)
  show ?thesis
  proof (rule append_mutation_log [OF assms(1) s(1)])
    assume same: "log_of (sv_oplog s') = log_of (sv_oplog s)"
      and "\<And>k. (Inr n :: u64 result) = Inr k \<Longrightarrow> scope_of m = (tenant, ns) \<and> lookup_scoped_write_id_seq s tenant ns (mut_write_id m) = Some k"
    then have found: "scope_of m = (tenant, ns)" "al_get (sv_write_ids s) (write_key m) = Some n"
      by (auto simp: lookup_scoped_write_id_seq_def write_key_scope)
    obtain e where "e \<in> set (log_of (sv_oplog s))" "counted e" "write_key (entry_mutation e) = write_key m" "entry_seq e = n"
      by (rule index_Some [OF s(2) found(2)])
    with same found(1) show ?thesis by (auto simp: holds_write_def)
  next
    fix e
    assume "log_of (sv_oplog s') = log_of (sv_oplog s) @ [e]" "entry_mutation e = m" "Inr n = (Inr (entry_seq e) :: u64 result)"
      "scope_of m = (tenant, ns)"
    then show ?thesis by (auto simp: holds_write_def counted_def)
  qed
qed

text \<open>What is written stays in the scope of the request.\<close>

lemma serve_grows:
  "request_scope s q = (tenant, ns) \<Longrightarrow> grows (push_entry tenant ns) s (serve D L q s)"
  by (rule growth.R_serve)

end

section \<open>Properties\<close>

text \<open>
  C4: the server accepts each write once: from a start on a log without duplicate client writes,
  whatever requests arrive and whatever the hooks decide, the log never holds two client writes
  with the same tenant, namespace and write identifier, and the indexes are always those of the log.
\<close>

theorem requests_write_once:
  assumes "file_inv D K A lg" "numbered (file_oplog_vt D K A) (file_log D K A) lg" "writes_once (file_log D K A lg)"
    and "serves D (file_oplog_vt D K A)
      ((server_with_control_plane (file_oplog_vt D K A) lg cp w)\<lparr>sv_tokens := tokens\<rparr>) s"
  shows "writes_once (file_log D K A (sv_oplog s)) \<and> indexed (file_log D K A) s"
  using file_log.serves_ok [OF assms(4) file_log.start_ok [OF assms(1-3)]] by (simp add: server_ok_def)

lemma sample_log_start:
  "numbered (file_oplog_vt D (table_entry_codec es) tag_cipher) (file_log D (table_entry_codec es) tag_cipher) sample_log"
  "file_log D (table_entry_codec es) tag_cipher sample_log = []"
proof -
  show log: "file_log D (table_entry_codec es) tag_cipher sample_log = []"
    by (simp add: file_log_def sample_log_def map_filter_simps)
  show "numbered (file_oplog_vt D (table_entry_codec es) tag_cipher) (file_log D (table_entry_codec es) tag_cipher) sample_log"
    using log by (simp add: numbered_def file_latest_seq_def) (simp add: sample_log_def)
qed

definition sample_push :: server_request where
  "sample_push = PushReq
     (\<lambda>h. if h = ''X-Rango-Protocol-Version'' then Some ''1'' else if h = ''Authorization'' then Some ''Bearer k'' else None)
     \<lparr>pq_node_id = ''n'', pq_tenant_id = ''t'', pq_namespace = ''c'',
      pq_mutations = [sample_mutation, sample_mutation], pq_last_checkpoint = 0\<rparr>"

definition sample_tokens :: "(string \<times> auth_principal) list" where
  "sample_tokens = [(''k'', \<lparr>ap_node_id = ''n'', ap_tenant_id = ''t''\<rparr>)]"

abbreviation sample_vt :: "unit file_oplog oplog_vt" where
  "sample_vt \<equiv> file_oplog_vt sample_log_deps sample_codec tag_cipher"

abbreviation sample_server :: "unit file_oplog \<Rightarrow> unit file_oplog server_state" where
  "sample_server lg \<equiv> (server_with_control_plane sample_vt lg default_control_plane sample_world)\<lparr>sv_tokens := sample_tokens\<rparr>"

theorem requests_write_once_witness:
  "writes_once (file_log sample_log_deps sample_codec tag_cipher
     (sv_oplog (serve sample_log_deps sample_vt sample_push (sample_server sample_log))))"
  using requests_write_once [OF sample_log_inv sample_log_start(1) _ serves_step [OF serves_refl]]
  by (simp add: sample_log_start writes_once_def)

text \<open>
  A retried write is answered, not repeated: when the log already holds a client write of the
  same scope and write identifier, appending it again returns the number of that entry and leaves
  the whole state, log and indexes included, as it is.
\<close>

theorem retried_write_is_answered:
  assumes "server_ok (file_inv D K A) (file_log D K A) s"
    and "e \<in> set (file_log D K A (sv_oplog s))" "counted e" "write_key (entry_mutation e) = write_key m"
    and "validate_metadata m = Inr ()" "scope_of m = (tenant, ns)"
  shows "append_mutation (file_oplog_vt D K A) m tenant ns s = (Inr (entry_seq e), s)"
  by (rule file_log.append_again [OF assms])

lemma sample_log_one:
  obtains lg where "file_inv sample_log_deps sample_codec tag_cipher lg"
    "file_log sample_log_deps sample_codec tag_cipher lg = [sample_entry 1]"
    "numbered sample_vt (file_log sample_log_deps sample_codec tag_cipher) lg"
proof -
  obtain s where s: "file_append sample_log_deps sample_codec tag_cipher (sample_entry 0) sample_log = (Inr 1, s)"
    using sample_log_append by blast
  note ok = file_append_ok [OF sample_log_inv s]
  then have "file_inv sample_log_deps sample_codec tag_cipher s" "fo_next_seq s = 1"
    and log: "file_log sample_log_deps sample_codec tag_cipher s = [sample_entry 1]"
    by (simp_all add: sample_log_start)
  moreover from this have "numbered sample_vt (file_log sample_log_deps sample_codec tag_cipher) s"
    by (simp add: numbered_def file_latest_seq_def)
  ultimately show ?thesis using that by blast
qed

theorem retried_write_is_answered_witness:
  "\<exists>lg. append_mutation sample_vt sample_mutation ''t'' ''c'' (sample_server lg) = (Inr 1, sample_server lg) \<and>
     file_log sample_log_deps sample_codec tag_cipher lg = [sample_entry 1]"
proof (rule sample_log_one)
  fix lg
  assume lg: "file_inv sample_log_deps sample_codec tag_cipher lg"
    "file_log sample_log_deps sample_codec tag_cipher lg = [sample_entry 1]"
    "numbered sample_vt (file_log sample_log_deps sample_codec tag_cipher) lg"
  have "server_ok (file_inv sample_log_deps sample_codec tag_cipher) (file_log sample_log_deps sample_codec tag_cipher)
      (sample_server lg)"
    by (rule file_log.start_ok [OF lg(1,3)]) (simp add: lg(2) writes_once_def)
  moreover have "sv_oplog (sample_server lg) = lg" by simp
  moreover have "entry_mutation (sample_entry 1) = sample_mutation" by (simp add: sample_entry_def)
  then have "counted (sample_entry 1)" "write_key (entry_mutation (sample_entry 1)) = write_key sample_mutation"
    by (simp_all add: counted_def audit_collection_def) (simp add: sample_mutation_def)
  moreover have "validate_metadata sample_mutation = Inr ()" "scope_of sample_mutation = (''t'', ''c'')"
    by (simp_all add: sample_mutation_def scope_of_def validate_metadata_def validate_mutation_metadata_def)
  ultimately have "append_mutation sample_vt sample_mutation ''t'' ''c'' (sample_server lg) =
      (Inr (entry_seq (sample_entry 1)), sample_server lg)"
    using retried_write_is_answered [where e = "sample_entry 1" and s = "sample_server lg" and m = sample_mutation] lg(2)
    by simp
  with lg(2) show ?thesis by auto
qed

text \<open>
  C6: a request writes only its own scope: the log only grows, and each entry a request adds is the
  server's own audit evidence or a valid mutation of the tenant of the token and the namespace of the
  request; a request without a valid token changes nothing at all.
\<close>

theorem requests_stay_in_scope:
  assumes "file_inv D K A (sv_oplog s)"
  shows "(\<exists>es. file_log D K A (sv_oplog (serve D (file_oplog_vt D K A) q s)) = file_log D K A (sv_oplog s) @ es \<and>
      (\<forall>e\<in>set es. audit_evidence e \<or> scoped_write (fst (request_scope s q)) (snd (request_scope s q)) e)) \<and>
    (request_principal s q = None \<longrightarrow> serve D (file_oplog_vt D K A) q s = s)"
proof (rule conjI)
  from file_log.serve_grows [of s q "fst (request_scope s q)" "snd (request_scope s q)" D K A D] assms
  show "\<exists>es. file_log D K A (sv_oplog (serve D (file_oplog_vt D K A) q s)) = file_log D K A (sv_oplog s) @ es \<and>
      (\<forall>e\<in>set es. audit_evidence e \<or> scoped_write (fst (request_scope s q)) (snd (request_scope s q)) e)"
    by (auto simp: server_extends_def push_entry_def)
  show "request_principal s q = None \<longrightarrow> serve D (file_oplog_vt D K A) q s = s"
    using serve_unauthenticated by blast
qed

theorem requests_stay_in_scope_witness:
  "(\<exists>es. file_log sample_log_deps sample_codec tag_cipher
       (sv_oplog (serve sample_log_deps sample_vt sample_push (sample_server sample_log))) = es \<and>
     (\<forall>e\<in>set es. audit_evidence e \<or> scoped_write ''t'' ''c'' e)) \<and>
   serve sample_log_deps sample_vt sample_push ((sample_server sample_log)\<lparr>sv_tokens := []\<rparr>) =
     (sample_server sample_log)\<lparr>sv_tokens := []\<rparr>"
proof -
  have scope: "request_scope (sample_server sample_log) sample_push = (''t'', ''c'')"
    by (simp add: request_scope_def request_principal_def sample_push_def validate_token_def sample_tokens_def
        strip_prefix_def starts_with_def)
  have none: "request_principal ((sample_server sample_log)\<lparr>sv_tokens := []\<rparr>) sample_push = None"
    by (simp add: request_principal_def sample_push_def validate_token_def bind_eq_None_conv)
  show ?thesis
    using requests_stay_in_scope [of sample_log_deps sample_codec tag_cipher "sample_server sample_log" sample_push]
      requests_stay_in_scope [of sample_log_deps sample_codec tag_cipher "(sample_server sample_log)\<lparr>sv_tokens := []\<rparr>"
        sample_push] sample_log_inv none
    by (simp add: scope sample_log_start)
qed

text \<open>
  A restart loses no write: after any requests, a server started on the log that the previous
  one leaves builds the same indexes by scope, the latest numbers and the numbers of the accepted
  writes, so retries after a restart are still answered.
\<close>

theorem restart_rebuilds_indexes:
  assumes "file_inv D K A lg" "numbered (file_oplog_vt D K A) (file_log D K A) lg" "writes_once (file_log D K A lg)"
    and "serves D (file_oplog_vt D K A)
      ((server_with_control_plane (file_oplog_vt D K A) lg cp w)\<lparr>sv_tokens := tokens\<rparr>) s"
    and "numbered (file_oplog_vt D K A) (file_log D K A) (sv_oplog s)"
  shows "sv_latest (server_new (file_oplog_vt D K A) (sv_oplog s) w') = sv_latest s \<and>
    sv_write_ids (server_new (file_oplog_vt D K A) (sv_oplog s) w') = sv_write_ids s"
  unfolding server_new_def
  by (rule file_log.restart_indexes [OF file_log.serves_ok [OF assms(4) file_log.start_ok [OF assms(1-3)]] assms(5)])

theorem restart_rebuilds_indexes_witness:
  "\<exists>lg. file_log sample_log_deps sample_codec tag_cipher lg = [sample_entry 1] \<and>
     sv_latest (server_new sample_vt lg sample_world) = sv_latest (sample_server lg)"
proof (rule sample_log_one)
  fix lg
  assume lg: "file_inv sample_log_deps sample_codec tag_cipher lg"
    "file_log sample_log_deps sample_codec tag_cipher lg = [sample_entry 1]"
    "numbered sample_vt (file_log sample_log_deps sample_codec tag_cipher) lg"
  have "sv_oplog (sample_server lg) = lg" by simp
  with restart_rebuilds_indexes [OF lg(1,3) _ serves_refl, where cp = default_control_plane and w = sample_world and tokens = sample_tokens and w' = sample_world] lg
  have "sv_latest (server_new sample_vt lg sample_world) = sv_latest (sample_server lg)"
    by (simp add: writes_once_def)
  with lg(2) show ?thesis by blast
qed

end
