(* ===== verification/Rango_Server_Limits.thy ===== *)
theory Rango_Server_Limits
  imports Rango_Server_Log
begin

text \<open>
  What the server answers and how much: the isolation of pulls, what the checkpoint of a pull passes
  over, how rejected requests contain the scope they name, and the bound of the rate limiter.
\<close>

section \<open>Pulls\<close>

lemma set_pull_loop:
  "m \<in> set (pull_loop tier es counts) \<Longrightarrow>
     \<exists>e\<in>set es. m = annotate_mutation_for_read_tier (entry_mutation e) tier \<and> mut_patch (entry_mutation e) \<noteq> None"
  by (induction es arbitrary: counts) (auto simp: Let_def split: if_splits option.splits)

lemma length_pull_loop: "length (pull_loop tier es counts) \<le> length es"
  by (induction es arbitrary: counts) (auto simp: Let_def split: option.splits intro: le_SucI)

text \<open>A pull with mutations passed every check and read at most a thousand entries.\<close>

lemma process_pull_mutations:
  assumes "process_pull D L req who tier s = (Inr resp, s')" "ls_mutations resp \<noteq> []"
  obtains entries counts where "ap_node_id who = lq_node_id req" "ap_tenant_id who = lq_tenant_id req"
    "op_read_since L (sv_oplog s) (lq_since_checkpoint req + 1) 1000 = Inr entries"
    "ls_mutations resp = pull_loop tier (filter (in_scope (lq_tenant_id req) (lq_namespace req) tier) entries) counts"
  using assms
  by (auto simp: process_pull_def Let_def split: if_splits sum.splits prod.splits)

lemma process_pull_checkpoint:
  "process_pull D L req who tier s = (Inr resp, s') \<Longrightarrow>
     ls_new_checkpoint resp = scoped_latest_checkpoint s' (lq_tenant_id req) (lq_namespace req)"
  by (auto simp: process_pull_def Let_def split: if_splits sum.splits prod.splits)

lemma index_latest_mono:
  "al_get (fst idx) sc = Some n \<Longrightarrow> \<exists>k. al_get (fst (index_entries es idx)) sc = Some k \<and> n \<le> k"
proof (induction es idx arbitrary: n rule: index_entries.induct)
  case (2 e es latest ids)
  show ?case
  proof (cases "mut_collection (entry_mutation e) = audit_collection")
    case True
    with 2 show ?thesis by simp
  next
    case False
    have "\<exists>k. al_get (raise_latest (entry_seq e) (scope_of (entry_mutation e)) latest) sc = Some k \<and> n \<le> k"
      using 2(3) by (auto simp: raise_latest_def)
    with False 2(2) show ?thesis by (force intro: order_trans)
  qed
qed simp

lemma index_latest:
  "e \<in> set es \<Longrightarrow> counted e \<Longrightarrow>
     \<exists>k. al_get (fst (index_entries es idx)) (scope_of (entry_mutation e)) = Some k \<and> entry_seq e \<le> k"
proof (induction es idx rule: index_entries.induct)
  case (2 f es latest ids)
  have e: "e = f \<or> e \<in> set es" "counted e" using 2(3,4) by auto
  show ?case
  proof (cases "e = f")
    case True
    with e(2) have "index_entries (f # es) (latest, ids) =
        index_entries es (raise_latest (entry_seq e) (scope_of (entry_mutation e)) latest,
          put_write_id (entry_seq e) (entry_mutation e) ids)" by (simp add: counted_def)
    moreover have "\<exists>n. al_get (raise_latest (entry_seq e) (scope_of (entry_mutation e)) latest)
        (scope_of (entry_mutation e)) = Some n \<and> entry_seq e \<le> n"
      by (auto simp: raise_latest_def split: option.splits)
    then obtain n where n: "al_get (fst (raise_latest (entry_seq e) (scope_of (entry_mutation e)) latest,
        put_write_id (entry_seq e) (entry_mutation e) ids)) (scope_of (entry_mutation e)) = Some n" "entry_seq e \<le> n"
      by auto
    from index_latest_mono [OF n(1), of es] obtain k where "al_get (fst (index_entries es
        (raise_latest (entry_seq e) (scope_of (entry_mutation e)) latest,
          put_write_id (entry_seq e) (entry_mutation e) ids))) (scope_of (entry_mutation e)) = Some k" "n \<le> k"
      by blast
    ultimately show ?thesis using n(2) order_trans by metis
  next
    case False
    with e have es: "e \<in> set es" by blast
    show ?thesis
    proof (cases "mut_collection (entry_mutation f) = audit_collection")
      case True
      from 2(1) [OF True es e(2)] True show ?thesis by simp
    next
      case False
      from 2(2) [OF False es e(2)] False show ?thesis by simp
    qed
  qed
qed simp

lemma indexed_latest:
  assumes "indexed log_of s" "e \<in> set (log_of (sv_oplog s))" "counted e" "scope_of (entry_mutation e) = (tenant, ns)"
  shows "entry_seq e \<le> scoped_latest_checkpoint s tenant ns"
proof -
  have "sv_latest s = fst (index_entries (log_of (sv_oplog s)) ([], []))"
    using assms(1) by (metis indexed_def fst_conv)
  then obtain k where "al_get (sv_latest s) (tenant, ns) = Some k" "entry_seq e \<le> k"
    using index_latest [OF assms(2,3), of "([], [])"] assms(4) by auto
  then show ?thesis
    by (auto simp: scoped_latest_checkpoint_def scoped_latest_seq_def unwrap_or_def Let_def checkpoint_initial_def)
qed

section \<open>Containment\<close>

lemma fresh_gate: "al_get (sv_containment s) (tenant, ns) = None \<Longrightarrow> fst (containment_gate tenant ns s) = None"
  by (auto simp: containment_gate_def containment_entry_def containment_default_def maybe_reset_after_cooldown_def
      server_world_def split: prod.splits)

lemma server_world_containment: "server_world f s = (x, s') \<Longrightarrow> sv_containment s' = sv_containment s"
  by (auto simp: server_world_def split: prod.splits)

lemma persist_containment [simp]:
  "sv_containment (snd (persist_audit_evidence D L stage tenant ns w d s)) = sv_containment s"
  by (auto simp: persist_audit_evidence_def bind_op_def lift_op_def server_append_def index_mutation_def Let_def
      dest!: server_world_containment split: prod.splits sum.splits)

definition rejects_of :: "scope \<Rightarrow> 'o server_state \<Rightarrow> u32" where
  "rejects_of sc s = (case al_get (sv_containment s) sc of Some c \<Rightarrow> cs_reject_count c | None \<Rightarrow> 0)"

text \<open>Reading the clocks of the world leaves the instants it will give.\<close>

lemma clock_instants:
  "datetime_now w = (x, w') \<Longrightarrow> w_instants w' = w_instants w"
  "document_id_new_uuid_v7 w = (y, w') \<Longrightarrow> w_instants w' = w_instants w"
  "revision_now D node w = (z, w') \<Longrightarrow> w_instants w' = w_instants w"
  by (auto simp: datetime_now_def document_id_new_uuid_v7_def uuid_now_v7_def revision_now_def unix_now_def
      fetch_add_counter_def Let_def split: prod.splits)

lemma server_world_instants:
  "server_world datetime_now s = (x, s') \<Longrightarrow> w_instants (sv_world s') = w_instants (sv_world s)"
  "server_world document_id_new_uuid_v7 s = (y, s') \<Longrightarrow> w_instants (sv_world s') = w_instants (sv_world s)"
  "server_world (revision_now D node) s = (z, s') \<Longrightarrow> w_instants (sv_world s') = w_instants (sv_world s)"
  by (auto simp: server_world_def dest: clock_instants split: prod.splits)

lemma persist_instants [simp]:
  "w_instants (sv_world (snd (persist_audit_evidence D L stage tenant ns w d s))) = w_instants (sv_world s)"
  by (auto simp: persist_audit_evidence_def bind_op_def lift_op_def server_append_def index_mutation_def Let_def
      dest!: server_world_instants split: prod.splits sum.splits)

text \<open>Registering a decision reads the clock last, and once.\<close>

definition contained :: "scope \<Rightarrow> u32 \<Rightarrow> 'o server_state \<Rightarrow> 'o server_state \<Rightarrow> bool" where
  "contained sc n s t \<longleftrightarrow> w_instants (sv_world t) = w_instants (sv_world s) \<and>
     (\<exists>c k. al_get (sv_containment t) sc = Some c \<and> cs_reject_count c = n \<and>
       (reject_threshold \<le> n \<longrightarrow> cs_mode c = RejectMode) \<and> cs_last_event c = w_instants (sv_world s) k \<and>
       fst (instant_now (sv_world t)) = w_instants (sv_world s) (Suc k))"

lemma register_contains:
  assumes "gd_decision d = Reject" "rejects_of (tenant, ns) s = n"
  shows "contained (tenant, ns) (n + 1) s (register_decision_outcome tenant ns d s)"
  using assms
  by (auto simp: contained_def register_decision_outcome_def containment_entry_def containment_default_def
      observe_decision_def rejects_of_def server_world_def instant_now_def Let_def split: prod.splits option.splits)

section \<open>Rate limit\<close>

fun rate_run :: "nat list \<Rightarrow> rate_limiter \<Rightarrow> bool list" where
  "rate_run [] r = []"
| "rate_run (now # ts) r = (case rate_check now r of (admitted, r) \<Rightarrow> admitted # rate_run ts r)"

definition admitted_in :: "nat list \<Rightarrow> rate_limiter \<Rightarrow> nat" where
  "admitted_in ts r = length (filter id (rate_run ts r))"

lemma admitted_in_simps [simp]:
  "admitted_in [] r = 0"
  "admitted_in (now # ts) r = (case rate_check now r of (ok, r) \<Rightarrow> (if ok then 1 else 0) + admitted_in ts r)"
  by (simp_all add: admitted_in_def split: prod.splits)

text \<open>Within one window, and across at most one change of window.\<close>

lemma rate_check_same:
  assumes "now - rl_window_start r < 1000000"
  shows "rate_check now r =
    (if rl_count r < rl_burst r then (True, r\<lparr>rl_count := rl_count r + 1\<rparr>) else (False, r))"
  using assms by (simp add: rate_check_def Let_def)

lemma rate_check_reset:
  assumes "1000000 \<le> now - rl_window_start r"
  shows "rate_check now r = rate_check now (r\<lparr>rl_window_start := now, rl_count := 0\<rparr>)"
  using assms by (simp add: rate_check_def Let_def)

lemma unat_count_less:
  assumes "(n :: u32) < b"
  shows "unat (n + 1) = Suc (unat n) \<and> n + 1 \<le> b"
proof -
  have "unat b < 2 ^ 32" by (rule order_less_le_trans [OF unsigned_less]) simp
  moreover have "unat n < unat b" using assms by (simp add: word_less_nat_alt)
  ultimately have "unat (n + 1) = Suc (unat n)" by (simp add: unat_word_ariths)
  with \<open>unat n < unat b\<close> show ?thesis by (simp add: word_le_nat_alt)
qed

lemma admitted_one_window:
  "rl_count r \<le> rl_burst r \<Longrightarrow> \<forall>t\<in>set ts. t - rl_window_start r < 1000000 \<Longrightarrow>
     unat (rl_count r) + admitted_in ts r \<le> unat (rl_burst r)"
proof (induction ts arbitrary: r)
  case (Cons t ts)
  have same: "t - rl_window_start r < 1000000" using Cons.prems by simp
  show ?case
  proof (cases "rl_count r < rl_burst r")
    case True
    with Cons.IH [of "r\<lparr>rl_count := rl_count r + 1\<rparr>"] Cons.prems unat_count_less [OF True] show ?thesis
      by (simp add: rate_check_same [OF same])
  next
    case False
    with Cons.IH [of r] Cons.prems show ?thesis by (simp add: rate_check_same [OF same])
  qed
qed (simp add: word_le_nat_alt)

lemma admitted_two_windows:
  "rl_count r \<le> rl_burst r \<Longrightarrow> \<forall>t\<in>set ts. a \<le> t \<and> t < a + 1000000 \<Longrightarrow>
     unat (rl_count r) + admitted_in ts r \<le> 2 * unat (rl_burst r)"
proof (induction ts arbitrary: r)
  case (Cons t ts)
  show ?case
  proof (cases "1000000 \<le> t - rl_window_start r")
    case True
    let ?r = "r\<lparr>rl_window_start := t, rl_count := 0\<rparr>"
    have "\<forall>u\<in>set (t # ts). u - rl_window_start ?r < 1000000"
      using Cons.prems by auto
    then have "unat (rl_count ?r) + admitted_in (t # ts) ?r \<le> unat (rl_burst ?r)"
      by (intro admitted_one_window) simp_all
    moreover have "admitted_in (t # ts) r = admitted_in (t # ts) ?r"
      by (simp only: admitted_in_simps rate_check_reset [OF True])
    moreover have "unat (rl_count r) \<le> unat (rl_burst r)" using Cons.prems(1) by (simp only: word_le_nat_alt)
    ultimately show ?thesis by simp
  next
    case False
    then have same: "t - rl_window_start r < 1000000" by simp
    show ?thesis
    proof (cases "rl_count r < rl_burst r")
      case True
      with Cons.IH [of "r\<lparr>rl_count := rl_count r + 1\<rparr>"] Cons.prems unat_count_less [OF True] show ?thesis
        by (simp add: rate_check_same [OF same])
    next
      case False
      with Cons.IH [of r] Cons.prems show ?thesis by (simp add: rate_check_same [OF same])
    qed
  qed
qed (simp add: word_le_nat_alt)

section \<open>Properties\<close>

text \<open>
  C15: pulls stay in the caller's scope: every mutation of a reply is, up to the annotation of its
  tier, that of a log entry past the requested checkpoint with the caller's own tenant and namespace,
  never audit evidence, whatever the retrieval hooks return; a reply has at most a thousand.
\<close>

theorem pulls_stay_in_scope:
  assumes "file_inv D K A (sv_oplog s)"
    and "process_pull D (file_oplog_vt D K A) req who tier s = (Inr resp, s')"
  shows "length (ls_mutations resp) \<le> 1000 \<and>
    (\<forall>m\<in>set (ls_mutations resp). lq_tenant_id req = ap_tenant_id who \<and>
      (\<exists>e\<in>set (file_log D K A (sv_oplog s)). lq_since_checkpoint req + 1 \<le> entry_seq e \<and>
        scope_of (entry_mutation e) = (ap_tenant_id who, lq_namespace req) \<and>
        md_type (mut_metadata (entry_mutation e)) \<noteq> ''governance_audit'' \<and>
        m = annotate_mutation_for_read_tier (entry_mutation e) tier))"
proof (cases "ls_mutations resp = []")
  case False
  from assms(2) False obtain entries counts where *: "ap_tenant_id who = lq_tenant_id req"
    "op_read_since (file_oplog_vt D K A) (sv_oplog s) (lq_since_checkpoint req + 1) 1000 = Inr entries"
    "ls_mutations resp = pull_loop tier (filter (in_scope (lq_tenant_id req) (lq_namespace req) tier) entries) counts"
    by (rule process_pull_mutations)
  then have entries: "entries =
      take 1000 (filter (\<lambda>e. lq_since_checkpoint req + 1 \<le> entry_seq e) (file_log D K A (sv_oplog s)))"
    using file_log.read_log [OF assms(1), of 1000] by simp
  have "length (ls_mutations resp) \<le> length entries"
    unfolding *(3) by (rule le_trans [OF length_pull_loop length_filter_le])
  moreover have "length entries \<le> 1000" by (simp add: entries)
  moreover have "\<exists>e\<in>set (file_log D K A (sv_oplog s)). lq_since_checkpoint req + 1 \<le> entry_seq e \<and>
        scope_of (entry_mutation e) = (ap_tenant_id who, lq_namespace req) \<and>
        md_type (mut_metadata (entry_mutation e)) \<noteq> ''governance_audit'' \<and>
        m = annotate_mutation_for_read_tier (entry_mutation e) tier" if m: "m \<in> set (ls_mutations resp)" for m
  proof -
    obtain e where "e \<in> set entries" "in_scope (lq_tenant_id req) (lq_namespace req) tier e"
      "m = annotate_mutation_for_read_tier (entry_mutation e) tier"
      using set_pull_loop [OF m [unfolded *(3)]] by auto
    with *(1) show ?thesis by (auto simp: entries in_scope_def scope_of_def dest!: in_set_takeD)
  qed
  ultimately show ?thesis using *(1) by simp
qed simp

text \<open>The pull of a log that holds one visible write.\<close>

definition sample_pull :: pull_request where
  "sample_pull = \<lparr>lq_node_id = ''n'', lq_tenant_id = ''t'', lq_namespace = ''c'', lq_since_checkpoint = 0\<rparr>"

lemma sample_pull_reply:
  assumes "file_inv sample_log_deps sample_codec tag_cipher lg"
    "file_log sample_log_deps sample_codec tag_cipher lg = [sample_entry 1]"
  shows "\<exists>resp s'. process_pull sample_log_deps sample_vt sample_pull \<lparr>ap_node_id = ''n'', ap_tenant_id = ''t''\<rparr> State
      (sample_server lg) = (Inr resp, s') \<and> ls_mutations resp = [sample_mutation]"
proof -
  have read: "file_read_since sample_log_deps sample_codec tag_cipher lg 1 1000 = Inr [sample_entry 1]"
    using file_log.read_log [OF assms(1), of 1000 1] by (simp add: assms(2))
  have m: "entry_mutation (sample_entry n) = sample_mutation" for n by (simp add: sample_entry_def)
  have sc: "in_scope ''t'' ''c'' State (sample_entry 1)"
    by (simp add: in_scope_def m mutation_visible_for_tier_def) (simp add: sample_mutation_def)
  obtain d where d: "add_candidate_identity (sample_entry 1) = Some d" "candidate_identity d = Some (1, ''w'')"
    by (simp add: add_candidate_identity_def m) (simp add: m sample_mutation_def candidate_identity_def get_as_def
      identity_seq_field_def identity_write_id_field_def)
  have loop: "pull_loop State [sample_entry 1] (identity_counts [d] []) = [sample_mutation]"
    by (simp add: d m annotate_mutation_for_read_tier_def)
      (simp add: m annotate_mutation_for_read_tier_def sample_mutation_def)
  define s where "s = sample_server lg"
  have s: "sv_oplog s = lg" "sv_control_plane s = default_control_plane" "sv_containment s = []"
    by (simp_all add: s_def server_with_control_plane_def split: prod.splits)
  let ?tr = "emit ''read.gate'' \<lparr>gd_decision = Allow, gd_reason = ''retrieval_allowed''\<rparr>"
  have path: "read_path default_control_plane
      \<lparr>rr_tenant_id = ''t'', rr_namespace = ''c'', rr_tier = State, rr_limit = 1000\<rparr> [d] =
      (Inr (\<lparr>gd_decision = Allow, gd_reason = ''retrieval_allowed''\<rparr>, [d]), ?tr)"
    by (simp add: read_path_def validate_read_request_def default_control_plane_def noop_retrieval_allow_def
      noop_bounded_context_def Let_def)
  have "fst (containment_gate ''t'' ''c'' (signals ?tr s)) = None"
    by (rule fresh_gate) (simp add: signals_def s)
  then obtain u where gate: "containment_gate ''t'' ''c'' (signals ?tr s) = (None, u)"
    by (metis fst_conv surj_pair)
  show ?thesis
    unfolding s_def [symmetric]
    by (simp add: process_pull_def sample_pull_def read sc d loop path s gate unwrap_or_def is_reject_def
      map_filter_simps Let_def del: pull_loop.simps identity_counts.simps)
qed

theorem pulls_stay_in_scope_witness:
  "\<exists>lg resp s'. process_pull sample_log_deps sample_vt sample_pull \<lparr>ap_node_id = ''n'', ap_tenant_id = ''t''\<rparr> State
      (sample_server lg) = (Inr resp, s') \<and> ls_mutations resp = [sample_mutation] \<and>
    (\<exists>e\<in>set (file_log sample_log_deps sample_codec tag_cipher lg). scope_of (entry_mutation e) = (''t'', ''c''))"
proof (rule sample_log_one)
  fix lg
  assume lg: "file_inv sample_log_deps sample_codec tag_cipher lg"
    "file_log sample_log_deps sample_codec tag_cipher lg = [sample_entry 1]"
  from sample_pull_reply [OF this] obtain resp s' where *: "process_pull sample_log_deps sample_vt sample_pull
      \<lparr>ap_node_id = ''n'', ap_tenant_id = ''t''\<rparr> State (sample_server lg) = (Inr resp, s')"
      "ls_mutations resp = [sample_mutation]" by blast
  from pulls_stay_in_scope [OF _ *(1)] lg(1) *(2) * show ?thesis by (fastforce simp: sample_pull_def)
qed

text \<open>
  The checkpoint of a pull passes entries the reply leaves out: it is at least the number of every
  write of the scope in the log, while mutations without a patch, as deletes are, and those behind the
  first thousand entries are never in the reply; a client that continues from it never receives them.
\<close>

theorem pull_checkpoint_passes_deletes:
  assumes "server_ok (file_inv D K A) (file_log D K A) s"
    and "process_pull D (file_oplog_vt D K A) req who tier s = (Inr resp, s')"
  shows "(\<forall>e\<in>set (file_log D K A (sv_oplog s)). counted e \<and>
      scope_of (entry_mutation e) = (lq_tenant_id req, lq_namespace req) \<longrightarrow> entry_seq e \<le> ls_new_checkpoint resp) \<and>
    (\<forall>m\<in>set (ls_mutations resp). mut_patch m \<noteq> None)"
proof (intro conjI ballI impI)
  fix e
  assume e: "e \<in> set (file_log D K A (sv_oplog s))"
    "counted e \<and> scope_of (entry_mutation e) = (lq_tenant_id req, lq_namespace req)"
  have "indexed (file_log D K A) s'"
    using file_log.safe.R_pull [OF assms(2)] assms(1) by (simp add: server_ok_def)
  moreover have "e \<in> set (file_log D K A (sv_oplog s'))"
    using file_log.growth.R_pull [OF assms(2), of "[]" "[]"] assms(1) e(1)
    by (auto simp: server_extends_def server_ok_def)
  ultimately show "entry_seq e \<le> ls_new_checkpoint resp"
    using e(2) indexed_latest [of "file_log D K A" s' e] by (simp add: process_pull_checkpoint [OF assms(2)])
next
  fix m
  assume m: "m \<in> set (ls_mutations resp)"
  then have "ls_mutations resp \<noteq> []" by auto
  with assms(2) obtain entries counts where "ls_mutations resp =
      pull_loop tier (filter (in_scope (lq_tenant_id req) (lq_namespace req) tier) entries) counts"
    by (rule process_pull_mutations)
  with m show "mut_patch m \<noteq> None"
    by (auto simp: annotate_mutation_for_read_tier_def dest!: set_pull_loop)
qed

theorem pull_checkpoint_passes_deletes_witness:
  "\<exists>lg resp s'. process_pull sample_log_deps sample_vt sample_pull \<lparr>ap_node_id = ''n'', ap_tenant_id = ''t''\<rparr> State
      (sample_server lg) = (Inr resp, s') \<and> ls_mutations resp = [sample_mutation] \<and> 1 \<le> ls_new_checkpoint resp"
proof (rule sample_log_one)
  fix lg
  assume lg: "file_inv sample_log_deps sample_codec tag_cipher lg"
    "file_log sample_log_deps sample_codec tag_cipher lg = [sample_entry 1]"
    "numbered sample_vt (file_log sample_log_deps sample_codec tag_cipher) lg"
  from sample_pull_reply [OF this(1,2)] obtain resp s' where *: "process_pull sample_log_deps sample_vt sample_pull
      \<lparr>ap_node_id = ''n'', ap_tenant_id = ''t''\<rparr> State (sample_server lg) = (Inr resp, s')"
      "ls_mutations resp = [sample_mutation]" by blast
  have "server_ok (file_inv sample_log_deps sample_codec tag_cipher) (file_log sample_log_deps sample_codec tag_cipher)
      (sample_server lg)"
    by (rule file_log.start_ok [OF lg(1,3)]) (simp add: lg(2) writes_once_def)
  moreover have "entry_mutation (sample_entry 1) = sample_mutation" by (simp add: sample_entry_def)
  then have "counted (sample_entry 1)" "scope_of (entry_mutation (sample_entry 1)) = (''t'', ''c'')"
    by (simp_all add: counted_def audit_collection_def) (simp_all add: sample_mutation_def scope_of_def)
  ultimately have "1 \<le> ls_new_checkpoint resp"
    using pull_checkpoint_passes_deletes [OF _ *(1)] lg(2) by (auto simp: sample_pull_def)
  with * show ?thesis by blast
qed

text \<open>
  C38: rejected pushes contain the scope they name: five pushes of another tenant's or node's caller
  that name a scope put that scope into reject mode, so the next push of its rightful owner, made
  before the cooldown has passed, is refused although nothing in it is wrong.
\<close>

fun foreign_pushes :: "nat \<Rightarrow> deps \<Rightarrow> 'o oplog_vt \<Rightarrow> push_request \<Rightarrow> auth_principal \<Rightarrow> 'o server_state \<Rightarrow>
    'o server_state" where
  "foreign_pushes 0 D L req who s = s"
| "foreign_pushes (Suc n) D L req who s = snd (process_push D L req who (foreign_pushes n D L req who s))"

lemma foreign_push_contains:
  assumes "pq_node_id req \<noteq> ap_node_id who \<or> pq_tenant_id req \<noteq> ap_tenant_id who"
  shows "contained (pq_tenant_id req, pq_namespace req) (rejects_of (pq_tenant_id req, pq_namespace req) s + 1) s
    (snd (process_push D L req who s))"
proof -
  let ?t = "pq_tenant_id req" and ?n = "pq_namespace req"
  have noted: "contained (?t, ?n) (rejects_of (?t, ?n) s + 1) s (note_decision D L st ?t ?n w (reject_decision r) u)"
    if "sv_containment u = sv_containment s" "sv_world u = sv_world s" for st w r u
  proof -
    let ?u = "snd (persist_audit_evidence D L st ?t ?n w (reject_decision r) u)"
    have "rejects_of (?t, ?n) ?u = rejects_of (?t, ?n) s" using that(1) by (simp add: rejects_of_def)
    from register_contains [OF reject_decision_simps(1) this, of r] that(2) show ?thesis
      by (simp add: contained_def note_decision_def)
  qed
  show ?thesis
    using assms noted [of "count_non_owner s"] noted [of "count_cross_tenant s"]
    by (auto simp: process_push_def Let_def count_non_owner_def count_cross_tenant_def)
qed

lemma foreign_pushes_count:
  assumes "pq_node_id req \<noteq> ap_node_id who \<or> pq_tenant_id req \<noteq> ap_tenant_id who"
  shows "rejects_of (pq_tenant_id req, pq_namespace req) (foreign_pushes n D L req who s) =
      rejects_of (pq_tenant_id req, pq_namespace req) s + of_nat n \<and>
    w_instants (sv_world (foreign_pushes n D L req who s)) = w_instants (sv_world s)"
proof (induction n)
  case (Suc n)
  with foreign_push_contains [OF assms, of "foreign_pushes n D L req who s" D L] show ?case
    by (auto simp: contained_def rejects_of_def [of _ "snd _"] algebra_simps)
qed simp

theorem foreign_pushes_contain_scope:
  assumes foreign: "pq_node_id req \<noteq> ap_node_id who \<or> pq_tenant_id req \<noteq> ap_tenant_id who"
    and fresh: "al_get (sv_containment s) (pq_tenant_id req, pq_namespace req) = None"
    and clock: "\<forall>k. w_instants (sv_world s) (Suc k) - w_instants (sv_world s) k < cooldown"
    and owner: "ap_tenant_id owner = pq_tenant_id req"
  shows "\<exists>resp u. process_push D L \<lparr>pq_node_id = ap_node_id owner, pq_tenant_id = ap_tenant_id owner,
      pq_namespace = pq_namespace req, pq_mutations = [m], pq_last_checkpoint = ck\<rparr> owner
      (foreign_pushes 5 D L req who s) = (Inr resp, u) \<and>
    ps_accepted_seqs resp = [] \<and> ps_audit resp = [reject_decision ''containment_reject'']"
proof -
  let ?sc = "(pq_tenant_id req, pq_namespace req)"
  let ?t4 = "foreign_pushes 4 D L req who s" and ?t = "foreign_pushes 5 D L req who s"
  have t: "?t = snd (process_push D L req who ?t4)"
    by (simp add: numeral_eq_Suc)
  have four: "rejects_of ?sc ?t4 = 4" "w_instants (sv_world ?t4) = w_instants (sv_world s)"
    using foreign_pushes_count [OF foreign, of 4 D L s] fresh by (simp_all add: rejects_of_def [of _ s])
  obtain c k where c: "al_get (sv_containment ?t) ?sc = Some c" "cs_mode c = RejectMode"
    "cs_last_event c = w_instants (sv_world s) k" "fst (instant_now (sv_world ?t)) = w_instants (sv_world s) (Suc k)"
    using foreign_push_contains [OF foreign, of ?t4 D L]
    unfolding t [symmetric] by (auto simp: contained_def four reject_threshold_def)
  have "fst (instant_now (sv_world ?t)) - cs_last_event c < cooldown"
    using clock c(3,4) by simp
  then have "\<exists>u. containment_gate (pq_tenant_id req) (pq_namespace req) ?t =
      (Some (reject_decision ''containment_reject''), u)"
    using c(1,2)
    by (auto simp: containment_gate_def containment_entry_def server_world_def maybe_reset_after_cooldown_def
        split: prod.splits)
  with owner show ?thesis by (auto simp: process_push_def Let_def)
qed

theorem foreign_pushes_contain_scope_witness:
  "\<exists>resp u. process_push (sample_deps []) null_oplog_vt
      \<lparr>pq_node_id = ''n'', pq_tenant_id = ''t'', pq_namespace = ''c'', pq_mutations = [sample_mutation],
       pq_last_checkpoint = 0\<rparr> \<lparr>ap_node_id = ''n'', ap_tenant_id = ''t''\<rparr>
      (foreign_pushes 5 (sample_deps []) null_oplog_vt
        \<lparr>pq_node_id = ''x'', pq_tenant_id = ''t'', pq_namespace = ''c'', pq_mutations = [], pq_last_checkpoint = 0\<rparr>
        \<lparr>ap_node_id = ''x'', ap_tenant_id = ''o''\<rparr> (server_new null_oplog_vt null_new sample_world)) = (Inr resp, u) \<and>
    ps_accepted_seqs resp = []"
  using foreign_pushes_contain_scope
    [of "\<lparr>pq_node_id = ''x'', pq_tenant_id = ''t'', pq_namespace = ''c'', pq_mutations = [], pq_last_checkpoint = 0\<rparr>"
      "\<lparr>ap_node_id = ''x'', ap_tenant_id = ''o''\<rparr>" "server_new null_oplog_vt null_new sample_world"
      "\<lparr>ap_node_id = ''n'', ap_tenant_id = ''t''\<rparr>" "sample_deps []" null_oplog_vt sample_mutation 0]
  by (auto simp: server_new_def server_with_control_plane_def sample_world_def cooldown_def split: prod.splits)

text \<open>
  A retrieval lifts the containment: the retrieval route does not ask the gate, and registers the
  failure of its adapters, the answer of the default ones, as a decision that is not a rejection; so
  one call puts the scope of a contained caller back to normal with a count of zero.
\<close>

theorem retrieval_lifts_containment:
  assumes "sv_retrieval s = fallback_only"
  shows "\<exists>resp s' c. process_retrieval D L req s = (Inr resp, s') \<and> rs_status resp = Degraded \<and>
    al_get (sv_containment s') (rq_tenant_id req, rq_namespace req) = Some c \<and>
    cs_mode c = NormalMode \<and> cs_reject_count c = 0"
proof -
  have "retrieve fallback_only req w = (Inl (adapter_unavailable ''adapter_unavailable''), w)" for w
    by (simp add: retrieve_def fallback_only_def fallback_vector_query_def fallback_graph_query_def collect_def
        tolerable_def adapter_unavailable_def)
  then have "server_world (retrieve (sv_retrieval s) req) s = (Inl (adapter_unavailable ''adapter_unavailable''), s)"
    by (simp add: server_world_def assms)
  moreover have "\<exists>c. al_get (sv_containment (note_retrieval D L t n d u)) (t, n) = Some c \<and>
      cs_mode c = NormalMode \<and> cs_reject_count c = 0" if "gd_decision d \<noteq> Reject" for t n d u
    using that
    by (auto simp: note_retrieval_def register_decision_outcome_def containment_entry_def containment_default_def
        observe_decision_def server_world_def Let_def split: prod.splits option.splits)
  ultimately show ?thesis by (simp add: process_retrieval_def Let_def)
qed

text \<open>Neither evidence nor containment touches the adapters.\<close>

lemma server_world_retrieval: "server_world f s = (x, s') \<Longrightarrow> sv_retrieval s' = sv_retrieval s"
  by (auto simp: server_world_def split: prod.splits)

lemma persist_retrieval: "sv_retrieval (snd (persist_audit_evidence D L stage tenant ns w d s)) = sv_retrieval s"
  by (auto simp: persist_audit_evidence_def bind_op_def lift_op_def server_append_def index_mutation_def Let_def
      dest!: server_world_retrieval split: prod.splits sum.splits)

lemma register_retrieval: "sv_retrieval (register_decision_outcome tenant ns d s) = sv_retrieval s"
  by (auto simp: register_decision_outcome_def containment_entry_def dest!: server_world_retrieval
      split: prod.splits option.splits)

lemma note_retrieval_adapters: "sv_retrieval (note_decision D L stage tenant ns w d s) = sv_retrieval s"
  by (simp add: note_decision_def persist_retrieval register_retrieval)

lemma foreign_pushes_adapters:
  assumes "pq_node_id req \<noteq> ap_node_id who \<or> pq_tenant_id req \<noteq> ap_tenant_id who"
  shows "sv_retrieval (foreign_pushes n D L req who s) = sv_retrieval s"
proof (induction n)
  case (Suc n)
  with assms show ?case
    by (auto simp: process_push_def Let_def note_retrieval_adapters count_non_owner_def count_cross_tenant_def)
qed simp

theorem retrieval_lifts_containment_witness:
  "\<exists>resp s' c. process_retrieval (sample_deps []) null_oplog_vt
      (retrieval_request_new ''t'' ''c'' ''q'')
      (foreign_pushes 5 (sample_deps []) null_oplog_vt
        \<lparr>pq_node_id = ''x'', pq_tenant_id = ''t'', pq_namespace = ''c'', pq_mutations = [], pq_last_checkpoint = 0\<rparr>
        \<lparr>ap_node_id = ''x'', ap_tenant_id = ''o''\<rparr> (server_new null_oplog_vt null_new sample_world)) = (Inr resp, s') \<and>
    al_get (sv_containment s') (''t'', ''c'') = Some c \<and> cs_mode c = NormalMode"
proof -
  have "sv_retrieval (foreign_pushes 5 (sample_deps []) null_oplog_vt
      \<lparr>pq_node_id = ''x'', pq_tenant_id = ''t'', pq_namespace = ''c'', pq_mutations = [], pq_last_checkpoint = 0\<rparr>
      \<lparr>ap_node_id = ''x'', ap_tenant_id = ''o''\<rparr> (server_new null_oplog_vt null_new sample_world)) = fallback_only"
    by (subst foreign_pushes_adapters)
      (simp_all add: server_new_def server_with_control_plane_def split: prod.splits)
  from retrieval_lifts_containment [OF this, of "sample_deps []" null_oplog_vt "retrieval_request_new ''t'' ''c'' ''q''"]
  show ?thesis by (auto simp: retrieval_request_new_def)
qed

text \<open>
  C39: the rate limiter bounds every second: however the calls fall, at most twice the burst are
  admitted within any one second, and at most the burst when no call starts a new window.
\<close>

theorem rate_limit_bounds_every_second:
  assumes "rl_count r \<le> rl_burst r" "\<forall>t\<in>set ts. a \<le> t \<and> t < a + 1000000"
  shows "admitted_in ts r \<le> 2 * unat (rl_burst r) \<and>
    ((\<forall>t\<in>set ts. t - rl_window_start r < 1000000) \<longrightarrow> admitted_in ts r \<le> unat (rl_burst r))"
  using admitted_one_window [OF assms(1), of ts] admitted_two_windows [OF assms(1,2)] by linarith

theorem rate_limit_bounds_every_second_witness:
  "admitted_in [999998, 999999, 1000000, 1000001, 1000002] (rate_limiter_new 2 0) = 4 \<and>
   admitted_in [999998, 999999, 1000000, 1000001, 1000002] (rate_limiter_new 2 0) \<le> 4"
  using rate_limit_bounds_every_second [of "rate_limiter_new 2 0" "[999998, 999999, 1000000, 1000001, 1000002]" 999998]
  by (simp add: rate_limiter_new_def rate_check_def Let_def)

end
