(* ===== verification/Rango_Server_Main.thy ===== *)
theory Rango_Server_Main
  imports Rango_Server_Log
begin

text \<open>
  The server's process (\<open>server/src/main.rs\<close>): its settings from the command line and the environment,
  the start on the files of a log, and what survives from one process to the next. The set-up of the
  log output is left out; the router is in \<open>Rango_Server_Requests\<close>.
\<close>

section \<open>Settings\<close>

record server_cli =
  sc_bind :: string
  sc_port :: "16 word"
  sc_token :: "string option"
  sc_oplog_path :: string

definition server_cli_default :: server_cli where
  "server_cli_default = \<lparr>sc_bind = ''0.0.0.0'', sc_port = 8080, sc_token = None, sc_oplog_path = ''server-oplog.rgo''\<rparr>"

definition server_port :: "(string \<Rightarrow> string option) \<Rightarrow> server_cli \<Rightarrow> 16 word" where
  "server_port env cli = unwrap_or (Option.bind (env ''RANGO_PORT'') (\<lambda>s. ok_of (parse_u16 s))) (sc_port cli)"

definition server_token :: "(string \<Rightarrow> string option) \<Rightarrow> server_cli \<Rightarrow> string" where
  "server_token env cli =
     unwrap_or (case sc_token cli of Some t \<Rightarrow> Some t | None \<Rightarrow> env ''RANGO_TOKEN'') ''dev-token''"

section \<open>Start\<close>

text \<open>
  The files of the log are given by its path, and so are the address the socket can be bound to; a
  failed \<open>expect\<close> is a panic, \<open>None\<close>. The result is the state the router serves and the address.
\<close>

definition server_main :: "deps \<Rightarrow> entry_codec \<Rightarrow> 'c crypto_api \<Rightarrow> (string \<Rightarrow> string option) \<Rightarrow> server_cli \<Rightarrow>
    (string \<Rightarrow> bytes option \<times> bytes option) \<Rightarrow> (nat \<Rightarrow> bytes) \<Rightarrow> (nat \<Rightarrow> (string \<times> nat) option) \<Rightarrow>
    (string \<Rightarrow> bool) \<Rightarrow> world \<Rightarrow> ('c file_oplog server_state \<times> string) option" where
  "server_main D K A env cli files nonces faults binds w =
     (let port = server_port env cli; token = server_token env cli;
          oplog_path = unwrap_or (env ''RANGO_OPLOG_PATH'') (sc_oplog_path cli);
          bind = unwrap_or (env ''RANGO_BIND'') (sc_bind cli)
      in case file_oplog_open D K A None (fst (files oplog_path)) (snd (files oplog_path)) nonces faults of
          (Inl e, _) \<Rightarrow> None
        | (Inr _, oplog) \<Rightarrow>
            let state = add_token token ''default-node'' (server_new (file_oplog_vt D K A) oplog w);
                address = bind @ '':'' @ show_nat (unat port)
            in if binds address then Some (state, address) else None)"

text \<open>Requests do not touch the tokens.\<close>

lemma serves_tokens: "serves D (file_oplog_vt D K A) s t \<Longrightarrow> sv_tokens t = sv_tokens s"
proof (induction rule: serves.induct)
  case (serves_step t q)
  then show ?case
    using file_log.serve_grows [of t q "fst (request_scope t q)" "snd (request_scope t q)" D K A D]
    by (simp add: server_extends_def)
qed simp

lemma server_main_state:
  assumes "server_main D K A env cli files nonces faults binds w = Some (s0, address)"
  shows "\<exists>lg path. file_oplog_open D K A None (fst (files path)) (snd (files path)) nonces faults = (Inr (), lg) \<and>
    s0 = add_token (server_token env cli) ''default-node'' (server_new (file_oplog_vt D K A) lg w)"
  using assms by (auto simp: server_main_def Let_def split: prod.splits sum.splits if_splits)

lemma server_new_simps [simp]: "sv_tokens (server_new L lg w) = []" "sv_oplog (server_new L lg w) = lg"
  by (simp_all add: server_new_def server_with_control_plane_def split: prod.splits)

lemma add_token_simps [simp]:
  "sv_tokens (add_token t n s) = al_put (sv_tokens s) t \<lparr>ap_node_id = n, ap_tenant_id = ''default''\<rparr>"
  "sv_oplog (add_token t n s) = sv_oplog s" "sv_latest (add_token t n s) = sv_latest s"
  "sv_write_ids (add_token t n s) = sv_write_ids s"
  by (simp_all add: add_token_def add_token_with_tenant_def)

lemma server_main_tokens:
  assumes "server_main D K A env cli files nonces faults binds w = Some (s0, address)"
    and "serves D (file_oplog_vt D K A) s0 s"
  shows "sv_tokens s = [(server_token env cli, \<lparr>ap_node_id = ''default-node'', ap_tenant_id = ''default''\<rparr>)]"
  using server_main_state [OF assms(1)] serves_tokens [OF assms(2)] by auto

lemma server_main_token:
  assumes "server_main D K A env cli files nonces faults binds w = Some (s0, address)"
    and "serves D (file_oplog_vt D K A) s0 s"
  shows "validate_token s (Some h) = (if h = ''Bearer '' @ server_token env cli
    then Some \<lparr>ap_node_id = ''default-node'', ap_tenant_id = ''default''\<rparr> else None)"
  using server_main_tokens [OF assms] strip_prefix_Some [of "''Bearer ''" h]
  by (cases "strip_prefix ''Bearer '' h") (auto simp: validate_token_def)

text \<open>The key of the log stays the same, so the invariant of the log can name it.\<close>

interpretation keyed_log: oplog_keeps "file_oplog_vt D K A" "\<lambda>s. file_inv D K A s \<and> fo_crypto s = k" "file_log D K A"
  for D K A k
proof (unfold_locales, simp_all only: file_oplog_vt_simps)
  fix s e r s' n u
  assume inv: "file_inv D K A s \<and> fo_crypto s = k"
  have append_key: "fo_crypto s' = k" if "file_append D K A e s = (r, s')" for r
    by (rule file_append_cases [OF file_inv_env [OF conjunct1 [OF inv]], where e = e])
      (use that inv in \<open>auto simp: same_env_def\<close>)
  show "file_inv D K A s' \<and> fo_crypto s' = k" if "file_append D K A e s = (r, s')"
    using file_log.append_inv [of D K A s e r s'] that inv append_key by simp
  show "file_inv D K A s' \<and> fo_crypto s' = k" if "file_mark_applied D K A n s = (u, s')"
    using file_log.mark_inv [of D K A s n u s'] file_mark_cases [of D K A s n u s'] file_inv_env [of D K A s] that inv
    by (simp add: same_env_def)
  show "file_latest_seq s' = file_latest_seq s" "file_log D K A s' = file_log D K A s"
    if "file_mark_applied D K A n s = (u, s')"
    using file_log.mark_latest [of D K A s n u s'] file_log.mark_log [of D K A s n u s'] that inv by simp_all
  show "file_latest_seq s = Inr (n - 1) \<and> file_latest_seq s' = Inr n"
    "file_log D K A s' = file_log D K A s @ [e\<lparr>entry_seq := n\<rparr>]" if "file_append D K A e s = (Inr n, s')"
    using file_log.append_latest [of D K A s e n s'] file_log.append_log [of D K A s e n s'] that inv by simp_all
  show "file_log D K A s' = file_log D K A s" if "file_append D K A e s = (Inl x, s')" for x
    using file_log.append_err_log [of D K A s e x s'] that inv by simp
  show "file_read_since D K A s n m = Inr (take m (filter (\<lambda>e. n \<le> entry_seq e) (file_log D K A s)))"
    if "0 < m" for m
    using file_log.read_log [of D K A s m n] that inv by simp
qed (simp add: file_latest_seq_def)

lemma opened_key: "file_oplog_open D K A k disk applied nonces faults = (Inr u, lg) \<Longrightarrow> fo_crypto lg = k"
  by (auto simp: file_oplog_open_def bind_op_def fs_call_def Let_def split: sum.splits option.splits if_splits prod.splits)

lemma ascending_last:
  fixes f :: "'a \<Rightarrow> 'b :: linorder"
  shows "sorted_wrt (<) (map f xs) \<Longrightarrow> x \<in> set xs \<Longrightarrow> f x \<le> f (last xs)"
  by (induction xs) (auto simp: less_imp_le)

lemma reopened_numbered:
  assumes "numbered (file_oplog_vt D K A) (file_log D K A) lg" "file_log D K A t = file_log D K A lg"
    and "fo_next_seq t = last (0 # map entry_seq (file_log D K A lg))"
  shows "numbered (file_oplog_vt D K A) (file_log D K A) t"
proof -
  let ?es = "file_log D K A lg"
  obtain latest where asc: "sorted_wrt (<) (map entry_seq ?es)" and l: "latest + 1 \<noteq> 0"
    "\<forall>e\<in>set ?es. 0 < entry_seq e \<and> entry_seq e \<le> latest"
    using assms(1) by (auto simp: numbered_def)
  show ?thesis
  proof (cases "?es = []")
    case True
    with assms show ?thesis by (simp add: numbered_def file_latest_seq_def)
  next
    case False
    let ?x = "last ?es"
    have x: "?x \<in> set ?es" using False by simp
    have "\<forall>e\<in>set ?es. entry_seq e \<le> entry_seq ?x" using ascending_last [OF asc] by blast
    moreover have "entry_seq ?x \<noteq> - 1" using l x by (metis add.left_inverse word_order.extremum_unique)
    then have "entry_seq ?x + 1 \<noteq> 0" by (simp add: add_eq_0_iff2)
    moreover have "fo_next_seq t = entry_seq ?x" using assms(3) False by (simp add: last_map)
    ultimately show ?thesis
      using asc l(2) assms(2) by (simp add: numbered_def file_latest_seq_def)
  qed
qed

section \<open>Properties\<close>

text \<open>
  C19: a restart of the server loses nothing: after any requests, a server started on the two files the
  first one leaves holds the same log, builds the same indexes by scope, so that every accepted write is
  still known by its number, and accepts the same token.
\<close>

theorem server_survives_restart:
  assumes "server_main D K A env cli files nonces faults binds w = Some (s0, address)"
    and "file_inv D K A (sv_oplog s0)" "numbered (file_oplog_vt D K A) (file_log D K A) (sv_oplog s0)"
    and "writes_once (file_log D K A (sv_oplog s0))" "serves D (file_oplog_vt D K A) s0 s"
    and "numbered (file_oplog_vt D K A) (file_log D K A) (sv_oplog s)"
    and "read_applied D A None (fo_applied_file (sv_oplog s)) = Inr xs"
    and "\<forall>n. length (nonces' n) = 12" "\<forall>n. faults' n = None"
  shows "\<exists>t. server_main D K A env cli (\<lambda>_. (Some (fo_file (sv_oplog s)), fo_applied_file (sv_oplog s))) nonces' faults' binds w' =
      Some (t, address) \<and> file_log D K A (sv_oplog t) = file_log D K A (sv_oplog s) \<and>
    sv_latest t = sv_latest s \<and> sv_write_ids t = sv_write_ids s \<and> sv_tokens t = sv_tokens s"
proof -
  let ?L = "file_oplog_vt D K A" and ?key = "\<lambda>lg. file_inv D K A lg \<and> fo_crypto lg = None"
  obtain lg0 path where lg0: "file_oplog_open D K A None (fst (files path)) (snd (files path)) nonces faults = (Inr (), lg0)"
    and s0: "s0 = add_token (server_token env cli) ''default-node'' (server_new ?L lg0 w)"
    using server_main_state [OF assms(1)] by blast
  have "?key (sv_oplog s0)" using opened_key [OF lg0] assms(2) by (simp add: s0)
  moreover have "indexed (file_log D K A) s0"
    using file_log.build_indexes [of D K A lg0] assms(2,3)
    by (simp add: s0 indexed_def server_new_def server_with_control_plane_def split: prod.splits)
  ultimately have "server_ok ?key (file_log D K A) s0" using assms(4) by (simp add: server_ok_def)
  then have ok: "server_ok ?key (file_log D K A) s" by (rule keyed_log.serves_ok [OF assms(5)])
  then have key: "fo_crypto (sv_oplog s) = None" and inv: "file_inv D K A (sv_oplog s)"
    and idx: "indexed (file_log D K A) s" by (simp_all add: server_ok_def)
  obtain t where t: "file_oplog_open D K A None (Some (fo_file (sv_oplog s))) (fo_applied_file (sv_oplog s)) nonces' faults' = (Inr (), t)"
    "fo_next_seq t = last (0 # map entry_seq (file_log D K A (sv_oplog s)))"
    "file_log D K A t = file_log D K A (sv_oplog s)" "file_inv D K A t"
    using file_open_ok [OF inv _ assms(8,9)] assms(7) key by auto
  let ?s = "add_token (server_token env cli) ''default-node'' (server_new ?L t w')"
  have "build_scoped_indexes ?L t = (sv_latest s, sv_write_ids s)"
    using file_log.build_indexes [OF t(4) reopened_numbered [OF assms(6) t(3,2)]] idx t(3) by (simp add: indexed_def)
  then have "sv_latest ?s = sv_latest s" "sv_write_ids ?s = sv_write_ids s"
    by (simp_all add: server_new_def server_with_control_plane_def)
  moreover have "sv_tokens ?s = sv_tokens s" using server_main_tokens [OF assms(1,5)] by simp
  moreover have "server_main D K A env cli (\<lambda>_. (Some (fo_file (sv_oplog s)), fo_applied_file (sv_oplog s))) nonces' faults' binds w' =
      Some (?s, address)"
    using assms(1) t(1) by (auto simp: server_main_def Let_def split: prod.splits sum.splits if_splits)
  ultimately show ?thesis using t(3) by auto
qed

text \<open>A first process on a log with one entry, and one on no files.\<close>

abbreviation one_codec :: entry_codec where
  "one_codec \<equiv> table_entry_codec [sample_entry 1]"

abbreviation sample_main :: "(string \<Rightarrow> bytes option \<times> bytes option) \<Rightarrow> (unit file_oplog server_state \<times> string) option" where
  "sample_main files \<equiv> server_main one_log_deps one_codec tag_cipher (\<lambda>_. None) server_cli_default files
     (\<lambda>n. replicate 12 0) (\<lambda>n. None) (\<lambda>_. True) sample_world"

theorem server_survives_restart_witness:
  "\<exists>s t address. sample_main (\<lambda>_. (Some (fo_file one_log), fo_applied_file one_log)) = Some (s, address) \<and>
     file_log one_log_deps one_codec tag_cipher (sv_oplog s) = [sample_entry 1] \<and>
     sample_main (\<lambda>_. (Some (fo_file (sv_oplog s)), fo_applied_file (sv_oplog s))) = Some (t, address) \<and>
     sv_latest t = sv_latest s"
proof -
  let ?log = "file_log one_log_deps one_codec tag_cipher" and ?vt = "file_oplog_vt one_log_deps one_codec tag_cipher"
  have plain: "fo_crypto one_log = None" "fo_applied_file one_log = None" by (simp_all add: one_log_def sample_log_def)
  then have "read_applied one_log_deps tag_cipher (fo_crypto one_log) (fo_applied_file one_log) = Inr []"
    by (simp add: read_applied_def)
  from file_open_ok [OF one_log_inv this, of "\<lambda>n. replicate 12 0" "\<lambda>n. None"] plain
  obtain r where r: "file_oplog_open one_log_deps one_codec tag_cipher None (Some (fo_file one_log)) (fo_applied_file one_log)
      (\<lambda>n. replicate 12 0) (\<lambda>n. None) = (Inr (), r)" "fo_next_seq r = 1" "?log r = [sample_entry 1]"
      "file_inv one_log_deps one_codec tag_cipher r" "fo_applied_file r = None"
    by (auto simp: one_log_entries)
  define s where "s = add_token (server_token (\<lambda>_. None) server_cli_default) ''default-node'' (server_new ?vt r sample_world)"
  have "\<exists>address. sample_main (\<lambda>_. (Some (fo_file one_log), fo_applied_file one_log)) = Some (s, address)"
    using r(1) by (simp add: server_main_def Let_def s_def)
  then obtain address where first: "sample_main (\<lambda>_. (Some (fo_file one_log), fo_applied_file one_log)) = Some (s, address)"
    by blast
  have num: "numbered ?vt ?log (sv_oplog s)" by (simp add: s_def numbered_def r file_latest_seq_def)
  have "\<exists>t. sample_main (\<lambda>_. (Some (fo_file (sv_oplog s)), fo_applied_file (sv_oplog s))) = Some (t, address) \<and>
      ?log (sv_oplog t) = ?log (sv_oplog s) \<and> sv_latest t = sv_latest s \<and> sv_write_ids t = sv_write_ids s \<and>
      sv_tokens t = sv_tokens s"
    by (rule server_survives_restart [OF first _ num _ serves_refl num])
      (simp_all add: s_def r writes_once_def read_applied_def)
  with first r(3) show ?thesis by (auto simp: s_def)
qed

text \<open>
  The server serves one node: it accepts exactly the token of its settings, for the node
  \<open>default-node\<close>, so whatever requests came before, a push or a promotion of any other node is answered
  without an accepted write and a pull of any other node without a mutation.
\<close>

theorem server_serves_one_node:
  assumes "server_main D K A env cli files nonces faults binds w = Some (s0, address)"
    and "serves D (file_oplog_vt D K A) s0 s"
  shows "(\<forall>h. validate_token s (Some h) \<noteq> None \<longleftrightarrow> h = ''Bearer '' @ server_token env cli) \<and>
    (\<forall>hdr req resp s'. handle_push D L hdr req s = (Inr resp, s') \<longrightarrow> pq_node_id req \<noteq> ''default-node'' \<longrightarrow>
      ps_accepted_seqs resp = []) \<and>
    (\<forall>hdr req resp s'. handle_promote D L hdr req s = (Inr resp, s') \<longrightarrow> mq_node_id req \<noteq> ''default-node'' \<longrightarrow>
      ms_accepted_seqs resp = []) \<and>
    (\<forall>hdr req resp s'. handle_pull D L hdr req s = (Inr resp, s') \<longrightarrow> lq_node_id req \<noteq> ''default-node'' \<longrightarrow>
      ls_mutations resp = [])"
proof -
  have who: "ap_node_id who = ''default-node''" if "validate_token s hd = Some who" for hd who
    using that server_main_token [OF assms] by (cases hd) (auto simp: validate_token_def split: if_splits)
  show ?thesis
    using server_main_token [OF assms] who
    by (auto simp: handle_push_def handle_promote_def handle_pull_def authenticated_def process_push_def
        process_promote_def process_pull_def Let_def dest!: who split: if_splits option.splits prod.splits sum.splits)
qed

theorem server_serves_one_node_witness:
  "\<exists>s address resp s'. sample_main (\<lambda>_. (None, None)) = Some (s, address) \<and>
     handle_push one_log_deps (file_oplog_vt one_log_deps one_codec tag_cipher)
       (\<lambda>h. if h = ''X-Rango-Protocol-Version'' then Some ''1'' else Some ''Bearer dev-token'')
       \<lparr>pq_node_id = ''node-a'', pq_tenant_id = ''default'', pq_namespace = ''c'', pq_mutations = [sample_mutation],
        pq_last_checkpoint = 0\<rparr> s = (Inr resp, s') \<and> ps_accepted_seqs resp = []"
proof -
  let ?hdr = "\<lambda>h. if h = ''X-Rango-Protocol-Version'' then Some ''1'' else Some ''Bearer dev-token''"
  let ?req = "\<lparr>pq_node_id = ''node-a'', pq_tenant_id = ''default'', pq_namespace = ''c'', pq_mutations = [sample_mutation],
    pq_last_checkpoint = 0\<rparr>"
  have "\<exists>s address. sample_main (\<lambda>_. (None, None)) = Some (s, address)"
    by (simp add: server_main_def file_oplog_open_def fs_call_def read_latest_seq_def read_applied_def bind_op_def
        get_op_def lift_op_def modify_op_def Let_def)
  then obtain s address where start: "sample_main (\<lambda>_. (None, None)) = Some (s, address)" by blast
  have "validate_token s (Some ''Bearer dev-token'') = Some \<lparr>ap_node_id = ''default-node'', ap_tenant_id = ''default''\<rparr>"
    using server_main_token [OF start serves_refl, of "''Bearer dev-token''"]
    by (simp add: server_token_def server_cli_default_def)
  then have "\<exists>resp s'. handle_push one_log_deps (file_oplog_vt one_log_deps one_codec tag_cipher) ?hdr ?req s = (Inr resp, s')"
    by (simp add: handle_push_def authenticated_def process_push_def Let_def)
  then obtain resp s' where push: "handle_push one_log_deps (file_oplog_vt one_log_deps one_codec tag_cipher) ?hdr ?req s = (Inr resp, s')" by blast
  have "\<forall>hdr req resp s'. handle_push one_log_deps (file_oplog_vt one_log_deps one_codec tag_cipher) hdr req s = (Inr resp, s') \<longrightarrow>
      pq_node_id req \<noteq> ''default-node'' \<longrightarrow> ps_accepted_seqs resp = []"
    using server_serves_one_node [OF start serves_refl, of "file_oplog_vt one_log_deps one_codec tag_cipher"]
    by (elim conjE)
  from this [rule_format, OF push] have "ps_accepted_seqs resp = []" by simp
  with start push show ?thesis by blast
qed

end
