(* ===== verification/Rango_Server_Race.thy ===== *)
theory Rango_Server_Race
  imports Rango_Server_Log
begin

text \<open>
  Requests of the server run on several threads, and \<open>append_mutation\<close> of \<open>server/src/routes.rs\<close> takes
  a lock for each of its accesses only: the look-up of the write identifier, the append to the log, and
  the updates of the two indexes. This theory has these accesses as the steps of a thread, runs any
  number of threads by a schedule, the list of the thread of every step, and shows what every schedule
  keeps and what some schedule breaks. A thread alone runs the function of \<open>Rango_Server\<close>.
\<close>

section \<open>Threads\<close>

datatype append_pc = Checking | Appending | Raising u64 | Naming u64 | Answered "u64 result"

record append_thread =
  at_mutation :: mutation
  at_tenant :: string
  at_namespace :: string
  at_pc :: append_pc

definition remote_entry :: "millis \<Rightarrow> mutation \<Rightarrow> oplog_entry" where
  "remote_entry time m = \<lparr>entry_seq = 0, entry_timestamp = time, entry_mutation = m,
     entry_origin = Remote, entry_applied = False, entry_snapshot_anchor = None\<rparr>"

fun thread_step :: "'o oplog_vt \<Rightarrow> mutation \<Rightarrow> string \<Rightarrow> string \<Rightarrow> append_pc \<Rightarrow> 'o server_state \<Rightarrow>
    append_pc \<times> 'o server_state" where
  "thread_step L m tenant ns Checking s =
     (case validate_metadata m of
        Inl e \<Rightarrow> (Answered (Inl (Sync (''invalid_metadata:'' @ e))), s)
      | Inr _ \<Rightarrow>
          if scope_of m \<noteq> (tenant, ns)
          then (Answered (Inl (Sync ''mutation tenant/namespace does not match request scope'')), s)
          else case lookup_scoped_write_id_seq s tenant ns (mut_write_id m) of
              Some existing_seq \<Rightarrow> (Answered (Inr existing_seq), s)
            | None \<Rightarrow> (Appending, s))"
| "thread_step L m tenant ns Appending s =
     (case server_world datetime_now s of (time, s) \<Rightarrow>
      case server_append L (remote_entry time m) s of
        (Inl e, s) \<Rightarrow> (Answered (Inl e), s)
      | (Inr seq, s) \<Rightarrow> (Raising seq, s))"
| "thread_step L m tenant ns (Raising seq) s =
     (if mut_collection m = audit_collection then (Answered (Inr seq), s)
      else (Naming seq, s\<lparr>sv_latest := raise_latest seq (scope_of m) (sv_latest s)\<rparr>))"
| "thread_step L m tenant ns (Naming seq) s =
     (Answered (Inr seq), s\<lparr>sv_write_ids := put_write_id seq m (sv_write_ids s)\<rparr>)"
| "thread_step L m tenant ns (Answered r) s = (Answered r, s)"

text \<open>A step of the thread at a position, and the steps of a schedule; a position without a thread is idle.\<close>

definition schedule_step :: "'o oplog_vt \<Rightarrow> nat \<Rightarrow> append_thread list \<times> 'o server_state \<Rightarrow>
    append_thread list \<times> 'o server_state" where
  "schedule_step L i cfg = (case cfg of (ts, s) \<Rightarrow>
     if i < length ts then
       (case thread_step L (at_mutation (ts ! i)) (at_tenant (ts ! i)) (at_namespace (ts ! i)) (at_pc (ts ! i)) s of
          (pc, s) \<Rightarrow> (ts[i := (ts ! i)\<lparr>at_pc := pc\<rparr>], s))
     else (ts, s))"

definition run_schedule :: "'o oplog_vt \<Rightarrow> nat list \<Rightarrow> append_thread list \<times> 'o server_state \<Rightarrow>
    append_thread list \<times> 'o server_state" where
  "run_schedule L schedule cfg = fold (schedule_step L) schedule cfg"

lemma run_schedule_simps [simp]:
  "run_schedule L [] cfg = cfg"
  "run_schedule L (i # is) cfg = run_schedule L is (schedule_step L i cfg)"
  by (simp_all add: run_schedule_def)

text \<open>A thread that runs alone does what the function does.\<close>

lemma index_mutation_steps:
  "mut_collection m \<noteq> audit_collection \<Longrightarrow>
     s\<lparr>sv_latest := raise_latest n (scope_of m) (sv_latest s), sv_write_ids := put_write_id n m (sv_write_ids s)\<rparr> =
     index_mutation n m s"
  by (simp add: index_mutation_def)

lemma thread_alone:
  "run_schedule L [0, 0, 0, 0] ([\<lparr>at_mutation = m, at_tenant = tenant, at_namespace = ns, at_pc = Checking\<rparr>], s) =
     (case append_mutation L m tenant ns s of (r, s') \<Rightarrow>
       ([\<lparr>at_mutation = m, at_tenant = tenant, at_namespace = ns, at_pc = Answered r\<rparr>], s'))"
  by (cases "validate_metadata m")
    (auto simp: schedule_step_def append_mutation_def remote_entry_def index_mutation_def
      split: option.splits prod.splits sum.splits)

section \<open>What every schedule keeps\<close>

fun pc_number :: "append_pc \<Rightarrow> u64 option" where
  "pc_number (Raising n) = Some n"
| "pc_number (Naming n) = Some n"
| "pc_number (Answered (Inr n)) = Some n"
| "pc_number _ = None"

definition waiting :: "append_pc \<Rightarrow> bool" where
  "waiting pc \<longleftrightarrow> pc = Checking \<or> pc = Appending"

text \<open>The entry a thread appends, and a number under which the log holds a write.\<close>

definition written_by :: "append_thread \<Rightarrow> oplog_entry \<Rightarrow> bool" where
  "written_by t e \<longleftrightarrow> entry_mutation e = at_mutation t \<and> scoped_write (at_tenant t) (at_namespace t) e"

definition logged_as :: "oplog_entry list \<Rightarrow> string \<times> string \<times> string \<Rightarrow> u64 \<Rightarrow> bool" where
  "logged_as es k n \<longleftrightarrow> (\<exists>e\<in>set es. entry_seq e = n \<and> write_key (entry_mutation e) = k)"

definition ids_logged :: "oplog_entry list \<Rightarrow> 'o server_state \<Rightarrow> bool" where
  "ids_logged es s \<longleftrightarrow> (\<forall>k n. al_get (sv_write_ids s) k = Some n \<longrightarrow> logged_as es k n)"

definition thread_ok :: "oplog_entry list \<Rightarrow> append_thread \<Rightarrow> bool" where
  "thread_ok es t \<longleftrightarrow> (\<forall>n. pc_number (at_pc t) = Some n \<longrightarrow> logged_as es (write_key (at_mutation t)) n) \<and>
     (at_pc t = Appending \<longrightarrow> validate_metadata (at_mutation t) = Inr () \<and> scope_of (at_mutation t) = (at_tenant t, at_namespace t))"

lemma logged_as_append: "logged_as es k n \<Longrightarrow> logged_as (es @ fs) k n"
  by (auto simp: logged_as_def)

lemma thread_ok_append: "thread_ok es t \<Longrightarrow> thread_ok (es @ fs) t"
  by (auto simp: thread_ok_def logged_as_append)

lemma ids_logged_append: "ids_logged es s \<Longrightarrow> ids_logged (es @ fs) s"
  by (auto simp: ids_logged_def logged_as_append)

lemma indexed_ids_logged: "indexed log_of s \<Longrightarrow> ids_logged (log_of (sv_oplog s)) s"
  unfolding ids_logged_def logged_as_def by (auto elim: index_Some)

context oplog_keeps
begin

lemma thread_step_effect:
  assumes step: "thread_step L (at_mutation t) (at_tenant t) (at_namespace t) (at_pc t) s = (pc, s')"
    and s: "inv (sv_oplog s)" "ids_logged (log_of (sv_oplog s)) s" "thread_ok (log_of (sv_oplog s)) t"
  shows "inv (sv_oplog s') \<and> (\<exists>es. log_of (sv_oplog s') = log_of (sv_oplog s) @ es \<and> (\<forall>e\<in>set es. written_by t e) \<and>
      length es + (if waiting pc then 1 else 0) \<le> (if waiting (at_pc t) then 1 else 0) \<and>
      ids_logged (log_of (sv_oplog s')) s' \<and> thread_ok (log_of (sv_oplog s')) (t\<lparr>at_pc := pc\<rparr>))"
proof (cases "at_pc t")
  case Checking
  have ids: "lookup_scoped_write_id_seq s (at_tenant t) (at_namespace t) (mut_write_id (at_mutation t)) = Some n \<Longrightarrow>
      scope_of (at_mutation t) = (at_tenant t, at_namespace t) \<Longrightarrow> logged_as (log_of (sv_oplog s)) (write_key (at_mutation t)) n" for n
    using s(2) by (simp add: ids_logged_def lookup_scoped_write_id_seq_def write_key_scope)
  show ?thesis
    using step s ids Checking by (auto simp: thread_ok_def waiting_def split: sum.splits if_splits option.splits)
next
  case Appending
  obtain time s1 where 1: "server_world datetime_now s = (time, s1)" by fastforce
  then have same: "sv_oplog s1 = sv_oplog s" "sv_write_ids s1 = sv_write_ids s"
    by (auto dest: server_world_same simp: server_same_def)
  obtain q l where q: "op_append L (remote_entry time (at_mutation t)) (sv_oplog s) = (q, l)" by fastforce
  show ?thesis
  proof (cases q)
    case (Inl x)
    with q have "log_of l = log_of (sv_oplog s)" "inv l" using append_err_log [OF s(1)] append_inv [OF s(1)] by auto
    with step s Appending 1 q Inl same show ?thesis
      by (auto simp: server_append_def thread_ok_def waiting_def ids_logged_def)
  next
    case (Inr n)
    let ?e = "(remote_entry time (at_mutation t))\<lparr>entry_seq := n\<rparr>"
    have l: "log_of l = log_of (sv_oplog s) @ [?e]" "inv l"
      using append_log [OF s(1)] append_inv [OF s(1)] q Inr by auto
    moreover have "written_by t ?e"
      using s(3) Appending by (simp add: written_by_def scoped_write_def remote_entry_def thread_ok_def)
    moreover have "logged_as (log_of l) (write_key (at_mutation t)) n"
      unfolding l(1) by (auto simp: logged_as_def remote_entry_def)
    ultimately show ?thesis
      using step s Appending 1 q Inr same
      by (auto simp: server_append_def thread_ok_def waiting_def ids_logged_def logged_as_append)
  qed
next
  case (Raising n)
  with step s show ?thesis by (auto simp: thread_ok_def waiting_def ids_logged_def split: if_splits)
next
  case (Naming n)
  with step s show ?thesis
    by (auto simp: thread_ok_def waiting_def ids_logged_def put_write_id_def write_key_def split: if_splits)
next
  case (Answered r)
  with step s show ?thesis by (auto simp: waiting_def)
qed

text \<open>All threads together: each appends at most one entry, and none after it has stopped waiting.\<close>

definition race_ok :: "append_thread list \<Rightarrow> oplog_entry list \<Rightarrow> append_thread list \<times> 'o server_state \<Rightarrow> bool" where
  "race_ok ts0 es0 cfg \<longleftrightarrow> (case cfg of (ts, s) \<Rightarrow>
     map (at_pc_update (\<lambda>_. Checking)) ts = map (at_pc_update (\<lambda>_. Checking)) ts0 \<and> inv (sv_oplog s) \<and>
     (\<exists>es. log_of (sv_oplog s) = es0 @ es \<and> length es + length (filter (waiting \<circ> at_pc) ts) \<le> length ts0 \<and>
       (\<forall>e\<in>set es. \<exists>t\<in>set ts. written_by t e)) \<and>
     ids_logged (log_of (sv_oplog s)) s \<and> (\<forall>t\<in>set ts. thread_ok (log_of (sv_oplog s)) t))"

lemma written_by_pc [simp]: "written_by (t\<lparr>at_pc := pc\<rparr>) e = written_by t e"
  by (simp add: written_by_def)

lemma length_filter_update:
  "i < length xs \<Longrightarrow> length (filter P (xs[i := x])) + (if P (xs ! i) then 1 else 0) =
     length (filter P xs) + (if P x then 1 else 0)"
proof (induction xs arbitrary: i)
  case (Cons y ys)
  then show ?case using Cons.IH [of "i - 1"] by (cases i) auto
qed simp

lemma race_step: "race_ok ts0 es0 cfg \<Longrightarrow> race_ok ts0 es0 (schedule_step L i cfg)"
proof (cases cfg)
  case (Pair ts s)
  assume ok: "race_ok ts0 es0 cfg"
  show ?thesis
  proof (cases "i < length ts")
    case False
    with ok Pair show ?thesis by (simp add: schedule_step_def)
  next
    case True
    let ?t = "ts ! i"
    obtain pc s' where step: "thread_step L (at_mutation ?t) (at_tenant ?t) (at_namespace ?t) (at_pc ?t) s = (pc, s')"
      by fastforce
    let ?ts = "ts[i := ?t\<lparr>at_pc := pc\<rparr>]"
    have old: "inv (sv_oplog s)" "ids_logged (log_of (sv_oplog s)) s" "\<forall>t\<in>set ts. thread_ok (log_of (sv_oplog s)) t"
      and static: "map (at_pc_update (\<lambda>_. Checking)) ts = map (at_pc_update (\<lambda>_. Checking)) ts0"
      using ok Pair by (simp_all add: race_ok_def)
    obtain es where es: "log_of (sv_oplog s) = es0 @ es" "\<forall>e\<in>set es. \<exists>t\<in>set ts. written_by t e"
      "length es + length (filter (waiting \<circ> at_pc) ts) \<le> length ts0"
      using ok Pair by (auto simp: race_ok_def)
    obtain fs where fs: "log_of (sv_oplog s') = log_of (sv_oplog s) @ fs" "\<forall>e\<in>set fs. written_by ?t e"
      "length fs + (if waiting pc then 1 else 0) \<le> (if waiting (at_pc ?t) then 1 else 0)"
      and new: "inv (sv_oplog s')" "ids_logged (log_of (sv_oplog s')) s'" "thread_ok (log_of (sv_oplog s')) (?t\<lparr>at_pc := pc\<rparr>)"
      using thread_step_effect [OF step old(1,2)] old(3) True by auto
    have mem: "\<exists>t\<in>set ?ts. written_by t e" if ex: "\<exists>t\<in>set ts. written_by t e" for e
    proof -
      obtain j where j: "j < length ts" "written_by (ts ! j) e" using ex by (auto simp: in_set_conv_nth)
      then have "written_by (?ts ! j) e" by (cases "i = j") simp_all
      then show ?thesis using j(1) by (metis length_list_update nth_mem)
    qed
    have "length (es @ fs) + length (filter (waiting \<circ> at_pc) ?ts) \<le> length ts0"
      using es(3) fs(3) length_filter_update [OF True, of "waiting \<circ> at_pc" "?t\<lparr>at_pc := pc\<rparr>"]
      by (auto split: if_splits)
    moreover have "map (at_pc_update (\<lambda>_. Checking)) ?ts = map (at_pc_update (\<lambda>_. Checking)) ts0"
      unfolding static [symmetric] by (rule nth_equalityI) (use True in \<open>auto simp: nth_list_update\<close>)
    moreover have "\<forall>e\<in>set (es @ fs). \<exists>t\<in>set ?ts. written_by t e"
      using es(2) fs(2) mem True by (auto intro: mem bexI [OF _ nth_mem])
    moreover have "\<forall>t\<in>set ?ts. thread_ok (log_of (sv_oplog s')) t"
      using old(3) new(3) set_update_subset_insert [of ts i "?t\<lparr>at_pc := pc\<rparr>"] fs(1) thread_ok_append by fastforce
    moreover have "schedule_step L i cfg = (?ts, s')" using Pair True step by (simp add: schedule_step_def)
    ultimately show ?thesis using new(1,2) es(1) fs(1) by (auto simp: race_ok_def)
  qed
qed

lemma race_run: "race_ok ts0 es0 cfg \<Longrightarrow> race_ok ts0 es0 (run_schedule L schedule cfg)"
  by (induction schedule arbitrary: cfg) (simp_all add: race_step)

lemma race_start:
  assumes "inv (sv_oplog s)" "indexed log_of s" "\<forall>t\<in>set ts. at_pc t = Checking"
  shows "race_ok ts (log_of (sv_oplog s)) (ts, s)"
  using assms indexed_ids_logged [OF assms(2)] by (auto simp: race_ok_def thread_ok_def)

end

section \<open>Properties\<close>

text \<open>
  C22: no acknowledged write is lost, whatever the schedule: when requests of any number append their
  mutations on threads of their own, in every interleaving of their accesses the log only grows, by at
  most one entry for each request and by valid writes of the scopes of the requests, and a number that a
  request has been answered with is the number of an entry of the log that has its write identifier.
\<close>

theorem acknowledged_writes_are_logged:
  assumes "file_inv D K A (sv_oplog s)" "indexed (file_log D K A) s" "\<forall>t\<in>set ts. at_pc t = Checking"
    and "run_schedule (file_oplog_vt D K A) schedule (ts, s) = (ts', s')"
  shows "(\<exists>es. file_log D K A (sv_oplog s') = file_log D K A (sv_oplog s) @ es \<and> length es \<le> length ts \<and>
      (\<forall>e\<in>set es. \<exists>t\<in>set ts'. entry_mutation e = at_mutation t \<and> scoped_write (at_tenant t) (at_namespace t) e)) \<and>
    (\<forall>t\<in>set ts'. \<forall>n. at_pc t = Answered (Inr n) \<longrightarrow>
      (\<exists>e\<in>set (file_log D K A (sv_oplog s')). entry_seq e = n \<and> write_key (entry_mutation e) = write_key (at_mutation t)))"
proof -
  have "file_log.race_ok D K A ts (file_log D K A (sv_oplog s)) (ts', s')"
    using file_log.race_run [OF file_log.race_start [OF assms(1-3)], of schedule] assms(4) by simp
  then show ?thesis
    by (fastforce simp: file_log.race_ok_def written_by_def thread_ok_def logged_as_def)
qed

theorem acknowledged_writes_are_logged_witness:
  "\<exists>ts' s'. run_schedule sample_vt [0, 1, 0, 0, 0, 1]
      ([\<lparr>at_mutation = sample_mutation, at_tenant = ''t'', at_namespace = ''c'', at_pc = Checking\<rparr>,
        \<lparr>at_mutation = sample_mutation, at_tenant = ''u'', at_namespace = ''c'', at_pc = Checking\<rparr>],
       sample_server sample_log) = (ts', s') \<and>
     length (file_log sample_log_deps sample_codec tag_cipher (sv_oplog s')) \<le> 2"
proof -
  let ?ts = "[\<lparr>at_mutation = sample_mutation, at_tenant = ''t'', at_namespace = ''c'', at_pc = Checking\<rparr>,
    \<lparr>at_mutation = sample_mutation, at_tenant = ''u'', at_namespace = ''c'', at_pc = Checking\<rparr>]"
  obtain ts' s' where run: "run_schedule sample_vt [0, 1, 0, 0, 0, 1] (?ts, sample_server sample_log) = (ts', s')"
    by fastforce
  have "indexed (file_log sample_log_deps sample_codec tag_cipher) (sample_server sample_log)"
    using file_log.start_ok [OF sample_log_inv sample_log_start(1)]
    by (simp add: server_ok_def sample_log_start writes_once_def)
  from acknowledged_writes_are_logged [OF _ this _ run] run show ?thesis
    by (auto simp: sample_log_inv sample_log_start)
qed

text \<open>Two retries of one write, each of which looks it up before the other has indexed it.\<close>

definition retry :: "mutation \<Rightarrow> append_pc \<Rightarrow> append_thread" where
  "retry m pc = \<lparr>at_mutation = m, at_tenant = md_tenant_id (mut_metadata m),
     at_namespace = md_namespace (mut_metadata m), at_pc = pc\<rparr>"

lemma retry_simps [simp]:
  "at_mutation (retry m pc) = m" "at_tenant (retry m pc) = md_tenant_id (mut_metadata m)"
  "at_namespace (retry m pc) = md_namespace (mut_metadata m)" "at_pc (retry m pc) = pc"
  "(retry m pc)\<lparr>at_pc := pc'\<rparr> = retry m pc'"
  by (simp_all add: retry_def)

lemma retry_eq: "retry m pc = retry m pc' \<longleftrightarrow> pc = pc'"
  by (simp add: retry_def)

lemma index_last_write:
  "counted e \<Longrightarrow> al_get (snd (index_entries (xs @ [e]) idx)) (write_key (entry_mutation e)) = Some (entry_seq e)"
  by (cases "index_entries xs idx") (simp add: index_entries_append counted_def put_write_id_def write_key_def)

text \<open>The numbers that requests go on with, and entries whose numbers follow each other.\<close>

definition retry_numbers :: "append_thread list \<Rightarrow> u64 list" where
  "retry_numbers ts = List.map_filter (\<lambda>t. pc_number (at_pc t)) ts"

definition in_a_row_seqs :: "oplog_entry list \<Rightarrow> bool" where
  "in_a_row_seqs es \<longleftrightarrow> successively (\<lambda>a b. entry_seq b = entry_seq a + 1) es"

lemma mset_map_filter_update:
  "i < length xs \<Longrightarrow> mset (List.map_filter f (xs[i := x])) + mset (case f (xs ! i) of None \<Rightarrow> [] | Some y \<Rightarrow> [y]) =
     mset (List.map_filter f xs) + mset (case f x of None \<Rightarrow> [] | Some y \<Rightarrow> [y])"
proof (induction xs arbitrary: i)
  case (Cons y ys)
  then show ?case using Cons.IH [of "i - 1"]
    by (cases i) (auto simp: map_filter_simps split: option.splits)
qed simp

lemma retry_numbers_update:
  assumes "i < length ts"
  shows "mset (retry_numbers (ts[i := t])) + mset (case pc_number (at_pc (ts ! i)) of None \<Rightarrow> [] | Some n \<Rightarrow> [n]) =
    mset (retry_numbers ts) + mset (case pc_number (at_pc t) of None \<Rightarrow> [] | Some n \<Rightarrow> [n])"
  unfolding retry_numbers_def by (rule mset_map_filter_update [OF assms])

context oplog_keeps
begin

lemma two_retries:
  assumes "validate_metadata m = Inr ()" "mut_collection m \<noteq> audit_collection"
    and "lookup_scoped_write_id_seq s (md_tenant_id (mut_metadata m)) (md_namespace (mut_metadata m)) (mut_write_id m) = None"
    and "server_world datetime_now s = (t1, s1)" "op_append L (remote_entry t1 m) (sv_oplog s1) = (Inr n1, l1)"
    and "server_world datetime_now (s1\<lparr>sv_oplog := l1\<rparr>) = (t2, s2)" "op_append L (remote_entry t2 m) l1 = (Inr n2, l2)"
  shows "run_schedule L [0, 1, 0, 1, 1, 1, 0, 0] ([retry m Checking, retry m Checking], s) =
    ([retry m (Answered (Inr n1)), retry m (Answered (Inr n2))],
     index_mutation n1 m (index_mutation n2 m (s2\<lparr>sv_oplog := l2\<rparr>)))"
proof -
  have "sv_oplog s2 = l1" using assms(6) by (auto dest: server_world_same simp: server_same_def)
  then show ?thesis
    using assms by (simp add: schedule_step_def scope_of_def server_append_def index_mutation_def)
qed

text \<open>
  Retries that have looked the write up and are not through: what they have appended has the numbers they
  go on with, one after the other as long as none failed, and the index names one of them.
\<close>

definition retries_ok :: "mutation \<Rightarrow> oplog_entry list \<Rightarrow> append_thread list \<times> 'o server_state \<Rightarrow> bool" where
  "retries_ok m base cfg \<longleftrightarrow> (case cfg of (ts, s) \<Rightarrow>
     inv (sv_oplog s) \<and> (\<forall>t\<in>set ts. \<exists>pc. t = retry m pc \<and> pc \<noteq> Checking) \<and>
     (\<exists>es. log_of (sv_oplog s) = base @ es \<and> (\<forall>e\<in>set es. entry_mutation e = m) \<and>
       mset (map entry_seq es) = mset (retry_numbers ts) \<and>
       ((\<forall>t\<in>set ts. \<forall>e. at_pc t \<noteq> Answered (Inl e)) \<longrightarrow>
         in_a_row_seqs es \<and> (es \<noteq> [] \<longrightarrow> op_latest_seq L (sv_oplog s) = Inr (entry_seq (last es))))) \<and>
     (\<forall>n. al_get (sv_write_ids s) (write_key m) = Some n \<longrightarrow> n \<in> set (retry_numbers ts)) \<and>
     ((\<exists>t\<in>set ts. \<exists>n. at_pc t = Answered (Inr n)) \<longrightarrow> al_get (sv_write_ids s) (write_key m) \<noteq> None))"

lemma retry_step:
  assumes ok: "retries_ok m base (ts, s)" and counted: "mut_collection m \<noteq> audit_collection"
  shows "retries_ok m base (schedule_step L i (ts, s))"
proof (cases "i < length ts")
  case False
  with ok show ?thesis by (simp add: schedule_step_def)
next
  case True
  let ?ids = "\<lambda>s. al_get (sv_write_ids s) (write_key m)"
  obtain es where old: "inv (sv_oplog s)" "\<forall>t\<in>set ts. \<exists>pc. t = retry m pc \<and> pc \<noteq> Checking"
    and es: "log_of (sv_oplog s) = base @ es" "\<forall>e\<in>set es. entry_mutation e = m"
      "mset (map entry_seq es) = mset (retry_numbers ts)"
      "(\<forall>t\<in>set ts. \<forall>e. at_pc t \<noteq> Answered (Inl e)) \<longrightarrow>
         in_a_row_seqs es \<and> (es \<noteq> [] \<longrightarrow> op_latest_seq L (sv_oplog s) = Inr (entry_seq (last es)))"
    and ids: "\<forall>n. ?ids s = Some n \<longrightarrow> n \<in> set (retry_numbers ts)"
      "(\<exists>t\<in>set ts. \<exists>n. at_pc t = Answered (Inr n)) \<longrightarrow> ?ids s \<noteq> None"
    using ok by (auto simp: retries_ok_def)
  obtain pc where t: "ts ! i = retry m pc" "pc \<noteq> Checking" using old(2) True by fastforce
  have mem: "retry m pc \<in> set ts" using True t(1) by (metis nth_mem)
  note num = retry_numbers_update [OF True, unfolded t(1) retry_simps]
  have sub: "set (ts[i := x]) \<subseteq> insert x (set ts)" for x by (rule set_update_subset_insert)
  have inn: "x \<in> set (ts[i := x])" for x using True by (rule set_update_memI)
  have others: "t' \<in> set ts \<Longrightarrow> t' = retry m pc \<or> t' \<in> set (ts[i := x])" for t' x
    using True t(1) by (metis in_set_conv_nth length_list_update nth_list_update_neq)
  have threads: "pc' \<noteq> Checking \<Longrightarrow> \<forall>t\<in>set (ts[i := retry m pc']). \<exists>pc. t = retry m pc \<and> pc \<noteq> Checking" for pc'
    using old(2) sub [of "retry m pc'"] by fastforce
  have fails: "\<forall>t\<in>set ts. \<forall>e. at_pc t \<noteq> Answered (Inl e)"
    if "\<forall>t\<in>set (ts[i := retry m pc']). \<forall>e. at_pc t \<noteq> Answered (Inl e)" "\<forall>e. pc \<noteq> Answered (Inl e)" for pc'
  proof (intro ballI allI)
    fix t' e assume "t' \<in> set ts"
    with others [of t' "retry m pc'"] that show "at_pc t' \<noteq> Answered (Inl e)" by fastforce
  qed
  show ?thesis
  proof (cases pc)
    case Checking
    with t(2) show ?thesis by simp
  next
    case Appending
    obtain time s1 where 1: "server_world datetime_now s = (time, s1)" by fastforce
    then have same: "sv_oplog s1 = sv_oplog s" "sv_write_ids s1 = sv_write_ids s"
      by (auto dest: server_world_same simp: server_same_def)
    obtain q l where q: "op_append L (remote_entry time m) (sv_oplog s) = (q, l)" by fastforce
    have invl: "inv l" using append_inv [OF old(1) q] .
    show ?thesis
    proof (cases q)
      case (Inl x)
      have step: "schedule_step L i (ts, s) = (ts[i := retry m (Answered (Inl x))], s1\<lparr>sv_oplog := l\<rparr>)"
        using True t(1) Appending 1 q Inl same by (simp add: schedule_step_def server_append_def)
      have n: "mset (retry_numbers (ts[i := retry m (Answered (Inl x))])) = mset (retry_numbers ts)"
        using num [of "retry m (Answered (Inl x))"] Appending by simp
      have "log_of l = base @ es" using append_err_log [OF old(1)] q Inl es(1) by simp
      moreover have "\<not> (\<forall>t\<in>set (ts[i := retry m (Answered (Inl x))]). \<forall>e. at_pc t \<noteq> Answered (Inl e))"
        using inn [of "retry m (Answered (Inl x))"] by force
      moreover have "?ids s \<noteq> None" if "t' \<in> set (ts[i := retry m (Answered (Inl x))])" "at_pc t' = Answered (Inr n)" for t' n
      proof -
        have "t' \<in> set ts" using that sub [of "retry m (Answered (Inl x))"] by auto
        with ids(2) that(2) show ?thesis by blast
      qed
      ultimately show ?thesis
        using invl threads [of "Answered (Inl x)"] es(2,3) ids(1) n same mset_eq_setD [OF n]
        unfolding step retries_ok_def by simp blast
    next
      case (Inr n)
      let ?ts = "ts[i := retry m (Raising n)]" and ?e = "(remote_entry time m)\<lparr>entry_seq := n\<rparr>"
      have step: "schedule_step L i (ts, s) = (?ts, s1\<lparr>sv_oplog := l\<rparr>)"
        using True t(1) Appending 1 q Inr same by (simp add: schedule_step_def server_append_def)
      have num': "mset (retry_numbers ?ts) = add_mset n (mset (retry_numbers ts))"
        using num [of "retry m (Raising n)"] Appending by simp
      have l: "log_of l = base @ (es @ [?e])" using append_log [OF old(1)] q Inr es(1) by simp
      have lat: "op_latest_seq L (sv_oplog s) = Inr (n - 1)" "op_latest_seq L l = Inr n"
        using append_latest [OF old(1)] q Inr by auto
      have e: "entry_mutation ?e = m" "entry_seq ?e = n" by (simp_all add: remote_entry_def)
      have row: "in_a_row_seqs (es @ [?e])" if "\<forall>t\<in>set ?ts. \<forall>e. at_pc t \<noteq> Answered (Inl e)"
      proof -
        have "in_a_row_seqs es" "es \<noteq> [] \<longrightarrow> entry_seq (last es) = n - 1"
          using es(4) fails [OF that] Appending lat(1) by auto
        then show ?thesis using e(2) by (auto simp: in_a_row_seqs_def successively_append_iff)
      qed
      have answered: "?ids s \<noteq> None" if "t' \<in> set ?ts" "at_pc t' = Answered (Inr k)" for t' k
      proof -
        have "t' \<in> set ts" using that sub [of "retry m (Raising n)"] by auto
        with ids(2) that(2) show ?thesis by blast
      qed
      have "set (retry_numbers ?ts) = insert n (set (retry_numbers ts))"
        using arg_cong [OF num', of set_mset] by simp
      then have "\<forall>k. ?ids s = Some k \<longrightarrow> k \<in> set (retry_numbers ?ts)" using ids(1) by simp
      moreover have "\<exists>es'. log_of l = base @ es' \<and> (\<forall>e\<in>set es'. entry_mutation e = m) \<and>
          mset (map entry_seq es') = mset (retry_numbers ?ts) \<and>
          ((\<forall>t\<in>set ?ts. \<forall>e. at_pc t \<noteq> Answered (Inl e)) \<longrightarrow>
            in_a_row_seqs es' \<and> (es' \<noteq> [] \<longrightarrow> op_latest_seq L l = Inr (entry_seq (last es'))))"
        using l es(2,3) e num' row lat(2) by (intro exI [of _ "es @ [?e]"]) auto
      moreover have "\<forall>t\<in>set ?ts. \<exists>pc. t = retry m pc \<and> pc \<noteq> Checking" by (rule threads) simp
      ultimately show ?thesis
        unfolding step retries_ok_def using invl answered same by auto
    qed
  next
    case (Raising n)
    let ?ts = "ts[i := retry m (Naming n)]"
    have step: "schedule_step L i (ts, s) = (?ts, s\<lparr>sv_latest := raise_latest n (scope_of m) (sv_latest s)\<rparr>)"
      using True t(1) Raising counted by (simp add: schedule_step_def)
    have n: "mset (retry_numbers ?ts) = mset (retry_numbers ts)" using num [of "retry m (Naming n)"] Raising by simp
    have answered: "?ids s \<noteq> None" if "t' \<in> set ?ts" "at_pc t' = Answered (Inr k)" for t' k
    proof -
      have "t' \<in> set ts" using that sub [of "retry m (Naming n)"] by auto
      with ids(2) that(2) show ?thesis by blast
    qed
    have "\<forall>t\<in>set ?ts. \<exists>pc. t = retry m pc \<and> pc \<noteq> Checking" by (rule threads) simp
    moreover have "\<forall>k. ?ids s = Some k \<longrightarrow> k \<in> set (retry_numbers ?ts)" using ids(1) mset_eq_setD [OF n] by simp
    ultimately show ?thesis
      unfolding step retries_ok_def using old(1) es n answered fails [of "Naming n"] Raising by (auto intro!: exI [of _ es])
  next
    case (Naming n)
    let ?ts = "ts[i := retry m (Answered (Inr n))]"
    have step: "schedule_step L i (ts, s) = (?ts, s\<lparr>sv_write_ids := put_write_id n m (sv_write_ids s)\<rparr>)"
      using True t(1) Naming by (simp add: schedule_step_def)
    have n: "mset (retry_numbers ?ts) = mset (retry_numbers ts)" using num [of "retry m (Answered (Inr n))"] Naming by simp
    have "n \<in> set (retry_numbers ts)"
      using mem Naming by (force simp: retry_numbers_def map_filter_def image_iff)
    then have "n \<in> set (retry_numbers ?ts)" using mset_eq_setD [OF n] by simp
    moreover have "\<forall>t\<in>set ?ts. \<exists>pc. t = retry m pc \<and> pc \<noteq> Checking" by (rule threads) simp
    moreover have "al_get (put_write_id n m (sv_write_ids s)) (write_key m) = Some n"
      by (simp add: put_write_id_def write_key_def)
    ultimately show ?thesis
      unfolding step retries_ok_def using old(1) es n fails [of "Answered (Inr n)"] Naming by (auto intro!: exI [of _ es])
  next
    case (Answered r)
    have "ts[i := retry m (Answered r)] = ts" using t(1) Answered by (metis list_update_id)
    then have "schedule_step L i (ts, s) = (ts, s)" using True t(1) Answered by (simp add: schedule_step_def)
    with ok show ?thesis by simp
  qed
qed

lemma retry_run:
  "retries_ok m base cfg \<Longrightarrow> mut_collection m \<noteq> audit_collection \<Longrightarrow> retries_ok m base (run_schedule L schedule cfg)"
  by (induction schedule arbitrary: cfg) (simp_all, metis retry_step prod.exhaust)

text \<open>All look the write up first: none finds it, and the state of the server is as before.\<close>

lemma retries_check:
  assumes "validate_metadata m = Inr ()"
    and "lookup_scoped_write_id_seq s (md_tenant_id (mut_metadata m)) (md_namespace (mut_metadata m)) (mut_write_id m) = None"
  shows "j \<le> k \<Longrightarrow> run_schedule L [0..<j] (replicate k (retry m Checking), s) =
    (replicate j (retry m Appending) @ replicate (k - j) (retry m Checking), s)"
proof (induction j)
  case (Suc j)
  then have "k - j = Suc (k - Suc j)" by simp
  then have "replicate (k - j) (retry m Checking) = retry m Checking # replicate (k - Suc j) (retry m Checking)" by simp
  moreover have "replicate (Suc j) (retry m Appending) = replicate j (retry m Appending) @ [retry m Appending]"
    by (simp add: replicate_append_same)
  ultimately show ?case
    using Suc assms
    by (simp add: run_schedule_def schedule_step_def nth_append scope_of_def list_update_append del: replicate.simps)
qed simp

text \<open>A write with wrong metadata is refused in every interleaving.\<close>

definition refused_all :: "mutation \<Rightarrow> append_thread list \<times> 'o server_state \<Rightarrow> bool" where
  "refused_all m cfg \<longleftrightarrow> (\<forall>t\<in>set (fst cfg). at_mutation t = m \<and> (at_pc t = Checking \<or> (\<exists>e. at_pc t = Answered (Inl e))))"

lemma refused_step:
  assumes "validate_metadata m = Inl x" "refused_all m cfg"
  shows "refused_all m (schedule_step L i cfg)"
proof (cases "i < length (fst cfg)")
  case True
  then have "fst cfg ! i \<in> set (fst cfg)" by simp
  with assms(2) have "at_mutation (fst cfg ! i) = m \<and> (at_pc (fst cfg ! i) = Checking \<or> (\<exists>e. at_pc (fst cfg ! i) = Answered (Inl e)))"
    unfolding refused_all_def by blast
  with True assms(1) obtain e where "fst (schedule_step L i cfg) = (fst cfg)[i := (fst cfg ! i)\<lparr>at_pc := Answered (Inl e)\<rparr>]"
    "at_mutation (fst cfg ! i) = m"
    by (cases cfg) (auto simp: schedule_step_def)
  then show ?thesis
    using assms(2) set_update_subset_insert [of "fst cfg" i "(fst cfg ! i)\<lparr>at_pc := Answered (Inl e)\<rparr>"]
    unfolding refused_all_def by fastforce
next
  case False
  with assms(2) show ?thesis by (cases cfg) (simp add: schedule_step_def)
qed

lemma refused_run:
  assumes "validate_metadata m = Inl x" "refused_all m cfg"
  shows "refused_all m (run_schedule L schedule cfg)"
  using assms(2) by (induction schedule arbitrary: cfg) (simp_all add: refused_step [OF assms(1)])

lemma retries_outcome:
  assumes inv: "inv (sv_oplog s)" and counted: "mut_collection m \<noteq> audit_collection"
    and new: "lookup_scoped_write_id_seq s (md_tenant_id (mut_metadata m)) (md_namespace (mut_metadata m)) (mut_write_id m) = None"
    and run: "run_schedule L ([0..<k] @ schedule) (replicate k (retry m Checking), s) =
      (map (\<lambda>n. retry m (Answered (Inr n))) ns, s')"
    and numbered: "numbered L log_of (sv_oplog s')"
  shows "\<exists>es. log_of (sv_oplog s') = log_of (sv_oplog s) @ es \<and> map entry_mutation es = replicate k m \<and>
    mset (map entry_seq es) = mset ns \<and> in_a_row_seqs es \<and>
    (2 \<le> k \<longrightarrow> \<not> writes_once (log_of (sv_oplog s'))) \<and>
    (0 < k \<longrightarrow> (\<exists>n\<in>set ns. al_get (sv_write_ids s') (write_key m) = Some n) \<and>
      al_get (sv_write_ids (server_new L (sv_oplog s') w)) (write_key m) = Some (entry_seq (last es)))"
proof -
  have split: "run_schedule L ([0..<k] @ schedule) cfg = run_schedule L schedule (run_schedule L [0..<k] cfg)" for cfg
    by (simp add: run_schedule_def)
  have len: "length (fst (run_schedule L sch cfg)) = length (fst cfg)" for sch cfg
    by (induction sch arbitrary: cfg) (auto simp: schedule_step_def split: prod.splits)
  have k: "length ns = k" using len [of "[0..<k] @ schedule" "(replicate k (retry m Checking), s)"] run by simp
  show ?thesis
  proof (cases "k = 0")
    case True
    have "run_schedule L sch ([], s) = ([], s)" for sch by (induction sch) (simp_all add: schedule_step_def)
    with True run k show ?thesis by (simp add: in_a_row_seqs_def)
  next
    case False
    have valid: "validate_metadata m = Inr ()"
    proof (cases "validate_metadata m")
      case (Inl x)
      with run have "refused_all m (map (\<lambda>n. retry m (Answered (Inr n))) ns, s')"
        using refused_run [of m x "(replicate k (retry m Checking), s)" "[0..<k] @ schedule"]
        by (auto simp: refused_all_def simp del: run_schedule_simps)
      with False k show ?thesis by (cases ns) (auto simp: refused_all_def)
    qed simp
    have "run_schedule L [0..<k] (replicate k (retry m Checking), s) = (replicate k (retry m Appending), s)"
      using retries_check [OF valid new, of k k] by simp
    then have run': "run_schedule L schedule (replicate k (retry m Appending), s) = (map (\<lambda>n. retry m (Answered (Inr n))) ns, s')"
      using run split by simp
    have "al_get (sv_write_ids s) (write_key m) = None"
      using new by (simp add: lookup_scoped_write_id_seq_def write_key_def)
    then have "retries_ok m (log_of (sv_oplog s)) (replicate k (retry m Appending), s)"
      using inv by (auto simp: retries_ok_def retry_numbers_def map_filter_def in_a_row_seqs_def)
    from retry_run [OF this counted, of schedule] run'
    have fin: "retries_ok m (log_of (sv_oplog s)) (map (\<lambda>n. retry m (Answered (Inr n))) ns, s')" by simp
    have nums: "retry_numbers (map (\<lambda>n. retry m (Answered (Inr n))) ns) = ns"
      by (induction ns) (simp_all add: retry_numbers_def map_filter_simps)
    let ?ts = "map (\<lambda>n. retry m (Answered (Inr n))) ns"
    have ends: "\<exists>t\<in>set ?ts. \<exists>n. at_pc t = Answered (Inr n)" "\<forall>t\<in>set ?ts. \<forall>e. at_pc t \<noteq> Answered (Inl e)"
      using False k by (cases ns; simp)+
    from fin obtain es where es: "inv (sv_oplog s')" "log_of (sv_oplog s') = log_of (sv_oplog s) @ es"
      "\<forall>e\<in>set es. entry_mutation e = m" "mset (map entry_seq es) = mset ns" "in_a_row_seqs es"
      "\<forall>n. al_get (sv_write_ids s') (write_key m) = Some n \<longrightarrow> n \<in> set ns"
      "al_get (sv_write_ids s') (write_key m) \<noteq> None"
      using ends unfolding retries_ok_def prod.case nums by blast
    have "length es = k" using es(4) k by (metis length_map size_mset)
    then have muts: "map entry_mutation es = replicate k m" and ne: "es \<noteq> []"
      using es(3) False by (auto intro!: nth_equalityI)
    have all: "filter counted es = es" using es(3) counted by (simp add: filter_id_conv counted_def)
    have "\<not> writes_once (log_of (sv_oplog s'))" if "2 \<le> k"
    proof -
      have "\<not> distinct (replicate k x)" for x :: "string \<times> string \<times> string" using that by (cases k; cases "k - 1") auto
      moreover have "map (\<lambda>e. write_key (entry_mutation e)) es = replicate k (write_key m)"
        using arg_cong [OF muts, of "map write_key"] by (simp add: comp_def)
      ultimately show ?thesis by (simp add: es(2) writes_once_def all comp_def)
    qed
    moreover have "al_get (sv_write_ids (server_new L (sv_oplog s') w)) (write_key m) = Some (entry_seq (last es))"
    proof -
      have "sv_write_ids (server_new L (sv_oplog s') w) = snd (build_scoped_indexes L (sv_oplog s'))"
        by (simp add: server_new_def server_with_control_plane_def split: prod.splits)
      also have "build_scoped_indexes L (sv_oplog s') = index_entries ((log_of (sv_oplog s) @ butlast es) @ [last es]) ([], [])"
        using build_indexes [OF es(1) numbered] ne by (simp add: es(2))
      finally show ?thesis
        using index_last_write [of "last es" "log_of (sv_oplog s) @ butlast es" "([], [])"] es(3) ne counted
        by (simp add: counted_def)
    qed
    ultimately show ?thesis using es muts by blast
  qed
qed

end

text \<open>
  C23: retries that overtake are written again: when a write, not yet in the log, is sent any number of
  times and every request looks it up before one of them appends it, then in every interleaving of what is
  left in which all are answered with success, the log holds the write once for each request, under
  different numbers in a row, which are those answered. The running server names the write by one of them,
  a server restarted on the same log by the last; they can differ.
\<close>

theorem concurrent_retries_duplicate:
  assumes "file_inv D K A (sv_oplog s)" "mut_collection m \<noteq> audit_collection"
    and "lookup_scoped_write_id_seq s (md_tenant_id (mut_metadata m)) (md_namespace (mut_metadata m)) (mut_write_id m) = None"
    and "run_schedule (file_oplog_vt D K A) ([0..<k] @ schedule) (replicate k (retry m Checking), s) =
      (map (\<lambda>n. retry m (Answered (Inr n))) ns, s')"
    and "numbered (file_oplog_vt D K A) (file_log D K A) (sv_oplog s')"
  shows "\<exists>es. file_log D K A (sv_oplog s') = file_log D K A (sv_oplog s) @ es \<and> map entry_mutation es = replicate k m \<and>
    mset (map entry_seq es) = mset ns \<and> successively (\<lambda>a b. entry_seq b = entry_seq a + 1) es \<and>
    (2 \<le> k \<longrightarrow> \<not> writes_once (file_log D K A (sv_oplog s'))) \<and>
    (0 < k \<longrightarrow> (\<exists>n\<in>set ns. al_get (sv_write_ids s') (write_key m) = Some n) \<and>
      al_get (sv_write_ids (server_new (file_oplog_vt D K A) (sv_oplog s') w)) (write_key m) = Some (entry_seq (last es)))"
  using file_log.retries_outcome [OF assms] unfolding in_a_row_seqs_def .

text \<open>A log that can take two appended entries, and the clock that dates both.\<close>

definition race_world :: world where
  "race_world = sample_world\<lparr>w_datetimes := \<lambda>n. 0\<rparr>"

definition race_entry :: "u64 \<Rightarrow> oplog_entry" where
  "race_entry n = (remote_entry 0 sample_mutation)\<lparr>entry_seq := n\<rparr>"

lemma race_entry_simps [simp]:
  "(remote_entry 0 sample_mutation)\<lparr>entry_seq := n\<rparr> = race_entry n" "race_entry m = race_entry n \<longleftrightarrow> m = n"
  "entry_seq (race_entry n) = n"
  by (simp_all add: race_entry_def remote_entry_def)

abbreviation race_codec :: entry_codec where
  "race_codec \<equiv> table_entry_codec [race_entry 1, race_entry 2]"

abbreviation race_vt :: "unit file_oplog oplog_vt" where
  "race_vt \<equiv> file_oplog_vt sample_log_deps race_codec tag_cipher"

lemma race_append:
  assumes "file_inv sample_log_deps race_codec tag_cipher lg" "fo_next_seq lg = 0 \<or> fo_next_seq lg = 1"
    and "fo_crypto lg = Some ()"
  shows "\<exists>l. file_append sample_log_deps race_codec tag_cipher (remote_entry 0 sample_mutation) lg =
    (Inr (fo_next_seq lg + 1), l)"
  using file_inv_env [OF assms(1)]
proof (cases rule: file_append_cases [where e = "remote_entry 0 sample_mutation"])
  case (err x)
  have "fo_faults lg = (\<lambda>n. None)" using assms(1) by (auto simp: file_inv_def file_env_ok_def)
  with err assms(2,3) show ?thesis
    by (auto simp: file_append_def table_entry_codec_def table_writer_def Let_def fs_faultless seal_def)
qed blast

theorem concurrent_retries_duplicate_witness:
  "\<exists>s'. run_schedule race_vt [0, 1, 0, 1, 1, 1, 0, 0]
      ([retry sample_mutation Checking, retry sample_mutation Checking], server_new race_vt sample_log race_world) =
      ([retry sample_mutation (Answered (Inr 1)), retry sample_mutation (Answered (Inr 2))], s') \<and>
    al_get (sv_write_ids s') (write_key sample_mutation) = Some 1 \<and>
    al_get (sv_write_ids (server_new race_vt (sv_oplog s') race_world)) (write_key sample_mutation) = Some 2"
proof -
  let ?s = "server_new race_vt sample_log race_world"
  have clock: "\<exists>s'. server_world datetime_now s = (0, s') \<and> w_datetimes (sv_world s') = (\<lambda>n. 0) \<and> sv_oplog s' = sv_oplog s"
    if "w_datetimes (sv_world s) = (\<lambda>n. 0)" for s :: "unit file_oplog server_state"
    using that by (simp add: server_world_def datetime_now_def)
  have zero: "w_datetimes (sv_world ?s) = (\<lambda>n. 0)"
    by (simp add: server_new_def server_with_control_plane_def race_world_def split: prod.splits)
  have inv: "file_inv sample_log_deps race_codec tag_cipher sample_log" by (rule sample_log_inv)
  obtain l1 where l1: "file_append sample_log_deps race_codec tag_cipher (remote_entry 0 sample_mutation) sample_log = (Inr 1, l1)"
    using race_append [OF inv] by (auto simp: sample_log_def)
  note ok1 = file_append_ok [OF inv l1]
  obtain l2 where l2: "file_append sample_log_deps race_codec tag_cipher (remote_entry 0 sample_mutation) l1 = (Inr 2, l2)"
    using race_append [of l1] ok1 by (auto simp: sample_log_def same_env_def)
  note ok2 = file_append_ok [OF conjunct1 [OF conjunct2 [OF conjunct2 [OF ok1]]] l2]
  have valid: "validate_metadata sample_mutation = Inr ()" "mut_collection sample_mutation \<noteq> audit_collection"
    by (simp_all add: sample_mutation_def validate_metadata_def validate_mutation_metadata_def audit_collection_def)
  have start: "sv_oplog ?s = sample_log" by (simp add: server_new_def)
  have new: "lookup_scoped_write_id_seq ?s t n w = None" for t n w
    by (simp add: lookup_scoped_write_id_seq_def server_new_def server_with_control_plane_def build_scoped_indexes_def
        sample_log_def file_latest_seq_def split: prod.splits)
  obtain s1 where 1: "server_world datetime_now ?s = (0, s1)" "w_datetimes (sv_world s1) = (\<lambda>n. 0)" "sv_oplog s1 = sample_log"
    using clock [OF zero] start by auto
  obtain s2 where 2: "server_world datetime_now (s1\<lparr>sv_oplog := l1\<rparr>) = (0, s2)"
    using clock [of "s1\<lparr>sv_oplog := l1\<rparr>"] 1(2) by auto
  have run: "run_schedule race_vt [0, 1, 0, 1, 1, 1, 0, 0] ([retry sample_mutation Checking, retry sample_mutation Checking], ?s) =
      ([retry sample_mutation (Answered (Inr 1)), retry sample_mutation (Answered (Inr 2))],
       index_mutation 1 sample_mutation (index_mutation 2 sample_mutation (s2\<lparr>sv_oplog := l2\<rparr>)))"
    by (rule file_log.two_retries [OF valid new 1(1) _ 2]) (simp_all add: 1(3) l1 l2)
  have log1: "file_log sample_log_deps race_codec tag_cipher l1 = [race_entry 1]"
    using ok1 by (metis append_Nil race_entry_simps(1) sample_log_start(2))
  have logs: "file_log sample_log_deps race_codec tag_cipher l2 = [race_entry 1, race_entry 2]"
    using ok2 unfolding log1 by simp
  let ?final = "index_mutation 1 sample_mutation (index_mutation 2 sample_mutation (s2\<lparr>sv_oplog := l2\<rparr>))"
  have same: "sv_oplog ?final = l2" by (simp add: index_mutation_def)
  have num: "numbered race_vt (file_log sample_log_deps race_codec tag_cipher) (sv_oplog ?final)"
    unfolding same using conjunct1 [OF conjunct2 [OF ok2]] logs by (simp add: numbered_def file_latest_seq_def)
  have run2: "run_schedule race_vt ([0..<2] @ [0, 1, 1, 1, 0, 0]) (replicate 2 (retry sample_mutation Checking), ?s) =
      (map (\<lambda>n. retry sample_mutation (Answered (Inr n))) [1, 2], ?final)"
    using run by (simp add: upt_conv_Cons numeral_2_eq_2)
  have inv': "file_inv sample_log_deps race_codec tag_cipher (sv_oplog ?s)" using inv start by simp
  obtain es where "[race_entry 1, race_entry 2] = es"
    "al_get (sv_write_ids (server_new race_vt l2 race_world)) (write_key sample_mutation) = Some (entry_seq (last es))"
    using concurrent_retries_duplicate [OF inv' valid(2) new run2 num, of race_world]
    unfolding same start logs sample_log_start(2) append_Nil by auto
  then have "al_get (sv_write_ids (server_new race_vt l2 race_world)) (write_key sample_mutation) = Some 2" by auto
  with run valid(2) same show ?thesis
    by (auto simp: index_mutation_def put_write_id_def write_key_def)
qed

end
