(* ===== verification/Rango_Hub.thy ===== *)
theory Rango_Hub
  imports Rango_Server_Log "HOL-Library.Sublist"
begin

text \<open>
  Clients and hub together: the routes of \<open>server/src/lib.rs\<close> around the handlers, and a network that
  carries the requests of the client of \<open>sync/src/client.rs\<close> to them and may lose a request or an
  answer. How JSON is printed and read is the library's and comes in as a record. The properties follow
  a push from the client to the hub's log and back.
\<close>

section \<open>The application\<close>

text \<open>A \<open>get\<close> route also answers \<open>HEAD\<close>, without the body.\<close>

datatype http_method = GetMethod | HeadMethod | PostMethod | OtherMethod

text \<open>Headers as the handlers read them, and the texts of requests and responses on both sides.\<close>

record wire_api =
  wi_headers :: "(string \<times> string) list \<Rightarrow> headers"
  wi_json :: "request_body \<Rightarrow> string"
  wi_push_in :: "string \<Rightarrow> nat + push_request"
  wi_pull_in :: "string \<Rightarrow> nat + pull_request"
  wi_promote_in :: "string \<Rightarrow> nat + promote_request"
  wi_retrieve_in :: "string \<Rightarrow> nat + retrieval_request"
  wi_push_out :: "push_response \<Rightarrow> string"
  wi_pull_out :: "pull_response \<Rightarrow> string"
  wi_promote_out :: "promote_response \<Rightarrow> string"
  wi_retrieve_out :: "retrieval_response \<Rightarrow> string"
  wi_health_out :: "string \<Rightarrow> string"
  wi_ready_out :: "ready_response \<Rightarrow> string"
  wi_status_text :: "nat \<Rightarrow> string"
  wi_push_parse :: "string \<Rightarrow> string + push_response"
  wi_pull_parse :: "string \<Rightarrow> string + pull_response"
  wi_promote_parse :: "string \<Rightarrow> string + promote_response"

definition max_request_size :: nat where
  "max_request_size = 10 * 1024 * 1024"

text \<open>A route with a JSON body; the texts that come with a refusal are left out.\<close>

definition json_route :: "(string \<Rightarrow> nat + 'q) \<Rightarrow> ('a \<Rightarrow> string) \<Rightarrow> (headers \<Rightarrow> 'q \<Rightarrow> ('o, 'a) reply) \<Rightarrow>
    headers \<Rightarrow> string \<Rightarrow> 'o server_state \<Rightarrow> http_response \<times> 'o server_state" where
  "json_route read_body out handler hdr body s =
     (if max_request_size < length body then (\<lparr>hs_status = 413, hs_body = []\<rparr>, s)
      else case read_body body of
          Inl status \<Rightarrow> (\<lparr>hs_status = status, hs_body = []\<rparr>, s)
        | Inr req \<Rightarrow>
            (case handler hdr req s of
               (Inl status, s) \<Rightarrow> (\<lparr>hs_status = status, hs_body = []\<rparr>, s)
             | (Inr resp, s) \<Rightarrow> (\<lparr>hs_status = 200, hs_body = out resp\<rparr>, s)))"

definition route :: "deps \<Rightarrow> 'o oplog_vt \<Rightarrow> wire_api \<Rightarrow> http_method \<Rightarrow> string \<Rightarrow> headers \<Rightarrow> string \<Rightarrow>
    'o server_state \<Rightarrow> http_response \<times> 'o server_state" where
  "route D L W meth path hdr body s =
     (let refused = (\<lambda>status. (\<lparr>hs_status = status, hs_body = []\<rparr>, s));
          get = (\<lambda>answer. if meth = GetMethod then answer
                else if meth = HeadMethod then apfst (hs_body_update (\<lambda>_. [])) answer else refused 405);
          post = (\<lambda>answer. if meth = PostMethod then answer else refused 405)
      in if path = ''/health'' then
           get (case handle_health of (status, text) \<Rightarrow> (\<lparr>hs_status = status, hs_body = wi_health_out W text\<rparr>, s))
         else if path = ''/ready'' then
           get (case handle_ready L s of (status, resp) \<Rightarrow> (\<lparr>hs_status = status, hs_body = wi_ready_out W resp\<rparr>, s))
         else if path = ''/push'' then
           post (json_route (wi_push_in W) (wi_push_out W) (handle_push D L) hdr body s)
         else if path = ''/pull'' then
           post (json_route (wi_pull_in W) (wi_pull_out W) (handle_pull D L) hdr body s)
         else if path = ''/promote'' then
           post (json_route (wi_promote_in W) (wi_promote_out W) (handle_promote D L) hdr body s)
         else if path = ''/retrieve'' then
           post (json_route (wi_retrieve_in W) (wi_retrieve_out W) (handle_retrieval_read D L) hdr body s)
         else refused 404)"

text \<open>The layers around all routes; the limiter is made when the first request comes.\<close>

definition app :: "deps \<Rightarrow> 'o oplog_vt \<Rightarrow> wire_api \<Rightarrow> nat \<Rightarrow> nat \<Rightarrow> http_method \<Rightarrow> string \<Rightarrow> headers \<Rightarrow> string \<Rightarrow>
    rate_limiter option \<times> 'o server_state \<Rightarrow> http_response \<times> rate_limiter option \<times> 'o server_state" where
  "app D L W created now meth path hdr body st = (case st of (limiter, s) \<Rightarrow>
     case rate_limit_middleware created now limiter
         (\<lambda>s. case route D L W meth path hdr body s of (resp, s) \<Rightarrow> (Inr resp, s)) s of
       (r, Inl status, s) \<Rightarrow> (\<lparr>hs_status = status, hs_body = []\<rparr>, Some r, s)
     | (r, Inr resp, s) \<Rightarrow> (resp, Some r, s))"

section \<open>The network\<close>

datatype delivery = Delivered | RequestLost | AnswerLost

text \<open>The hub behind a network, with the fate of every call and the time of its arrival.\<close>

record 'o hub =
  hb_server :: "'o server_state"
  hb_limiter :: "rate_limiter option"
  hb_deliveries :: "nat \<Rightarrow> delivery"
  hb_clock :: "nat \<Rightarrow> nat"
  hb_calls :: nat

definition hub_send :: "deps \<Rightarrow> 'o oplog_vt \<Rightarrow> wire_api \<Rightarrow> string \<Rightarrow> http_request \<Rightarrow> 'o hub \<Rightarrow>
    (string + http_response) \<times> 'o hub" where
  "hub_send D L W base rq h =
     (let n = hb_calls h; fate = hb_deliveries h n; h = h\<lparr>hb_calls := Suc n\<rparr>
      in if fate = RequestLost then (Inl ''error sending request'', h)
         else case app D L W (hb_clock h n) (hb_clock h n) PostMethod (drop (length base) (hq_url rq))
               (wi_headers W (hq_headers rq)) (wi_json W (hq_json rq)) (hb_limiter h, hb_server h) of
           (resp, limiter, s) \<Rightarrow>
             (if fate = AnswerLost then Inl ''connection closed before message completed'' else Inr resp,
              h\<lparr>hb_limiter := limiter, hb_server := s\<rparr>))"

definition hub_api :: "deps \<Rightarrow> 'o oplog_vt \<Rightarrow> wire_api \<Rightarrow> string \<Rightarrow> 'o hub http_api" where
  "hub_api D L W base = \<lparr>ht_send = hub_send D L W base, ht_status_text = wi_status_text W,
     ht_push_json = wi_push_parse W, ht_pull_json = wi_pull_parse W, ht_promote_json = wi_promote_parse W\<rparr>"

text \<open>What any calls of any clients lead to.\<close>

inductive hub_reaches :: "deps \<Rightarrow> 'o oplog_vt \<Rightarrow> wire_api \<Rightarrow> 'o hub \<Rightarrow> 'o hub \<Rightarrow> bool" for D L W h where
  hub_refl: "hub_reaches D L W h h"
| hub_call: "hub_reaches D L W h t \<Longrightarrow> hub_reaches D L W h (snd (hub_send D L W base rq t))"

text \<open>
  What is relied on of JSON: tenant, namespace, and of each mutation the texts that identify it arrive as
  sent, an answer that is read has the numbers that were answered, and no answer is read from nothing.
\<close>

definition same_write :: "mutation \<Rightarrow> mutation \<Rightarrow> bool" where
  "same_write m m' \<longleftrightarrow> write_key m' = write_key m \<and> mut_collection m' = mut_collection m"

definition wire_ok :: "wire_api \<Rightarrow> bool" where
  "wire_ok W \<longleftrightarrow>
     (\<forall>p p'. wi_push_in W (wi_json W (PushBody p)) = Inr p' \<longrightarrow>
        pq_tenant_id p' = pq_tenant_id p \<and> pq_namespace p' = pq_namespace p \<and>
        list_all2 same_write (pq_mutations p) (pq_mutations p')) \<and>
     (\<forall>r r'. wi_push_parse W (wi_push_out W r) = Inr r' \<longrightarrow> ps_accepted_seqs r' = ps_accepted_seqs r) \<and>
     (\<forall>r. wi_push_parse W [] \<noteq> Inr r)"

section \<open>Every call is a request or none\<close>

lemma json_route_state: "json_route f g k hdr body s = (resp, s') \<Longrightarrow> s' = s \<or> (\<exists>q. s' = snd (k hdr q s))"
  by (auto simp: json_route_def split: if_splits sum.splits prod.splits) (metis snd_conv)+

lemma serve_simps:
  "snd (handle_push D L hdr p s) = serve D L (PushReq hdr p) s"
  "snd (handle_pull D L hdr l s) = serve D L (PullReq hdr l) s"
  "snd (handle_promote D L hdr m s) = serve D L (PromoteReq hdr m) s"
  "snd (handle_retrieval_read D L hdr r s) = serve D L (RetrievalReq hdr r) s"
  by (simp_all add: serve_def)

lemma route_serve: "route D L W meth path hdr body s = (resp, s') \<Longrightarrow> s' = s \<or> (\<exists>q. s' = serve D L q s)"
  by (auto simp: route_def Let_def handle_health_def split: if_splits prod.splits
      dest!: json_route_state simp: serve_simps)

lemma hub_send_serve:
  "hub_send D L W base rq h = (r, h') \<Longrightarrow> hb_server h' = hb_server h \<or> (\<exists>q. hb_server h' = serve D L q (hb_server h))"
  by (auto simp: hub_send_def app_def rate_limit_middleware_def Let_def split: if_splits prod.splits sum.splits option.splits
      dest!: route_serve)

context oplog_keeps
begin

lemma serve_ok: "ok s \<Longrightarrow> ok (serve D L q s) \<and> (\<exists>es. log_of (sv_oplog (serve D L q s)) = log_of (sv_oplog s) @ es)"
proof -
  assume s: "ok s"
  obtain tenant ns where scope: "request_scope s q = (tenant, ns)" by fastforce
  from s serve_grows [OF scope, of D] safe.R_serve [OF scope, of D] show ?thesis
    by (auto simp: server_extends_def server_ok_def)
qed

lemma hub_reaches_ok:
  "hub_reaches D L W h t \<Longrightarrow> ok (hb_server h) \<Longrightarrow>
   ok (hb_server t) \<and> (\<exists>es. log_of (sv_oplog (hb_server t)) = log_of (sv_oplog (hb_server h)) @ es)"
proof (induction rule: hub_reaches.induct)
  case (hub_call t base rq)
  have "hb_server (snd (hub_send D L W base rq t)) = hb_server t \<or>
      (\<exists>q. hb_server (snd (hub_send D L W base rq t)) = serve D L q (hb_server t))"
    by (rule hub_send_serve [of _ _ _ _ _ _ "fst (hub_send D L W base rq t)"]) simp
  with hub_call serve_ok [of "hb_server t" D] show ?case by (metis append.assoc)
qed simp

text \<open>The numbers a push answers are those of entries with the mutations it accepted, in order.\<close>

lemma push_loop_holds:
  "push_loop D L tenant ns ms acc cross audit s = (Inr (acc', c', a'), s') \<Longrightarrow> ok s \<Longrightarrow>
   \<exists>ms' new. acc' = acc @ new \<and> subseq ms' ms \<and> list_all2 (holds_write (log_of (sv_oplog s'))) ms' new"
proof (induction ms arbitrary: acc cross audit s)
  case (Cons m ms)
  let ?note = "\<lambda>d. note_decision D L ''write'' tenant ns (Some (mut_write_id m)) d"
  have IH: "push_loop D L tenant ns ms acc a u t = (Inr (acc', c', a'), s') \<Longrightarrow> ok t \<Longrightarrow> ?case" for a u t
    using Cons.IH by (meson list_emb_Cons)
  obtain g s1 where g: "containment_gate tenant ns s = (g, s1)" by fastforce
  have gate: "ok s1" using safe.R_gate [OF safe.R_refl g] Cons.prems(2) by blast
  have noted: "ok t \<Longrightarrow> ok (?note d t)" for d t using safe.R_note [OF safe.R_refl] by blast
  have trace: "ok t \<Longrightarrow> ok (signals tr t)" "ok t \<Longrightarrow> ok (count_cross_tenant t)" for tr t
    using safe.R_trace(1,3) [OF safe.R_refl] by blast+
  show ?case
  proof (cases "g = None \<and> validate_metadata m = Inr () \<and> scope_of m = (tenant, ns)")
    case False
    then show ?thesis
      using Cons.prems(1) g gate IH noted trace by (auto simp: Let_def split: option.splits sum.splits if_splits)
  next
    case True
    obtain w tr where w: "write_path D (sv_control_plane s1) \<lparr>wc_tenant_id = tenant, wc_namespace = ns,
        wc_actor = md_actor (mut_metadata m), wc_source = md_source (mut_metadata m), wc_tier = State\<rparr>
        (StateWithTrust (unwrap_or (mut_patch m) []) (md_trust_score (mut_metadata m))) = (w, tr)" by fastforce
    show ?thesis
    proof (cases w)
      case (Inl e)
      with Cons.prems(1) g True w show ?thesis by (simp add: Let_def)
    next
      case (Inr d)
      let ?d = "normalize_write_decision d" and ?s2 = "?note (normalize_write_decision d) (signals tr s1)"
      have s2: "ok ?s2" by (rule noted [OF trace(1) [OF gate]])
      obtain q s3 where q: "append_mutation L m tenant ns ?s2 = (q, s3)" by fastforce
      note run = Cons.prems(1) g True w Inr q
      show ?thesis
      proof (cases "is_reject ?d")
        case True
        with run IH [OF _ s2] show ?thesis by (simp add: Let_def)
      next
        case False
        then obtain n where n: "q = Inr n"
          and rest: "push_loop D L tenant ns ms (acc @ [n]) cross (audit @ [?d]) s3 = (Inr (acc', c', a'), s')"
          using run by (cases q) (simp_all add: Let_def)
        have s3: "ok s3" using append_ok q s2 by blast
        have m: "holds_write (log_of (sv_oplog s3)) m n" using append_mutation_holds q n s2 by blast
        from growth.R_push_loop [OF rest] s3 obtain es where "log_of (sv_oplog s') = log_of (sv_oplog s3) @ es"
          by (auto simp: server_extends_def server_ok_def)
        with m have "holds_write (log_of (sv_oplog s')) m n" by (simp add: holds_write_append)
        moreover obtain ms' new where "acc' = (acc @ [n]) @ new" "subseq ms' ms"
          "list_all2 (holds_write (log_of (sv_oplog s'))) ms' new" using Cons.IH [OF rest s3] by blast
        ultimately show ?thesis by (intro exI [of _ "m # ms'"] exI [of _ "n # new"]) simp
      qed
    qed
  qed
qed simp

lemma process_push_holds:
  assumes "process_push D L req who s = (Inr resp, s')" "ok s"
  shows "\<exists>ms'. subseq ms' (pq_mutations req) \<and>
    list_all2 (holds_write (log_of (sv_oplog s'))) ms' (ps_accepted_seqs resp)"
proof (cases "pq_node_id req = ap_node_id who \<and> pq_tenant_id req = ap_tenant_id who")
  case False
  with assms(1) have "ps_accepted_seqs resp = []" by (auto simp: process_push_def Let_def split: if_splits)
  then show ?thesis by (intro exI [of _ "[]"]) simp
next
  case True
  with assms(1) obtain acc c a where
    "push_loop D L (pq_tenant_id req) (pq_namespace req) (pq_mutations req) [] 0 [] s = (Inr (acc, c, a), s')"
    "ps_accepted_seqs resp = acc"
    by (auto simp: process_push_def Let_def split: sum.splits prod.splits)
  with push_loop_holds [of D "pq_tenant_id req" "pq_namespace req" "pq_mutations req" "[]" 0 "[]" s acc c a s'] assms(2)
  show ?thesis by auto
qed

lemma handle_push_holds:
  "handle_push D L hdr req s = (Inr resp, s') \<Longrightarrow> ok s \<Longrightarrow>
   \<exists>ms'. subseq ms' (pq_mutations req) \<and> list_all2 (holds_write (log_of (sv_oplog s'))) ms' (ps_accepted_seqs resp)"
  by (auto simp: handle_push_def authenticated_def record_metric_def dest!: process_push_holds
      split: if_splits option.splits prod.splits sum.splits)

end

lemma subseq_list_all2: "subseq ys' ys \<Longrightarrow> list_all2 P xs ys \<Longrightarrow> \<exists>xs'. subseq xs' xs \<and> list_all2 P xs' ys'"
proof (induction arbitrary: xs rule: list_emb.induct)
  case (list_emb_Nil ys)
  show ?case by (intro exI [of _ "[]"]) simp
next
  case (list_emb_Cons ys' ys y)
  from list_emb_Cons.prems obtain x zs where x: "xs = x # zs" "list_all2 P zs ys" by (auto simp: list_all2_Cons2)
  with list_emb_Cons.IH [OF x(2)] show ?case by (meson list_emb.list_emb_Cons)
next
  case (list_emb_Cons2 y' y ys' ys)
  from list_emb_Cons2.prems obtain x zs where x: "xs = x # zs" "P x y" "list_all2 P zs ys" by (auto simp: list_all2_Cons2)
  from list_emb_Cons2.IH [OF x(3)] obtain zs' where "subseq zs' zs" "list_all2 P zs' ys'" by blast
  with x list_emb_Cons2.hyps show ?case by (intro exI [of _ "x # zs'"]) simp
qed

lemma same_write_holds: "same_write m m' \<Longrightarrow> holds_write es m' n \<Longrightarrow> holds_write es m n"
  by (simp add: same_write_def holds_write_def)

text \<open>A push that is answered has been handled, with mutations of the same identity.\<close>

lemma client_push_handled:
  assumes "wire_ok W"
    and "client_push_scoped (hub_api D L W (cl_server_url cl)) cl node tenant ns ms c h = (Inr resp, h')"
  obtains hdr req resp' where "handle_push D L hdr req (hb_server h) = (Inr resp', hb_server h')"
    "list_all2 same_write ms (pq_mutations req)" "ps_accepted_seqs resp = ps_accepted_seqs resp'"
    "pq_tenant_id req = tenant" "pq_namespace req = ns"
proof -
  let ?body = "PushBody \<lparr>pq_node_id = node, pq_tenant_id = tenant, pq_namespace = ns, pq_mutations = ms, pq_last_checkpoint = c\<rparr>"
  let ?hdr = "wi_headers W [(''X-Rango-Protocol-Version'', ''1''), (''Authorization'', ''Bearer '' @ cl_node_token cl)]"
  obtain answer s' where answer: "route D L W PostMethod ''/push'' ?hdr (wi_json W ?body) (hb_server h) = (answer, s')"
    by fastforce
  from assms have sent: "hb_server h' = s'" "wi_push_parse W (hs_body answer) = Inr resp"
    using answer
    by (auto simp: client_push_scoped_def post_json_def hub_api_def hub_send_def app_def rate_limit_middleware_def Let_def
        status_is_success_def map_err_def wire_ok_def split: if_splits prod.splits sum.splits option.splits)
  then obtain req resp' where "wi_push_in W (wi_json W ?body) = Inr req" "handle_push D L ?hdr req (hb_server h) = (Inr resp', s')"
    "wi_push_parse W (wi_push_out W resp') = Inr resp"
    using answer assms(1) by (auto simp: route_def json_route_def wire_ok_def split: if_splits sum.splits prod.splits)
  moreover from this assms(1) have "list_all2 same_write ms (pq_mutations req)" "ps_accepted_seqs resp = ps_accepted_seqs resp'"
    "pq_tenant_id req = tenant" "pq_namespace req = ns"
    unfolding wire_ok_def by fastforce+
  ultimately show ?thesis using that sent by blast
qed

text \<open>A write that the log holds exactly once, under the given number; audit records are not counted.\<close>

definition logged_once :: "oplog_entry list \<Rightarrow> mutation \<Rightarrow> u64 \<Rightarrow> bool" where
  "logged_once es m n \<longleftrightarrow> mut_collection m \<noteq> audit_collection \<longrightarrow>
     (\<exists>e. filter (\<lambda>e. counted e \<and> write_key (entry_mutation e) = write_key m) es = [e] \<and> entry_seq e = n)"

lemma holds_write_once: "holds_write es m n \<Longrightarrow> writes_once es \<Longrightarrow> logged_once es m n"
proof -
  assume holds: "holds_write es m n" and once: "writes_once es"
  have "\<exists>e. filter (\<lambda>e. counted e \<and> write_key (entry_mutation e) = write_key m) es = [e] \<and> entry_seq e = n"
    if m: "mut_collection m \<noteq> audit_collection"
  proof -
    obtain e where e: "e \<in> set es" "counted e" "write_key (entry_mutation e) = write_key m" "entry_seq e = n"
      using holds m by (auto simp: holds_write_def)
    obtain xs ys where split: "es = xs @ e # ys" using e(1) by (meson split_list)
    have "\<forall>f\<in>set xs \<union> set ys. counted f \<longrightarrow> write_key (entry_mutation f) \<noteq> write_key m"
      using once e(2,3) by (auto simp: writes_once_def split comp_def image_iff)
    then have "filter (\<lambda>f. counted f \<and> write_key (entry_mutation f) = write_key m) es = [e]"
      using e(2,3) by (auto simp: split filter_empty_conv)
    with e(4) show ?thesis by blast
  qed
  then show ?thesis by (simp add: logged_once_def)
qed

section \<open>Accepting what is admissible\<close>

definition calm_scope :: "string \<Rightarrow> string \<Rightarrow> 'o server_state \<Rightarrow> bool" where
  "calm_scope tenant ns s \<longleftrightarrow> (case al_get (sv_containment s) (tenant, ns) of None \<Rightarrow> True | Some c \<Rightarrow> cs_mode c = NormalMode)"

definition admissible :: "string \<Rightarrow> string \<Rightarrow> mutation \<Rightarrow> bool" where
  "admissible tenant ns m \<longleftrightarrow> validate_metadata m = Inr () \<and> scope_of m = (tenant, ns) \<and>
     \<not> f64_lt (md_trust_score (mut_metadata m)) (Fin (1 / 4))"

definition calm_hub :: "string \<Rightarrow> string \<Rightarrow> 'o server_state \<Rightarrow> bool" where
  "calm_hub tenant ns s \<longleftrightarrow> calm_scope tenant ns s \<and> sv_control_plane s = default_control_plane"

lemma calm_gate:
  "calm_hub tenant ns s \<Longrightarrow> containment_gate tenant ns s = (g, s') \<Longrightarrow> g = None \<and> calm_hub tenant ns s'"
  by (auto simp: calm_hub_def calm_scope_def containment_gate_def containment_entry_def containment_default_def
      maybe_reset_after_cooldown_def server_world_def split: prod.splits option.splits if_splits)

lemma calm_trace: "calm_hub tenant ns s \<Longrightarrow> calm_hub tenant ns (signals tr s)"
  by (simp add: calm_hub_def calm_scope_def signals_def)

lemma persist_control_plane [simp]:
  "sv_control_plane (snd (persist_audit_evidence D L stage tenant ns w d s)) = sv_control_plane s"
  by (auto simp: persist_audit_evidence_def bind_op_def lift_op_def server_append_def index_mutation_def server_world_def Let_def
      split: prod.splits sum.splits)

lemma calm_note: "\<not> is_reject d \<Longrightarrow> calm_hub tenant ns s \<Longrightarrow> calm_hub tenant ns (note_decision D L stage tenant ns w d s)"
  by (auto simp: calm_hub_def calm_scope_def note_decision_def register_decision_outcome_def containment_entry_def
      containment_default_def observe_decision_def server_world_def is_reject_def Let_def
      split: prod.splits option.splits)

lemma calm_append: "append_mutation L m tenant ns s = (r, s') \<Longrightarrow> calm_hub t n s \<Longrightarrow> calm_hub t n s'"
  by (auto simp: append_mutation_def bind_op_def lift_op_def server_append_def index_mutation_def server_world_def
      calm_hub_def calm_scope_def Let_def split: prod.splits sum.splits option.splits if_splits)

lemma admissible_decision:
  assumes "admissible tenant ns m"
  obtains d tr where "write_path D default_control_plane ctx (StateWithTrust p (md_trust_score (mut_metadata m))) = (Inr d, tr)"
    "gd_decision d = Allow" "normalize_write_decision d = d"
proof -
  have "is_finite (md_trust_score (mut_metadata m))" "in_unit (md_trust_score (mut_metadata m))"
    using assms by (auto simp: admissible_def validate_metadata_ok metadata_valid_def in_unit_finite)
  then show ?thesis
    using that assms
    by (auto simp: write_path_def default_control_plane_def noop_validate_def noop_score_def validate_write_payload_def
        admissible_def normalize_write_decision_def Let_def)
qed

text \<open>The loop appends an admissible mutation after noting that it is allowed.\<close>

lemma push_loop_step:
  assumes "calm_hub tenant ns s" "admissible tenant ns m"
  obtains s1 d tr where "containment_gate tenant ns s = (None, s1)" "gd_decision d = Allow"
    "calm_hub tenant ns (note_decision D L ''write'' tenant ns (Some (mut_write_id m)) d (signals tr s1))"
    "\<And>ms acc cross audit. push_loop D L tenant ns (m # ms) acc cross audit s =
       (case append_mutation L m tenant ns (note_decision D L ''write'' tenant ns (Some (mut_write_id m)) d (signals tr s1)) of
          (Inl e, s) \<Rightarrow> (Inl internal_server_error, s)
        | (Inr n, s) \<Rightarrow> push_loop D L tenant ns ms (acc @ [n]) cross (audit @ [d]) s)"
proof -
  obtain g s1 where g: "containment_gate tenant ns s = (g, s1)" by fastforce
  have gate: "g = None" "calm_hub tenant ns s1" using calm_gate [OF assms(1) g] by simp_all
  obtain d tr where d: "write_path D (sv_control_plane s1) \<lparr>wc_tenant_id = tenant, wc_namespace = ns,
      wc_actor = md_actor (mut_metadata m), wc_source = md_source (mut_metadata m), wc_tier = State\<rparr>
      (StateWithTrust (unwrap_or (mut_patch m) []) (md_trust_score (mut_metadata m))) = (Inr d, tr)"
      "gd_decision d = Allow" "normalize_write_decision d = d"
    by (rule admissible_decision [OF assms(2)]) (use gate(2) in \<open>simp add: calm_hub_def\<close>)
  have accept: "\<not> is_reject d" using d(2) by (simp add: is_reject_def)
  show ?thesis
    by (rule that [OF _ d(2) calm_note [OF accept calm_trace [OF gate(2)]]])
      (use assms(2) g gate(1) d accept in \<open>simp_all add: admissible_def Let_def\<close>)
qed

text \<open>The loop accepts every mutation, unless appending one fails.\<close>

lemma push_loop_accepts:
  assumes "calm_hub tenant ns s" "\<forall>m\<in>set ms. admissible tenant ns m"
    and "push_loop D L tenant ns ms acc cross audit s = (r, s')"
  shows "r = Inl internal_server_error \<or>
    (\<exists>new ds. r = Inr (acc @ new, cross, audit @ ds) \<and> length new = length ms \<and> (\<forall>d\<in>set ds. gd_decision d = Allow))"
  using assms
proof (induction ms arbitrary: acc audit s)
  case Nil
  then show ?case by (auto intro!: disjI2 exI [of _ "[]"])
next
  case (Cons m ms)
  have "admissible tenant ns m" using Cons.prems(2) by simp
  with Cons.prems(1) show ?case
  proof (rule push_loop_step [where D = D and L = L])
    fix s1 d tr
    let ?s2 = "note_decision D L ''write'' tenant ns (Some (mut_write_id m)) d (signals tr s1)"
    assume d: "gd_decision d = Allow" and s2: "calm_hub tenant ns ?s2"
      and step: "\<And>ms acc cross audit. push_loop D L tenant ns (m # ms) acc cross audit s =
       (case append_mutation L m tenant ns ?s2 of
          (Inl e, s) \<Rightarrow> (Inl internal_server_error, s)
        | (Inr n, s) \<Rightarrow> push_loop D L tenant ns ms (acc @ [n]) cross (audit @ [d]) s)"
    obtain q s3 where q: "append_mutation L m tenant ns ?s2 = (q, s3)" by fastforce
    show ?case
    proof (cases q)
      case (Inl e)
      with Cons.prems(3) q show ?thesis by (simp add: step del: push_loop.simps)
    next
      case (Inr n)
      then have "push_loop D L tenant ns ms (acc @ [n]) cross (audit @ [d]) s3 = (r, s')"
        using Cons.prems(3) q by (simp add: step del: push_loop.simps)
      from Cons.IH [OF calm_append [OF q s2] _ this] Cons.prems(2) d show ?thesis by (auto 4 4)
    qed
  qed
qed

section \<open>Properties\<close>

text \<open>
  C1: what a push acknowledges is in the hub's log once and for all: whatever calls of whatever clients have
  come before, over a network that loses requests and answers, so that clients repeat what they do not know
  to have arrived, the numbers answered to a push are the numbers of log entries with the mutations it
  accepted, in their order, each client write is in the log exactly once, and stays so whatever comes after.
\<close>

theorem pushed_writes_are_logged_once:
  assumes "wire_ok W" "server_ok (file_inv E K A) (file_log E K A) (hb_server h0)"
    and "hub_reaches D (file_oplog_vt E K A) W h0 h"
    and "client_push_scoped (hub_api D (file_oplog_vt E K A) W (cl_server_url cl)) cl node tenant ns ms c h = (Inr resp, h1)"
    and "hub_reaches D (file_oplog_vt E K A) W h1 h2"
  shows "\<exists>ms'. subseq ms' ms \<and>
    list_all2 (logged_once (file_log E K A (sv_oplog (hb_server h2)))) ms' (ps_accepted_seqs resp)"
proof -
  let ?log = "\<lambda>h. file_log E K A (sv_oplog (hb_server h))"
  have h: "server_ok (file_inv E K A) (file_log E K A) (hb_server h)"
    using file_log.hub_reaches_ok [OF assms(3,2)] by blast
  obtain hdr req resp' where call: "handle_push D (file_oplog_vt E K A) hdr req (hb_server h) = (Inr resp', hb_server h1)"
    "list_all2 same_write ms (pq_mutations req)" "ps_accepted_seqs resp = ps_accepted_seqs resp'"
    by (rule client_push_handled [OF assms(1,4)])
  have "hb_server h1 = serve D (file_oplog_vt E K A) (PushReq hdr req) (hb_server h)" using call(1) by (simp add: serve_def)
  then have h1: "server_ok (file_inv E K A) (file_log E K A) (hb_server h1)" using file_log.serve_ok [OF h] by simp
  obtain ns' where ns': "subseq ns' (pq_mutations req)" "list_all2 (holds_write (?log h1)) ns' (ps_accepted_seqs resp)"
    using file_log.handle_push_holds [OF call(1) h] call(3) by auto
  obtain ms' where ms': "subseq ms' ms" "list_all2 same_write ms' ns'"
    using subseq_list_all2 [OF ns'(1) call(2)] by blast
  have h2: "server_ok (file_inv E K A) (file_log E K A) (hb_server h2)" "\<exists>es. ?log h2 = ?log h1 @ es"
    using file_log.hub_reaches_ok [OF assms(5) h1] by blast+
  then have "logged_once (?log h2) m n" if "same_write m m'" "holds_write (?log h1) m' n" for m m' n
    using same_write_holds [OF that] by (auto simp: server_ok_def intro!: holds_write_once holds_write_append)
  then have "list_all2 (logged_once (?log h2)) ms' (ps_accepted_seqs resp)"
    by (intro list_all2_trans [OF _ ms'(2) ns'(2)]) blast
  with ms'(1) show ?thesis by blast
qed

text \<open>
  C21: nothing admissible is turned away: when a client with a valid token of its node and tenant pushes
  valid mutations of its own scope with a trust score of at least a quarter to a hub with the default hooks
  that has not contained the scope, every mutation is accepted and allowed, unless appending fails, which the
  client is told by a server error.
\<close>

theorem admissible_push_is_accepted:
  assumes "handle_push D L hdr req s = (r, s')"
    and "hdr ''X-Rango-Protocol-Version'' = Some ''1''"
    and "validate_token s (hdr ''Authorization'') = Some \<lparr>ap_node_id = pq_node_id req, ap_tenant_id = pq_tenant_id req\<rparr>"
    and "calm_hub (pq_tenant_id req) (pq_namespace req) s"
    and "\<forall>m\<in>set (pq_mutations req). admissible (pq_tenant_id req) (pq_namespace req) m"
  shows "r = Inl internal_server_error \<or>
    (\<exists>resp. r = Inr resp \<and> length (ps_accepted_seqs resp) = length (pq_mutations req) \<and>
      ps_rejected_cross_tenant_count resp = 0 \<and> (\<forall>d\<in>set (ps_audit resp). gd_decision d = Allow))"
proof -
  obtain q s1 where q: "push_loop D L (pq_tenant_id req) (pq_namespace req) (pq_mutations req) [] 0 [] s = (q, s1)"
    by fastforce
  from push_loop_accepts [OF assms(4,5) q] assms(1-3) q show ?thesis
    by (auto simp: handle_push_def authenticated_def process_push_def Let_def)
qed

text \<open>A retry of the one write of a log, sent to a server started on it.\<close>

definition sample_headers :: headers where
  "sample_headers h = (if h = ''X-Rango-Protocol-Version'' then Some ''1''
     else if h = ''Authorization'' then Some ''Bearer k'' else None)"

definition sample_request :: push_request where
  "sample_request = \<lparr>pq_node_id = ''n'', pq_tenant_id = ''t'', pq_namespace = ''c'',
     pq_mutations = [sample_mutation], pq_last_checkpoint = 0\<rparr>"

lemma sample_admissible: "admissible ''t'' ''c'' sample_mutation"
  by (simp add: admissible_def sample_mutation_def validate_metadata_ok metadata_valid_def scope_of_def in_unit_Fin f64_lt_def)

lemma sample_token: "validate_token (sample_server lg) (sample_headers ''Authorization'') = Some \<lparr>ap_node_id = ''n'', ap_tenant_id = ''t''\<rparr>"
  by (simp add: sample_headers_def validate_token_def sample_tokens_def strip_prefix_def starts_with_def)

lemma sample_calm: "calm_hub t c (sample_server lg)"
  by (simp add: calm_hub_def calm_scope_def server_with_control_plane_def split: prod.splits)

lemma sample_retry:
  obtains lg resp s' where "file_log sample_log_deps sample_codec tag_cipher lg = [sample_entry 1]"
    "server_ok (file_inv sample_log_deps sample_codec tag_cipher) (file_log sample_log_deps sample_codec tag_cipher) (sample_server lg)"
    "handle_push sample_log_deps sample_vt sample_headers sample_request (sample_server lg) = (Inr resp, s')"
    "ps_accepted_seqs resp = [1]"
proof (rule sample_log_one)
  fix lg
  assume lg: "file_inv sample_log_deps sample_codec tag_cipher lg"
    "file_log sample_log_deps sample_codec tag_cipher lg = [sample_entry 1]"
    "numbered sample_vt (file_log sample_log_deps sample_codec tag_cipher) lg"
  let ?ok = "server_ok (file_inv sample_log_deps sample_codec tag_cipher) (file_log sample_log_deps sample_codec tag_cipher)"
  let ?log = "\<lambda>s. file_log sample_log_deps sample_codec tag_cipher (sv_oplog s)"
  have ok: "?ok (sample_server lg)"
    by (rule file_log.start_ok [OF lg(1,3)]) (simp add: lg(2) writes_once_def)
  show ?thesis
  proof (rule push_loop_step [OF sample_calm sample_admissible, where D = sample_log_deps and L = sample_vt])
    fix s1 d tr
    let ?s2 = "note_decision sample_log_deps sample_vt ''write'' ''t'' ''c'' (Some (mut_write_id sample_mutation)) d (signals tr s1)"
    assume g: "containment_gate ''t'' ''c'' (sample_server lg) = (None, s1)"
      and step: "\<And>ms acc cross audit. push_loop sample_log_deps sample_vt ''t'' ''c'' (sample_mutation # ms) acc cross audit (sample_server lg) =
         (case append_mutation sample_vt sample_mutation ''t'' ''c'' ?s2 of
            (Inl e, s) \<Rightarrow> (Inl internal_server_error, s)
          | (Inr n, s) \<Rightarrow> push_loop sample_log_deps sample_vt ''t'' ''c'' ms (acc @ [n]) cross (audit @ [d]) s)"
    have "?ok ?s2"
      using file_log.safe.R_note [OF file_log.safe.R_trace(1) [OF file_log.safe.R_gate [OF file_log.safe.R_refl g]]] ok by blast
    moreover have "server_extends (file_inv sample_log_deps sample_codec tag_cipher) (file_log sample_log_deps sample_codec tag_cipher)
        (push_entry ''t'' ''c'') (sample_server lg) ?s2"
      by (rule file_log.growth.R_note [OF file_log.growth.R_trace(1) [OF file_log.growth.R_gate [OF file_log.growth.R_refl g]]])
    then have "\<exists>es. ?log ?s2 = [sample_entry 1] @ es" using lg(1,2) by (auto simp: server_extends_def)
    then have "sample_entry 1 \<in> set (?log ?s2)" by auto
    moreover have "counted (sample_entry 1)" "write_key (entry_mutation (sample_entry 1)) = write_key sample_mutation"
      by (simp_all add: counted_def sample_entry_def sample_mutation_def audit_collection_def)
    ultimately have "append_mutation sample_vt sample_mutation ''t'' ''c'' ?s2 = (Inr 1, ?s2)"
      using file_log.append_again [of _ _ _ ?s2 "sample_entry 1" sample_mutation "''t''" "''c''"] sample_admissible
      by (simp add: admissible_def)
    then have "push_loop sample_log_deps sample_vt ''t'' ''c'' [sample_mutation] [] 0 [] (sample_server lg) = (Inr ([1], 0, [d]), ?s2)"
      by (simp add: step del: push_loop.simps(2))
    then have "\<exists>resp s'. handle_push sample_log_deps sample_vt sample_headers sample_request (sample_server lg) = (Inr resp, s') \<and>
        ps_accepted_seqs resp = [1]"
      using sample_token [of lg] by (simp add: handle_push_def authenticated_def process_push_def sample_request_def sample_headers_def Let_def
          del: push_loop.simps(2))
    then show ?thesis using that lg(2) ok by blast
  qed
qed

theorem admissible_push_is_accepted_witness:
  "\<exists>lg resp s'. handle_push sample_log_deps sample_vt sample_headers sample_request (sample_server lg) = (Inr resp, s') \<and>
     length (ps_accepted_seqs resp) = 1 \<and> (\<forall>d\<in>set (ps_audit resp). gd_decision d = Allow)"
proof (rule sample_retry)
  fix lg resp s'
  assume push: "handle_push sample_log_deps sample_vt sample_headers sample_request (sample_server lg) = (Inr resp, s')"
  show ?thesis
    using admissible_push_is_accepted [OF push _ _ sample_calm] push sample_token [of lg] sample_admissible
    by (fastforce simp: sample_request_def sample_headers_def)
qed

text \<open>JSON of one request and one answer; the first call is lost, the second arrives.\<close>

definition sample_wire :: "push_response \<Rightarrow> wire_api" where
  "sample_wire resp = \<lparr>wi_headers = (\<lambda>hs h. al_get hs h),
     wi_json = (\<lambda>b. if b = PushBody sample_request then ''q'' else ''?''),
     wi_push_in = (\<lambda>t. if t = ''q'' then Inr sample_request else Inl 422), wi_pull_in = (\<lambda>t. Inl 422),
     wi_promote_in = (\<lambda>t. Inl 422), wi_retrieve_in = (\<lambda>t. Inl 422),
     wi_push_out = (\<lambda>r. if r = resp then ''r'' else ''?''), wi_pull_out = (\<lambda>r. ''?''), wi_promote_out = (\<lambda>r. ''?''),
     wi_retrieve_out = (\<lambda>r. ''?''), wi_health_out = (\<lambda>r. ''?''), wi_ready_out = (\<lambda>r. ''?''), wi_status_text = show_nat,
     wi_push_parse = (\<lambda>t. if t = ''r'' then Inr resp else Inl ''expected value''),
     wi_pull_parse = (\<lambda>t. Inl ''expected value''), wi_promote_parse = (\<lambda>t. Inl ''expected value'')\<rparr>"

lemma sample_wire_ok: "wire_ok (sample_wire resp)"
  by (auto simp: wire_ok_def sample_wire_def sample_request_def same_write_def)

abbreviation sample_hub :: "unit file_oplog \<Rightarrow> unit file_oplog hub" where
  "sample_hub lg \<equiv> \<lparr>hb_server = sample_server lg, hb_limiter = None,
     hb_deliveries = (\<lambda>n. if n = 0 then RequestLost else Delivered), hb_clock = (\<lambda>n. n), hb_calls = 0\<rparr>"

abbreviation sample_client :: sync_client where
  "sample_client \<equiv> \<lparr>cl_server_url = ''http://h'', cl_node_token = ''k''\<rparr>"

theorem pushed_writes_are_logged_once_witness:
  "\<exists>lg resp h h' resp'.
     client_push_scoped (hub_api sample_log_deps sample_vt (sample_wire resp) ''http://h'') sample_client ''n'' ''t'' ''c''
       [sample_mutation] 0 (sample_hub lg) = (Inl (Sync ''error sending request''), h) \<and>
     client_push_scoped (hub_api sample_log_deps sample_vt (sample_wire resp) ''http://h'') sample_client ''n'' ''t'' ''c''
       [sample_mutation] 0 h = (Inr resp', h') \<and> ps_accepted_seqs resp' = [1] \<and>
     logged_once (file_log sample_log_deps sample_codec tag_cipher (sv_oplog (hb_server h'))) sample_mutation 1"
proof (rule sample_retry)
  fix lg resp s'
  assume lg: "server_ok (file_inv sample_log_deps sample_codec tag_cipher) (file_log sample_log_deps sample_codec tag_cipher) (sample_server lg)"
    and push: "handle_push sample_log_deps sample_vt sample_headers sample_request (sample_server lg) = (Inr resp, s')"
    and one: "ps_accepted_seqs resp = [1]"
  let ?W = "sample_wire resp" and ?h = "(sample_hub lg)\<lparr>hb_calls := 1\<rparr>"
  let ?push = "client_push_scoped (hub_api sample_log_deps sample_vt ?W ''http://h'') sample_client ''n'' ''t'' ''c'' [sample_mutation] 0"
  have headers: "al_get [(''X-Rango-Protocol-Version'', ''1''), (''Authorization'', ''Bearer k'')] = sample_headers"
    by (rule ext) (simp add: sample_headers_def)
  have lost: "?push (sample_hub lg) = (Inl (Sync ''error sending request''), ?h)"
    by (simp add: client_push_scoped_def post_json_def hub_api_def hub_send_def)
  obtain h' where arrives: "?push ?h = (Inr resp, h')"
    using push headers
    by (simp add: client_push_scoped_def post_json_def hub_api_def hub_send_def app_def rate_limit_middleware_def
        rate_check_def rate_limiter_new_def rate_limit_burst_def route_def json_route_def max_request_size_def
        sample_wire_def sample_request_def status_is_success_def Let_def)
  have reach: "hub_reaches sample_log_deps sample_vt ?W (sample_hub lg) ?h"
    using hub_call [OF hub_refl, of sample_log_deps sample_vt ?W "sample_hub lg" "''''"] by (simp add: hub_send_def)
  have "\<exists>ms'. subseq ms' [sample_mutation] \<and>
      list_all2 (logged_once (file_log sample_log_deps sample_codec tag_cipher (sv_oplog (hb_server h')))) ms' (ps_accepted_seqs resp)"
    by (rule pushed_writes_are_logged_once [OF sample_wire_ok _ reach _ hub_refl, where cl = sample_client])
      (use lg arrives in simp_all)
  then have "logged_once (file_log sample_log_deps sample_codec tag_cipher (sv_oplog (hb_server h'))) sample_mutation 1"
    using one by (auto simp: list_all2_Cons2 split: if_splits)
  with lost arrives one show ?thesis by blast
qed

end
