(* ===== verification/Rango_Index.thy ===== *)
theory Rango_Index
  imports Rango_Query_Filter Rango_Ops
begin

text \<open>
  The secondary index manager (\<open>index/src/manager.rs\<close>): a map from collection and field to a sorted
  map from key to identifiers. Both maps are association lists, since only their contents are
  observable. The specification has no state: it reads the answer to a look-up, and to every other call,
  off the history of the calls.
\<close>

section \<open>State and operations\<close>

datatype index_key = KeyNull | KeyInt64 i64 | KeyString string

type_synonym index_tree = "(index_key \<times> document_id list) list"

record index_manager =
  im_indexes :: "((string \<times> string) \<times> index_tree) list"

definition index_new :: index_manager where
  "index_new = \<lparr>im_indexes = []\<rparr>"

definition create_index :: "string \<Rightarrow> index_definition \<Rightarrow> (index_manager, unit) op" where
  "create_index c def s =
     (case index_fields def of
        [field] \<Rightarrow> (Inr (), s\<lparr>im_indexes := al_put (im_indexes s) (c, field) []\<rparr>)
      | _ \<Rightarrow> (Inl (InvalidQueryOperator ''Compound indexes not yet supported''), s))"

definition drop_index :: "string \<Rightarrow> string \<Rightarrow> (index_manager, bool) op" where
  "drop_index c name s =
     (Inr (al_get (im_indexes s) (c, name) \<noteq> None), s\<lparr>im_indexes := al_del (im_indexes s) (c, name)\<rparr>)"

text \<open>The key of a document's field; \<open>None\<close> for the types that are skipped.\<close>

definition document_key :: "bson option \<Rightarrow> index_key option" where
  "document_key v =
     (case v of
        Some (Int32 i) \<Rightarrow> Some (KeyInt64 (i32_as_i64 i))
      | Some (Int64 i) \<Rightarrow> Some (KeyInt64 i)
      | Some (String s) \<Rightarrow> Some (KeyString s)
      | Some Null \<Rightarrow> Some KeyNull
      | None \<Rightarrow> Some KeyNull
      | _ \<Rightarrow> None)"

definition index_into :: "doc \<Rightarrow> document_id \<Rightarrow> string \<Rightarrow> index_tree \<Rightarrow> index_tree" where
  "index_into d i field tree =
     (case document_key (al_get d field) of
        None \<Rightarrow> tree
      | Some k \<Rightarrow> al_put tree k (unwrap_or (al_get tree k) [] @ [i]))"

definition index_document :: "string \<Rightarrow> doc \<Rightarrow> (index_manager, unit) op" where
  "index_document c d s =
     (case al_get d ''_id'' of
        None \<Rightarrow> (Inl (DocumentNotFound ''missing _id''), s)
      | Some v \<Rightarrow>
          let i = document_id_from_bson v
          in (Inr (), s\<lparr>im_indexes := map (\<lambda>((coll, field), tree).
               ((coll, field), if coll \<noteq> c then tree else index_into d i field tree)) (im_indexes s)\<rparr>))"

definition remove_document :: "string \<Rightarrow> doc \<Rightarrow> (index_manager, unit) op" where
  "remove_document c d s =
     (Inr (), s\<lparr>im_indexes := map (\<lambda>((coll, field), tree).
        ((coll, field), if coll \<noteq> c then tree else [])) (im_indexes s)\<rparr>)"

definition find_by_index :: "index_manager \<Rightarrow> string \<Rightarrow> string \<Rightarrow> bson \<Rightarrow> document_id list result" where
  "find_by_index s c field v =
     (case al_get (im_indexes s) (c, field) of
        None \<Rightarrow> Inl (InvalidQueryOperator (''No index on field: '' @ field))
      | Some tree \<Rightarrow>
          (case v of
             Int32 i \<Rightarrow> Inr (unwrap_or (al_get tree (KeyInt64 (i32_as_i64 i))) [])
           | Int64 i \<Rightarrow> Inr (unwrap_or (al_get tree (KeyInt64 i)) [])
           | String t \<Rightarrow> Inr (unwrap_or (al_get tree (KeyString t)) [])
           | Null \<Rightarrow> Inr (unwrap_or (al_get tree KeyNull) [])
           | _ \<Rightarrow> Inr []))"

section \<open>Runs\<close>

datatype index_call =
    CreateIndex string index_definition
  | DropIndex string string
  | IndexDocument string doc
  | RemoveDocument string doc

datatype index_answer = Done "unit result" | Dropped "bool result"

fun index_step :: "index_call \<Rightarrow> index_manager \<Rightarrow> index_answer \<times> index_manager" where
  "index_step (CreateIndex c def) s = apfst Done (create_index c def s)"
| "index_step (DropIndex c name) s = apfst Dropped (drop_index c name s)"
| "index_step (IndexDocument c d) s = apfst Done (index_document c d s)"
| "index_step (RemoveDocument c d) s = apfst Done (remove_document c d s)"

fun index_run :: "index_call list \<Rightarrow> index_manager \<Rightarrow> index_answer list \<times> index_manager" where
  "index_run [] s = ([], s)"
| "index_run (call # calls) s =
     (case index_step call s of (a, s) \<Rightarrow> case index_run calls s of (answers, s) \<Rightarrow> (a # answers, s))"

section \<open>Specification\<close>

text \<open>The calls after the last one of a kind.\<close>

definition since_last :: "('a \<Rightarrow> bool) \<Rightarrow> 'a list \<Rightarrow> 'a list" where
  "since_last P xs = rev (takeWhile (\<lambda>x. \<not> P x) (rev xs))"

definition creates :: "string \<Rightarrow> string \<Rightarrow> index_call \<Rightarrow> bool" where
  "creates c field call \<longleftrightarrow> (case call of CreateIndex c' def \<Rightarrow> c' = c \<and> index_fields def = [field] | _ \<Rightarrow> False)"

definition clears :: "string \<Rightarrow> string \<Rightarrow> index_call \<Rightarrow> bool" where
  "clears c field call \<longleftrightarrow> creates c field call \<or> (case call of RemoveDocument c' d \<Rightarrow> c' = c | _ \<Rightarrow> False)"

text \<open>
  There is an index when one was created after it was last dropped, and what it holds are the documents
  indexed in the collection since the index was last created or a document of the collection removed.
\<close>

definition has_index :: "index_call list \<Rightarrow> string \<Rightarrow> string \<Rightarrow> bool" where
  "has_index calls c field \<longleftrightarrow> (\<exists>call\<in>set (since_last (\<lambda>call. call = DropIndex c field) calls). creates c field call)"

definition indexed_doc :: "string \<Rightarrow> index_call \<Rightarrow> doc option" where
  "indexed_doc c call = (case call of IndexDocument c' d \<Rightarrow> if c' = c then Some d else None | _ \<Rightarrow> None)"

definition indexed_docs :: "index_call list \<Rightarrow> string \<Rightarrow> string \<Rightarrow> doc list" where
  "indexed_docs calls c field = List.map_filter (indexed_doc c) (since_last (clears c field) calls)"

text \<open>A value finds the fields that mean the same: equal integers of any width, equal texts, and for null no value.\<close>

fun int_value :: "bson \<Rightarrow> int option" where
  "int_value (Int32 i) = Some (sint i)"
| "int_value (Int64 i) = Some (sint i)"
| "int_value _ = None"

definition means :: "bson \<Rightarrow> bson option \<Rightarrow> bool" where
  "means v w \<longleftrightarrow> (case w of
     None \<Rightarrow> v = Null
   | Some w \<Rightarrow> int_value v \<noteq> None \<and> int_value v = int_value w \<or> v = Null \<and> w = Null \<or> (\<exists>t. v = String t \<and> w = String t))"

definition expected_find :: "index_call list \<Rightarrow> string \<Rightarrow> string \<Rightarrow> bson \<Rightarrow> document_id list result" where
  "expected_find calls c field v =
     (if has_index calls c field
      then Inr (List.map_filter (\<lambda>d. if means v (al_get d field) then al_get d ''_id'' else None) (indexed_docs calls c field))
      else Inl (InvalidQueryOperator (''No index on field: '' @ field)))"

fun expected_answer :: "index_call list \<Rightarrow> index_call \<Rightarrow> index_answer" where
  "expected_answer past (CreateIndex c def) =
     Done (if length (index_fields def) = 1 then Inr () else Inl (InvalidQueryOperator ''Compound indexes not yet supported''))"
| "expected_answer past (DropIndex c name) = Dropped (Inr (has_index past c name))"
| "expected_answer past (IndexDocument c d) =
     Done (if al_get d ''_id'' = None then Inl (DocumentNotFound ''missing _id'') else Inr ())"
| "expected_answer past (RemoveDocument c d) = Done (Inr ())"

section \<open>The view of a manager\<close>

type_synonym index_view = "string \<times> string \<Rightarrow> (index_key \<Rightarrow> document_id list) option"

definition tree_view :: "index_tree \<Rightarrow> index_key \<Rightarrow> document_id list" where
  "tree_view tree k = unwrap_or (al_get tree k) []"

definition index_abs :: "index_manager \<Rightarrow> index_view" where
  "index_abs s cf = map_option tree_view (al_get (im_indexes s) cf)"

definition index_ok :: "index_manager \<Rightarrow> bool" where
  "index_ok s \<longleftrightarrow> al_wf (im_indexes s)"

lemma al_get_map_values:
  "al_get (map (\<lambda>((coll, field), tree). ((coll, field), f coll field tree)) m) (c, g) =
     map_option (f c g) (al_get m (c, g))"
  by (induction m) auto

lemma al_wf_map_values:
  "al_wf (map (\<lambda>((coll, field), tree). ((coll, field), f coll field tree)) m) \<longleftrightarrow> al_wf m"
proof -
  have "map fst (map (\<lambda>((coll, field), tree). ((coll, field), f coll field tree)) m) = map fst m"
    by (simp add: case_prod_beta comp_def)
  then show ?thesis by (simp only: al_wf_def)
qed

lemma tree_view_Nil [simp]: "tree_view [] = (\<lambda>k. [])"
  by (simp add: tree_view_def fun_eq_iff unwrap_or_def)

lemma tree_view_index_into:
  "tree_view (index_into d i field tree) =
     (\<lambda>k. if document_key (al_get d field) = Some k then tree_view tree k @ [i] else tree_view tree k)"
  by (auto simp: index_into_def tree_view_def fun_eq_iff unwrap_or_def split: option.splits)

lemma find_by_index_view:
  "find_by_index s c field v =
     (case index_abs s (c, field) of
        None \<Rightarrow> Inl (InvalidQueryOperator (''No index on field: '' @ field))
      | Some ids \<Rightarrow> Inr (case document_key (Some v) of Some k \<Rightarrow> ids k | None \<Rightarrow> []))"
  by (cases v) (auto simp: find_by_index_def index_abs_def document_key_def tree_view_def split: option.splits)

lemma index_step_ok: "index_ok s \<Longrightarrow> index_ok (snd (index_step call s))"
  by (cases call) (auto simp: index_ok_def create_index_def drop_index_def index_document_def remove_document_def
      al_wf_map_values Let_def split: list.splits option.splits)

text \<open>What each call makes of the identifiers of every key.\<close>

lemma create_index_view:
  "index_abs (snd (create_index c def s)) =
     (case index_fields def of [field] \<Rightarrow> (index_abs s)((c, field) \<mapsto> (\<lambda>k. [])) | _ \<Rightarrow> index_abs s)"
  by (auto simp: index_abs_def create_index_def fun_eq_iff split: list.splits)

lemma drop_index_view: "index_ok s \<Longrightarrow> index_abs (snd (drop_index c name s)) = (index_abs s)((c, name) := None)"
  by (auto simp: index_abs_def index_ok_def drop_index_def fun_eq_iff al_get_del)

lemma index_document_view:
  "index_abs (snd (index_document c d s)) (coll, field) =
     (case al_get d ''_id'' of
        Some i \<Rightarrow> if coll = c
          then map_option (\<lambda>ids k. if document_key (al_get d field) = Some k then ids k @ [i] else ids k) (index_abs s (coll, field))
          else index_abs s (coll, field)
      | None \<Rightarrow> index_abs s (coll, field))"
  by (auto simp: index_abs_def index_document_def al_get_map_values document_id_from_bson_def
      tree_view_index_into Let_def option.map_comp comp_def split: option.splits intro!: map_option_cong)

lemma remove_document_view:
  "index_abs (snd (remove_document c d s)) (coll, field) =
     (if coll = c then map_option (\<lambda>ids k. []) (index_abs s (coll, field)) else index_abs s (coll, field))"
  by (auto simp: index_abs_def remove_document_def al_get_map_values option.map_comp comp_def intro!: map_option_cong)

section \<open>Histories\<close>

lemma since_last_simps [simp]:
  "since_last P [] = []" "since_last P (xs @ [x]) = (if P x then [] else since_last P xs @ [x])"
  by (simp_all add: since_last_def)

lemma map_filter_append: "List.map_filter f (xs @ ys) = List.map_filter f xs @ List.map_filter f ys"
  by (simp add: map_filter_def)

lemma has_index_snoc:
  "has_index (calls @ [call]) c field \<longleftrightarrow>
     call \<noteq> DropIndex c field \<and> (creates c field call \<or> has_index calls c field)"
  by (auto simp: has_index_def)

lemma has_index_Nil [simp]: "\<not> has_index [] c field"
  by (simp add: has_index_def)

lemma indexed_docs_snoc:
  "indexed_docs (calls @ [call]) c field =
     (if clears c field call then []
      else indexed_docs calls c field @ (case indexed_doc c call of None \<Rightarrow> [] | Some d \<Rightarrow> [d]))"
  by (simp add: indexed_docs_def map_filter_simps map_filter_append split: option.split)

text \<open>The identifiers a history leaves under a key.\<close>

definition keyed_ids :: "string \<Rightarrow> doc list \<Rightarrow> index_key \<Rightarrow> document_id list" where
  "keyed_ids field ds k = List.map_filter (\<lambda>d. if document_key (al_get d field) = Some k then al_get d ''_id'' else None) ds"

definition history_view :: "index_call list \<Rightarrow> index_view" where
  "history_view calls cf = (case cf of (c, field) \<Rightarrow>
     if has_index calls c field then Some (keyed_ids field (indexed_docs calls c field)) else None)"

lemma keyed_ids_snoc:
  "keyed_ids field (ds @ [d]) k =
     keyed_ids field ds k @ (case al_get d ''_id'' of Some i \<Rightarrow> if document_key (al_get d field) = Some k then [i] else [] | None \<Rightarrow> [])"
  by (simp add: keyed_ids_def map_filter_simps map_filter_append split: option.split)

lemma keyed_ids_Nil [simp]: "keyed_ids field [] = (\<lambda>k. [])"
  by (simp add: keyed_ids_def map_filter_simps fun_eq_iff)

lemmas history_simps = history_view_def has_index_snoc indexed_docs_snoc clears_def creates_def indexed_doc_def

lemma history_step:
  assumes "index_ok s" "index_abs s = history_view calls"
  shows "index_abs (snd (index_step call s)) = history_view (calls @ [call])"
proof (rule ext, clarify)
  fix c field
  have old: "index_abs s (c, field) = history_view calls (c, field)" using assms(2) by simp
  show "index_abs (snd (index_step call s)) (c, field) = history_view (calls @ [call]) (c, field)"
  proof (cases call)
    case (CreateIndex c' def)
    then show ?thesis
      using old by (auto simp: create_index_view history_simps split: list.splits)
  next
    case (DropIndex c' name)
    then show ?thesis
      using old by (auto simp: drop_index_view [OF assms(1)] history_simps)
  next
    case (IndexDocument c' d)
    then show ?thesis
      using old by (auto simp: index_document_view history_simps keyed_ids_snoc fun_eq_iff split: option.splits)
  next
    case (RemoveDocument c' d)
    then show ?thesis
      using old by (auto simp: remove_document_view history_simps)
  qed
qed

lemma answer_step:
  assumes "index_abs s = history_view calls"
  shows "fst (index_step call s) = expected_answer calls call"
proof (cases call)
  case (DropIndex c name)
  have "al_get (im_indexes s) (c, name) \<noteq> None \<longleftrightarrow> index_abs s (c, name) \<noteq> None" by (simp add: index_abs_def)
  with DropIndex assms show ?thesis by (simp add: drop_index_def history_view_def)
qed (auto simp: create_index_def index_document_def remove_document_def Let_def length_Suc_conv split: list.splits option.splits)

lemma index_run_history:
  assumes "index_ok s" "index_abs s = history_view past" "index_run calls s = (answers, s')"
  shows "index_ok s' \<and> index_abs s' = history_view (past @ calls) \<and> length answers = length calls \<and>
    (\<forall>k<length calls. answers ! k = expected_answer (past @ take k calls) (calls ! k))"
  using assms
proof (induction calls arbitrary: past s answers)
  case (Cons call calls)
  obtain a s1 where 1: "index_step call s = (a, s1)" by fastforce
  obtain as where rest: "index_run calls s1 = (as, s')" "answers = a # as"
    using Cons.prems(3) 1 by (auto split: prod.splits)
  have s1: "index_ok s1" "index_abs s1 = history_view (past @ [call])"
    using index_step_ok [OF Cons.prems(1), of call] history_step [OF Cons.prems(1,2), of call] 1 by simp_all
  have a: "a = expected_answer past call" using answer_step [OF Cons.prems(2), of call] 1 by simp
  from Cons.IH [OF s1 rest(1)] a rest(2) show ?case
    by (auto simp: nth_Cons split: nat.splits)
qed simp

lemma int_value_i64: "int_value x = Some z \<Longrightarrow> \<exists>n :: i64. sint n = z"
  by (cases x) (auto intro: sint_i32_as_i64)

lemma sint_inj_i64: "sint (a :: i64) = sint b \<Longrightarrow> a = b"
  by (rule signed_word_eqI)

lemma document_key_Some:
  "document_key (Some x) = Some k \<longleftrightarrow>
     (case k of KeyNull \<Rightarrow> x = Null | KeyInt64 n \<Rightarrow> int_value x = Some (sint n) | KeyString t \<Rightarrow> x = String t)"
  by (cases x; cases k) (auto simp: document_key_def intro!: sint_inj_i64)

lemma document_key_None: "document_key None = Some k \<longleftrightarrow> k = KeyNull"
  by (auto simp: document_key_def)

lemma ex_key: "(\<exists>k. P k) \<longleftrightarrow> P KeyNull \<or> (\<exists>n. P (KeyInt64 n)) \<or> (\<exists>t. P (KeyString t))"
  by (metis index_key.exhaust)

lemma document_key_means: "(\<exists>k. document_key (Some v) = Some k \<and> document_key w = Some k) \<longleftrightarrow> means v w"
proof (cases w)
  case None
  then show ?thesis by (simp add: document_key_None document_key_Some means_def)
next
  case (Some x)
  have "(\<exists>n :: i64. int_value v = Some (sint n) \<and> int_value x = Some (sint n)) \<longleftrightarrow> int_value v \<noteq> None \<and> int_value v = int_value x"
    using int_value_i64 [of v] by force
  then show ?thesis by (simp add: Some ex_key document_key_Some means_def) blast
qed

lemma find_expected:
  assumes "index_abs s = history_view calls"
  shows "find_by_index s c field v = expected_find calls c field v"
proof (cases "has_index calls c field")
  case True
  have "(case document_key (Some v) of Some k \<Rightarrow> keyed_ids field ds k | None \<Rightarrow> []) =
      List.map_filter (\<lambda>d. if means v (al_get d field) then al_get d ''_id'' else None) ds" for ds
  proof (cases "document_key (Some v)")
    case None
    then have "\<not> means v w" for w using document_key_means [of v w] by simp
    with None show ?thesis by (simp add: map_filter_def)
  next
    case (Some k)
    then have key: "document_key w = Some k \<longleftrightarrow> means v w" for w using document_key_means [of v w] by auto
    show ?thesis unfolding Some option.case keyed_ids_def key ..
  qed
  with True show ?thesis by (simp add: find_by_index_view assms history_view_def expected_find_def)
qed (simp add: find_by_index_view assms history_view_def expected_find_def)

lemma index_new_ok [simp]: "index_ok index_new"
  by (simp add: index_ok_def index_new_def)

lemma index_new_view: "index_abs index_new = history_view []"
  by (auto simp: index_abs_def index_new_def history_view_def fun_eq_iff)

section \<open>Properties\<close>

text \<open>
  C40: the manager answers from the history of its calls: after any calls on a new manager, a look-up
  gives, in the order they were indexed, the identifiers of the documents indexed in the collection since
  the index was last created or a document removed whose field means the value looked up, and an error
  when no index was created since the last drop; and every call on the way was answered as its history
  says, a drop with whether there was an index, a refused definition or document with its error.
\<close>

theorem index_answers_from_history:
  "case index_run calls index_new of (answers, s) \<Rightarrow>
     find_by_index s c field v = expected_find calls c field v \<and> length answers = length calls \<and>
     (\<forall>k<length calls. answers ! k = expected_answer (take k calls) (calls ! k))"
proof -
  obtain answers s where run: "index_run calls index_new = (answers, s)" by fastforce
  from index_run_history [OF index_new_ok index_new_view run] find_expected [of s calls] run show ?thesis by simp
qed

theorem index_answers_from_history_witness:
  "\<exists>answers s. index_run [CreateIndex ''c'' \<lparr>index_name = ''by_x'', index_fields = [''x''], index_unique = False\<rparr>,
       IndexDocument ''c'' [(''_id'', String ''a''), (''x'', Int32 1)]] index_new = (answers, s) \<and>
     find_by_index s ''c'' ''x'' (Int64 1) = Inr [String ''a''] \<and> answers = [Done (Inr ()), Done (Inr ())]"
proof -
  let ?calls = "[CreateIndex ''c'' \<lparr>index_name = ''by_x'', index_fields = [''x''], index_unique = False\<rparr>,
    IndexDocument ''c'' [(''_id'', String ''a''), (''x'', Int32 1)]]"
  have "expected_find ?calls ''c'' ''x'' (Int64 1) = Inr [String ''a'']"
    by (simp add: expected_find_def has_index_def indexed_docs_def since_last_def creates_def clears_def
        indexed_doc_def map_filter_simps means_def)
  moreover obtain answers s where run: "index_run ?calls index_new = (answers, s)" by fastforce
  moreover have "answers = [Done (Inr ()), Done (Inr ())]"
    using run by (auto simp: create_index_def index_document_def Let_def)
  ultimately show ?thesis
    using index_answers_from_history [where calls = ?calls and c = "''c''" and field = "''x''" and v = "Int64 1"] by simp
qed

text \<open>
  Removing one document forgets all of them: after \<open>remove_document\<close> every lookup in the
  collection returns nothing, also for the documents that were not removed, until they are indexed
  again; the other collections keep theirs.
\<close>

theorem remove_document_empties_collection:
  assumes "remove_document c d s = (r, s')"
  shows "r = Inr () \<and> (\<forall>field v. find_by_index s' c field v =
      (if index_abs s (c, field) = None then Inl (InvalidQueryOperator (''No index on field: '' @ field)) else Inr [])) \<and>
    (\<forall>c' field v. c' \<noteq> c \<longrightarrow> find_by_index s' c' field v = find_by_index s c' field v)"
proof -
  have s': "s' = snd (remove_document c d s)" and r: "r = Inr ()"
    using assms by (auto simp: remove_document_def)
  have "find_by_index s' c field v =
      (if index_abs s (c, field) = None then Inl (InvalidQueryOperator (''No index on field: '' @ field)) else Inr [])"
    for field v
    by (simp add: find_by_index_view s' remove_document_view split: option.split)
  moreover have "find_by_index s' c' field v = find_by_index s c' field v" if "c' \<noteq> c" for c' field v
    using that by (simp add: find_by_index_view s' remove_document_view)
  ultimately show ?thesis using r by blast
qed

end
