(* ===== verification/Rango_Json.thy ===== *)
theory Rango_Json
  imports Rango_Deps
begin

text \<open>
  The JSON side of import and export: the value type of \<open>serde_json\<close> with its sorted object map, and
  the pieces of the standard library that \<open>migrate.rs\<close> uses on text: the parsers of signed integers
  and of \<open>f64\<close>, and \<open>trim\<close> with the Unicode white space in its UTF-8 form. The JSON printer and parser,
  and the text forms of the BSON types, come in as a record.
\<close>

section \<open>Values\<close>

datatype json_number = PosInt u64 | NegInt i64 | JsonFloat f64

datatype json_value =
    VNull
  | VBool bool
  | VNumber json_number
  | VString string
  | VArray "json_value list"
  | VObject "(string \<times> json_value) list"

definition i64_max :: u64 where
  "i64_max = 2 ^ 63 - 1"

fun number_as_i64 :: "json_number \<Rightarrow> i64 option" where
  "number_as_i64 (PosInt n) = (if n \<le> i64_max then Some n else None)"
| "number_as_i64 (NegInt i) = Some i"
| "number_as_i64 (JsonFloat x) = None"

fun number_as_f64 :: "json_number \<Rightarrow> f64 option" where
  "number_as_f64 (PosInt n) = Some (f64_of_int (int (unat n)))"
| "number_as_f64 (NegInt i) = Some (f64_of_int (sint i))"
| "number_as_f64 (JsonFloat x) = Some x"

definition number_from_f64 :: "f64 \<Rightarrow> json_number option" where
  "number_from_f64 x = (if is_finite x then Some (JsonFloat x) else None)"

definition number_from_i64 :: "i64 \<Rightarrow> json_number" where
  "number_from_i64 i = (if sint i < 0 then NegInt i else PosInt i)"

text \<open>The object map is a \<open>BTreeMap\<close>: sorted by key, an insertion replaces.\<close>

fun map_insert :: "(string \<times> 'a) list \<Rightarrow> string \<Rightarrow> 'a \<Rightarrow> (string \<times> 'a) list" where
  "map_insert [] k v = [(k, v)]"
| "map_insert ((j, u) # m) k v =
     (if k = j then (k, v) # m else if k < j then (k, v) # (j, u) # m else (j, u) # map_insert m k v)"

definition object_of :: "(string \<times> 'a) list \<Rightarrow> (string \<times> 'a) list" where
  "object_of kvs = fold (\<lambda>(k, v) m. map_insert m k v) kvs []"

lemma map_insert_last:
  "\<forall>(j, u)\<in>set m. j < k \<Longrightarrow> map_insert m k v = m @ [(k, v)]"
  by (induction m k v rule: map_insert.induct) auto

lemma object_of_sorted:
  assumes "sorted_wrt (<) (map fst kvs)"
  shows "object_of kvs = kvs"
proof -
  have "fold (\<lambda>(k, v) m. map_insert m k v) kvs acc = acc @ kvs"
    if "sorted_wrt (<) (map fst (acc @ kvs))" for acc
    using that
  proof (induction kvs arbitrary: acc)
    case (Cons p kvs)
    obtain k v where p: "p = (k, v)" by fastforce
    have "\<forall>(j, u)\<in>set acc. j < k" using Cons.prems by (auto simp: p sorted_wrt_append)
    then show ?case using Cons.IH [of "acc @ [p]"] Cons.prems by (simp add: p map_insert_last)
  qed simp
  from this [of "[]"] assms show ?thesis by (simp add: object_of_def)
qed

section \<open>Collecting results\<close>

text \<open>\<open>iter.map(f).collect::<Result<Vec<_>, _>>()\<close>: the first error is the result.\<close>

fun collect_r :: "('a \<Rightarrow> 'e + 'b) \<Rightarrow> 'a list \<Rightarrow> 'e + 'b list" where
  "collect_r f [] = Inr []"
| "collect_r f (x # xs) = try_r (f x) (\<lambda>y. try_r (collect_r f xs) (\<lambda>ys. Inr (y # ys)))"

lemma collect_r_cong [fundef_cong]:
  "xs = ys \<Longrightarrow> (\<And>x. x \<in> set ys \<Longrightarrow> f x = g x) \<Longrightarrow> collect_r f xs = collect_r g ys"
  by (induction ys arbitrary: xs) auto

lemma collect_r_Inr_map: "(\<And>x. x \<in> set xs \<Longrightarrow> f x = Inr (g x)) \<Longrightarrow> collect_r f xs = Inr (map g xs)"
  by (induction xs) auto

lemma collect_r_map: "collect_r f (map g xs) = collect_r (\<lambda>x. f (g x)) xs"
  by (induction xs) auto

section \<open>Parsing numbers\<close>

text \<open>
  \<open>str::parse\<close> at a signed type of \<open>2 * bound\<close> values: a lone sign is no digit, and an overflow below
  has its own kind.
\<close>

definition parse_signed :: "nat \<Rightarrow> string \<Rightarrow> parse_int_error + int" where
  "parse_signed bound s =
     (case s of
        [] \<Rightarrow> Inl EmptyText
      | c # ds \<Rightarrow>
          if (c = CHR ''+'' \<or> c = CHR ''-'') \<and> ds = [] then Inl InvalidDigit
          else if c = CHR ''-'' then
            (case parse_digits (bound + 1) 0 ds of
               Inl PosOverflow \<Rightarrow> Inl NegOverflow
             | Inl e \<Rightarrow> Inl e
             | Inr n \<Rightarrow> Inr (- int n))
          else map_sum id int (parse_digits bound 0 (if c = CHR ''+'' then ds else s)))"

definition parse_i32 :: "string \<Rightarrow> parse_int_error + i32" where
  "parse_i32 s = map_sum id of_int (parse_signed (2 ^ 31) s)"

definition parse_i64 :: "string \<Rightarrow> parse_int_error + i64" where
  "parse_i64 s = map_sum id of_int (parse_signed (2 ^ 63) s)"

definition lower :: "char \<Rightarrow> char" where
  "lower c = (if 65 \<le> (of_char c :: nat) \<and> (of_char c :: nat) \<le> 90 then char_of (of_char c + 32 :: nat) else c)"

definition take_digits :: "string \<Rightarrow> string \<times> string" where
  "take_digits s = (takeWhile is_digit s, dropWhile is_digit s)"

text \<open>
  \<open>str::parse\<close> at \<open>f64\<close>: a sign, then \<open>inf\<close>, \<open>infinity\<close> or \<open>nan\<close> in any case, or digits with an
  optional point, at least one digit, and an optional exponent; the value is rounded once.
\<close>

definition digits_nat :: "string \<Rightarrow> nat" where
  "digits_nat ds = unwrap_or (digits_value 0 ds) 0"

definition pow10 :: "int \<Rightarrow> rat" where
  "pow10 e = (if 0 \<le> e then 10 ^ nat e else 1 / 10 ^ nat (- e))"

definition parse_exponent :: "string \<Rightarrow> int option" where
  "parse_exponent s =
     (case s of
        [] \<Rightarrow> Some 0
      | c # r \<Rightarrow>
          if lower c \<noteq> CHR ''e'' then None
          else let ds = (case r of d # r' \<Rightarrow> if d = CHR ''+'' \<or> d = CHR ''-'' then r' else r | [] \<Rightarrow> [])
            in if ds = [] \<or> \<not> list_all is_digit ds then None
               else Some ((if hd r = CHR ''-'' then - 1 else 1) * int (digits_nat ds)))"

definition parse_decimal :: "string \<Rightarrow> rat option" where
  "parse_decimal s =
     (case take_digits s of (whole, r) \<Rightarrow>
      case (case r of c # r' \<Rightarrow> if c = CHR ''.'' then take_digits r' else ([], r) | [] \<Rightarrow> ([], [])) of
        (decimals, r) \<Rightarrow>
          if whole = [] \<and> decimals = [] then None
          else map_option (\<lambda>e. of_nat (digits_nat (whole @ decimals)) * pow10 (e - int (length decimals)))
            (parse_exponent r))"

definition parse_f64 :: "string \<Rightarrow> string + f64" where
  "parse_f64 s =
     (case s of
        [] \<Rightarrow> Inl ''cannot parse float from empty string''
      | c # r \<Rightarrow>
          let negative = (c = CHR ''-''); body = (if c = CHR ''-'' \<or> c = CHR ''+'' then r else s);
              word = map lower body
          in if word = ''inf'' \<or> word = ''infinity'' then Inr (if negative then NegInf else PosInf)
             else if word = ''nan'' then Inr NaN
             else case parse_decimal body of
                 None \<Rightarrow> Inl ''invalid float literal''
               | Some q \<Rightarrow> Inr (round_f64 (if negative then - q else q)))"

section \<open>Trimming\<close>

text \<open>The characters with the property \<open>White_Space\<close>, in UTF-8.\<close>

definition utf8_text :: "nat list \<Rightarrow> string" where
  "utf8_text ns = map char_of ns"

definition white_space :: "string list" where
  "white_space = map utf8_text ([[9], [10], [11], [12], [13], [32], [0xC2, 0x85], [0xC2, 0xA0], [0xE1, 0x9A, 0x80]] @
     map (\<lambda>n. [0xE2, 0x80, 0x80 + n]) [0..<11] @
     [[0xE2, 0x80, 0xA8], [0xE2, 0x80, 0xA9], [0xE2, 0x80, 0xAF], [0xE2, 0x81, 0x9F], [0xE3, 0x80, 0x80]])"

lemma trim_step_shorter:
  assumes "find (\<lambda>p. p \<noteq> [] \<and> starts_with p s) ps = Some p"
  shows "length (drop (length p) s) < length s"
proof -
  from assms have "p \<noteq> []" "starts_with p s" by (auto simp: find_Some_iff)
  then have "p \<noteq> [] \<and> (\<exists>t. s = p @ t)" by (simp add: starts_with_iff)
  then show ?thesis by auto
qed

text \<open>Drop one of the given prefixes as long as there is one.\<close>

function trim_prefixes :: "string list \<Rightarrow> string \<Rightarrow> string" where
  "trim_prefixes ps s =
     (case find (\<lambda>p. p \<noteq> [] \<and> starts_with p s) ps of
        None \<Rightarrow> s
      | Some p \<Rightarrow> trim_prefixes ps (drop (length p) s))"
  by pat_completeness auto

termination by (relation "measure (\<lambda>(ps, s). length s)") (auto dest: trim_step_shorter simp del: length_drop)

declare trim_prefixes.simps [simp del]

definition trim :: "string \<Rightarrow> string" where
  "trim s = rev (trim_prefixes (map rev white_space) (rev (trim_prefixes white_space s)))"

section \<open>The crates\<close>

record text_api =
  tx_from_str :: "string \<Rightarrow> string + json_value"
  tx_to_string :: "json_value \<Rightarrow> string + string"
  tx_parse_oid :: "string \<Rightarrow> string + bytes"
  tx_parse_date :: "string \<Rightarrow> string + int"
  tx_show_date :: "int \<Rightarrow> string"
  tx_show_decimal :: "bytes \<Rightarrow> string"
  tx_show_subtype :: "u8 \<Rightarrow> string"

end
