(* ===== verification/Rango_Import.thy ===== *)
theory Rango_Import
  imports Rango_Json Rango_Sync Rango_Engine_Local
begin

text \<open>
  Import and export of JSON lines (\<open>sdk-rust/src/migrate.rs\<close>): the conversions between BSON and JSON
  with the extended forms, the cleaning of a line, the two loops, and what an import reads where an
  export wrote a value. The engine is any engine; the
  bytes of the imported file and the faults of the calls on the exported one are arguments.
\<close>

section \<open>From JSON\<close>

definition extended_json :: "text_api \<Rightarrow> (string \<times> json_value) list \<Rightarrow> bson result option" where
  "extended_json T m =
     (case m of
        [(key, val)] \<Rightarrow>
          if key = ''$oid'' then
            (case val of
               VString s \<Rightarrow> Some (map_sum (\<lambda>e. Storage (''Invalid ObjectId: '' @ e)) ObjectId (tx_parse_oid T s))
             | _ \<Rightarrow> None)
          else if key = ''$date'' then
            (case val of
               VString s \<Rightarrow> Some (map_sum (\<lambda>e. Storage (''Invalid date: '' @ e)) DateTime (tx_parse_date T s))
             | _ \<Rightarrow> None)
          else if key = ''$numberInt'' then
            (case val of
               VString s \<Rightarrow>
                 Some (map_sum (\<lambda>e. Storage (''Invalid Int32: '' @ parse_int_error_text e)) Int32 (parse_i32 s))
             | _ \<Rightarrow> None)
          else if key = ''$numberLong'' then
            (case val of
               VString s \<Rightarrow>
                 Some (map_sum (\<lambda>e. Storage (''Invalid Int64: '' @ parse_int_error_text e)) Int64 (parse_i64 s))
             | _ \<Rightarrow> None)
          else if key = ''$numberDouble'' then
            Some (map_sum id Double
              (case val of
                 VString s \<Rightarrow> map_err (\<lambda>e. Storage (''Invalid Double: '' @ e)) (parse_f64 s)
               | VNumber n \<Rightarrow> Inr (unwrap_or (number_as_f64 n) (Fin 0))
               | _ \<Rightarrow> Inr (Fin 0)))
          else None
      | _ \<Rightarrow> None)"

lemma size_member [termination_simp]: "kv \<in> set m \<Longrightarrow> size (snd kv) < Suc (size_list (size_prod (\<lambda>x. 0) size) m)"
  by (induction m) auto

fun json_to_bson :: "text_api \<Rightarrow> json_value \<Rightarrow> bson result" where
  "json_to_bson T VNull = Inr Null"
| "json_to_bson T (VBool b) = Inr (Boolean b)"
| "json_to_bson T (VNumber n) =
     (case number_as_i64 n of
        Some i \<Rightarrow> if - (2 ^ 31) \<le> sint i \<and> sint i \<le> 2 ^ 31 - 1 then Inr (Int32 (scast i)) else Inr (Int64 i)
      | None \<Rightarrow>
          (case number_as_f64 n of
             Some x \<Rightarrow> Inr (Double x)
           | None \<Rightarrow> Inl (Storage ''Invalid number'')))"
| "json_to_bson T (VString s) = Inr (String s)"
| "json_to_bson T (VArray vs) = map_sum id Array (collect_r (json_to_bson T) vs)"
| "json_to_bson T (VObject m) =
     (case extended_json T m of
        Some r \<Rightarrow> r
      | None \<Rightarrow>
          try_r (collect_r (\<lambda>kv. try_r (json_to_bson T (snd kv)) (\<lambda>b. Inr (fst kv, b))) m) (\<lambda>kvs.
          Inr (Document (fold (\<lambda>(k, b) d. al_put d k b) kvs []))))"

definition parse_mongo_json :: "text_api \<Rightarrow> string \<Rightarrow> doc result" where
  "parse_mongo_json T line =
     try_r (map_err (\<lambda>e. Storage (''JSON parse error: '' @ e)) (tx_from_str T line)) (\<lambda>v.
     try_r (json_to_bson T v) (\<lambda>b.
     case b of
       Document d \<Rightarrow> Inr d
     | _ \<Rightarrow> Inl (Storage ''Expected JSON object, got other type'')))"

section \<open>To JSON\<close>

lemma bson_size_member [termination_simp]: "kv \<in> set d \<Longrightarrow> size (snd kv) < Suc (size_list (size_prod (\<lambda>x. 0) size) d)"
  by (induction d) auto

fun bson_to_json :: "deps \<Rightarrow> text_api \<Rightarrow> bson \<Rightarrow> json_value result" where
  "bson_to_json D T (Double x) = Inr (VNumber (unwrap_or (number_from_f64 x) (PosInt 0)))"
| "bson_to_json D T (String s) = Inr (VString s)"
| "bson_to_json D T (Array bs) = map_sum id VArray (collect_r (bson_to_json D T) bs)"
| "bson_to_json D T (Document d) =
     try_r (collect_r (\<lambda>kv. try_r (bson_to_json D T (snd kv)) (\<lambda>v. Inr (fst kv, v))) d) (\<lambda>kvs.
     Inr (VObject (object_of kvs)))"
| "bson_to_json D T (Boolean b) = Inr (VBool b)"
| "bson_to_json D T Null = Inr VNull"
| "bson_to_json D T (Int32 i) = Inr (VNumber (number_from_i64 (scast i)))"
| "bson_to_json D T (Int64 i) = Inr (VNumber (number_from_i64 i))"
| "bson_to_json D T (ObjectId oid) = Inr (VString (oid_display D oid))"
| "bson_to_json D T (DateTime t) = Inr (VString (tx_show_date T t))"
| "bson_to_json D T (Binary subtype bs) =
     Inr (VString (case (if subtype = uuid_subtype then uuid_display D bs else None) of
       Some s \<Rightarrow> s
     | None \<Rightarrow> ''<Binary '' @ tx_show_subtype T subtype @ ''>''))"
| "bson_to_json D T Undefined = Inr VNull"
| "bson_to_json D T (RegularExpression pattern options) =
     Inr (VString (CHR ''/'' # pattern @ CHR ''/'' # options))"
| "bson_to_json D T (JavaScriptCode code) = Inr (VString code)"
| "bson_to_json D T (JavaScriptCodeWithScope code scope) = Inr (VString ''[JS code with scope]'')"
| "bson_to_json D T (Timestamp time increment) = Inr (VNumber (PosInt (ucast time)))"
| "bson_to_json D T (Decimal128 bs) = Inr (VString (tx_show_decimal T bs))"
| "bson_to_json D T MaxKey = Inr (VString ''$MaxKey'')"
| "bson_to_json D T MinKey = Inr (VString ''$MinKey'')"
| "bson_to_json D T (DbPointer ns oid) = Inr VNull"
| "bson_to_json D T (Symbol s) = Inr (VString s)"

definition doc_to_json :: "deps \<Rightarrow> text_api \<Rightarrow> doc \<Rightarrow> string result" where
  "doc_to_json D T d =
     try_r (bson_to_json D T (Document d)) (\<lambda>v.
     map_err (\<lambda>e. Storage (''JSON serialize error: '' @ e)) (tx_to_string T v))"

section \<open>Import\<close>

text \<open>
  \<open>BufRead::lines\<close>: a line ends at a line feed, which is dropped with a carriage return before it;
  the rest after the last one is a line unless it is empty. A line that is not UTF-8 is an error.
\<close>

fun split_lines :: "bytes \<Rightarrow> bytes \<Rightarrow> bytes list" where
  "split_lines acc [] = (if acc = [] then [] else [acc])"
| "split_lines acc (b # bs) =
     (if b = 10
      then (if acc \<noteq> [] \<and> last acc = 13 then butlast acc else acc) # split_lines [] bs
      else split_lines (acc @ [b]) bs)"

definition file_lines :: "bytes \<Rightarrow> (string + string) list" where
  "file_lines bs =
     map (\<lambda>l. if utf8_valid l then Inr (bytes_str l) else Inl ''stream did not contain valid UTF-8'') (split_lines [] bs)"

definition byte_order_mark :: string where
  "byte_order_mark = utf8_text [0xEF, 0xBB, 0xBF]"

definition sanitize_json_line :: "nat \<Rightarrow> string \<Rightarrow> string" where
  "sanitize_json_line line_num raw =
     (let trimmed = trim raw in if line_num = 0 then trim_prefixes [byte_order_mark] trimmed else trimmed)"

datatype import_event = OnDocument nat | OnError nat string | OnComplete nat nat

record import_result =
  ir_imported :: nat
  ir_errors :: nat

fun import_loop :: "deps \<Rightarrow> text_api \<Rightarrow> 's storage_engine \<Rightarrow> 'o oplog_vt \<Rightarrow> collection_name \<Rightarrow> nat \<Rightarrow>
    (string + string) list \<Rightarrow> import_result \<Rightarrow> import_event list \<Rightarrow> ('s, 'o) engine \<Rightarrow>
    (import_result \<times> import_event list) \<times> ('s, 'o) engine" where
  "import_loop D T E L c line_num [] res progress st = ((res, progress), st)"
| "import_loop D T E L c line_num (read # lines) res progress st =
     (let failed = (\<lambda>e st. import_loop D T E L c (line_num + 1) lines (res\<lparr>ir_errors := ir_errors res + 1\<rparr>)
            (progress @ [OnError (line_num + 1) e]) st)
      in case read of
          Inl e \<Rightarrow> failed e st
        | Inr raw \<Rightarrow>
            let line = sanitize_json_line line_num raw
            in if line = [] then import_loop D T E L c (line_num + 1) lines res progress st
               else case parse_mongo_json T line of
                   Inl e \<Rightarrow> failed (error_text e) st
                 | Inr d \<Rightarrow>
                     (case insert_one D E L c d st of
                        (Inr _, st) \<Rightarrow>
                          import_loop D T E L c (line_num + 1) lines (res\<lparr>ir_imported := ir_imported res + 1\<rparr>)
                            (progress @ [OnDocument (ir_imported res + 1)]) st
                      | (Inl e, st) \<Rightarrow> failed (error_text e) st))"

text \<open>\<open>import_json\<close>: the file is the error of opening it or its bytes.\<close>

definition import_json :: "deps \<Rightarrow> text_api \<Rightarrow> 's storage_engine \<Rightarrow> 'o oplog_vt \<Rightarrow> collection_name \<Rightarrow>
    string + bytes \<Rightarrow> ('s, 'o) engine \<Rightarrow> (import_result result \<times> import_event list) \<times> ('s, 'o) engine" where
  "import_json D T E L c opened st =
     (case opened of
        Inl e \<Rightarrow> ((Inl (Storage e), []), st)
      | Inr bs \<Rightarrow>
          (case import_loop D T E L c 0 (file_lines bs) \<lparr>ir_imported = 0, ir_errors = 0\<rparr> [] st of
             ((res, progress), st) \<Rightarrow>
               ((Inr res, progress @ [OnComplete (ir_imported res) (ir_errors res)]), st)))"

section \<open>Export\<close>

text \<open>The text of the written file; the calls that create, write and flush it may fail.\<close>

fun export_loop :: "deps \<Rightarrow> text_api \<Rightarrow> (nat \<Rightarrow> string option) \<Rightarrow> nat \<Rightarrow> doc result list \<Rightarrow> string \<Rightarrow> nat \<Rightarrow>
    (string \<times> nat \<times> nat) result" where
  "export_loop D T faults calls [] contents exported = Inr (contents, exported, calls)"
| "export_loop D T faults calls (row # rows) contents exported =
     try_r row (\<lambda>d.
     case doc_to_json D T d of
       Inl e \<Rightarrow> export_loop D T faults calls rows contents exported
     | Inr json_str \<Rightarrow>
         (case faults calls of
            Some e \<Rightarrow> Inl (Storage e)
          | None \<Rightarrow> export_loop D T faults (calls + 1) rows (contents @ json_str @ [CHR 0x0A]) (exported + 1)))"

definition export_json :: "deps \<Rightarrow> text_api \<Rightarrow> 's storage_engine \<Rightarrow> (nat \<Rightarrow> string option) \<Rightarrow>
    collection_name \<Rightarrow> ('s, 'o) engine \<Rightarrow> (string \<times> nat) result" where
  "export_json D T E faults c st =
     (case faults 0 of
        Some e \<Rightarrow> Inl (Storage e)
      | None \<Rightarrow>
          try_r (find_many D E st c) (\<lambda>rows.
          try_r (export_loop D T faults 1 rows [] 0) (\<lambda>(contents, exported, calls).
          case faults calls of
            Some e \<Rightarrow> Inl (Storage e)
          | None \<Rightarrow> Inr (contents, exported))))"

section \<open>What survives a round trip\<close>

text \<open>
  What an import reads where the export wrote a value: identifiers, dates and the other types that JSON
  has not come back as texts, numbers or null, a small \<open>Int64\<close> as an \<open>Int32\<close>, an infinite or undefined
  double as zero, and the fields of a document in the order of their names.
\<close>

definition reread_int :: "i64 \<Rightarrow> bson" where
  "reread_int i = (if - (2 ^ 31) \<le> sint i \<and> sint i \<le> 2 ^ 31 - 1 then Int32 (scast i) else Int64 i)"

fun reread :: "deps \<Rightarrow> text_api \<Rightarrow> bson \<Rightarrow> bson" where
  "reread D T (Double x) = (if is_finite x then Double x else Int32 0)"
| "reread D T (String s) = String s"
| "reread D T (Array bs) = Array (map (reread D T) bs)"
| "reread D T (Document d) = Document (object_of (map (\<lambda>kv. (fst kv, reread D T (snd kv))) d))"
| "reread D T (Boolean b) = Boolean b"
| "reread D T Null = Null"
| "reread D T (Int32 i) = Int32 i"
| "reread D T (Int64 i) = reread_int i"
| "reread D T (ObjectId oid) = String (oid_display D oid)"
| "reread D T (DateTime t) = String (tx_show_date T t)"
| "reread D T (Binary subtype bs) =
     String (case (if subtype = uuid_subtype then uuid_display D bs else None) of
       Some s \<Rightarrow> s | None \<Rightarrow> ''<Binary '' @ tx_show_subtype T subtype @ ''>'')"
| "reread D T Undefined = Null"
| "reread D T (RegularExpression pattern options) = String (CHR ''/'' # pattern @ CHR ''/'' # options)"
| "reread D T (JavaScriptCode code) = String code"
| "reread D T (JavaScriptCodeWithScope code scope) = String ''[JS code with scope]''"
| "reread D T (Timestamp time increment) = reread_int (ucast time)"
| "reread D T (Decimal128 bs) = String (tx_show_decimal T bs)"
| "reread D T MaxKey = String ''$MaxKey''"
| "reread D T MinKey = String ''$MinKey''"
| "reread D T (DbPointer ns oid) = Null"
| "reread D T (Symbol s) = String s"

definition reread_doc :: "deps \<Rightarrow> text_api \<Rightarrow> doc \<Rightarrow> doc" where
  "reread_doc D T d = object_of (map (\<lambda>kv. (fst kv, reread D T (snd kv))) d)"

lemma reread_Document: "reread D T (Document d) = Document (reread_doc D T d)"
  by (simp add: reread_doc_def)

text \<open>No document, at any depth, has one name only and that of an extended form.\<close>

definition extended_names :: "string list" where
  "extended_names = [''$oid'', ''$date'', ''$numberInt'', ''$numberLong'', ''$numberDouble'']"

fun no_extended :: "bson \<Rightarrow> bool" where
  "no_extended (Array bs) \<longleftrightarrow> list_all no_extended bs"
| "no_extended (Document d) \<longleftrightarrow> list_all (\<lambda>kv. no_extended (snd kv)) d \<and>
     (\<forall>k\<in>set extended_names. fst ` set d \<noteq> {k})"
| "no_extended _ \<longleftrightarrow> True"

text \<open>The values that come back as they were.\<close>

fun json_plain :: "bson \<Rightarrow> bool" where
  "json_plain (Double x) \<longleftrightarrow> is_finite x"
| "json_plain (String s) \<longleftrightarrow> True"
| "json_plain (Array bs) \<longleftrightarrow> list_all json_plain bs"
| "json_plain (Document d) \<longleftrightarrow> list_all (\<lambda>kv. json_plain (snd kv)) d \<and> sorted_wrt (<) (map fst d)"
| "json_plain (Boolean b) \<longleftrightarrow> True"
| "json_plain Null \<longleftrightarrow> True"
| "json_plain (Int32 i) \<longleftrightarrow> True"
| "json_plain (Int64 i) \<longleftrightarrow> \<not> (- (2 ^ 31) \<le> sint i \<and> sint i \<le> 2 ^ 31 - 1)"
| "json_plain _ \<longleftrightarrow> False"

lemma reread_plain: "json_plain b \<Longrightarrow> reread D T b = b"
proof (induction b)
  case (Array bs)
  then show ?case by (simp add: list_all_iff map_idI)
next
  case (Document d)
  then have "\<forall>kv\<in>set d. (fst kv, reread D T (snd kv)) = kv"
    by (metis json_plain.simps(4) list_all_iff prod.collapse snds.intros)
  then have "map (\<lambda>kv. (fst kv, reread D T (snd kv))) d = d" by (simp add: map_idI)
  with Document.prems show ?case by (simp add: object_of_sorted)
qed (auto simp: reread_int_def)

lemma sint_nonneg_le:
  assumes "0 \<le> sint (i :: i64)"
  shows "i \<le> i64_max"
proof -
  have "sint i < 2 ^ 63" using sint_range_size [of i] by (simp add: word_size)
  then have "uint i = sint i"
    using assms by (simp add: uint_sint take_bit_eq_mod)
  with \<open>sint i < 2 ^ 63\<close> show ?thesis by (simp add: word_le_def i64_max_def)
qed

lemma i32_i64_i32: "scast (scast (i :: i32) :: i64) = i"
proof -
  have "sint (scast i :: i64) = sint i" by (simp add: sint_up_scast is_up)
  then show ?thesis by (simp only: scast_eq) simp
qed

lemma number_i64_round_trip: "number_as_i64 (number_from_i64 i) = Some i"
  by (auto simp: number_from_i64_def sint_nonneg_le)

lemma i32_range: "- (2 ^ 31) \<le> sint (i :: i32) \<and> sint i \<le> 2 ^ 31 - 1"
  using sint_range_size [of i] by (simp add: word_size)

lemma fold_al_put_fresh:
  "distinct (map fst kvs) \<Longrightarrow> fst ` set acc \<inter> fst ` set kvs = {} \<Longrightarrow>
     fold (\<lambda>(k, b) d. al_put d k b) kvs acc = acc @ kvs"
proof (induction kvs arbitrary: acc)
  case (Cons p kvs)
  obtain k b where p: "p = (k, b)" by fastforce
  have "al_get acc k = None" using Cons.prems by (auto simp: p al_get_None_iff)
  then have "al_put acc k b = acc @ [(k, b)]" by (rule al_put_absent)
  with Cons.prems Cons.IH [of "acc @ [(k, b)]"] show ?case by (auto simp: p)
qed simp

lemma extended_json_plain: "\<forall>k\<in>set extended_names. fst ` set m \<noteq> {k} \<Longrightarrow> extended_json T m = None"
proof (cases m)
  case (Cons p r)
  assume "\<forall>k\<in>set extended_names. fst ` set m \<noteq> {k}"
  with Cons show ?thesis
    by (cases r; cases p) (simp_all add: extended_json_def extended_names_def)
qed (simp add: extended_json_def)

text \<open>A JSON object keeps the names, each once, and the last value of each.\<close>

lemma map_insert_names: "fst ` set (map_insert m k v) = insert k (fst ` set m)"
  by (induction m k v rule: map_insert.induct) auto

lemma map_insert_sorted: "sorted_wrt (<) (map fst m) \<Longrightarrow> sorted_wrt (<) (map fst (map_insert m k v))"
proof (induction m k v rule: map_insert.induct)
  case (2 j u m k v)
  have names: "set (map fst (map_insert m k v)) = insert k (set (map fst m))" by (simp add: map_insert_names)
  show ?case
    using 2 by (cases "k = j"; cases "k < j") (auto simp del: set_map simp: names)
qed simp

lemma al_get_map_insert: "al_get (map_insert m k v) j = (if j = k then Some v else al_get m j)"
  by (induction m k v rule: map_insert.induct) auto

lemma map_insert_map: "map_insert (map (\<lambda>kv. (fst kv, f (snd kv))) m) k (f v) = map (\<lambda>kv. (fst kv, f (snd kv))) (map_insert m k v)"
  by (induction m k v rule: map_insert.induct) auto

abbreviation insert_fields :: "(string \<times> 'a) list \<Rightarrow> (string \<times> 'a) list \<Rightarrow> (string \<times> 'a) list" where
  "insert_fields \<equiv> fold (\<lambda>(k, v) m. map_insert m k v)"

lemma insert_fields_names: "fst ` set (insert_fields kvs acc) = fst ` set acc \<union> fst ` set kvs"
  by (induction kvs arbitrary: acc) (auto simp: map_insert_names simp del: set_map split: prod.split)

lemma insert_fields_sorted: "sorted_wrt (<) (map fst acc) \<Longrightarrow> sorted_wrt (<) (map fst (insert_fields kvs acc))"
  by (induction kvs arbitrary: acc) (simp_all add: map_insert_sorted split: prod.split)

lemma al_get_append: "al_get (xs @ ys) k = (case al_get xs k of Some v \<Rightarrow> Some v | None \<Rightarrow> al_get ys k)"
  by (induction xs) auto

lemma al_get_insert_fields:
  "al_get (insert_fields kvs acc) k = (case al_get (rev kvs) k of Some v \<Rightarrow> Some v | None \<Rightarrow> al_get acc k)"
  by (induction kvs arbitrary: acc) (auto simp: al_get_map_insert al_get_append split: option.splits)

lemma insert_fields_map:
  "map (\<lambda>kv. (fst kv, f (snd kv))) (insert_fields kvs acc) =
     insert_fields (map (\<lambda>kv. (fst kv, f (snd kv))) kvs) (map (\<lambda>kv. (fst kv, f (snd kv))) acc)"
  by (induction kvs arbitrary: acc) (auto simp: map_insert_map)

lemma object_of_names [simp]: "fst ` set (object_of kvs) = fst ` set kvs"
  using insert_fields_names [of kvs "[]"] by (simp add: object_of_def)

lemma object_of_ascending: "sorted_wrt (<) (map fst (object_of kvs))"
  using insert_fields_sorted [of "[]" kvs] by (simp add: object_of_def)

lemma al_get_object_of: "al_get (object_of kvs) k = al_get (rev kvs) k"
  using al_get_insert_fields [of kvs "[]" k] by (simp add: object_of_def split: option.splits)

lemma object_of_map: "object_of (map (\<lambda>kv. (fst kv, f (snd kv))) kvs) = map (\<lambda>kv. (fst kv, f (snd kv))) (object_of kvs)"
  using insert_fields_map [of f kvs "[]"] by (simp add: object_of_def)

lemma object_of_distinct: "distinct (map fst (object_of kvs))"
  using object_of_ascending [of kvs] by (simp add: strict_sorted_iff)

lemma object_of_values: "kv \<in> set (object_of kvs) \<Longrightarrow> kv \<in> set kvs"
proof -
  assume "kv \<in> set (object_of kvs)"
  then have "al_get (object_of kvs) (fst kv) = Some (snd kv)"
    using object_of_distinct [of kvs] by (simp add: al_get_map_of)
  then show ?thesis by (auto simp: al_get_object_of dest: al_get_SomeD)
qed

text \<open>Every field is there once, with what its value is read back as.\<close>

lemma map_of_distinct_rev: "distinct (map fst kvs) \<Longrightarrow> map_of (rev kvs) = map_of kvs"
  by (rule map_of_eqI) (auto simp: map_of_eq_Some_iff image_iff rev_map [symmetric])

lemma al_get_reread_doc:
  assumes "al_wf d"
  shows "al_get (reread_doc D T d) k = map_option (reread D T) (al_get d k)"
proof -
  have "al_get (rev (map (\<lambda>kv. (fst kv, reread D T (snd kv))) d)) k = al_get (map (\<lambda>kv. (fst kv, reread D T (snd kv))) d) k"
    using assms map_of_distinct_rev [of "map (\<lambda>kv. (fst kv, reread D T (snd kv))) d"]
    by (simp add: al_get_map_of al_wf_def comp_def)
  moreover have "\<dots> = map_option (reread D T) (al_get d k)" by (induction d) auto
  ultimately show ?thesis by (simp add: reread_doc_def al_get_object_of)
qed

lemma al_wf_reread_doc: "al_wf (reread_doc D T d)"
  by (simp add: al_wf_def reread_doc_def object_of_distinct)

text \<open>The JSON of a value, and back.\<close>

lemma json_to_bson_number_i64 [simp]: "json_to_bson T (VNumber (number_from_i64 i)) = Inr (reread_int i)"
  by (simp add: number_i64_round_trip reread_int_def)

lemma json_to_bson_i32: "reread_int (scast (i :: i32)) = Int32 i"
proof -
  have "sint (scast i :: i64) = sint i" by (simp add: sint_up_scast is_up)
  then show ?thesis using i32_range [of i] by (simp add: reread_int_def i32_i64_i32)
qed

lemma timestamp_i64: "number_as_i64 (PosInt (ucast (time :: u32))) = Some (ucast time)"
proof -
  have "uint (ucast time :: u64) < 2 ^ 32" using unsigned_less [of time, where ?'a = int] by (simp add: uint_up_ucast is_up)
  then show ?thesis by (simp add: word_le_def i64_max_def)
qed

lemma json_round_trip_value:
  "\<exists>v. bson_to_json D T b = Inr v \<and> (no_extended b \<longrightarrow> json_to_bson T v = Inr (reread D T b))"
proof (induction b)
  case (Double x)
  show ?case by (auto simp: number_from_f64_def i64_max_def)
next
  case (Array bs)
  then obtain f where f: "\<forall>b\<in>set bs. bson_to_json D T b = Inr (f b) \<and> (no_extended b \<longrightarrow> json_to_bson T (f b) = Inr (reread D T b))"
    by metis
  then have "collect_r (bson_to_json D T) bs = Inr (map f bs)" by (intro collect_r_Inr_map) auto
  moreover have "collect_r (json_to_bson T) (map f bs) = Inr (map (reread D T) bs)" if "no_extended (Array bs)"
    unfolding collect_r_map by (rule collect_r_Inr_map) (use f that in \<open>auto simp: list_all_iff\<close>)
  ultimately show ?case by auto
next
  case (Document d)
  have "\<forall>kv\<in>set d. \<exists>v. bson_to_json D T (snd kv) = Inr v \<and> (no_extended (snd kv) \<longrightarrow> json_to_bson T v = Inr (reread D T (snd kv)))"
    using Document.IH by (metis prod.collapse snds.intros)
  then obtain f where f: "\<forall>kv\<in>set d. bson_to_json D T (snd kv) = Inr (f kv) \<and>
      (no_extended (snd kv) \<longrightarrow> json_to_bson T (f kv) = Inr (reread D T (snd kv)))"
    by metis
  let ?m = "map (\<lambda>kv. (fst kv, f kv)) d" and ?h = "\<lambda>v. projr (json_to_bson T v)"
  have to: "collect_r (\<lambda>kv. try_r (bson_to_json D T (snd kv)) (\<lambda>v. Inr (fst kv, v))) d = Inr ?m"
    by (rule collect_r_Inr_map) (use f in auto)
  have "json_to_bson T (VObject (object_of ?m)) = Inr (reread D T (Document d))" if ext: "no_extended (Document d)"
  proof -
    have there: "\<forall>kv\<in>set d. json_to_bson T (f kv) = Inr (reread D T (snd kv))" using f ext by (auto simp: list_all_iff)
    have "collect_r (\<lambda>kv. try_r (json_to_bson T (snd kv)) (\<lambda>b. Inr (fst kv, b))) (object_of ?m) =
        Inr (map (\<lambda>kv. (fst kv, ?h (snd kv))) (object_of ?m))"
    proof (rule collect_r_Inr_map)
      fix kv assume "kv \<in> set (object_of ?m)"
      then have "kv \<in> set ?m" by (rule object_of_values)
      with there show "try_r (json_to_bson T (snd kv)) (\<lambda>b. Inr (fst kv, b)) = Inr (fst kv, ?h (snd kv))" by auto
    qed
    moreover have "map (\<lambda>kv. (fst kv, ?h (snd kv))) (object_of ?m) = reread_doc D T d"
    proof -
      have eq: "map (\<lambda>kv. (fst kv, ?h (snd kv))) ?m = map (\<lambda>kv. (fst kv, reread D T (snd kv))) d"
        using there by simp
      show ?thesis unfolding reread_doc_def eq [symmetric] by (rule object_of_map [symmetric])
    qed
    moreover have "fold (\<lambda>(k, b) d. al_put d k b) (reread_doc D T d) [] = reread_doc D T d"
      using fold_al_put_fresh [of "reread_doc D T d" "[]"] by (simp add: reread_doc_def object_of_distinct)
    moreover have "extended_json T (object_of ?m) = None"
      by (rule extended_json_plain) (use ext in \<open>simp add: image_image\<close>)
    ultimately show ?thesis by (simp add: reread_Document del: reread.simps)
  qed
  with to show ?case by (simp del: json_to_bson.simps reread.simps)
next
  case (Int32 i)
  show ?case by (simp add: json_to_bson_i32 del: json_to_bson.simps)
next
  case (Int64 i)
  show ?case by (simp del: json_to_bson.simps)
next
  case (Timestamp time increment)
  show ?case by (simp add: timestamp_i64 [of time] reread_int_def del: number_as_i64.simps)
qed simp_all

section \<open>The lines of a file\<close>

text \<open>
  What one line asks for: nothing when it is blank, an error, or a document to insert. The import is
  then the insertions, in order, of the documents of its lines.
\<close>

definition line_outcome :: "text_api \<Rightarrow> nat \<Rightarrow> string + string \<Rightarrow> (string + doc) option" where
  "line_outcome T n read =
     (case read of
        Inl e \<Rightarrow> Some (Inl e)
      | Inr raw \<Rightarrow>
          if sanitize_json_line n raw = [] then None
          else Some (map_err error_text (parse_mongo_json T (sanitize_json_line n raw))))"

fun line_outcomes :: "text_api \<Rightarrow> nat \<Rightarrow> (string + string) list \<Rightarrow> (string + doc) list" where
  "line_outcomes T n [] = []"
| "line_outcomes T n (read # lines) =
     (case line_outcome T n read of None \<Rightarrow> [] | Some r \<Rightarrow> [r]) @ line_outcomes T (n + 1) lines"

fun insert_all :: "deps \<Rightarrow> 's storage_engine \<Rightarrow> 'o oplog_vt \<Rightarrow> collection_name \<Rightarrow> doc list \<Rightarrow>
    (('s, 'o) engine \<Rightarrow> document_id result list \<times> ('s, 'o) engine)" where
  "insert_all D E L c [] st = ([], st)"
| "insert_all D E L c (d # ds) st =
     (case insert_one D E L c d st of (r, st) \<Rightarrow> map_prod ((#) r) id (insert_all D E L c ds st))"

definition failures :: "('e + 'a) list \<Rightarrow> nat" where
  "failures rs = length rs - length (oks rs)"

lemma length_oks: "length (oks rs) \<le> length rs"
proof (induction rs)
  case (Cons r rs)
  then show ?case by (cases r) simp_all
qed simp

lemma failures_simps [simp]:
  "failures [] = 0" "failures (Inl e # rs) = Suc (failures rs)" "failures (Inr x # rs) = failures rs"
  using length_oks [of rs] by (simp_all add: failures_def Suc_diff_le)

lemma oks_append [simp]: "oks (xs @ ys) = oks xs @ oks ys"
  by (simp add: oks_def map_filter_def)

lemma length_insert_all [simp]: "length (fst (insert_all D E L c ds st)) = length ds"
  by (induction ds arbitrary: st) (simp_all split: prod.split)

lemma import_loop_outcomes:
  "case import_loop D T E L c n lines res progress st of ((res', progress'), st') \<Rightarrow>
     (case insert_all D E L c (oks (line_outcomes T n lines)) st of (rs, st'') \<Rightarrow>
        st' = st'' \<and> ir_imported res' = ir_imported res + length (oks rs) \<and>
        ir_errors res' = ir_errors res + failures (line_outcomes T n lines) + failures rs) \<and>
     length progress' = length progress + length (line_outcomes T n lines)"
proof (induction lines arbitrary: n res progress st)
  case (Cons read lines)
  show ?case
  proof (cases read)
    case (Inl e)
    with Cons.IH [where n = "n + 1" and res = "res\<lparr>ir_errors := ir_errors res + 1\<rparr>" and progress = "progress @ [OnError (n + 1) e]" and st = st]
    show ?thesis by (auto simp: line_outcome_def Let_def split: prod.splits)
  next
    case (Inr raw)
    show ?thesis
    proof (cases "sanitize_json_line n raw = []")
      case True
      with Inr Cons.IH [where n = "n + 1" and res = res and progress = progress and st = st]
      show ?thesis by (auto simp: line_outcome_def Let_def split: prod.splits)
    next
      case line: False
      show ?thesis
      proof (cases "parse_mongo_json T (sanitize_json_line n raw)")
        case (Inl e)
        with line \<open>read = Inr raw\<close>
          Cons.IH [where n = "n + 1" and res = "res\<lparr>ir_errors := ir_errors res + 1\<rparr>" and progress = "progress @ [OnError (n + 1) (error_text e)]" and st = st]
        show ?thesis by (auto simp: line_outcome_def Let_def split: prod.splits)
      next
        case (Inr d)
        obtain r st1 where ins: "insert_one D E L c d st = (r, st1)" by fastforce
        show ?thesis
        proof (cases r)
          case (Inl e)
          with Inr ins line \<open>read = Inr raw\<close>
            Cons.IH [where n = "n + 1" and res = "res\<lparr>ir_errors := ir_errors res + 1\<rparr>" and progress = "progress @ [OnError (n + 1) (error_text e)]" and st = st1]
          show ?thesis by (auto simp: line_outcome_def Let_def split: prod.splits)
        next
          fix i assume "r = Inr i"
          with Inr ins line \<open>read = Inr raw\<close>
            Cons.IH [where n = "n + 1" and res = "res\<lparr>ir_imported := ir_imported res + 1\<rparr>" and progress = "progress @ [OnDocument (ir_imported res + 1)]" and st = st1]
          show ?thesis by (auto simp: line_outcome_def Let_def split: prod.splits)
        qed
      qed
    qed
  qed
qed simp

text \<open>Lines without a line feed or a carriage return at the end come back from their concatenation.\<close>

lemma split_lines_line:
  "10 \<notin> set l \<Longrightarrow> split_lines acc (l @ 10 # rest) =
     (if acc @ l \<noteq> [] \<and> last (acc @ l) = 13 then butlast (acc @ l) else acc @ l) # split_lines [] rest"
  by (induction l arbitrary: acc) auto

lemma split_lines_concat:
  "\<forall>l\<in>set ls. 10 \<notin> set l \<and> l \<noteq> [] \<and> last l \<noteq> 13 \<Longrightarrow>
     split_lines [] (concat (map (\<lambda>l. l @ [10]) ls)) = ls"
  by (induction ls) (simp_all add: split_lines_line)

lemma trim_prefixes_keeps:
  assumes "\<forall>p\<in>set ps. p = [] \<or> hd p \<noteq> c"
  shows "trim_prefixes ps (c # s) = c # s"
proof -
  have "find (\<lambda>p. p \<noteq> [] \<and> starts_with p (c # s)) ps = None"
    using assms by (auto simp: find_None_iff starts_with_iff Cons_eq_append_conv)
  then show ?thesis by (subst trim_prefixes.simps) simp
qed

lemma trim_braces: "trim (CHR ''{'' # s @ ''}'') = CHR ''{'' # s @ ''}''"
proof -
  have "trim_prefixes white_space (CHR ''{'' # s @ ''}'') = CHR ''{'' # s @ ''}''"
    by (rule trim_prefixes_keeps) (auto simp: white_space_def utf8_text_def char_of_eq_iff)
  moreover have "\<forall>p\<in>set (map List.rev white_space). p = [] \<or> hd p \<noteq> CHR ''}''"
    by (simp add: white_space_def utf8_text_def upt_rec char_of_eq_iff)
  then have "trim_prefixes (map List.rev white_space) (CHR ''}'' # List.rev (CHR ''{'' # s)) = CHR ''}'' # List.rev (CHR ''{'' # s)"
    by (rule trim_prefixes_keeps)
  ultimately show ?thesis by (simp add: trim_def)
qed

lemma sanitize_braces: "sanitize_json_line n (CHR ''{'' # s @ ''}'') = CHR ''{'' # s @ ''}''"
  by (simp add: sanitize_json_line_def trim_braces trim_prefixes_keeps byte_order_mark_def utf8_text_def Let_def char_of_eq_iff)

text \<open>The text of an object: in braces, on one line, valid UTF-8, and read back as the same object.\<close>

definition prints :: "text_api \<Rightarrow> json_value \<Rightarrow> string \<Rightarrow> bool" where
  "prints T v s \<longleftrightarrow> tx_to_string T v = Inr s \<and> tx_from_str T s = Inr v \<and> utf8_valid (str_bytes s) \<and>
     CHR 0x0A \<notin> set s \<and> (\<exists>t. s = CHR ''{'' # t @ ''}'')"

definition exportable :: "deps \<Rightarrow> text_api \<Rightarrow> doc \<Rightarrow> bool" where
  "exportable D T d \<longleftrightarrow> no_extended (Document d) \<and>
     (\<exists>s. prints T (projr (bson_to_json D T (Document d))) s)"

lemma export_loop_ok:
  assumes "\<forall>d\<in>set docs. exportable D T d"
  shows "\<exists>ss calls'. export_loop D T (\<lambda>_. None) calls (map Inr docs) contents n =
      Inr (contents @ concat (map (\<lambda>s. s @ [CHR 0x0A]) ss), n + length docs, calls') \<and>
    list_all2 (\<lambda>d s. \<exists>v. bson_to_json D T (Document d) = Inr v \<and> prints T v s) docs ss"
  using assms
proof (induction docs arbitrary: calls contents n)
  case (Cons d docs)
  obtain v where v: "bson_to_json D T (Document d) = Inr v"
    using json_round_trip_value [of D T "Document d"] by blast
  moreover obtain s where "prints T (projr (bson_to_json D T (Document d))) s"
    using Cons.prems unfolding exportable_def by auto
  ultimately have s: "bson_to_json D T (Document d) = Inr v" "prints T v s" by simp_all
  then have out: "doc_to_json D T d = Inr s"
    unfolding doc_to_json_def s(1) by (simp add: prints_def)
  obtain ss calls' where "export_loop D T (\<lambda>_. None) (calls + 1) (map Inr docs) (contents @ s @ [CHR 0x0A]) (n + 1) =
      Inr ((contents @ s @ [CHR 0x0A]) @ concat (map (\<lambda>s. s @ [CHR 0x0A]) ss), (n + 1) + length docs, calls')"
    "list_all2 (\<lambda>d s. \<exists>v. bson_to_json D T (Document d) = Inr v \<and> prints T v s) docs ss"
    using Cons.IH [of "calls + 1" "contents @ s @ [CHR 0x0A]" "n + 1"] Cons.prems by auto
  moreover have "\<exists>v. bson_to_json D T (Document d) = Inr v \<and> prints T v s" using s by blast
  ultimately show ?case
    by (intro exI [of _ "s # ss"] exI [of _ calls']) (simp add: out del: bson_to_json.simps)
qed simp

lemma prints_line:
  assumes "prints T v s"
  shows "10 \<notin> set (str_bytes s) \<and> str_bytes s \<noteq> [] \<and> last (str_bytes s) \<noteq> 13"
proof -
  have "c = CHR 0x0A" if "char_byte c = 10" for c
  proof -
    have "char_byte (CHR 0x0A) = 10" by (simp add: char_byte_def)
    with that show ?thesis by (metis char_byte_inject)
  qed
  with assms show ?thesis by (auto simp: prints_def str_bytes_def char_byte_def)
qed

lemma printed_outcome:
  assumes "no_extended (Document d)" "bson_to_json D T (Document d) = Inr v" "prints T v s"
  shows "line_outcome T n (Inr s) = Some (Inr (reread_doc D T d))"
proof -
  have "json_to_bson T v = Inr (Document (reread_doc D T d))"
    using assms(1,2) json_round_trip_value [of D T "Document d"] unfolding reread_Document by simp
  then have "parse_mongo_json T s = Inr (reread_doc D T d)"
    using assms(3) by (simp add: parse_mongo_json_def prints_def)
  moreover have "sanitize_json_line n s = s" "s \<noteq> []"
    using assms(3) by (auto simp: prints_def sanitize_braces)
  ultimately show ?thesis by (simp add: line_outcome_def)
qed

lemma printed_outcomes:
  assumes "list_all2 (\<lambda>d s. \<exists>v. bson_to_json D T (Document d) = Inr v \<and> prints T v s) docs ss"
    and "\<forall>d\<in>set docs. no_extended (Document d)"
  shows "line_outcomes T n (map Inr ss) = map (\<lambda>d. Inr (reread_doc D T d)) docs"
  using assms
  by (induction docs ss arbitrary: n rule: list_all2_induct)
    (auto simp: printed_outcome simp del: bson_to_json.simps no_extended.simps)

lemma printed_lines:
  assumes "list_all2 (\<lambda>d s. \<exists>v. bson_to_json D T (Document d) = Inr v \<and> prints T v s) docs ss"
  shows "file_lines (str_bytes (concat (map (\<lambda>s. s @ [CHR 0x0A]) ss))) = map Inr ss"
proof -
  have p: "\<exists>v. prints T v s" if "s \<in> set ss" for s
    using assms that by (auto simp: list_all2_conv_all_nth in_set_conv_nth)
  have "str_bytes (concat (map (\<lambda>s. s @ [CHR 0x0A]) ss)) = concat (map (\<lambda>l. l @ [10]) (map str_bytes ss))"
    by (induction ss) (simp_all add: char_byte_def)
  moreover have "split_lines [] (concat (map (\<lambda>l. l @ [10]) (map str_bytes ss))) = map str_bytes ss"
    by (rule split_lines_concat) (use p prints_line in fastforce)
  moreover have "\<forall>s\<in>set ss. utf8_valid (str_bytes s)" using p by (auto simp: prints_def)
  ultimately show ?thesis by (simp add: file_lines_def)
qed

lemma import_json_outcomes:
  assumes "line_outcomes T 0 (file_lines bs) = outcomes" "insert_all D E L c (oks outcomes) st = (rs, st')"
  shows "\<exists>progress. import_json D T E L c (Inr bs) st =
      ((Inr \<lparr>ir_imported = length (oks rs), ir_errors = failures outcomes + failures rs\<rparr>,
        progress @ [OnComplete (length (oks rs)) (failures outcomes + failures rs)]), st') \<and>
    length progress = length outcomes"
proof -
  obtain res progress s where run: "import_loop D T E L c 0 (file_lines bs) \<lparr>ir_imported = 0, ir_errors = 0\<rparr> [] st =
      ((res, progress), s)" by (metis prod.exhaust)
  then have "s = st'" "ir_imported res = length (oks rs)" "ir_errors res = failures outcomes + failures rs"
    "length progress = length outcomes"
    using import_loop_outcomes [where lines = "file_lines bs" and D = D and T = T and E = E and L = L and c = c
        and n = 0 and res = "\<lparr>ir_imported = 0, ir_errors = 0\<rparr>" and progress = "[]" and st = st] assms
    by simp_all
  then show ?thesis by (simp add: import_json_def run)
qed

section \<open>Properties\<close>

text \<open>
  C28: an import accounts for every line: a blank line counts for nothing, every other line gives one
  event and counts either as imported or as an error, the engine at the end is the one in which the
  documents of the well-formed lines were inserted in order, and what the malformed lines hold has
  no effect on it.
\<close>

theorem import_accounts_for_lines:
  "\<exists>rs progress st'. insert_all D E L c (oks (line_outcomes T 0 (file_lines bs))) st = (rs, st') \<and>
     import_json D T E L c (Inr bs) st =
       ((Inr \<lparr>ir_imported = length (oks rs), ir_errors = failures (line_outcomes T 0 (file_lines bs)) + failures rs\<rparr>,
         progress @ [OnComplete (length (oks rs)) (failures (line_outcomes T 0 (file_lines bs)) + failures rs)]), st') \<and>
     length rs = length (oks (line_outcomes T 0 (file_lines bs))) \<and>
     length progress = length (line_outcomes T 0 (file_lines bs))"
proof -
  let ?outcomes = "line_outcomes T 0 (file_lines bs)"
  obtain rs st' where run: "insert_all D E L c (oks ?outcomes) st = (rs, st')" by fastforce
  with length_insert_all [of D E L c "oks ?outcomes" st] have "length rs = length (oks ?outcomes)" by simp
  with run import_json_outcomes [OF refl run] show ?thesis by blast
qed

text \<open>A JSON parser and printer for which every text is one object.\<close>

definition sample_text :: text_api where
  "sample_text = \<lparr>tx_from_str = (\<lambda>s. Inr (VObject [(''a'', VNumber (PosInt 1))])),
     tx_to_string = (\<lambda>v. Inr ''{a:1}''), tx_parse_oid = (\<lambda>s. Inl s), tx_parse_date = (\<lambda>s. Inl s),
     tx_show_date = (\<lambda>t. []), tx_show_decimal = (\<lambda>bs. []), tx_show_subtype = (\<lambda>n. [])\<rparr>"

end
