(* ===== verification/Rango_Import_Trip.thy ===== *)
theory Rango_Import_Trip
  imports Rango_Import Rango_Direct_Storage
begin

text \<open>
  An export followed by an import (\<open>sdk-rust/src/migrate.rs\<close>), for documents as the engine writes them,
  with the date of their last change, and any others. The instance runs on the storage without a codec.
\<close>

section \<open>Properties\<close>

text \<open>
  C25: what an export writes, an import reads: the export writes every document that is found, and
  importing the file inserts one document for each, in the same order and without a line error. It has
  the same names, each with the value that JSON makes of the old one: what JSON has comes back as it
  was, a date or an identifier comes back as its text. A document is left out of the claim when it or one
  inside it has the single name of an extended form, or when the JSON printer and parser do not give its
  object back.
\<close>

theorem export_then_import:
  assumes "find_many D E st c = Inr (map Inr docs)" "\<forall>d\<in>set docs. exportable D T d"
    and "insert_all D E' L c' (map (reread_doc D T) docs) st' = (rs, st'')"
  shows "(\<exists>contents progress. export_json D T E (\<lambda>_. None) c st = Inr (contents, length docs) \<and>
      import_json D T E' L c' (Inr (str_bytes contents)) st' =
        ((Inr \<lparr>ir_imported = length (oks rs), ir_errors = failures rs\<rparr>, progress), st'')) \<and>
    (\<forall>d\<in>set docs. fst ` set (reread_doc D T d) = fst ` set d \<and>
      (al_wf d \<longrightarrow> (\<forall>k b. al_get d k = Some b \<longrightarrow> al_get (reread_doc D T d) k = Some (reread D T b) \<and>
        (json_plain b \<longrightarrow> reread D T b = b))))"
proof -
  obtain ss calls where ex: "export_loop D T (\<lambda>_. None) 1 (map Inr docs) [] 0 =
      Inr (concat (map (\<lambda>s. s @ [CHR 0x0A]) ss), length docs, calls)"
    and all: "list_all2 (\<lambda>d s. \<exists>v. bson_to_json D T (Document d) = Inr v \<and> prints T v s) docs ss"
    using export_loop_ok [OF assms(2), of 1 "[]" 0] by auto
  let ?contents = "concat (map (\<lambda>s. s @ [CHR 0x0A]) ss)"
  have "\<forall>d\<in>set docs. no_extended (Document d)"
    using assms(2) unfolding exportable_def by blast
  then have lines: "line_outcomes T 0 (file_lines (str_bytes ?contents)) = map (\<lambda>d. Inr (reread_doc D T d)) docs"
    using printed_outcomes [OF all] printed_lines [OF all] by simp
  have none: "failures (map (\<lambda>d. Inr (reread_doc D T d)) docs) = 0" for docs by (induction docs) simp_all
  have oks: "oks (map (\<lambda>d. Inr (reread_doc D T d)) docs) = map (reread_doc D T) docs" for docs
    by (induction docs) simp_all
  have "export_json D T E (\<lambda>_. None) c st = Inr (?contents, length docs)"
    using ex assms(1) by (simp add: export_json_def)
  moreover have "\<exists>progress. import_json D T E' L c' (Inr (str_bytes ?contents)) st' =
      ((Inr \<lparr>ir_imported = length (oks rs), ir_errors = failures rs\<rparr>, progress), st'')"
    using import_json_outcomes [OF lines, of D E' L c' st' rs st''] assms(3) by (auto simp: none oks)
  moreover have "fst ` set (reread_doc D T d) = fst ` set d" for d
    by (simp add: reread_doc_def image_image)
  ultimately show ?thesis by (auto simp: al_get_reread_doc reread_plain)
qed

text \<open>
  A document that \<open>insert_one\<close> wrote, with names out of order, exported and imported into an empty
  engine: the fields of the user are those given, the date is a text.
\<close>

definition object_text :: "json_value \<Rightarrow> text_api" where
  "object_text v = sample_text\<lparr>tx_to_string := \<lambda>_. Inr ''{}'', tx_from_str := \<lambda>_. Inr v\<rparr>"

lemma object_text_prints: "prints (object_text v) v ''{}''"
  by (simp add: prints_def object_text_def char_byte_def)

lemma bson_to_json_text: "bson_to_json D (T\<lparr>tx_to_string := f, tx_from_str := g\<rparr>) b = bson_to_json D T b"
  by (induction D T b rule: bson_to_json.induct) (simp_all cong: collect_r_cong split: option.split)

definition unordered_doc :: doc where
  "unordered_doc = [(''name'', String ''x''), (''age'', Int32 3)]"

abbreviation stored_doc :: "string \<Rightarrow> int \<Rightarrow> doc" where
  "stored_doc rv t \<equiv> unordered_doc @ [(''_id'', Binary uuid_subtype [1]), (''_rev'', String rv),
     (''_updated_at'', DateTime t), (''_source_node'', String ''n'')]"

lemma inserted_doc:
  "\<exists>st rv t. insert_one direct_deps (direct_engine direct_deps) null_oplog_vt ''c'' unordered_doc direct_sample =
      (Inr (Binary uuid_subtype [1]), st) \<and>
     find_many direct_deps (direct_engine direct_deps) st ''c'' = Inr [Inr (stored_doc rv t)]"
  by (simp add: direct_steps unordered_doc_def find_many_def find_docs_def get_as_def project_or_same_def)

lemma reread_stored:
  "reread_doc direct_deps (object_text v) (stored_doc rv t) = [(''_id'', String [char_of (1 :: nat)]), (''_rev'', String rv),
     (''_source_node'', String ''n''), (''_updated_at'', String []), (''age'', Int32 3), (''name'', String ''x'')]"
  by (simp add: reread_doc_def object_of_def unordered_doc_def object_text_def sample_text_def direct_deps_def)

lemma string_id_text: "document_id_to_string direct_deps (String s) = s"
  by (simp add: document_id_to_string_def direct_deps_def)

lemma reread_inserted:
  "\<exists>i st. insert_one direct_deps (direct_engine direct_deps) null_oplog_vt ''c''
     (reread_doc direct_deps (object_text v) (stored_doc rv t)) direct_sample = (Inr i, st)"
  unfolding reread_stored by (simp add: direct_steps string_id_text)

theorem export_then_import_witness:
  "\<exists>st T contents d e t i progress st'. insert_one direct_deps (direct_engine direct_deps) null_oplog_vt ''c'' unordered_doc direct_sample =
       (Inr (Binary uuid_subtype [1]), st) \<and>
     find_many direct_deps (direct_engine direct_deps) st ''c'' = Inr [Inr d] \<and> al_get d ''_updated_at'' = Some (DateTime t) \<and>
     export_json direct_deps T (direct_engine direct_deps) (\<lambda>_. None) ''c'' st = Inr (contents, 1) \<and>
     insert_one direct_deps (direct_engine direct_deps) null_oplog_vt ''c'' e direct_sample = (Inr i, st') \<and>
     import_json direct_deps T (direct_engine direct_deps) null_oplog_vt ''c'' (Inr (str_bytes contents)) direct_sample =
       ((Inr \<lparr>ir_imported = 1, ir_errors = 0\<rparr>, progress), st') \<and>
     al_get e ''name'' = Some (String ''x'') \<and> al_get e ''age'' = Some (Int32 3) \<and>
     al_get e ''_updated_at'' = Some (String (tx_show_date T t))"
proof -
  let ?E = "direct_engine direct_deps"
  obtain st rv t where st: "insert_one direct_deps ?E null_oplog_vt ''c'' unordered_doc direct_sample = (Inr (Binary uuid_subtype [1]), st)"
    and rows: "find_many direct_deps ?E st ''c'' = Inr (map Inr [stored_doc rv t])"
    using inserted_doc by auto
  let ?d = "stored_doc rv t"
  let ?T = "object_text (projr (bson_to_json direct_deps sample_text (Document ?d)))"
  have same: "bson_to_json direct_deps ?T (Document ?d) = bson_to_json direct_deps sample_text (Document ?d)"
    unfolding object_text_def by (rule bson_to_json_text)
  have "no_extended (Document ?d)" by (simp add: unordered_doc_def extended_names_def)
  then have ok: "\<forall>d\<in>set [?d]. exportable direct_deps ?T d"
    unfolding exportable_def using exI [where P = "prints ?T _", OF object_text_prints] by (simp only: same list.set ball_simps simp_thms)
  obtain i st' where i: "insert_one direct_deps ?E null_oplog_vt ''c'' (reread_doc direct_deps ?T ?d) direct_sample = (Inr i, st')"
    using reread_inserted by blast
  then have ins: "insert_all direct_deps ?E null_oplog_vt ''c'' (map (reread_doc direct_deps ?T) [?d]) direct_sample = ([Inr i], st')"
    by simp
  have wf: "al_wf ?d" by (simp add: al_wf_def unordered_doc_def)
  have fields: "al_get ?d ''name'' = Some (String ''x'')" "al_get ?d ''age'' = Some (Int32 3)" "al_get ?d ''_updated_at'' = Some (DateTime t)"
    by (simp_all add: unordered_doc_def)
  note trip = export_then_import [OF rows ok ins]
  obtain contents progress where "export_json direct_deps ?T ?E (\<lambda>_. None) ''c'' st = Inr (contents, length [?d])"
    "import_json direct_deps ?T ?E null_oplog_vt ''c'' (Inr (str_bytes contents)) direct_sample =
       ((Inr \<lparr>ir_imported = length (oks [Inr i :: document_id result]), ir_errors = failures [Inr i :: document_id result]\<rparr>, progress), st')"
    using conjunct1 [OF trip] by blast
  moreover have "length (oks [Inr i :: document_id result]) = 1" "failures [Inr i :: document_id result] = 0" "length [?d] = 1"
    by simp_all
  moreover have again: "al_get (reread_doc direct_deps ?T ?d) k = Some (reread direct_deps ?T b)" if "al_get ?d k = Some b" for k b
    using conjunct2 [OF trip] wf that by simp
  have "al_get (reread_doc direct_deps ?T ?d) ''name'' = Some (String ''x'')" "al_get (reread_doc direct_deps ?T ?d) ''age'' = Some (Int32 3)"
    "al_get (reread_doc direct_deps ?T ?d) ''_updated_at'' = Some (String (tx_show_date ?T t))"
    using fields [THEN again] by simp_all
  ultimately show ?thesis
    using st rows [unfolded list.map] i fields(3) by metis
qed

end
