(* ===== verification/Rango_Cli.thy ===== *)
theory Rango_Cli
  imports Rango_Import Rango_Redb_Storage
begin

text \<open>
  The command line tool (\<open>cli/src/main.rs\<close>): a workspace is a directory with a configuration, an
  optional salt, the database and the files of the log, the sync queue and the checkpoint. This
  theory holds the workspace, the loading of its parts, and the commands \<open>init\<close>, \<open>inspect\<close>,
  \<open>import\<close>, \<open>export\<close>, \<open>bench\<close> and \<open>audit\<close>; \<open>doctor\<close> and \<open>sync\<close> have theories of their own. The
  errors of \<open>anyhow\<close> are their texts, a failed assertion is a panic. Parsing of the arguments and the
  progress lines of the commands are left out.
\<close>

section \<open>Errors\<close>

datatype cli_error = Anyhow string | Panicked

type_synonym 'a cli_result = "cli_error + 'a"
type_synonym ('s, 'a) cli_op = "'s \<Rightarrow> 'a cli_result \<times> 's"

text \<open>\<open>?\<close> on an error of the library, and on one of the file system.\<close>

definition anyhow_r :: "'a result \<Rightarrow> 'a cli_result" where
  "anyhow_r r = map_err (\<lambda>e. Anyhow (error_text e)) r"

definition anyhow_op :: "('s, 'a) op \<Rightarrow> ('s, 'a) cli_op" where
  "anyhow_op m s = (case m s of (r, s') \<Rightarrow> (anyhow_r r, s'))"

definition bind_cli :: "('s, 'a) cli_op \<Rightarrow> ('a \<Rightarrow> ('s, 'b) cli_op) \<Rightarrow> ('s, 'b) cli_op" where
  "bind_cli m k s = (case m s of (Inl e, s') \<Rightarrow> (Inl e, s') | (Inr x, s') \<Rightarrow> k x s')"

definition return_cli :: "'a \<Rightarrow> ('s, 'a) cli_op" where
  "return_cli x s = (Inr x, s)"

definition assert_cli :: "bool \<Rightarrow> ('s, unit) cli_op" where
  "assert_cli b s = (if b then Inr () else Inl Panicked, s)"

lemma cli_simps [simp]:
  "anyhow_r (Inl e) = Inl (Anyhow (error_text e))" "anyhow_r (Inr x) = Inr x"
  "bind_cli (return_cli y) k s = k y s" "return_cli z s = (Inr z, s)"
  by (simp_all add: anyhow_r_def bind_cli_def return_cli_def)

lemma bind_assert [simp]: "bind_cli (assert_cli b) k s = (if b then k () s else (Inl Panicked, s))"
  by (simp add: bind_cli_def assert_cli_def)

lemma bind_anyhow: "m s = (Inr x, t) \<Longrightarrow> bind_cli (anyhow_op m) k s = k x t"
  by (simp add: bind_cli_def anyhow_op_def)

lemma bind_cli_Inr: "m s = (Inr x, t) \<Longrightarrow> bind_cli m k s = k x t"
  by (simp add: bind_cli_def)

section \<open>Workspaces\<close>

text \<open>
  What a workspace has on disk; a file that is not there is \<open>None\<close>. The faults of the file-system
  calls and the random bytes are given for each file by its name.
\<close>

record workspace =
  wk_exists :: bool
  wk_path :: string
  wk_config :: "string option"
  wk_salt :: "bytes option"
  wk_oplog :: "bytes option"
  wk_applied :: "bytes option"
  wk_queue :: "bytes option"
  wk_checkpoint :: "bytes option"
  wk_bin_log :: "bytes option"
  wk_bin_applied :: "bytes option"
  wk_faults :: "string \<Rightarrow> nat \<Rightarrow> (string \<times> nat) option"
  wk_random :: "string \<Rightarrow> nat \<Rightarrow> bytes"

text \<open>The libraries the tool is built on.\<close>

record ('db, 't, 'c) cli_api =
  ca_deps :: deps
  ca_redb :: "('db, 't) redb_api"
  ca_entries :: entry_codec
  ca_crypto :: "'c crypto_api"
  ca_text :: text_api

text \<open>\<open>sanitize_path\<close>: the components of a path, made canonical when that succeeds.\<close>

datatype path_component = RootDir | CurDir | ParentDir | Normal string

definition sanitize_path ::
  "(path_component list \<Rightarrow> path_component list option) \<Rightarrow> path_component list \<Rightarrow> path_component list cli_result" where
  "sanitize_path canonicalize path =
     (let path = unwrap_or (canonicalize path) path
      in if ParentDir \<in> set path then Inl (Anyhow ''Path cannot contain parent directory references (..)'')
         else Inr path)"

definition value_get :: "json_value \<Rightarrow> string \<Rightarrow> json_value option" where
  "value_get v k = (case v of VObject m \<Rightarrow> al_get m k | _ \<Rightarrow> None)"

definition value_as_u64 :: "json_value \<Rightarrow> u64 option" where
  "value_as_u64 v = (case v of VNumber (PosInt n) \<Rightarrow> Some n | _ \<Rightarrow> None)"

definition config_field :: "json_value \<Rightarrow> string \<Rightarrow> nat \<Rightarrow> nat" where
  "config_field v k fallback = unwrap_or (map_option unat (Option.bind (value_get v k) value_as_u64)) fallback"

definition load_config :: "('db, 't, 'c) cli_api \<Rightarrow> workspace \<Rightarrow> rango_config" where
  "load_config P w =
     (case wk_config w of
        Some contents \<Rightarrow>
          (case tx_from_str (ca_text P) contents of
             Inr v \<Rightarrow>
               \<lparr>cfg_max_document_size_bytes = config_field v ''max_document_size_bytes'' (16 * 1024 * 1024),
                cfg_memory_budget_bytes = config_field v ''memory_budget_bytes'' (128 * 1024 * 1024)\<rparr>
           | Inl _ \<Rightarrow> default_config)
      | None \<Rightarrow> default_config)"

definition load_crypto :: "('db, 't, 'c) cli_api \<Rightarrow> workspace \<Rightarrow> string option \<Rightarrow> 'c option cli_result" where
  "load_crypto P w passphrase =
     (case wk_salt w of
        Some salt \<Rightarrow>
          (case wk_faults w ''salt'' 1 of
             Some (e, n) \<Rightarrow> Inl (Anyhow e)
           | None \<Rightarrow>
               try_r (ok_or passphrase (Anyhow ''Workspace is encrypted. Passphrase required.'')) (\<lambda>pass.
               Inr (Some (from_passphrase (ca_crypto P) (str_bytes pass) salt))))
      | None \<Rightarrow>
          if passphrase \<noteq> None then Inl (Anyhow ''Passphrase provided but workspace is not encrypted.'')
          else Inr None)"

text \<open>Opening the log creates its file.\<close>

definition open_oplog :: "('db, 't, 'c) cli_api \<Rightarrow> 'c option \<Rightarrow> (workspace, 'c file_oplog) op" where
  "open_oplog P crypto w =
     (case file_oplog_open (ca_deps P) (ca_entries P) (ca_crypto P) crypto (wk_oplog w) (wk_applied w)
          (wk_random w ''oplog.rgo'') (wk_faults w ''oplog.rgo'') of
        (Inr _, s) \<Rightarrow> (Inr s, w\<lparr>wk_oplog := Some (fo_file s)\<rparr>)
      | (Inl e, s) \<Rightarrow> (Inl e, w))"

definition open_persistent_client :: "('db, 't, 'c) cli_api \<Rightarrow> string \<Rightarrow> string option \<Rightarrow> world \<Rightarrow>
    (workspace, ('db, 'c file_oplog) engine) cli_op" where
  "open_persistent_client P node_id passphrase rw w =
     (let config = load_config P w
      in case anyhow_r (redb_open (ca_redb P) (wk_path w @ ''/data.redb'')) of
          Inl e \<Rightarrow> (Inl e, w)
        | Inr storage \<Rightarrow>
            (case load_crypto P w passphrase of
               Inl e \<Rightarrow> (Inl e, w)
             | Inr crypto \<Rightarrow>
                 bind_cli (anyhow_op (open_oplog P crypto)) (\<lambda>log w.
                   (anyhow_r (engine_open_with_config storage log node_id config rw), w)) w))"

text \<open>The operations of the opened client.\<close>

abbreviation cli_storage :: "('db, 't, 'c) cli_api \<Rightarrow> 'db storage_engine" where
  "cli_storage P \<equiv> redb_engine (ca_deps P) (ca_redb P)"

abbreviation cli_log :: "('db, 't, 'c) cli_api \<Rightarrow> 'c file_oplog oplog_vt" where
  "cli_log P \<equiv> file_oplog_vt (ca_deps P) (ca_entries P) (ca_crypto P)"

text \<open>What the log's files hold when the client is dropped.\<close>

definition close_client :: "('db, 'c file_oplog) engine \<Rightarrow> workspace \<Rightarrow> workspace" where
  "close_client st w =
     w\<lparr>wk_oplog := Some (fo_file (en_oplog st)), wk_applied := fo_applied_file (en_oplog st)\<rparr>"

section \<open>Init, inspect, import, export\<close>

text \<open>\<open>fs::write\<close>: a fault may leave a part of the contents.\<close>

definition write_file :: "string \<Rightarrow> ('a list \<Rightarrow> workspace \<Rightarrow> workspace) \<Rightarrow> 'a list \<Rightarrow> (workspace, unit) cli_op" where
  "write_file name place contents w =
     (case wk_faults w name 0 of
        Some (e, n) \<Rightarrow> (Inl (Anyhow e), place (take n contents) w)
      | None \<Rightarrow> (Inr (), place contents w))"

definition create_dir_all :: "(workspace, unit) cli_op" where
  "create_dir_all w =
     (case wk_faults w ''.'' 0 of
        Some (e, n) \<Rightarrow> (Inl (Anyhow e), w)
      | None \<Rightarrow> (Inr (), w\<lparr>wk_exists := True\<rparr>))"

definition config_json :: "rango_config \<Rightarrow> json_value" where
  "config_json config = VObject (object_of
     [(''max_document_size_bytes'', VNumber (PosInt (of_nat (cfg_max_document_size_bytes config)))),
      (''memory_budget_bytes'', VNumber (PosInt (of_nat (cfg_memory_budget_bytes config))))])"

text \<open>
  \<open>init\<close>: the configuration, the database, the log, then the salt with a trial of the cipher. The
  text of the configuration comes from \<open>Display\<close> of the JSON value, which does not fail.
\<close>

definition init_command :: "('db, 't, 'c) cli_api \<Rightarrow> (json_value \<Rightarrow> string) \<Rightarrow> nat option \<Rightarrow> nat option \<Rightarrow>
    string option \<Rightarrow> (workspace, unit) cli_op" where
  "init_command P show_value max_doc_size memory_budget passphrase =
     bind_cli create_dir_all (\<lambda>_.
     let config = \<lparr>cfg_max_document_size_bytes = unwrap_or max_doc_size (16 * 1024 * 1024),
           cfg_memory_budget_bytes = unwrap_or memory_budget (128 * 1024 * 1024)\<rparr>
     in bind_cli (write_file ''rango.json'' (\<lambda>text w. w\<lparr>wk_config := Some text\<rparr>) (show_value (config_json config))) (\<lambda>_.
        bind_cli (\<lambda>w. (anyhow_r (redb_open (ca_redb P) (wk_path w @ ''/data.redb'')), w)) (\<lambda>_.
        bind_cli (anyhow_op (open_oplog P None)) (\<lambda>_ w.
        case passphrase of
          Some pass \<Rightarrow>
            let salt = wk_random w ''salt'' 0
            in bind_cli (write_file ''salt'' (\<lambda>bs w. w\<lparr>wk_salt := Some bs\<rparr>) salt) (\<lambda>_.
               let crypto = from_passphrase (ca_crypto P) (str_bytes pass) salt;
                   test = crypto_encrypt (ca_crypto P) crypto (wk_random w ''nonce'' 0) (str_bytes ''test'')
               in assert_cli (ok_of (crypto_decrypt (ca_crypto P) crypto test) \<noteq> None)) w
        | None \<Rightarrow> (Inr (), w)))))"

definition inspect_command :: "('db, 't, 'c) cli_api \<Rightarrow> world \<Rightarrow> (workspace, rango_config) cli_op" where
  "inspect_command P rw w =
     (if \<not> wk_exists w then (Inl (Anyhow (''Workspace not found at '' @ wk_path w)), w)
      else let config = load_config P w
        in bind_cli (open_persistent_client P ''cli-node'' None rw) (\<lambda>_. return_cli config) w)"

text \<open>\<open>import\<close> with the file to read, or why it cannot be opened, and \<open>export\<close> with the text it writes.\<close>

definition import_command :: "('db, 't, 'c) cli_api \<Rightarrow> collection_name \<Rightarrow> string \<Rightarrow> (string + bytes) option \<Rightarrow>
    string option \<Rightarrow> world \<Rightarrow> (workspace, import_result \<times> ('db, 'c file_oplog) engine) cli_op" where
  "import_command P collection file_name file_found passphrase rw w =
     (case file_found of
        None \<Rightarrow> (Inl (Anyhow (''Import file not found: '' @ file_name)), w)
      | Some opened \<Rightarrow>
          bind_cli (open_persistent_client P ''cli-node'' passphrase rw) (\<lambda>client w.
            case import_json (ca_deps P) (ca_text P) (cli_storage P) (cli_log P) collection opened client of
              ((res, progress), st) \<Rightarrow>
                (try_r (anyhow_r res) (\<lambda>result. Inr (result, st)), close_client st w)) w)"

definition export_command :: "('db, 't, 'c) cli_api \<Rightarrow> collection_name \<Rightarrow> (nat \<Rightarrow> string option) \<Rightarrow>
    string option \<Rightarrow> world \<Rightarrow> (workspace, string \<times> nat) cli_op" where
  "export_command P collection faults passphrase rw =
     bind_cli (open_persistent_client P ''cli-node'' passphrase rw) (\<lambda>client w.
       (anyhow_r (export_json (ca_deps P) (ca_text P) (cli_storage P) faults collection client), close_client client w))"

section \<open>Benchmarks\<close>

text \<open>
  \<open>bench\<close> on a workspace of its own: the inserts, the look-ups of the first thousand documents found,
  and a query; of what it prints, the two counts, not the times. A document without identifier is a panic.
\<close>

definition bench_collection :: collection_name where
  "bench_collection = ''bench''"

definition bench_document :: "nat \<Rightarrow> doc" where
  "bench_document i = [(''index'', Int64 (of_nat i)), (''name'', String (''user-'' @ show_nat i))]"

fun bench_inserts :: "deps \<Rightarrow> 's storage_engine \<Rightarrow> 'o oplog_vt \<Rightarrow> nat list \<Rightarrow> (('s, 'o) engine, unit) cli_op" where
  "bench_inserts D E L [] = return_cli ()"
| "bench_inserts D E L (i # ns) =
     bind_cli (anyhow_op (insert_one D E L bench_collection (bench_document i))) (\<lambda>_. bench_inserts D E L ns)"

fun bench_finds :: "'s storage_engine \<Rightarrow> document_id list \<Rightarrow> (('s, 'o) engine, unit) cli_op" where
  "bench_finds E [] = return_cli ()"
| "bench_finds E (i # ids) = bind_cli (anyhow_op (find_one E bench_collection i)) (\<lambda>_. bench_finds E ids)"

definition bench_queries :: "deps \<Rightarrow> 's storage_engine \<Rightarrow> nat \<Rightarrow> (('s, 'o) engine, nat \<times> nat) cli_op" where
  "bench_queries D E n_docs st =
     (case anyhow_r (find_many D E st bench_collection) of
        Inl e \<Rightarrow> (Inl e, st)
      | Inr rows \<Rightarrow>
          (case those (map (\<lambda>d. al_get d ''_id'') (take 1000 (oks rows))) of
             None \<Rightarrow> (Inl Panicked, st)
           | Some ids \<Rightarrow>
               bind_cli (bench_finds E (map document_id_from_bson ids)) (\<lambda>_ st.
                 (try_r (anyhow_r (find_docs D E st bench_collection
                      [(''index'', Document [(''$gte'', Int64 (of_nat (n_docs div 2)))])] None None None None))
                    (\<lambda>cursor. Inr (length ids, length (oks cursor))), st)) st))"

definition run_benchmarks :: "('db, 't, 'c) cli_api \<Rightarrow> nat \<Rightarrow> world \<Rightarrow> (workspace, nat \<times> nat) cli_op" where
  "run_benchmarks P n_docs rw =
     bind_cli create_dir_all (\<lambda>_.
     bind_cli (\<lambda>w. (anyhow_r (redb_open (ca_redb P) (wk_path w @ ''/data.redb'')), w)) (\<lambda>storage.
     bind_cli (anyhow_op (open_oplog P None)) (\<lambda>log w.
     case anyhow_r (engine_open storage log ''bench-node'' rw) of
       Inl e \<Rightarrow> (Inl e, w)
     | Inr client \<Rightarrow>
         (case bind_cli (bench_inserts (ca_deps P) (cli_storage P) (cli_log P) [0..<n_docs])
                (\<lambda>_. bench_queries (ca_deps P) (cli_storage P) n_docs) client of
            (r, st) \<Rightarrow> (r, close_client st w)))))"

section \<open>Audit\<close>

datatype audit_format = AuditText | AuditJson | AuditCsv

text \<open>The texts the standard library and the JSON printer derive.\<close>

record audit_api =
  au_debug_time :: "millis \<Rightarrow> string"
  au_show_time :: "millis \<Rightarrow> string"
  au_to_value :: "doc \<Rightarrow> string + json_value"
  au_pretty :: "json_value \<Rightarrow> string + string"

fun debug_op :: "mutation_op \<Rightarrow> string" where
  "debug_op Insert = ''Insert''"
| "debug_op Update = ''Update''"
| "debug_op Delete = ''Delete''"

definition without_commas :: "string \<Rightarrow> string" where
  "without_commas s = map (\<lambda>c. if c = CHR '','' then CHR '';'' else c) s"

definition audit_entries :: "string option \<Rightarrow> string option \<Rightarrow> oplog_entry list \<Rightarrow> oplog_entry list" where
  "audit_entries tenant_id namespace entries =
     filter (\<lambda>e. case namespace of
         Some ns \<Rightarrow> md_namespace (mut_metadata (entry_mutation e)) = ns
       | None \<Rightarrow> True)
     (filter (\<lambda>e. case tenant_id of
         Some t \<Rightarrow> md_tenant_id (mut_metadata (entry_mutation e)) = t
       | None \<Rightarrow> True)
     (filter (\<lambda>e. mut_collection (entry_mutation e) = ''__governance_audit'') entries))"

definition audit_text_line :: "audit_api \<Rightarrow> oplog_entry \<Rightarrow> string" where
  "audit_text_line U e =
     (let m = entry_mutation e
      in ''  ['' @ au_debug_time U (entry_timestamp e) @ ''] '' @ mut_collection m @ '' '' @
         utf8_text [0xE2, 0x80, 0x94] @ '' '' @ debug_op (mut_op m) @ '' | tenant='' @ md_tenant_id (mut_metadata m) @
         '', ns='' @ md_namespace (mut_metadata m) @ '' | write_id='' @ mut_write_id m)"

definition audit_value :: "audit_api \<Rightarrow> oplog_entry \<Rightarrow> json_value" where
  "audit_value U e =
     (let m = entry_mutation e; text = (\<lambda>s. VString s)
      in VObject (object_of (
           [(''seq'', VNumber (PosInt (entry_seq e))),
            (''timestamp'', text (au_show_time U (entry_timestamp e))),
            (''collection'', text (mut_collection m)), (''op'', text (debug_op (mut_op m))),
            (''tenant_id'', text (md_tenant_id (mut_metadata m))),
            (''namespace'', text (md_namespace (mut_metadata m))), (''write_id'', text (mut_write_id m))] @
           (case Option.bind (mut_patch m) (\<lambda>patch. ok_of (au_to_value U patch)) of
              Some v \<Rightarrow> [(''patch'', v)]
            | None \<Rightarrow> []))))"

definition audit_csv_line :: "audit_api \<Rightarrow> oplog_entry \<Rightarrow> string" where
  "audit_csv_line U e =
     (let m = entry_mutation e
      in show_nat (unat (entry_seq e)) @ '','' @ au_debug_time U (entry_timestamp e) @ '','' @
         without_commas (mut_collection m) @ '','' @ without_commas (debug_op (mut_op m)) @ '','' @
         without_commas (md_tenant_id (mut_metadata m)) @ '','' @
         without_commas (md_namespace (mut_metadata m)) @ '','' @ without_commas (mut_write_id m))"

text \<open>The lines the report prints between its banners. The log it reads is \<open>oplog.bin\<close>.\<close>

definition run_audit :: "('db, 't, 'c) cli_api \<Rightarrow> audit_api \<Rightarrow> audit_format \<Rightarrow> string option \<Rightarrow> string option \<Rightarrow>
    nat \<Rightarrow> workspace \<Rightarrow> string list cli_result" where
  "run_audit P U format tenant_id namespace limit w =
     (if wk_bin_log w = None then Inr [''No audit trail found (oplog does not exist).'']
      else case file_oplog_open (ca_deps P) (ca_entries P) (ca_crypto P) None (wk_bin_log w) (wk_bin_applied w)
            (wk_random w ''oplog.bin'') (wk_faults w ''oplog.bin'') of
          (Inl e, _) \<Rightarrow> Inl (Anyhow (error_text e))
        | (Inr _, opened) \<Rightarrow>
            try_r (anyhow_r (file_read_since (ca_deps P) (ca_entries P) (ca_crypto P) opened 1 limit)) (\<lambda>entries.
            let found = audit_entries tenant_id namespace entries
            in if found = [] then Inr [''No governance audit entries found.'']
               else case format of
                   AuditText \<Rightarrow> Inr ((''Found '' @ show_nat (length found) @ '' audit entries:'') #
                       map (audit_text_line U) found)
                 | AuditJson \<Rightarrow>
                     (case au_pretty U (VArray (map (audit_value U) found)) of
                        Inl e \<Rightarrow> Inl (Anyhow e)
                      | Inr out \<Rightarrow> Inr [out])
                 | AuditCsv \<Rightarrow> Inr (''seq,timestamp,collection,op,tenant_id,namespace,write_id'' #
                       map (audit_csv_line U) found)))"

section \<open>What init leaves\<close>

definition config_fits :: "rango_config \<Rightarrow> bool" where
  "config_fits c \<longleftrightarrow> cfg_max_document_size_bytes c < 2 ^ 64 \<and> cfg_memory_budget_bytes c < 2 ^ 64"

lemma config_round_trip:
  assumes "config_fits c" "wk_config w = Some text" "tx_from_str (ca_text P) text = Inr (config_json c)"
  shows "load_config P w = c"
proof -
  have "unat (of_nat n :: u64) = n" if "n < 2 ^ 64" for n using that by (simp add: unat_of_nat)
  moreover have "config_json c = VObject [(''max_document_size_bytes'', VNumber (PosInt (of_nat (cfg_max_document_size_bytes c)))),
      (''memory_budget_bytes'', VNumber (PosInt (of_nat (cfg_memory_budget_bytes c))))]"
    unfolding config_json_def by (subst object_of_sorted) simp_all
  ultimately show ?thesis
    using assms by (cases c) (simp add: load_config_def config_field_def value_get_def value_as_u64_def config_fits_def)
qed

text \<open>A command that keeps what \<open>f\<close> reads of the workspace.\<close>

lemma open_oplog_frame:
  "open_oplog P crypto w = (r, w') \<Longrightarrow> wk_config w' = wk_config w \<and> wk_exists w' = wk_exists w \<and>
     wk_salt w' = wk_salt w \<and> wk_random w' = wk_random w \<and> wk_faults w' = wk_faults w \<and> wk_path w' = wk_path w"
  by (auto simp: open_oplog_def split: prod.splits sum.splits)

lemma init_steps:
  assumes "init_command P show_value m b pass w = (Inr (), w')"
  defines "c \<equiv> \<lparr>cfg_max_document_size_bytes = unwrap_or m (16 * 1024 * 1024),
      cfg_memory_budget_bytes = unwrap_or b (128 * 1024 * 1024)\<rparr>"
  shows "wk_exists w' \<and> wk_config w' = Some (show_value (config_json c)) \<and> wk_random w' = wk_random w \<and>
    wk_faults w' = wk_faults w \<and>
    wk_salt w' = (case pass of None \<Rightarrow> wk_salt w | Some p \<Rightarrow> Some (wk_random w ''salt'' 0))"
proof -
  let ?w1 = "w\<lparr>wk_exists := True\<rparr>" let ?w2 = "?w1\<lparr>wk_config := Some (show_value (config_json c))\<rparr>"
  obtain log w3 where opened: "open_oplog P None ?w2 = (Inr log, w3)"
    and rest: "(case pass of
          Some p \<Rightarrow> bind_cli (write_file ''salt'' (\<lambda>bs w. w\<lparr>wk_salt := Some bs\<rparr>) (wk_random w3 ''salt'' 0)) (\<lambda>_.
            assert_cli (ok_of (crypto_decrypt (ca_crypto P) (from_passphrase (ca_crypto P) (str_bytes p) (wk_random w3 ''salt'' 0))
              (crypto_encrypt (ca_crypto P) (from_passphrase (ca_crypto P) (str_bytes p) (wk_random w3 ''salt'' 0))
                (wk_random w3 ''nonce'' 0) (str_bytes ''test''))) \<noteq> None)) w3
        | None \<Rightarrow> (Inr (), w3)) = (Inr (), w')"
    using assms(1)
    by (auto simp: init_command_def bind_cli_def create_dir_all_def write_file_def anyhow_op_def anyhow_r_def c_def
        Let_def split: option.splits prod.splits sum.splits)
  from rest open_oplog_frame [OF opened] show ?thesis
    by (auto simp: bind_cli_def write_file_def assert_cli_def split: option.splits if_splits)
qed

section \<open>Properties\<close>

text \<open>
  What \<open>init\<close> sets up, the other commands find: after a successful initialisation the configuration
  read back is the one asked for; with a passphrase the workspace refuses to open without one and
  derives the key of that passphrase and the stored salt, without one it keeps the salt it had.
\<close>

theorem init_then_open:
  assumes "init_command P show_value m b pass w = (Inr (), w')"
    and "c = \<lparr>cfg_max_document_size_bytes = unwrap_or m (16 * 1024 * 1024),
      cfg_memory_budget_bytes = unwrap_or b (128 * 1024 * 1024)\<rparr>" "config_fits c"
    and "tx_from_str (ca_text P) (show_value (config_json c)) = Inr (config_json c)"
    and "wk_faults w ''salt'' 1 = None"
  shows "load_config P w' = c \<and> wk_exists w' \<and>
    (case pass of
       None \<Rightarrow> wk_salt w' = wk_salt w
     | Some p \<Rightarrow> load_crypto P w' None = Inl (Anyhow ''Workspace is encrypted. Passphrase required.'') \<and>
         load_crypto P w' (Some p) =
           Inr (Some (from_passphrase (ca_crypto P) (str_bytes p) (wk_random w ''salt'' 0))))"
  using init_steps [OF assms(1)] config_round_trip [OF assms(3) _ assms(4), of w'] assms(2,5)
  by (auto simp: load_crypto_def split: option.splits)

definition fresh_workspace :: workspace where
  "fresh_workspace = \<lparr>wk_exists = False, wk_path = ''w'', wk_config = None, wk_salt = None, wk_oplog = None,
     wk_applied = None, wk_queue = None, wk_checkpoint = None, wk_bin_log = None,
     wk_bin_applied = None, wk_faults = (\<lambda>f n. None), wk_random = (\<lambda>f n. replicate 12 0)\<rparr>"

definition sample_api :: "((bytes \<times> bytes) list, (bytes \<times> bytes) list, unit) cli_api" where
  "sample_api = \<lparr>ca_deps = sample_deps [], ca_redb = table_redb, ca_entries = table_entry_codec [],
     ca_crypto = tag_cipher, ca_text = sample_text\<lparr>tx_from_str := \<lambda>s. Inr (config_json default_config)\<rparr>\<rparr>"

theorem init_then_open_witness:
  "\<exists>w. init_command sample_api (\<lambda>v. ''{}'') None None (Some ''p'') fresh_workspace = (Inr (), w) \<and>
     load_config sample_api w = default_config \<and> load_crypto sample_api w (Some ''p'') = Inr (Some ()) \<and>
     load_crypto sample_api w None = Inl (Anyhow ''Workspace is encrypted. Passphrase required.'')"
proof -
  have "ok_of (crypto_decrypt tag_cipher () (crypto_encrypt tag_cipher () (replicate 12 0) bs)) \<noteq> None" for bs
    using crypto_round_trip [OF tag_cipher_ok, of "replicate 12 0"] by simp
  then have "\<exists>w. init_command sample_api (\<lambda>v. ''{}'') None None (Some ''p'') fresh_workspace = (Inr (), w)"
    by (simp add: init_command_def bind_cli_def create_dir_all_def write_file_def anyhow_op_def assert_cli_def
        open_oplog_def file_oplog_open_def fs_call_def read_latest_seq_def read_applied_def Let_def bind_op_def
        get_op_def lift_op_def modify_op_def fresh_workspace_def sample_api_def redb_open_def table_redb_def)
  then obtain w where run: "init_command sample_api (\<lambda>v. ''{}'') None None (Some ''p'') fresh_workspace = (Inr (), w)"
    by blast
  have "config_fits default_config" by (simp add: config_fits_def default_config_def)
  with init_then_open [OF run _, of default_config] show ?thesis
    using run by (auto simp: default_config_def sample_api_def fresh_workspace_def)
qed

end
