(* ===== verification/Rango_Engine_Views.thy ===== *)
theory Rango_Engine_Views
  imports Rango_Engine_Local
begin

text \<open>
  What the clients of the engine rely on: the result of \<open>find_one\<close> as a function of the storage, and
  the document that a successful insert leaves.
\<close>

lemma find_one_steps:
  "find_one E c i st = (r, st') \<Longrightarrow>
     r = try_r (se_get E (en_storage st) c i) (\<lambda>m. Inr (case m of
       Some d \<Rightarrow> if is_deleted d then None else Some \<lparr>doc_data = d\<rparr> | None \<Rightarrow> None)) \<and>
     en_storage st' = en_storage st \<and> en_oplog st' = en_oplog st \<and> en_node_id st' = en_node_id st"
  using find_one_result [of E c i st]
  by (auto simp: find_one_def bind_op_def record_op_def storage_get_def return_op_def split: sum.splits)

text \<open>What a local insert leaves in a document.\<close>

definition engine_stamped :: "doc \<Rightarrow> doc \<Rightarrow> bool" where
  "engine_stamped d0 d \<longleftrightarrow> \<not> is_deleted d \<and> (\<forall>k. k \<notin> reserved \<longrightarrow> al_get d k = al_get d0 k) \<and>
     al_get d ''_rev'' \<noteq> None \<and> al_get d ''_updated_at'' \<noteq> None \<and> al_get d ''_source_node'' \<noteq> None"

context storage_laws
begin

lemma insert_puts:
  assumes "al_wf d0" "insert_one D E L c d0 st = (Inr i, st')"
  shows "\<exists>d. engine_stamped d0 d \<and> se_put E (en_storage st) c i d = (Inr (), en_storage st')"
proof -
  obtain r t n e d where d: "d = al_del (stamped (al_put d0 ''_id'' i) r t (en_node_id st)) ''_deleted''"
    and put: "se_put E (en_storage st) c i d = (Inr (), en_storage st')"
    using insert_one_ok [OF assms(2)] by blast
  have get: "al_get d k = (if k = ''_deleted'' then None
      else al_get (stamped (al_put d0 ''_id'' i) r t (en_node_id st)) k)" for k
    unfolding d using assms(1) by (simp add: al_get_del al_wf_put)
  have "engine_stamped d0 d" by (auto simp: engine_stamped_def is_deleted_iff get stamped_get reserved_def)
  with put show ?thesis by blast
qed

end

end
