(* ===== verification/Rango_Doctor.thy ===== *)
theory Rango_Doctor
  imports Rango_Cli Rango_Direct_Storage Rango_Engine_Views
begin

text \<open>
  The diagnostics of the command line tool (\<open>run_doctor\<close> and \<open>check_canonical_envelope_metadata\<close> of
  \<open>cli/src/main.rs\<close>): the trial of the engine's operations on a live workspace, the check of the
  stored documents' fields, and the look into the log, the queue and the checkpoint. What is printed
  is left out, except for the counts of the queue.
\<close>

section \<open>The report\<close>

record doctor_report =
  dr_errors :: "string list"
  dr_warnings :: "string list"

definition report_new :: doctor_report where
  "report_new = \<lparr>dr_errors = [], dr_warnings = []\<rparr>"

definition add_error :: "string \<Rightarrow> doctor_report \<Rightarrow> doctor_report" where
  "add_error msg r = r\<lparr>dr_errors := dr_errors r @ [msg]\<rparr>"

definition add_warning :: "string \<Rightarrow> doctor_report \<Rightarrow> doctor_report" where
  "add_warning msg r = r\<lparr>dr_warnings := dr_warnings r @ [msg]\<rparr>"

definition has_errors :: "doctor_report \<Rightarrow> bool" where
  "has_errors r \<longleftrightarrow> dr_errors r \<noteq> []"

section \<open>The trial of the engine\<close>

definition doctor_collection :: collection_name where
  "doctor_collection = ''__doctor_test''"

definition operations_check :: "deps \<Rightarrow> 's storage_engine \<Rightarrow> 'o oplog_vt \<Rightarrow> (('s, 'o) engine, unit) cli_op" where
  "operations_check D E L =
     bind_cli (anyhow_op (insert_one D E L doctor_collection [(''test'', Boolean True)])) (\<lambda>i.
     bind_cli (anyhow_op (find_one E doctor_collection i)) (\<lambda>found.
     bind_cli (assert_cli (found \<noteq> None)) (\<lambda>_.
     bind_cli (anyhow_op (update_one D E L doctor_collection i
         [(''$set'', Document [(''test'', Boolean False)])])) (\<lambda>updated.
     bind_cli (assert_cli updated) (\<lambda>_.
     bind_cli (anyhow_op (delete_one D E L doctor_collection i)) (\<lambda>deleted.
     assert_cli deleted))))))"

definition field_warning :: "string \<Rightarrow> doc \<Rightarrow> doctor_report \<Rightarrow> doctor_report" where
  "field_warning k d r = (if al_get d k = None then add_warning (k @ '' field missing'') r else r)"

definition metadata_check :: "deps \<Rightarrow> 's storage_engine \<Rightarrow> 'o oplog_vt \<Rightarrow> doctor_report \<Rightarrow>
    (('s, 'o) engine, doctor_report) cli_op" where
  "metadata_check D E L r =
     bind_cli (anyhow_op (insert_one D E L doctor_collection [(''name'', String ''doctor'')])) (\<lambda>i.
     bind_cli (anyhow_op (find_one E doctor_collection i)) (\<lambda>found.
     case found of
       None \<Rightarrow> (\<lambda>st. (Inl Panicked, st))
     | Some d \<Rightarrow>
         let r = field_warning ''_source_node'' (doc_data d)
               (field_warning ''_updated_at'' (doc_data d) (field_warning ''_rev'' (doc_data d) r))
         in (\<lambda>st. (Inr r, snd (delete_one D E L doctor_collection i st)))))"

section \<open>The upgrade check\<close>

definition sample_collections :: "collection_name list" where
  "sample_collections = [''documents'', ''records'', ''data'', ''items'']"

definition canonical_fields :: "string list" where
  "canonical_fields = [''tenant_id'', ''namespace'', ''lineage'', ''trust_score'', ''verified'', ''expires_at'',
     ''_rev'', ''_updated_at'', ''_source_node'']"

definition incompatible_text :: "string \<Rightarrow> collection_name \<Rightarrow> string \<Rightarrow> string" where
  "incompatible_text record_id c field =
     ''workspace incompatible: record '' @ record_id @ '' in collection '' @ c @
     '' missing canonical metadata field `'' @ field @ ''` (legacy v0.0 shape; run upgrade '' @
     utf8_text [0xE2, 0x80, 0x94] @ '' see docs/operations/migration-v0.0-to-v0.1.md)''"

fun check_fields :: "string \<Rightarrow> collection_name \<Rightarrow> doc \<Rightarrow> string list \<Rightarrow> doctor_report \<Rightarrow> doctor_report" where
  "check_fields record_id c d [] r = r"
| "check_fields record_id c d (field # names) r = check_fields record_id c d names
     (if al_get d field = None then add_error (incompatible_text record_id c field) r else r)"

fun check_records :: "deps \<Rightarrow> collection_name \<Rightarrow> doc list \<Rightarrow> nat \<Rightarrow> doctor_report \<Rightarrow> doctor_report" where
  "check_records D c [] seen r = r"
| "check_records D c (d # ds) seen r =
     (let record_id = unwrap_or (map_option (bson_display D) (doc_id_of \<lparr>doc_data = d\<rparr>)) ''(unknown)'';
          r = check_fields record_id c d canonical_fields r
      in if 20 \<le> seen + 1 then r else check_records D c ds (seen + 1) r)"

text \<open>The collections in order, until one has a record among its first twenty.\<close>

fun check_collections :: "deps \<Rightarrow> 's storage_engine \<Rightarrow> ('s, 'o) engine \<Rightarrow> collection_name list \<Rightarrow>
    doctor_report \<Rightarrow> doctor_report" where
  "check_collections D E st [] r = r"
| "check_collections D E st (c # cs) r =
     (case find_many D E st c of
        Inl _ \<Rightarrow> check_collections D E st cs r
      | Inr cursor \<Rightarrow>
          let records = oks (take 20 cursor); r = check_records D c records 0 r
          in if records \<noteq> [] then r else check_collections D E st cs r)"

definition check_canonical_envelope_metadata ::
  "deps \<Rightarrow> 's storage_engine \<Rightarrow> ('s, 'o) engine \<Rightarrow> doctor_report \<Rightarrow> doctor_report" where
  "check_canonical_envelope_metadata D E st r = check_collections D E st sample_collections r"

section \<open>The files\<close>

record queue_counts =
  qc_pending :: nat
  qc_inflight :: nat
  qc_failed :: nat

definition count_state :: "queue_state \<Rightarrow> sync_queue_entry list \<Rightarrow> nat" where
  "count_state x batch = length (filter (\<lambda>e. q_state e = x) batch)"

definition check_oplog :: "('db, 't, 'c) cli_api \<Rightarrow> 'c option \<Rightarrow> workspace \<Rightarrow> doctor_report \<Rightarrow> doctor_report" where
  "check_oplog P crypto w r =
     (if wk_oplog w = None then r
      else case open_oplog P crypto w of
          (Inr opened, _) \<Rightarrow> r
        | (Inl e, _) \<Rightarrow> add_warning (''oplog exists but cannot open: '' @ error_text e) r)"

definition check_queue :: "('db, 't, 'c) cli_api \<Rightarrow> queue_codec \<Rightarrow> 'c option \<Rightarrow> workspace \<Rightarrow> doctor_report \<Rightarrow>
    (doctor_report \<times> queue_counts option) \<times> workspace" where
  "check_queue P K crypto w r =
     (if wk_queue w = None then ((r, None), w)
      else case file_queue_open (ca_deps P) K (ca_crypto P) crypto (wk_queue w)
            (wk_random w ''sync-queue.rgo'') (wk_faults w ''sync-queue.rgo'') of
          Inr q \<Rightarrow>
            (case file_next_batch (ca_deps P) K (ca_crypto P) 1000 q of (result, q) \<Rightarrow>
               let batch = (case result of Inr batch \<Rightarrow> batch | Inl _ \<Rightarrow> [])
               in ((r, Some \<lparr>qc_pending = count_state Pending batch, qc_inflight = count_state Inflight batch,
                     qc_failed = count_state Failed batch\<rparr>), w\<lparr>wk_queue := dv_file q\<rparr>))
        | Inl e \<Rightarrow> ((add_warning (''sync queue exists but cannot open: '' @ error_text e) r, None), w))"

definition check_checkpoint :: "('db, 't, 'c) cli_api \<Rightarrow> json_api \<Rightarrow> 'c option \<Rightarrow> workspace \<Rightarrow> doctor_report \<Rightarrow>
    doctor_report" where
  "check_checkpoint P J crypto w r =
     (if wk_checkpoint w = None then r
      else case file_checkpoint_get J (ca_crypto P) (file_checkpoint_new crypto (wk_checkpoint w)
            (wk_random w ''checkpoint.json'') (wk_faults w ''checkpoint.json'')) of
          Inr c \<Rightarrow> r
        | Inl e \<Rightarrow> add_warning (''checkpoint exists but cannot read: '' @ error_text e) r)"

section \<open>The command\<close>

text \<open>The part that runs on an opened engine.\<close>

definition engine_checks :: "deps \<Rightarrow> 's storage_engine \<Rightarrow> 'o oplog_vt \<Rightarrow> doctor_report \<Rightarrow>
    (('s, 'o) engine, doctor_report) cli_op" where
  "engine_checks D E L r =
     bind_cli (operations_check D E L) (\<lambda>_.
     bind_cli (metadata_check D E L r) (\<lambda>r st.
     (Inr (check_canonical_envelope_metadata D E st r), st)))"

text \<open>The part on the files, and the verdict.\<close>

definition doctor_verdict :: "('db, 't, 'c) cli_api \<Rightarrow> queue_codec \<Rightarrow> json_api \<Rightarrow> 'c option \<Rightarrow> doctor_report \<Rightarrow>
    (workspace, doctor_report \<times> queue_counts option) cli_op" where
  "doctor_verdict P K J crypto r w =
     (case check_queue P K crypto w (check_oplog P crypto w r) of ((r, counts), w) \<Rightarrow>
      let r = check_checkpoint P J crypto w r
      in if has_errors r then
           (Inl (Anyhow (''rango doctor: '' @ show_nat (length (dr_errors r)) @ '' workspace incompatibility issues'')), w)
         else (Inr (r, counts), w))"

definition run_doctor :: "('db, 't, 'c) cli_api \<Rightarrow> queue_codec \<Rightarrow> json_api \<Rightarrow> string option \<Rightarrow> world \<Rightarrow>
    (workspace, doctor_report \<times> queue_counts option) cli_op" where
  "run_doctor P K J passphrase rw w =
     (let r = (if wk_exists w then report_new
               else add_warning (''workspace directory not found: '' @ wk_path w) report_new)
      in case load_crypto P w passphrase of
          Inl e \<Rightarrow> (Inl e, w)
        | Inr crypto \<Rightarrow>
            (case open_persistent_client P ''doctor-node'' passphrase rw w of
               (Inl (Anyhow e), w) \<Rightarrow> doctor_verdict P K J crypto (add_error (''failed to open engine: '' @ e) r) w
             | (Inl Panicked, w) \<Rightarrow> (Inl Panicked, w)
             | (Inr client, w) \<Rightarrow>
                 (case engine_checks (ca_deps P) (cli_storage P) (cli_log P) r client of
                    (Inl e, st) \<Rightarrow> (Inl e, close_client st w)
                  | (Inr r, st) \<Rightarrow> doctor_verdict P K J crypto r (close_client st w))))"

section \<open>Commands that do not panic\<close>

text \<open>
  From a state with \<open>P\<close> the command does not panic, and when it succeeds its value and state satisfy
  \<open>Q\<close>; the rules follow the sequencing of the command.
\<close>

definition calm :: "('s \<Rightarrow> bool) \<Rightarrow> ('s, 'a) cli_op \<Rightarrow> ('a \<Rightarrow> 's \<Rightarrow> bool) \<Rightarrow> bool" where
  "calm P m Q \<longleftrightarrow> (\<forall>s r s'. P s \<longrightarrow> m s = (r, s') \<longrightarrow> r \<noteq> Inl Panicked \<and> (\<forall>x. r = Inr x \<longrightarrow> Q x s'))"

lemma calmD: "calm P m Q \<Longrightarrow> P s \<Longrightarrow> m s = (r, s') \<Longrightarrow> r \<noteq> Inl Panicked \<and> (\<forall>x. r = Inr x \<longrightarrow> Q x s')"
  by (simp add: calm_def)

lemma calm_bind: "calm P m Q \<Longrightarrow> (\<And>x. calm (Q x) (k x) R) \<Longrightarrow> calm P (bind_cli m k) R"
  unfolding calm_def bind_cli_def by (fastforce split: prod.splits sum.splits)

lemma calm_anyhow: "(\<And>s x s'. P s \<Longrightarrow> m s = (Inr x, s') \<Longrightarrow> Q x s') \<Longrightarrow> calm P (anyhow_op m) Q"
  unfolding calm_def anyhow_op_def anyhow_r_def map_err_def by (auto split: prod.splits sum.splits)

lemma calm_assert: "(\<And>s. P s \<Longrightarrow> b) \<Longrightarrow> calm P (assert_cli b) (\<lambda>_. P)"
  unfolding calm_def assert_cli_def by auto

definition stores :: "'s storage_engine \<Rightarrow> ('s \<Rightarrow> bool) \<Rightarrow> collection_name \<Rightarrow> document_id \<Rightarrow> (doc \<Rightarrow> bool) \<Rightarrow>
    ('s, 'o) engine \<Rightarrow> bool" where
  "stores E ok c i Q st \<longleftrightarrow> ok (en_storage st) \<and> (\<exists>d. se_get E (en_storage st) c i = Inr (Some d) \<and> Q d)"

lemma find_stored:
  "find_one E c i st = (Inr found, st') \<Longrightarrow> stores E ok c i Q st \<Longrightarrow> (\<And>d. Q d \<Longrightarrow> \<not> is_deleted d) \<Longrightarrow>
     (\<exists>d. found = Some \<lparr>doc_data = d\<rparr> \<and> Q d) \<and> stores E ok c i Q st'"
  by (auto simp: stores_def dest!: find_one_steps)

context storage_laws
begin

lemma inserted_is_stored:
  assumes "inv (en_storage st)" "name_ok c" "al_wf d0" "insert_one D E L c d0 st = (Inr i, st')"
  shows "stores E inv c i (engine_stamped d0) st'"
proof -
  obtain d where d: "engine_stamped d0 d" and put: "se_put E (en_storage st) c i d = (Inr (), en_storage st')"
    using insert_puts [OF assms(3,4)] by blast
  with put_inv [OF assms(1,2) put] put_get [OF assms(1,2,2) put] show ?thesis by (auto simp: stores_def)
qed

lemma operations_check_calm:
  assumes "name_ok doctor_collection"
  shows "calm (\<lambda>st. inv (en_storage st)) (operations_check D E L) (\<lambda>_ st. inv (en_storage st))"
  unfolding operations_check_def
proof (intro calm_bind)
  let ?c = doctor_collection and ?d0 = "[(''test'', Boolean True)]"
  let ?live = "\<lambda>i. stores E inv ?c i (engine_stamped ?d0)"
  show "calm (\<lambda>st. inv (en_storage st)) (anyhow_op (insert_one D E L ?c ?d0)) ?live"
    by (rule calm_anyhow, rule inserted_is_stored [OF _ assms]) (auto simp: al_wf_def)
  show "calm (?live i) (anyhow_op (find_one E ?c i)) (\<lambda>found st. found \<noteq> None \<and> ?live i st)" for i
    by (rule calm_anyhow, drule find_stored, assumption) (auto simp: engine_stamped_def)
  show "calm (\<lambda>st. found \<noteq> None \<and> ?live i st) (assert_cli (found \<noteq> None)) (\<lambda>_ st. found \<noteq> None \<and> ?live i st)"
    for found and i by (rule calm_assert) simp
  show "calm (\<lambda>st. found \<noteq> None \<and> ?live i st)
      (anyhow_op (update_one D E L ?c i [(''$set'', Document [(''test'', Boolean False)])]))
      (\<lambda>updated st. updated \<and> stores E inv ?c i (\<lambda>d. True) st)" for found i
  proof (rule calm_anyhow, elim conjE)
    fix st updated st'
    assume live: "?live i st"
      and upd: "update_one D E L ?c i [(''$set'', Document [(''test'', Boolean False)])] st = (Inr updated, st')"
    then have "inv (en_storage st)" "\<exists>d. se_get E (en_storage st) ?c i = Inr (Some d) \<and> \<not> is_deleted d"
      by (auto simp: stores_def engine_stamped_def)
    with update_one_stores [OF _ assms upd] show "updated \<and> stores E inv ?c i (\<lambda>d. True) st'"
      by (auto simp: stores_def)
  qed
  show "calm (\<lambda>st. updated \<and> stores E inv ?c i (\<lambda>d. True) st) (assert_cli updated)
      (\<lambda>_ st. updated \<and> stores E inv ?c i (\<lambda>d. True) st)" for updated i
    by (rule calm_assert) simp
  show "calm (\<lambda>st. updated \<and> stores E inv ?c i (\<lambda>d. True) st) (anyhow_op (delete_one D E L ?c i))
      (\<lambda>deleted st. deleted \<and> inv (en_storage st))" for updated i
    by (rule calm_anyhow) (auto simp: stores_def dest: delete_one_tombstones [OF _ assms])
  show "calm (\<lambda>st. deleted \<and> inv (en_storage st)) (assert_cli deleted) (\<lambda>_ st. inv (en_storage st))" for deleted
    by (auto simp: calm_def assert_cli_def)
qed

lemma metadata_check_calm:
  assumes "name_ok doctor_collection"
  shows "calm (\<lambda>st. inv (en_storage st)) (metadata_check D E L r) (\<lambda>r' _. r' = r)"
  unfolding metadata_check_def
proof (intro calm_bind)
  let ?c = doctor_collection and ?d0 = "[(''name'', String ''doctor'')]"
  let ?live = "\<lambda>i. stores E inv ?c i (engine_stamped ?d0)"
  show "calm (\<lambda>st. inv (en_storage st)) (anyhow_op (insert_one D E L ?c ?d0)) ?live"
    by (rule calm_anyhow, rule inserted_is_stored [OF _ assms]) (auto simp: al_wf_def)
  show "calm (?live i) (anyhow_op (find_one E ?c i))
      (\<lambda>found st. \<exists>d. found = Some \<lparr>doc_data = d\<rparr> \<and> engine_stamped ?d0 d)" for i
    by (rule calm_anyhow, drule find_stored, assumption) (auto simp: engine_stamped_def)
  show "calm (\<lambda>st. \<exists>d. found = Some \<lparr>doc_data = d\<rparr> \<and> engine_stamped ?d0 d)
      (case found of None \<Rightarrow> \<lambda>st. (Inl Panicked, st)
       | Some d \<Rightarrow> let r = field_warning ''_source_node'' (doc_data d)
             (field_warning ''_updated_at'' (doc_data d) (field_warning ''_rev'' (doc_data d) r))
           in (\<lambda>st. (Inr r, snd (delete_one D E L ?c i st)))) (\<lambda>r' _. r' = r)" for found i
    by (auto simp: calm_def field_warning_def engine_stamped_def)
qed

end

section \<open>The upgrade check on documents of the engine\<close>

lemma check_fields_errors:
  "dr_errors (check_fields rid c d names r) =
     dr_errors r @ map (incompatible_text rid c) (filter (\<lambda>k. al_get d k = None) names)"
  "dr_warnings (check_fields rid c d names r) = dr_warnings r"
  by (induction names arbitrary: r) (simp_all add: add_error_def)

lemma check_records_mono:
  "(\<exists>xs. dr_errors (check_records D c ds seen r) = dr_errors r @ xs) \<and>
     dr_warnings (check_records D c ds seen r) = dr_warnings r"
proof (induction ds arbitrary: seen r)
  case (Cons d ds)
  then show ?case
    by (simp add: Let_def check_fields_errors del: check_fields.simps) (metis append_assoc check_fields_errors)
qed simp

lemma check_records_head:
  assumes "k \<in> set canonical_fields" "al_get d k = None"
  shows "has_errors (check_records D c (d # ds) 0 r)"
proof -
  let ?rid = "unwrap_or (map_option (bson_display D) (doc_id_of \<lparr>doc_data = d\<rparr>)) ''(unknown)''"
  let ?r = "check_fields ?rid c d canonical_fields r"
  have "dr_errors ?r \<noteq> []" using assms by (auto simp: check_fields_errors filter_empty_conv)
  moreover have "check_records D c (d # ds) 0 r = check_records D c ds 1 ?r" by (simp add: Let_def)
  ultimately show ?thesis using check_records_mono [of D c ds 1 ?r] by (auto simp: has_errors_def)
qed

lemma check_collections_warnings: "dr_warnings (check_collections D E st cs r) = dr_warnings r"
  using check_records_mono by (induction cs arbitrary: r) (auto simp: Let_def split: sum.splits)

context storage_laws
begin

lemma live_rows:
  assumes "inv (en_storage st)" "name_ok c"
  shows "\<exists>ds. find_many D E st c = Inr (map Inr ds) \<and>
    set ds = {d. \<not> is_deleted d \<and> (\<exists>i. se_get E (en_storage st) c i = Inr (Some d))}"
proof -
  obtain ds where scan: "se_scan E (en_storage st) c = Inr (map Inr ds)"
    and ds: "set ds = {d. \<exists>i. se_get E (en_storage st) c i = Inr (Some d)}"
    using scan_get [OF assms] by blast
  have "filter_ok D d []" for d by simp
  moreover have "live D [] = (\<lambda>d. \<not> is_deleted d)" by (simp add: live_def fun_eq_iff)
  ultimately show ?thesis
    using find_docs_ok(1) [OF scan, where flt = "[]" and D = D and p = None and skip = None and limit = None] ds
    by (intro exI [of _ "filter (\<lambda>d. \<not> is_deleted d) ds"])
      (auto simp: find_many_def limited_def project_or_same_def comp_def)
qed

lemma canonical_rejects:
  assumes "inv (en_storage st)" "name_ok ''documents''" "k \<in> set canonical_fields"
    and "se_get E (en_storage st) ''documents'' i = Inr (Some d)" "\<not> is_deleted d"
    and all: "\<forall>j e. se_get E (en_storage st) ''documents'' j = Inr (Some e) \<longrightarrow> al_get e k = None"
  shows "has_errors (check_canonical_envelope_metadata D E st r)"
proof -
  obtain ds where ds: "find_many D E st ''documents'' = Inr (map Inr ds)"
    "set ds = {d. \<not> is_deleted d \<and> (\<exists>i. se_get E (en_storage st) ''documents'' i = Inr (Some d))}"
    using live_rows [OF assms(1,2)] by blast
  then obtain e es where es: "ds = e # es" using assms(4,5) by (cases ds) auto
  then have "e \<in> set ds" by simp
  then have "al_get e k = None" unfolding ds(2) using all by blast
  then have "has_errors (check_records D ''documents'' (e # take 19 es) 0 r)"
    by (rule check_records_head [OF assms(3)])
  moreover have rows: "oks (take 20 (map Inr ds)) = e # take 19 es" by (simp add: es take_map)
  have "check_canonical_envelope_metadata D E st r = check_records D ''documents'' (e # take 19 es) 0 r"
    by (simp only: check_canonical_envelope_metadata_def sample_collections_def check_collections.simps ds(1)
        sum.case Let_def rows) (simp only: list.distinct simp_thms if_True)
  ultimately show ?thesis by simp
qed

end

section \<open>The queue after a look\<close>

lemma next_batch_persists:
  fixes q :: "'c file_sync_queue"
  assumes inv: "queue_inv K q" and codec: "queue_codec_ok D K A q"
    and same: "queue_read_all D K A (dv_crypto q) (dv_file q) = Inr (fq_entries q)"
    and batch: "file_next_batch D K A k q = (Inr batch, q')"
  shows "\<exists>m. queue_read_all D K A (dv_crypto q) (dv_file q') = Inr m \<and>
    (\<forall>n. al_get m n = al_get (fq_entries q') n)"
proof (cases "batch = []")
  case True
  with batch have "q' = q" by (auto simp: file_next_batch_def bind_op_Inr Let_def)
  with same show ?thesis by simp
next
  case False
  let ?b = "map (\<lambda>e. e\<lparr>q_state := Inflight\<rparr>)
      (take k (filter (\<lambda>e. q_state e = Pending) (map snd (entries_order K (fq_entries q)))))"
  let ?q = "q\<lparr>fq_entries := fold (\<lambda>e m. al_put m (q_seq e) e) ?b (fq_entries q)\<rparr>"
  have "0 < k" using batch False by (cases k) (auto simp: file_next_batch_def bind_op_Inr Let_def)
  then have wr: "queue_write_all D K A ?q = (Inr (), q')"
    using batch False by (auto simp: file_next_batch_def bind_op_Inr Let_def split: if_splits)
  have "queue_inv K q'"
    using file_next_batch_view [OF inv batch] by blast
  then have "queue_inv K ?q" using queue_write_all_frame [OF wr] by (simp add: queue_inv_def)
  moreover have "queue_codec_ok D K A ?q" using codec by (simp add: queue_codec_ok_def device_ok_def)
  ultimately show ?thesis using queue_file_read [OF _ _ wr] by fastforce
qed

lemma batch_inflight: "file_next_batch D K A k q = (Inr batch, q') \<Longrightarrow> e \<in> set batch \<Longrightarrow> q_state e = Inflight"
  by (auto simp: file_next_batch_def bind_op_Inr Let_def)

lemma checks_keep_errors:
  "dr_errors (check_oplog P crypto w r) = dr_errors r"
  "dr_errors (fst (fst (check_queue P K crypto w r))) = dr_errors r"
  "dr_errors (check_checkpoint P J crypto w r) = dr_errors r"
  by (auto simp: check_oplog_def check_queue_def check_checkpoint_def add_warning_def Let_def
      split: prod.splits sum.splits)

lemma verdict_of_errors:
  assumes "has_errors r"
  shows "\<exists>e. fst (doctor_verdict P K J crypto r w) = Inl (Anyhow e)"
proof -
  obtain r1 counts w1 where queue: "check_queue P K crypto w (check_oplog P crypto w r) = ((r1, counts), w1)"
    by (metis surj_pair)
  have "dr_errors r1 = dr_errors r"
    using checks_keep_errors(1) [of P crypto w r] checks_keep_errors(2) [of P K crypto w "check_oplog P crypto w r"] queue
    by simp
  then have "has_errors (check_checkpoint P J crypto w1 r1)"
    using assms by (simp add: has_errors_def checks_keep_errors)
  with queue show ?thesis by (simp add: doctor_verdict_def)
qed

section \<open>A sample workspace\<close>

text \<open>A queue file with one pending entry, for number 7.\<close>

abbreviation entry_seven :: "queue_state \<Rightarrow> sync_queue_entry" where
  "entry_seven x \<equiv> \<lparr>q_seq = 7, q_state = x, q_retries = 0, q_last_error = None\<rparr>"

definition seven_codec :: queue_codec where
  "seven_codec = \<lparr>ser_queue_entry = \<lambda>e. if e = entry_seven Pending then Inr []
       else if e = entry_seven Inflight then Inr [(''s'', Null)] else Inl ''?'',
     de_queue_entry = \<lambda>d. Inr (entry_seven (if d = [] then Pending else Inflight)), entries_order = \<lambda>m. m\<rparr>"

definition seven_api :: "((bytes \<times> bytes) list, (bytes \<times> bytes) list, unit) cli_api" where
  "seven_api = \<lparr>ca_deps = sample_deps [[], [(''s'', Null)]], ca_redb = table_redb,
     ca_entries = table_entry_codec [], ca_crypto = tag_cipher, ca_text = sample_text\<rparr>"

definition seven_workspace :: workspace where
  "seven_workspace = \<lparr>wk_exists = True, wk_path = ''w'', wk_config = None, wk_salt = None, wk_oplog = None,
     wk_applied = None, wk_queue = Some (frame [0]), wk_checkpoint = None, wk_bin_log = None,
     wk_bin_applied = None, wk_faults = (\<lambda>f n. None), wk_random = (\<lambda>f n. replicate 12 0)\<rparr>"

definition seven_queue :: "unit file_sync_queue" where
  "seven_queue = \<lparr>dv_file = Some (frame [0]), dv_crypto = None, dv_nonces = (\<lambda>n. replicate 12 0), dv_drawn = 0,
     dv_faults = (\<lambda>n. None), dv_calls = 0, fq_entries = [(7, entry_seven Pending)]\<rparr>"

section \<open>Properties\<close>

text \<open>
  The doctor's trial passes on every lawful back end: none of its assertions fails, no metadata
  warning is raised, and it ends either with the report or with the error of an operation.
\<close>

theorem doctor_trial_passes:
  assumes "storage_laws E ok name_ok idtext" "ok (en_storage st)" "name_ok doctor_collection"
    and "engine_checks D E L r st = (res, st')"
  shows "(\<exists>r'. res = Inr r' \<and> dr_warnings r' = dr_warnings r) \<or> (\<exists>e. res = Inl (Anyhow e))"
proof -
  have "calm (\<lambda>st. ok (en_storage st)) (engine_checks D E L r) (\<lambda>r' _. dr_warnings r' = dr_warnings r)"
    unfolding engine_checks_def
  proof (rule calm_bind [OF storage_laws.operations_check_calm [OF assms(1,3)]],
      rule calm_bind [OF storage_laws.metadata_check_calm [OF assms(1,3)]])
    show "calm (\<lambda>_. r1 = r) (\<lambda>st. (Inr (check_canonical_envelope_metadata D E st r1), st))
        (\<lambda>r' _. dr_warnings r' = dr_warnings r)" for r1
      by (simp add: calm_def check_canonical_envelope_metadata_def check_collections_warnings)
  qed
  from calmD [OF this assms(2,4)] show ?thesis by (cases res) (auto intro: cli_error.exhaust)
qed

lemma direct_operations:
  "\<exists>st. operations_check direct_deps (direct_engine direct_deps) null_oplog_vt direct_sample = (Inr (), st) \<and>
     (\<exists>r st'. metadata_check direct_deps (direct_engine direct_deps) null_oplog_vt report_new st = (Inr r, st'))"
  by (simp add: operations_check_def metadata_check_def bind_anyhow doctor_collection_def assert_cli_def direct_steps)

theorem doctor_trial_passes_witness:
  "\<exists>r st. engine_checks direct_deps (direct_engine direct_deps) null_oplog_vt report_new direct_sample = (Inr r, st) \<and>
     dr_warnings r = []"
proof -
  obtain r st where run: "engine_checks direct_deps (direct_engine direct_deps) null_oplog_vt report_new direct_sample =
      (Inr r, st)"
    using direct_operations by (auto simp: engine_checks_def bind_cli_Inr)
  with doctor_trial_passes [OF direct.storage_laws_axioms _ TrueI run] show ?thesis by (auto simp: report_new_def)
qed

text \<open>
  The doctor rejects what the engine writes: in a collection \<open>documents\<close> whose documents have no
  field \<open>tenant_id\<close>, after the insert of one more such document the upgrade check reports errors, and
  the command fails with them, although the engine made every record in the current version.
\<close>

theorem doctor_rejects_engine_documents:
  assumes "storage_laws E ok name_ok idtext" "ok (en_storage st)" "name_ok ''documents''" "al_wf d0"
    and "insert_one D E L ''documents'' d0 st = (Inr i, st')" "al_get d0 ''tenant_id'' = None"
    and "\<forall>j d. se_get E (en_storage st) ''documents'' j = Inr (Some d) \<longrightarrow> al_get d ''tenant_id'' = None"
  shows "has_errors (check_canonical_envelope_metadata D E st' r) \<and>
    (\<exists>e. fst (doctor_verdict P K J crypto (check_canonical_envelope_metadata D E st' r) w) = Inl (Anyhow e))"
proof -
  obtain d where d: "engine_stamped d0 d" and put: "se_put E (en_storage st) ''documents'' i d = (Inr (), en_storage st')"
    using storage_laws.insert_puts [OF assms(1,4,5)] by blast
  note laws = storage_laws.put_inv [OF assms(1-3) put] storage_laws.put_get [OF assms(1-3,3) put]
  have d_none: "al_get d ''tenant_id'' = None"
    using d assms(6) by (simp add: engine_stamped_def reserved_def)
  have "has_errors (check_canonical_envelope_metadata D E st' r)"
    by (rule storage_laws.canonical_rejects [OF assms(1) laws(1) assms(3), of "''tenant_id''" i d])
      (use d d_none assms(7) laws(2) in \<open>auto simp: canonical_fields_def engine_stamped_def split: if_splits\<close>)
  then show ?thesis using verdict_of_errors by blast
qed

theorem doctor_rejects_engine_documents_witness:
  "\<exists>i st. insert_one direct_deps (direct_engine direct_deps) null_oplog_vt ''documents'' [(''a'', Null)] direct_sample =
      (Inr i, st) \<and>
     (\<exists>e. fst (doctor_verdict seven_api seven_codec number_json None
       (check_canonical_envelope_metadata direct_deps (direct_engine direct_deps) st report_new) seven_workspace) =
       Inl (Anyhow e))"
proof -
  have "\<exists>i st. insert_one direct_deps (direct_engine direct_deps) null_oplog_vt ''documents'' [(''a'', Null)] direct_sample =
      (Inr i, st)" by (simp add: direct_steps)
  then obtain i st where run: "insert_one direct_deps (direct_engine direct_deps) null_oplog_vt ''documents''
      [(''a'', Null)] direct_sample = (Inr i, st)" by blast
  with doctor_rejects_engine_documents [OF direct.storage_laws_axioms _ TrueI _ run, where r = report_new
      and P = seven_api and K = seven_codec and J = number_json and crypto = None and w = seven_workspace]
  show ?thesis by (auto simp: al_wf_def)
qed

text \<open>
  C35: a look by the doctor takes the pending writes out of the queue: with fewer than a thousand of
  them and no fault, the report counts no pending entry, and the queue a later command opens has none;
  every entry that was pending is in flight, in memory and on disk, and will not be handed out again.
\<close>

theorem doctor_strands_queue:
  assumes "file_queue_open (ca_deps P) K (ca_crypto P) crypto (wk_queue w)
      (wk_random w ''sync-queue.rgo'') (wk_faults w ''sync-queue.rgo'') = Inr q" "wk_queue w \<noteq> None"
    and "queue_inv K q" "queue_codec_ok (ca_deps P) K (ca_crypto P) q"
    and "card {n. queue_view_of q n = Some Pending} < 1000"
    and "file_next_batch (ca_deps P) K (ca_crypto P) 1000 q = (Inr batch, q')"
  shows "\<exists>counts w' t. check_queue P K crypto w r = ((r, Some counts), w') \<and> qc_pending counts = 0 \<and>
    file_queue_open (ca_deps P) K (ca_crypto P) crypto (wk_queue w') nonces faults = Inr t \<and>
    (\<forall>n. queue_view_of t n = (if queue_view_of q n = Some Pending then Some Inflight else queue_view_of q n))"
proof -
  have open_q: "dv_crypto q = crypto" "dv_file q = wk_queue w"
    "queue_read_all (ca_deps P) K (ca_crypto P) (dv_crypto q) (dv_file q) = Inr (fq_entries q)"
    using assms(1) by (auto simp: file_queue_open_def try_r_eq_Inr)
  obtain m where m: "queue_read_all (ca_deps P) K (ca_crypto P) crypto (dv_file q') = Inr m"
    "\<forall>n. al_get m n = al_get (fq_entries q') n"
    using next_batch_persists [OF assms(3,4) open_q(3) assms(6)] open_q(1) by auto
  obtain ns where ns: "distinct ns" "\<forall>n\<in>set ns. queue_view_of q n = Some Pending"
    "length ns < 1000 \<longrightarrow> {n. queue_view_of q n = Some Pending} = set ns"
    "queue_view_of q' = marked (set ns) Inflight (queue_view_of q)"
    using file_next_batch_view [OF assms(3,6)] by blast
  have "length ns = card (set ns)" using ns(1) by (simp add: distinct_card)
  also have "\<dots> \<le> card {n. queue_view_of q n = Some Pending}" by (rule card_mono) (use ns(2) in auto)
  finally have view: "queue_view_of q' = marked {n. queue_view_of q n = Some Pending} Inflight (queue_view_of q)"
    using ns(3,4) assms(5) by simp
  have none: "count_state Pending batch = 0"
    using batch_inflight [OF assms(6)] by (auto simp: count_state_def filter_empty_conv)
  have look: "check_queue P K crypto w r = ((r, Some \<lparr>qc_pending = count_state Pending batch,
      qc_inflight = count_state Inflight batch, qc_failed = count_state Failed batch\<rparr>), w\<lparr>wk_queue := dv_file q'\<rparr>)"
    using assms(1,2,6) by (simp add: check_queue_def)
  obtain t where t: "file_queue_open (ca_deps P) K (ca_crypto P) crypto (dv_file q') nonces faults = Inr t"
      "queue_view_of t = queue_view_of q'"
    using m by (auto simp: file_queue_open_def queue_view_of_def)
  have after: "queue_view_of t n = (if queue_view_of q n = Some Pending then Some Inflight else queue_view_of q n)" for n
    unfolding t(2) view by (auto simp: marked_apply)
  show ?thesis
  proof (intro exI conjI allI)
    show "check_queue P K crypto w r = ((r, Some \<lparr>qc_pending = count_state Pending batch,
        qc_inflight = count_state Inflight batch, qc_failed = count_state Failed batch\<rparr>), w\<lparr>wk_queue := dv_file q'\<rparr>)"
      by (rule look)
    show "file_queue_open (ca_deps P) K (ca_crypto P) crypto (wk_queue (w\<lparr>wk_queue := dv_file q'\<rparr>)) nonces faults = Inr t"
      using t(1) by simp
  qed (simp only: none queue_counts.simps, rule after)
qed

theorem doctor_strands_queue_witness:
  "\<exists>counts w t. check_queue seven_api seven_codec None seven_workspace report_new =
      ((report_new, Some counts), w) \<and> qc_pending counts = 0 \<and>
    file_queue_open (sample_deps [[], [(''s'', Null)]]) seven_codec tag_cipher None (wk_queue w) (\<lambda>n. [])
      (\<lambda>n. None) = Inr t \<and> queue_view_of t 7 = Some Inflight"
proof -
  have api [simp]: "ca_deps seven_api = sample_deps [[], [(''s'', Null)]]" "ca_crypto seven_api = tag_cipher"
    by (simp_all add: seven_api_def)
  have disk: "wk_queue seven_workspace = Some (frame [0])" by (simp add: seven_workspace_def)
  have frames: "read_frames (frame [0]) = [[0]]" using read_frames_frame [of "[0]" "[]"] by simp
  have opened: "file_queue_open (ca_deps seven_api) seven_codec (ca_crypto seven_api) None (wk_queue seven_workspace)
      (wk_random seven_workspace ''sync-queue.rgo'') (wk_faults seven_workspace ''sync-queue.rgo'') = Inr seven_queue"
    by (simp add: file_queue_open_def queue_read_all_def disk frames unseal_def table_reader_def seven_codec_def
        seven_workspace_def seven_queue_def)
  have inv: "queue_inv seven_codec seven_queue"
    by (simp add: queue_inv_def order_ok_def entries_ok_def seven_codec_def seven_queue_def)
  have codec: "queue_codec_ok (ca_deps seven_api) seven_codec (ca_crypto seven_api) seven_queue"
    by (auto simp: queue_codec_ok_def device_ok_def tag_cipher_ok seven_queue_def seven_codec_def table_writer_def
        split: option.splits if_splits)
  have "\<exists>batch q. file_next_batch (ca_deps seven_api) seven_codec (ca_crypto seven_api) 1000 seven_queue = (Inr batch, q)"
    by (simp add: file_next_batch_def seven_queue_def seven_codec_def queue_write_all_def dev_create_def dev_write_def
        dev_sync_def dev_call_def dev_seal_def table_writer_def Let_def)
  then obtain batch q where batch: "file_next_batch (ca_deps seven_api) seven_codec (ca_crypto seven_api) 1000
      seven_queue = (Inr batch, q)" by blast
  have view: "queue_view_of seven_queue = (\<lambda>n. if n = 7 then Some Pending else None)"
    by (auto simp: queue_view_of_def seven_queue_def fun_eq_iff)
  then have few: "card {n. queue_view_of seven_queue n = Some Pending} < 1000" by simp
  have "wk_queue seven_workspace \<noteq> None" by (simp add: disk)
  from doctor_strands_queue [OF opened this inv codec few batch, of report_new "\<lambda>n. []" "\<lambda>n. None"] view
  show ?thesis by auto
qed

end
