(* ===== verification/Rango_Cli_Sync.thy ===== *)
theory Rango_Cli_Sync
  imports Rango_Cli Rango_Sync
begin

text \<open>
  The one-shot synchronisation of the command line tool (\<open>run_sync\<close> of \<open>cli/src/main.rs\<close>): open the
  stores of a workspace, enqueue the log's entries after the checkpoint in batches of a hundred, and run
  the scheduler once. The loop over the batches may run forever, so it is a partial function whose
  termination is a theorem.
\<close>

section \<open>Enqueueing the log\<close>

fun enqueue_entries :: "'q sync_queue_vt \<Rightarrow> oplog_entry list \<Rightarrow> u64 \<Rightarrow> nat \<Rightarrow> ('q, u64 \<times> nat) op" where
  "enqueue_entries Q [] seq enqueued q = (Inr (seq, enqueued), q)"
| "enqueue_entries Q (e # es) seq enqueued q =
     bind_op (sq_enqueue Q (entry_seq e)) (\<lambda>_. enqueue_entries Q es (entry_seq e + 1) (enqueued + 1)) q"

partial_function (option) enqueue_loop :: "'q sync_queue_vt \<Rightarrow> (u64 \<Rightarrow> nat \<Rightarrow> oplog_entry list result) \<Rightarrow> u64 \<Rightarrow>
    nat \<Rightarrow> 'q \<Rightarrow> (nat result \<times> 'q) option" where
  "enqueue_loop Q read seq enqueued q =
     (case read seq 100 of
        Inl e \<Rightarrow> Some (Inl e, q)
      | Inr entries \<Rightarrow>
          if entries = [] then Some (Inr enqueued, q)
          else (case enqueue_entries Q entries seq enqueued q of
              (Inl e, q) \<Rightarrow> Some (Inl e, q)
            | (Inr (seq, enqueued), q) \<Rightarrow> enqueue_loop Q read seq enqueued q))"

section \<open>The command\<close>

definition run_sync :: "('db, 't, 'c) cli_api \<Rightarrow> queue_codec \<Rightarrow> json_api \<Rightarrow> 'n http_api \<Rightarrow> string \<Rightarrow> string \<Rightarrow> string \<Rightarrow>
    string option \<Rightarrow> workspace \<Rightarrow> 'n \<Rightarrow> (sync_result cli_result \<times> workspace \<times> 'n) option" where
  "run_sync P K J H server token node_id passphrase w net =
     (if \<not> wk_exists w then Some (Inl (Anyhow (''Workspace not found at '' @ wk_path w)), w, net)
      else case load_crypto P w passphrase of
          Inl e \<Rightarrow> Some (Inl e, w, net)
        | Inr crypto \<Rightarrow>
            (case anyhow_op (open_oplog P crypto) w of
               (Inl e, w) \<Rightarrow> Some (Inl e, w, net)
             | (Inr oplog, w) \<Rightarrow>
                 (case anyhow_r (file_queue_open (ca_deps P) K (ca_crypto P) crypto (wk_queue w)
                      (wk_random w ''sync-queue.rgo'') (wk_faults w ''sync-queue.rgo'')) of
                    Inl e \<Rightarrow> Some (Inl e, w, net)
                  | Inr queue \<Rightarrow>
                      let store = file_checkpoint_new crypto (wk_checkpoint w)
                            (wk_random w ''checkpoint.json'') (wk_faults w ''checkpoint.json'');
                          client = \<lparr>cl_server_url = server, cl_node_token = token\<rparr>;
                          Q = file_queue_vt (ca_deps P) K (ca_crypto P);
                          L = file_oplog_vt (ca_deps P) (ca_entries P) (ca_crypto P)
                      in case anyhow_r (file_checkpoint_get J (ca_crypto P) store) of
                          Inl e \<Rightarrow> Some (Inl e, w, net)
                        | Inr checkpoint \<Rightarrow>
                            Option.bind (enqueue_loop Q (op_read_since L oplog) (checkpoint + 1) 0 queue) (\<lambda>(r, queue).
                            case anyhow_r r of
                              Inl e \<Rightarrow> Some (Inl e, w\<lparr>wk_queue := dv_file queue\<rparr>, net)
                            | Inr enqueued \<Rightarrow>
                                (case run_once default_sync_config node_id Q L (file_checkpoint_vt J (ca_crypto P)) H client
                                     \<lparr>ns_queue = queue, ns_oplog = oplog, ns_checkpoint = store, ns_net = net\<rparr> of
                                   (r, s) \<Rightarrow>
                                     Some (map_err (\<lambda>e. Anyhow (''Sync failed: '' @ error_text e)) r,
                                       w\<lparr>wk_queue := dv_file (ns_queue s), wk_checkpoint := dv_file (ns_checkpoint s)\<rparr>,
                                       ns_net s))))))"

section \<open>Termination and effect\<close>

lemma unat_succ: "(x :: u64) \<noteq> - 1 \<Longrightarrow> unat (x + 1) = Suc (unat x)"
  by (rule unat_plus_1_below [of x "- 1"]) (simp add: order.not_eq_order_implies_strict)

lemma succ_le_iff: "(x :: u64) \<noteq> - 1 \<Longrightarrow> x + 1 \<le> y \<longleftrightarrow> x < y"
  by (simp add: word_le_nat_alt word_less_nat_alt unat_succ Suc_le_eq)

text \<open>The states of the numbers after the given ones were enqueued.\<close>

definition enqueued_view :: "u64 set \<Rightarrow> queue_view \<Rightarrow> queue_view" where
  "enqueued_view ns f = (\<lambda>n. if n \<in> ns \<and> f n = None then Some Pending else f n)"

lemma enqueued_view_simps [simp]:
  "enqueued_view {} f = f" "enqueued_view ms (enqueued_view ns f) = enqueued_view (ns \<union> ms) f"
  by (auto simp: enqueued_view_def)

text \<open>A read of a log: the first entries of at least the number.\<close>

definition reads_log :: "(u64 \<Rightarrow> nat \<Rightarrow> oplog_entry list result) \<Rightarrow> oplog_entry list \<Rightarrow> bool" where
  "reads_log read es \<longleftrightarrow> (\<forall>m. read m 100 = Inr (take 100 (filter (\<lambda>e. m \<le> entry_seq e) es)))"

lemma filter_after_chunk:
  fixes f :: "oplog_entry list"
  assumes "sorted_wrt (<) (map entry_seq f)" "take k f \<noteq> []" "entry_seq (last (take k f)) \<noteq> - 1"
  shows "filter (\<lambda>e. entry_seq (last (take k f)) + 1 \<le> entry_seq e) f = drop k f"
proof -
  let ?x = "last (take k f)"
  have f: "f = butlast (take k f) @ [?x] @ drop k f"
    using assms(2) by (metis append_assoc append_butlast_last_id append_take_drop_id)
  then have "sorted_wrt (<) (map entry_seq (butlast (take k f) @ [?x] @ drop k f))" using assms(1) by simp
  then have le: "\<forall>e\<in>set (butlast (take k f)). entry_seq e < entry_seq ?x"
    "\<forall>e\<in>set (drop k f). entry_seq ?x < entry_seq e"
    by (simp_all add: sorted_wrt_append)
  have "filter (\<lambda>e. entry_seq ?x < entry_seq e) (butlast (take k f) @ [?x] @ drop k f) = drop k f"
    using le by (auto simp: filter_empty_conv filter_id_conv)
  with f show ?thesis by (simp add: succ_le_iff [OF assms(3)])
qed

context sync_queue_laws
begin

lemma enqueue_entries_effect:
  assumes "inv q" "enqueue_entries Q es seq n q = (r, q')"
  shows "inv q' \<and> (\<forall>s' n'. r = Inr (s', n') \<longrightarrow>
    s' = (if es = [] then seq else entry_seq (last es) + 1) \<and> n' = n + length es \<and>
    view q' = enqueued_view (entry_seq ` set es) (view q))"
  using assms
proof (induction es arbitrary: seq n q)
  case (Cons e es)
  obtain r1 q1 where one: "sq_enqueue Q (entry_seq e) q = (r1, q1)" by fastforce
  have q1: "inv q1" "view q1 = enqueued_view {entry_seq e} (view q)"
    using enqueue_view [OF Cons.prems(1) one] by (auto simp: enqueued_view_def fun_eq_iff split: if_splits)
  show ?case
  proof (cases r1)
    case (Inl x)
    with Cons.prems(2) one q1(1) show ?thesis by auto
  next
    case (Inr u)
    then have "enqueue_entries Q es (entry_seq e + 1) (n + 1) q1 = (r, q')" using Cons.prems(2) one by simp
    with Cons.IH [OF q1(1) this] q1(2) show ?thesis by auto
  qed
qed auto

text \<open>Every round moves on by at least one number, so the loop ends.\<close>

lemma enqueue_loop_ends:
  assumes "reads_log read es" "\<forall>e\<in>set es. entry_seq e \<noteq> - 1" "inv q"
  shows "\<exists>r q'. enqueue_loop Q read seq n q = Some (r, q') \<and> inv q' \<and>
    (sorted_wrt (<) (map entry_seq es) \<longrightarrow> (\<forall>k. r = Inr k \<longrightarrow>
       k = n + length (filter (\<lambda>e. seq \<le> entry_seq e) es) \<and>
       view q' = enqueued_view (entry_seq ` set (filter (\<lambda>e. seq \<le> entry_seq e) es)) (view q)))"
  using assms(3)
proof (induction "2 ^ 64 - unat seq" arbitrary: seq n q rule: less_induct)
  case less
  let ?f = "filter (\<lambda>e. seq \<le> entry_seq e) es" let ?chunk = "take 100 ?f"
  have read: "read seq 100 = Inr ?chunk" using assms(1) by (simp add: reads_log_def)
  show ?case
  proof (cases "?f = []")
    case True
    with read less.prems show ?thesis by (subst enqueue_loop.simps) simp
  next
    case False
    then have ne: "?chunk \<noteq> []" by simp
    obtain r1 q1 where batch: "enqueue_entries Q ?chunk seq n q = (r1, q1)" by fastforce
    note effect = enqueue_entries_effect [OF less.prems batch]
    show ?thesis
    proof (cases r1)
      case (Inl x)
      with read ne batch effect show ?thesis by (subst enqueue_loop.simps) simp
    next
      case (Inr p)
      let ?seq = "entry_seq (last ?chunk) + 1"
      have p: "p = (?seq, n + length ?chunk)" using effect Inr ne by (cases p) auto
      have "last ?chunk \<in> set ?f" using ne by (meson in_set_takeD last_in_set)
      then have last: "seq \<le> entry_seq (last ?chunk)" "entry_seq (last ?chunk) \<noteq> - 1" using assms(2) by auto
      then have "unat seq < unat ?seq" by (simp add: unat_succ word_le_nat_alt)
      moreover have "unat ?seq < 2 ^ 64" using unsigned_less [of ?seq, where ?'a = nat] by simp
      ultimately have "2 ^ 64 - unat ?seq < 2 ^ 64 - unat seq" by simp
      from less.hyps [OF this, of q1 "n + length ?chunk"] effect
      obtain r q' where rest: "enqueue_loop Q read ?seq (n + length ?chunk) q1 = Some (r, q')" "inv q'"
        "sorted_wrt (<) (map entry_seq es) \<longrightarrow> (\<forall>k. r = Inr k \<longrightarrow>
           k = n + length ?chunk + length (filter (\<lambda>e. ?seq \<le> entry_seq e) es) \<and>
           view q' = enqueued_view (entry_seq ` set (filter (\<lambda>e. ?seq \<le> entry_seq e) es)) (view q1))"
        by blast
      have "enqueue_loop Q read seq n q = Some (r, q')"
        using read ne batch Inr p rest(1) by (subst enqueue_loop.simps) simp
      moreover have "k = n + length ?f \<and> view q' = enqueued_view (entry_seq ` set ?f) (view q)"
        if sorted: "sorted_wrt (<) (map entry_seq es)" and k: "r = Inr k" for k
      proof -
        have "sorted_wrt (<) (map entry_seq ?f)"
          using sorted by (simp add: sorted_wrt_map sorted_wrt_filter)
        from filter_after_chunk [OF this ne last(2)]
        have "filter (\<lambda>e. ?seq \<le> entry_seq e) ?f = drop 100 ?f" .
        moreover have "filter (\<lambda>e. ?seq \<le> entry_seq e) ?f = filter (\<lambda>e. ?seq \<le> entry_seq e) es"
          using last by (auto simp: succ_le_iff intro!: filter_cong)
        ultimately have drop: "filter (\<lambda>e. ?seq \<le> entry_seq e) es = drop 100 ?f" by simp
        have parts: "set ?f = set ?chunk \<union> set (drop 100 ?f)" "length ?f = length ?chunk + length (drop 100 ?f)"
          using set_append [of ?chunk "drop 100 ?f"] length_append [of ?chunk "drop 100 ?f"]
          unfolding append_take_drop_id by blast+
        moreover have "view q1 = enqueued_view (entry_seq ` set ?chunk) (view q)" using effect Inr p by simp
        ultimately show ?thesis using rest(3) sorted k unfolding drop parts
          by (simp only: image_Un enqueued_view_simps Un_commute add.assoc)
      qed
      ultimately show ?thesis using rest(2) by blast
    qed
  qed
qed

end

text \<open>The queue and the log of a workspace, as they are opened.\<close>

lemma queue_entries_in_ok: "entries_ok m \<Longrightarrow> entries_ok (queue_entries_in D K A crypto bufs m)"
  by (induction bufs arbitrary: m) (auto split: sum.splits intro: entries_ok_put)

lemma opened_queue_inv:
  "order_ok K \<Longrightarrow> file_queue_open D K A crypto disk nonces faults = Inr q \<Longrightarrow> queue_inv K q"
  by (auto simp: file_queue_open_def queue_read_all_def queue_inv_def queue_entries_in_ok split: option.splits)

lemma read_entries_eq:
  "length acc < limit \<Longrightarrow> read_entries D K A crypto m limit bodies acc =
     acc @ take (limit - length acc) (filter (\<lambda>e. m \<le> entry_seq e) (List.map_filter (body_entry D K A crypto) bodies))"
proof (induction bodies arbitrary: acc)
  case (Cons b bodies)
  show ?case
  proof (cases "body_entry D K A crypto b")
    case None
    with Cons show ?thesis
      by (auto simp: body_entry_def map_filter_simps split: sum.splits option.splits)
  next
    case (Some e)
    then obtain p where p: "unseal A crypto b = Inr p" "decode_entry D K p = Some e"
      by (auto simp: body_entry_def split: sum.splits)
    show ?thesis
    proof (cases "m \<le> entry_seq e \<and> Suc (length acc) < limit")
      case True
      then have "limit - length acc = Suc (limit - Suc (length acc))" by (auto simp: Suc_diff_Suc)
      with True Cons.IH [of "acc @ [e]"] p Some show ?thesis by (simp add: Let_def map_filter_simps)
    next
      case False
      with Cons.prems p Some Cons.IH [of acc] show ?thesis
        by (cases "m \<le> entry_seq e") (auto simp: Let_def map_filter_simps take_Suc le_Suc_eq not_less)
    qed
  qed
qed (simp add: map_filter_simps)

lemma file_reads_log: "reads_log (file_read_since D KE A s) (file_log D KE A s)"
  by (simp add: reads_log_def file_read_since_def file_log_def read_entries_eq)

section \<open>Properties\<close>

text \<open>
  C26: \<open>sync\<close> enqueues every later write once: on a log in ascending order the loop ends, and when
  no write of the queue fails, exactly the entries with a number past the checkpoint that the queue did
  not know are pending afterwards; the others, those at or below the checkpoint too, stay as they were.
\<close>

theorem sync_enqueues_later_writes:
  assumes "queue_inv K q" "\<forall>e\<in>set (file_log D KE A lg). entry_seq e \<noteq> - 1"
    and "sorted_wrt (<) (map entry_seq (file_log D KE A lg))" "c \<noteq> - 1"
  shows "\<exists>r q'. enqueue_loop (file_queue_vt D K A) (op_read_since (file_oplog_vt D KE A) lg) (c + 1) 0 q = Some (r, q') \<and>
    (\<forall>n. r = Inr n \<longrightarrow> n = length (filter (\<lambda>e. c < entry_seq e) (file_log D KE A lg)) \<and>
      (\<forall>k. queue_view_of q' k =
        (if queue_view_of q k = None \<and> (\<exists>e\<in>set (file_log D KE A lg). entry_seq e = k \<and> c < k)
         then Some Pending else queue_view_of q k)))"
proof -
  obtain r q' where run: "enqueue_loop (file_queue_vt D K A) (file_read_since D KE A lg) (c + 1) 0 q = Some (r, q')"
    and eff: "\<forall>k. r = Inr k \<longrightarrow> k = 0 + length (filter (\<lambda>e. c + 1 \<le> entry_seq e) (file_log D KE A lg)) \<and>
      queue_view_of q' = enqueued_view (entry_seq ` set (filter (\<lambda>e. c + 1 \<le> entry_seq e) (file_log D KE A lg)))
        (queue_view_of q)"
    using file_queue.enqueue_loop_ends [OF file_reads_log assms(2,1), where D = D and A = A and seq = "c + 1" and n = 0]
      assms(3) by blast
  show ?thesis
  proof (intro exI conjI allI impI)
    show "enqueue_loop (file_queue_vt D K A) (op_read_since (file_oplog_vt D KE A) lg) (c + 1) 0 q = Some (r, q')"
      using run by simp
    fix n assume n: "r = Inr n"
    show "n = length (filter (\<lambda>e. c < entry_seq e) (file_log D KE A lg))"
      using eff n by (simp add: succ_le_iff [OF assms(4)])
    show "queue_view_of q' k = (if queue_view_of q k = None \<and> (\<exists>e\<in>set (file_log D KE A lg). entry_seq e = k \<and> c < k)
         then Some Pending else queue_view_of q k)" for k
      using eff n by (auto simp: enqueued_view_def succ_le_iff [OF assms(4)])
  qed
qed

theorem sync_enqueues_later_writes_witness:
  "\<exists>q. enqueue_loop (file_queue_vt one_log_deps blank_codec tag_cipher)
       (op_read_since (file_oplog_vt one_log_deps (table_entry_codec [sample_entry 1]) tag_cipher) one_log) 1 0 empty_queue =
       Some (Inr 1, q) \<and> queue_view_of q 1 = Some Pending"
proof -
  let ?read = "file_read_since one_log_deps (table_entry_codec [sample_entry 1]) tag_cipher one_log"
  have read: "?read m 100 = Inr (filter (\<lambda>e. m \<le> entry_seq e) [sample_entry 1])" for m
    using file_reads_log [of one_log_deps "table_entry_codec [sample_entry 1]" tag_cipher one_log]
    by (simp add: reads_log_def one_log_entries)
  have step: "\<exists>q. sq_enqueue (file_queue_vt one_log_deps blank_codec tag_cipher) 1 empty_queue = (Inr (), q)"
    by (simp add: empty_queue_def file_enqueue_def queue_write_all_def dev_create_def dev_write_def dev_sync_def
        dev_call_def dev_seal_def table_writer_def Let_def)
  then obtain q1 where "sq_enqueue (file_queue_vt one_log_deps blank_codec tag_cipher) 1 empty_queue = (Inr (), q1)"
    by blast
  moreover have two: "\<not> (2 :: u64) \<le> 1" by (simp add: word_le_nat_alt)
  ultimately have run: "enqueue_loop (file_queue_vt one_log_deps blank_codec tag_cipher) ?read 1 0 empty_queue = Some (Inr 1, q1)"
    by (subst enqueue_loop.simps, simp add: read, subst enqueue_loop.simps, simp add: read two)
  have "queue_inv blank_codec empty_queue" by (simp add: queue_inv_def order_ok_def empty_queue_def)
  from sync_enqueues_later_writes [OF this, of one_log_deps "table_entry_codec [sample_entry 1]" tag_cipher one_log 0] run
  have "\<forall>k. queue_view_of q1 k = (if queue_view_of empty_queue k = None \<and> 1 = k \<and> 0 < k then Some Pending
      else queue_view_of empty_queue k)" by (simp add: one_log_entries)
  moreover have "queue_view_of empty_queue 1 = None" by (simp add: queue_view_of_def empty_queue_def)
  ultimately have "queue_view_of q1 1 = Some Pending" by simp
  with run show ?thesis by simp
qed

text \<open>
  C27: \<open>sync\<close> returns: whatever the files of the workspace hold and whichever of their calls fail, the
  command ends, provided that no entry of the log has the largest number, after which the next one
  would wrap to zero.
\<close>

theorem sync_command_returns:
  assumes "order_ok K"
    and "\<forall>crypto lg w1. load_crypto P w passphrase = Inr crypto \<longrightarrow> open_oplog P crypto w = (Inr lg, w1) \<longrightarrow>
      (\<forall>e\<in>set (file_log (ca_deps P) (ca_entries P) (ca_crypto P) lg). entry_seq e \<noteq> - 1)"
  shows "\<exists>res. run_sync P K J H server token node_id passphrase w net = Some res"
proof (cases "\<exists>crypto lg w1 q c. wk_exists w \<and> load_crypto P w passphrase = Inr crypto \<and>
    open_oplog P crypto w = (Inr lg, w1) \<and>
    file_queue_open (ca_deps P) K (ca_crypto P) crypto (wk_queue w1) (wk_random w1 ''sync-queue.rgo'')
      (wk_faults w1 ''sync-queue.rgo'') = Inr q \<and>
    file_checkpoint_get J (ca_crypto P) (file_checkpoint_new crypto (wk_checkpoint w1)
      (wk_random w1 ''checkpoint.json'') (wk_faults w1 ''checkpoint.json'')) = Inr c")
  case True
  then obtain crypto lg w1 q c where ok: "wk_exists w" "load_crypto P w passphrase = Inr crypto"
    "open_oplog P crypto w = (Inr lg, w1)"
    "file_queue_open (ca_deps P) K (ca_crypto P) crypto (wk_queue w1) (wk_random w1 ''sync-queue.rgo'')
      (wk_faults w1 ''sync-queue.rgo'') = Inr q"
    "file_checkpoint_get J (ca_crypto P) (file_checkpoint_new crypto (wk_checkpoint w1)
      (wk_random w1 ''checkpoint.json'') (wk_faults w1 ''checkpoint.json'')) = Inr c" by blast
  obtain r q' where "enqueue_loop (file_queue_vt (ca_deps P) K (ca_crypto P))
      (file_read_since (ca_deps P) (ca_entries P) (ca_crypto P) lg) (c + 1) 0 q = Some (r, q')"
    using file_queue.enqueue_loop_ends [OF file_reads_log _ opened_queue_inv [OF assms(1) ok(4)],
        where D = "ca_deps P" and A = "ca_crypto P" and seq = "c + 1" and n = 0] assms(2) ok(2,3) by blast
  with ok show ?thesis
    by (simp add: run_sync_def anyhow_op_def Let_def split: sum.splits prod.splits)
next
  case False
  then show ?thesis
    by (auto simp: run_sync_def anyhow_op_def anyhow_r_def map_err_def Let_def split: sum.splits prod.splits)
qed

definition dead_net :: "unit http_api" where
  "dead_net = \<lparr>ht_send = (\<lambda>rq n. (Inl ''connection refused'', n)), ht_status_text = (\<lambda>n. []),
     ht_push_json = (\<lambda>s. Inl s), ht_pull_json = (\<lambda>s. Inl s), ht_promote_json = (\<lambda>s. Inl s)\<rparr>"

theorem sync_command_returns_witness:
  "\<exists>res. run_sync sample_api blank_codec number_json dead_net ''http://s'' ''t'' ''n'' None
     (fresh_workspace\<lparr>wk_exists := True\<rparr>) () = Some res"
proof -
  have "file_log (ca_deps sample_api) (ca_entries sample_api) (ca_crypto sample_api) lg = []"
    if "open_oplog sample_api crypto (fresh_workspace\<lparr>wk_exists := True\<rparr>) = (Inr lg, w1)" for crypto lg w1
    using that
    by (auto simp: open_oplog_def file_oplog_open_def fs_call_def read_latest_seq_def read_applied_def Let_def bind_op_def
        get_op_def lift_op_def modify_op_def fresh_workspace_def sample_api_def file_log_def map_filter_simps)
  moreover have "order_ok blank_codec" by (simp add: order_ok_def)
  ultimately show ?thesis by (intro sync_command_returns) auto
qed

end
