(* ===== verification/Rango_Bindings.thy ===== *)
theory Rango_Bindings
  imports Rango_Cli Rango_Degrading_Storage Rango_Direct_Storage Rango_Engine_Views
begin

text \<open>
  The Rust SDK (\<open>sdk-rust/src/client.rs\<close>, \<open>sdk-rust/src/lib.rs\<close>) and the bindings built on it for
  Node.js (\<open>node/src/lib.rs\<close>) and Python (\<open>python/src/lib.rs\<close>). A client is an engine, a collection a
  name; the bindings exchange documents as JSON text or as dictionaries, and identifiers as text. The
  conversions between BSON and JSON by \<open>serde\<close>, the parsers of identifiers and the \<open>json\<close> module of
  Python come in as records.
\<close>

section \<open>The Rust SDK\<close>

definition client_open :: "'s \<Rightarrow> 'o \<Rightarrow> string \<Rightarrow> world \<Rightarrow> ('s, 'o) engine result" where
  "client_open storage oplog node_id w = engine_open storage oplog node_id w"

definition client_open_with_config ::
  "'s \<Rightarrow> 'o \<Rightarrow> string \<Rightarrow> rango_config \<Rightarrow> world \<Rightarrow> ('s, 'o) engine result" where
  "client_open_with_config storage oplog node_id config w = engine_open_with_config storage oplog node_id config w"

definition collection_insert_one ::
  "deps \<Rightarrow> 's storage_engine \<Rightarrow> 'o oplog_vt \<Rightarrow> collection_name \<Rightarrow> doc \<Rightarrow> (('s, 'o) engine, document_id) op" where
  "collection_insert_one D E L name d = insert_one D E L name d"

definition collection_find_one ::
  "'s storage_engine \<Rightarrow> collection_name \<Rightarrow> document_id \<Rightarrow> (('s, 'o) engine, rango_document option) op" where
  "collection_find_one E name i = find_one E name i"

text \<open>The cursor of the SDK wraps each document.\<close>

definition sdk_cursor :: "doc result list \<Rightarrow> rango_document result list" where
  "sdk_cursor rows = map (map_sum id (\<lambda>d. \<lparr>doc_data = d\<rparr>)) rows"

definition collection_find_many :: "deps \<Rightarrow> 's storage_engine \<Rightarrow> collection_name \<Rightarrow> ('s, 'o) engine \<Rightarrow>
    rango_document result list result" where
  "collection_find_many D E name st = map_sum id sdk_cursor (find_many D E st name)"

definition collection_update_one :: "deps \<Rightarrow> 's storage_engine \<Rightarrow> 'o oplog_vt \<Rightarrow> collection_name \<Rightarrow> document_id \<Rightarrow>
    doc \<Rightarrow> (('s, 'o) engine, bool) op" where
  "collection_update_one D E L name i update = update_one D E L name i update"

definition collection_delete_one ::
  "deps \<Rightarrow> 's storage_engine \<Rightarrow> 'o oplog_vt \<Rightarrow> collection_name \<Rightarrow> document_id \<Rightarrow> (('s, 'o) engine, bool) op" where
  "collection_delete_one D E L name i = delete_one D E L name i"

text \<open>\<open>Cursor::for_each\<close> with a closure over a state of its own.\<close>

fun for_each :: "(rango_document \<Rightarrow> ('x, unit) op) \<Rightarrow> rango_document result list \<Rightarrow> ('x, unit) op" where
  "for_each f [] s = (Inr (), s)"
| "for_each f (row # rows) s =
     (case row of
        Inl e \<Rightarrow> (Inl e, s)
      | Inr d \<Rightarrow> bind_op (f d) (\<lambda>_. for_each f rows) s)"

record derived_read_label =
  dl_derived :: bool
  dl_canonical :: bool

definition derived_non_canonical :: derived_read_label where
  "derived_non_canonical = \<lparr>dl_derived = True, dl_canonical = False\<rparr>"

record semantic_projection_request =
  sp_tenant_id :: string
  sp_namespace :: string
  sp_candidate_id :: string
  sp_tier :: memory_tier
  sp_payload :: doc

definition semantic_projection_request_new ::
  "string \<Rightarrow> string \<Rightarrow> string \<Rightarrow> doc \<Rightarrow> semantic_projection_request" where
  "semantic_projection_request_new tenant_id namespace candidate_id payload =
     \<lparr>sp_tenant_id = tenant_id, sp_namespace = namespace, sp_candidate_id = candidate_id, sp_tier = Semantic,
      sp_payload = payload\<rparr>"

record semantic_projection_response =
  sr_accepted :: bool
  sr_write_id :: string
  sr_label :: derived_read_label

record tiered_memory_read_request =
  tr_tenant_id :: string
  tr_namespace :: string
  tr_tier :: memory_tier
  tr_limit :: nat
  tr_require_derived_label :: bool

definition tiered_memory_read_request_new :: "string \<Rightarrow> string \<Rightarrow> memory_tier \<Rightarrow> tiered_memory_read_request" where
  "tiered_memory_read_request_new tenant_id namespace tier =
     \<lparr>tr_tenant_id = tenant_id, tr_namespace = namespace, tr_tier = tier, tr_limit = 100,
      tr_require_derived_label = False\<rparr>"

definition read_with_limit :: "nat \<Rightarrow> tiered_memory_read_request \<Rightarrow> tiered_memory_read_request" where
  "read_with_limit limit rq = rq\<lparr>tr_limit := limit\<rparr>"

definition require_derived_label :: "bool \<Rightarrow> tiered_memory_read_request \<Rightarrow> tiered_memory_read_request" where
  "require_derived_label required rq = rq\<lparr>tr_require_derived_label := required\<rparr>"

record tiered_memory_write_request =
  tw_tenant_id :: string
  tw_namespace :: string
  tw_tier :: memory_tier

definition tiered_memory_write_request_new :: "string \<Rightarrow> string \<Rightarrow> memory_tier \<Rightarrow> tiered_memory_write_request" where
  "tiered_memory_write_request_new tenant_id namespace tier =
     \<lparr>tw_tenant_id = tenant_id, tw_namespace = namespace, tw_tier = tier\<rparr>"

section \<open>Identifiers and updates\<close>

text \<open>Both bindings parse identifiers in the same way and wrap a plain update in \<open>$set\<close>.\<close>

record id_api =
  ia_uuid_parse :: "string \<Rightarrow> bytes option"
  ia_oid_parse :: "string \<Rightarrow> bytes option"

definition parse_doc_id :: "id_api \<Rightarrow> string \<Rightarrow> document_id" where
  "parse_doc_id I s =
     (case ia_uuid_parse I s of
        Some bs \<Rightarrow> document_id_from_bson (Binary uuid_subtype bs)
      | None \<Rightarrow>
          (case ia_oid_parse I s of
             Some oid \<Rightarrow> document_id_from_bson (ObjectId oid)
           | None \<Rightarrow> document_id_from_bson (String s)))"

definition wrap_update :: "doc \<Rightarrow> doc" where
  "wrap_update d = (if \<exists>k\<in>set (map fst d). starts_with ''$'' k then d else [(''$set'', Document d)])"

section \<open>Node.js\<close>

datatype napi_status = InvalidArg | GenericFailure

type_synonym napi_error = "napi_status \<times> string"
type_synonym ('s, 'a) napi_op = "'s \<Rightarrow> (napi_error + 'a) \<times> 's"

record serde_api =
  sd_from_value :: "json_value \<Rightarrow> string + doc"
  sd_to_value :: "doc \<Rightarrow> string + json_value"

definition json_str_to_document :: "text_api \<Rightarrow> serde_api \<Rightarrow> string \<Rightarrow> napi_error + doc" where
  "json_str_to_document T V json_str =
     try_r (map_err (\<lambda>e. (InvalidArg, ''JSON parse error: '' @ e)) (tx_from_str T json_str)) (\<lambda>v.
     map_err (\<lambda>e. (InvalidArg, ''BSON conversion error: '' @ e)) (sd_from_value V v))"

definition document_to_json_str :: "text_api \<Rightarrow> serde_api \<Rightarrow> doc \<Rightarrow> napi_error + string" where
  "document_to_json_str T V d =
     try_r (map_err (\<lambda>e. (GenericFailure, ''JSON serialization error: '' @ e)) (sd_to_value V d)) (\<lambda>v.
     map_err (\<lambda>e. (GenericFailure, ''JSON stringify error: '' @ e)) (tx_to_string T v))"

definition with_id_and_rev :: "deps \<Rightarrow> rango_document \<Rightarrow> doc" where
  "with_id_and_rev D d =
     (let data = doc_data d;
          data = (case doc_id_of d of Some i \<Rightarrow> al_put data ''_id'' (String (bson_display D i)) | None \<Rightarrow> data)
      in case doc_revision d of Some r \<Rightarrow> al_put data ''_rev'' (Int64 r) | None \<Rightarrow> data)"

definition rango_doc_to_json :: "deps \<Rightarrow> text_api \<Rightarrow> serde_api \<Rightarrow> rango_document \<Rightarrow> napi_error + string" where
  "rango_doc_to_json D T V d = document_to_json_str T V (with_id_and_rev D d)"

definition rango_err_to_napi :: "rango_error \<Rightarrow> napi_error" where
  "rango_err_to_napi e = (GenericFailure, error_text e)"

definition napi_op :: "('s, 'a) op \<Rightarrow> ('s, 'a) napi_op" where
  "napi_op m s = (case m s of (r, s') \<Rightarrow> (map_err rango_err_to_napi r, s'))"

text \<open>
  The constructor; the log is \<open>oplog.bin\<close>, the answers about free space are a stream, and creating the
  directory may fail.
\<close>

definition node_client_new :: "('db, 't, 'c) cli_api \<Rightarrow> (nat \<Rightarrow> u64 result) \<Rightarrow> string option \<Rightarrow> world \<Rightarrow> workspace \<Rightarrow>
    napi_error + ('db degrading_storage, 'c file_oplog) engine" where
  "node_client_new P space node_id rw w =
     try_r (case wk_faults w ''.'' 0 of
         Some (e, n) \<Rightarrow> Inl (GenericFailure, ''Failed to create workspace: '' @ e)
       | None \<Rightarrow> Inr ()) (\<lambda>_.
     try_r (map_err rango_err_to_napi (redb_open (ca_redb P) (wk_path w @ ''/data.redb''))) (\<lambda>inner.
     try_r (map_err rango_err_to_napi (with_default_threshold inner space)) (\<lambda>storage.
     try_r (case file_oplog_open (ca_deps P) (ca_entries P) (ca_crypto P) None (wk_bin_log w) (wk_bin_applied w)
           (wk_random w ''oplog.bin'') (wk_faults w ''oplog.bin'') of
         (Inl e, _) \<Rightarrow> Inl (rango_err_to_napi e)
       | (Inr _, opened) \<Rightarrow> Inr opened) (\<lambda>oplog.
     map_err rango_err_to_napi (client_open storage oplog (unwrap_or node_id ''node-js'') rw)))))"

definition node_insert_one :: "deps \<Rightarrow> text_api \<Rightarrow> serde_api \<Rightarrow> 's storage_engine \<Rightarrow> 'o oplog_vt \<Rightarrow> collection_name \<Rightarrow>
    string \<Rightarrow> (('s, 'o) engine, string) napi_op" where
  "node_insert_one D T V E L name json_doc st =
     (case json_str_to_document T V json_doc of
        Inl e \<Rightarrow> (Inl e, st)
      | Inr d \<Rightarrow>
          (case napi_op (collection_insert_one D E L name d) st of
             (Inl e, st) \<Rightarrow> (Inl e, st)
           | (Inr i, st) \<Rightarrow> (Inr (document_id_to_string D i), st)))"

definition node_find_one :: "deps \<Rightarrow> text_api \<Rightarrow> serde_api \<Rightarrow> id_api \<Rightarrow> 's storage_engine \<Rightarrow> collection_name \<Rightarrow>
    string \<Rightarrow> (('s, 'o) engine, string option) napi_op" where
  "node_find_one D T V I E name i st =
     (case napi_op (collection_find_one E name (parse_doc_id I i)) st of
        (Inl e, st) \<Rightarrow> (Inl e, st)
      | (Inr (Some d), st) \<Rightarrow> (map_sum id Some (rango_doc_to_json D T V d), st)
      | (Inr None, st) \<Rightarrow> (Inr None, st))"

definition node_find_many :: "deps \<Rightarrow> text_api \<Rightarrow> serde_api \<Rightarrow> 's storage_engine \<Rightarrow> collection_name \<Rightarrow>
    ('s, 'o) engine \<Rightarrow> napi_error + string list" where
  "node_find_many D T V E name st =
     try_r (map_err rango_err_to_napi (collection_find_many D E name st)) (\<lambda>cursor.
     collect_r (\<lambda>row. try_r (map_err rango_err_to_napi row) (rango_doc_to_json D T V)) cursor)"

definition node_update_one :: "deps \<Rightarrow> text_api \<Rightarrow> serde_api \<Rightarrow> id_api \<Rightarrow> 's storage_engine \<Rightarrow> 'o oplog_vt \<Rightarrow>
    collection_name \<Rightarrow> string \<Rightarrow> string \<Rightarrow> (('s, 'o) engine, bool) napi_op" where
  "node_update_one D T V I E L name i json_update st =
     (case json_str_to_document T V json_update of
        Inl e \<Rightarrow> (Inl e, st)
      | Inr d \<Rightarrow> napi_op (collection_update_one D E L name (parse_doc_id I i) (wrap_update d)) st)"

definition node_delete_one :: "deps \<Rightarrow> id_api \<Rightarrow> 's storage_engine \<Rightarrow> 'o oplog_vt \<Rightarrow> collection_name \<Rightarrow> string \<Rightarrow>
    (('s, 'o) engine, bool) napi_op" where
  "node_delete_one D I E L name i = napi_op (collection_delete_one D E L name (parse_doc_id I i))"

section \<open>Python\<close>

text \<open>Dictionaries of the interpreter, its \<open>json\<close> module, and the errors as their texts.\<close>

record ('p, 'd) py_api =
  py_dumps :: "'d \<Rightarrow> string + string"
  py_loads :: "string \<Rightarrow> string + 'p"
  py_dict :: "'p \<Rightarrow> 'd option"
  py_set_str :: "'d \<Rightarrow> string \<Rightarrow> string \<Rightarrow> string + 'd"
  py_set_int :: "'d \<Rightarrow> string \<Rightarrow> i64 \<Rightarrow> string + 'd"

type_synonym ('s, 'a) py_op = "'s \<Rightarrow> (string + 'a) \<times> 's"

definition py_dict_to_document :: "('p, 'd) py_api \<Rightarrow> text_api \<Rightarrow> serde_api \<Rightarrow> 'd \<Rightarrow> string + doc" where
  "py_dict_to_document Y T V dict =
     try_r (py_dumps Y dict) (\<lambda>json_str.
     try_r (map_err (\<lambda>e. ''JSON parse error: '' @ e) (tx_from_str T json_str)) (\<lambda>v.
     map_err (\<lambda>e. ''BSON conversion error: '' @ e) (sd_from_value V v)))"

definition document_to_py_dict :: "('p, 'd) py_api \<Rightarrow> text_api \<Rightarrow> serde_api \<Rightarrow> doc \<Rightarrow> string + 'd" where
  "document_to_py_dict Y T V d =
     try_r (map_err (\<lambda>e. ''JSON serialization error: '' @ e) (sd_to_value V d)) (\<lambda>v.
     try_r (map_err (\<lambda>e. ''JSON stringify error: '' @ e) (tx_to_string T v)) (\<lambda>json_str.
     try_r (py_loads Y json_str) (\<lambda>obj.
     ok_or (py_dict Y obj) ''Expected dict from JSON deserialization'')))"

definition rango_doc_to_py_dict :: "deps \<Rightarrow> ('p, 'd) py_api \<Rightarrow> text_api \<Rightarrow> serde_api \<Rightarrow> rango_document \<Rightarrow> string + 'd" where
  "rango_doc_to_py_dict D Y T V d =
     try_r (document_to_py_dict Y T V (doc_data d)) (\<lambda>dict.
     try_r (case doc_id_of d of Some i \<Rightarrow> py_set_str Y dict ''_id'' (bson_display D i) | None \<Rightarrow> Inr dict) (\<lambda>dict.
     case doc_revision d of Some r \<Rightarrow> py_set_int Y dict ''_rev'' r | None \<Rightarrow> Inr dict))"

definition rango_err_to_py :: "rango_error \<Rightarrow> string" where
  "rango_err_to_py e = error_text e"

definition py_op :: "('s, 'a) op \<Rightarrow> ('s, 'a) py_op" where
  "py_op m s = (case m s of (r, s') \<Rightarrow> (map_err rango_err_to_py r, s'))"

definition py_client_new :: "('db, 't, 'c) cli_api \<Rightarrow> (nat \<Rightarrow> u64 result) \<Rightarrow> string \<Rightarrow> world \<Rightarrow> workspace \<Rightarrow>
    string + ('db degrading_storage, 'c file_oplog) engine" where
  "py_client_new P space node_id rw w =
     try_r (case wk_faults w ''.'' 0 of
         Some (e, n) \<Rightarrow> Inl (''Failed to create workspace: '' @ e)
       | None \<Rightarrow> Inr ()) (\<lambda>_.
     try_r (map_err rango_err_to_py (redb_open (ca_redb P) (wk_path w @ ''/data.redb''))) (\<lambda>inner.
     try_r (map_err rango_err_to_py (with_default_threshold inner space)) (\<lambda>storage.
     try_r (case file_oplog_open (ca_deps P) (ca_entries P) (ca_crypto P) None (wk_bin_log w) (wk_bin_applied w)
           (wk_random w ''oplog.bin'') (wk_faults w ''oplog.bin'') of
         (Inl e, _) \<Rightarrow> Inl (rango_err_to_py e)
       | (Inr _, opened) \<Rightarrow> Inr opened) (\<lambda>oplog.
     map_err rango_err_to_py (client_open storage oplog node_id rw)))))"

definition py_insert_one :: "deps \<Rightarrow> ('p, 'd) py_api \<Rightarrow> text_api \<Rightarrow> serde_api \<Rightarrow> 's storage_engine \<Rightarrow> 'o oplog_vt \<Rightarrow>
    collection_name \<Rightarrow> 'd \<Rightarrow> (('s, 'o) engine, string) py_op" where
  "py_insert_one D Y T V E L name dict st =
     (case py_dict_to_document Y T V dict of
        Inl e \<Rightarrow> (Inl e, st)
      | Inr d \<Rightarrow>
          (case py_op (collection_insert_one D E L name d) st of
             (Inl e, st) \<Rightarrow> (Inl e, st)
           | (Inr i, st) \<Rightarrow> (Inr (document_id_to_string D i), st)))"

definition py_find_one :: "deps \<Rightarrow> ('p, 'd) py_api \<Rightarrow> text_api \<Rightarrow> serde_api \<Rightarrow> id_api \<Rightarrow> 's storage_engine \<Rightarrow>
    collection_name \<Rightarrow> string \<Rightarrow> (('s, 'o) engine, 'd option) py_op" where
  "py_find_one D Y T V I E name i st =
     (case py_op (collection_find_one E name (parse_doc_id I i)) st of
        (Inl e, st) \<Rightarrow> (Inl e, st)
      | (Inr (Some d), st) \<Rightarrow> (map_sum id Some (rango_doc_to_py_dict D Y T V d), st)
      | (Inr None, st) \<Rightarrow> (Inr None, st))"

definition py_find_many :: "deps \<Rightarrow> ('p, 'd) py_api \<Rightarrow> text_api \<Rightarrow> serde_api \<Rightarrow> 's storage_engine \<Rightarrow> collection_name \<Rightarrow>
    ('s, 'o) engine \<Rightarrow> string + 'd list" where
  "py_find_many D Y T V E name st =
     try_r (map_err rango_err_to_py (collection_find_many D E name st)) (\<lambda>cursor.
     collect_r (\<lambda>row. try_r (map_err rango_err_to_py row) (rango_doc_to_py_dict D Y T V)) cursor)"

definition py_update_one :: "deps \<Rightarrow> ('p, 'd) py_api \<Rightarrow> text_api \<Rightarrow> serde_api \<Rightarrow> id_api \<Rightarrow> 's storage_engine \<Rightarrow>
    'o oplog_vt \<Rightarrow> collection_name \<Rightarrow> string \<Rightarrow> 'd \<Rightarrow> (('s, 'o) engine, bool) py_op" where
  "py_update_one D Y T V I E L name i update st =
     (case py_dict_to_document Y T V update of
        Inl e \<Rightarrow> (Inl e, st)
      | Inr d \<Rightarrow> py_op (collection_update_one D E L name (parse_doc_id I i) (wrap_update d)) st)"

definition py_delete_one :: "deps \<Rightarrow> id_api \<Rightarrow> 's storage_engine \<Rightarrow> 'o oplog_vt \<Rightarrow> collection_name \<Rightarrow> string \<Rightarrow>
    (('s, 'o) engine, bool) py_op" where
  "py_delete_one D I E L name i = py_op (collection_delete_one D E L name (parse_doc_id I i))"

section \<open>Documents and their identifiers\<close>

lemma napi_op_Inr: "napi_op m s = (Inr x, s') \<longleftrightarrow> m s = (Inr x, s')"
  by (auto simp: napi_op_def split: prod.splits)

lemma node_find_one_result:
  "fst (node_find_one D T V I E name i st) =
     try_r (map_err rango_err_to_napi (se_get E (en_storage st) name (parse_doc_id I i))) (\<lambda>m.
     case m of
       Some d \<Rightarrow> if is_deleted d then Inr None else map_sum id Some (rango_doc_to_json D T V \<lparr>doc_data = d\<rparr>)
     | None \<Rightarrow> Inr None)"
proof -
  obtain r st' where find: "find_one E name (parse_doc_id I i) st = (r, st')" by fastforce
  show ?thesis
    using find_one_steps [OF find] find
    by (cases "se_get E (en_storage st) name (parse_doc_id I i)")
      (auto simp: node_find_one_def napi_op_def collection_find_one_def split: option.splits)
qed

section \<open>Properties\<close>

text \<open>
  C34: the bindings find a document by the identifier they returned exactly when the text survives their
  parser: if the parsed identifier prints as the same text, \<open>find_one\<close> yields the document inserted, with
  the user's fields; otherwise it answers as if the document had not been inserted, as for an own
  identifier that is a UUID in capitals.
\<close>

theorem bindings_find_by_returned_id:
  assumes "storage_laws E ok name_ok (document_id_to_string D)" "ok (en_storage st)" "name_ok name"
    and "json_str_to_document T V json_doc = Inr d0" "al_wf d0"
    and "node_insert_one D T V E L name json_doc st = (Inr text, st')"
  shows "if document_id_to_string D (parse_doc_id I text) = text
    then \<exists>d. fst (node_find_one D T V I E name text st') = map_sum id Some (rango_doc_to_json D T V \<lparr>doc_data = d\<rparr>) \<and>
      (\<forall>k. k \<notin> reserved \<longrightarrow> al_get d k = al_get d0 k)
    else fst (node_find_one D T V I E name text st') = fst (node_find_one D T V I E name text st)"
proof -
  obtain i where ins: "insert_one D E L name d0 st = (Inr i, st')" and shown: "text = document_id_to_string D i"
    using assms(4,6) by (auto simp: node_insert_one_def collection_insert_one_def napi_op_Inr split: prod.splits sum.splits)
  obtain d where d: "engine_stamped d0 d" and put: "se_put E (en_storage st) name i d = (Inr (), en_storage st')"
    using storage_laws.insert_puts [OF assms(1,5) ins] by blast
  from storage_laws.put_get [OF assms(1-3,3) put, of "parse_doc_id I text"] d show ?thesis
    by (auto simp: node_find_one_result shown engine_stamped_def)
qed

definition sample_serde :: serde_api where
  "sample_serde = \<lparr>sd_from_value = (\<lambda>v. Inr [(''a'', Null)]), sd_to_value = (\<lambda>d. Inr VNull)\<rparr>"

definition sample_ids :: id_api where
  "sample_ids = \<lparr>ia_uuid_parse = (\<lambda>s. Some (str_bytes s)), ia_oid_parse = (\<lambda>s. None)\<rparr>"

theorem bindings_find_by_returned_id_witness:
  "\<exists>text st d. node_insert_one direct_deps sample_text sample_serde (direct_engine direct_deps) null_oplog_vt ''c'' ''{}''
       direct_sample = (Inr text, st) \<and> al_get d ''a'' = Some Null \<and>
     fst (node_find_one direct_deps sample_text sample_serde sample_ids (direct_engine direct_deps) ''c'' text st) =
       map_sum id Some (rango_doc_to_json direct_deps sample_text sample_serde \<lparr>doc_data = d\<rparr>)"
proof -
  have doc: "json_str_to_document sample_text sample_serde ''{}'' = Inr [(''a'', Null)]"
    by (simp add: json_str_to_document_def sample_text_def sample_serde_def)
  have "\<exists>st. node_insert_one direct_deps sample_text sample_serde (direct_engine direct_deps) null_oplog_vt ''c'' ''{}''
      direct_sample = (Inr [char_of (Suc 0)], st)"
    by (simp add: node_insert_one_def doc collection_insert_one_def napi_op_def direct_steps)
  then obtain st where run: "node_insert_one direct_deps sample_text sample_serde (direct_engine direct_deps)
      null_oplog_vt ''c'' ''{}'' direct_sample = (Inr [char_of (Suc 0)], st)" by blast
  have same: "document_id_to_string direct_deps (parse_doc_id sample_ids [char_of (Suc 0)]) = [char_of (Suc 0)]"
    by (simp add: parse_doc_id_def sample_ids_def document_id_from_bson_def direct_uuid char_byte_def)
  have ok: "direct_inv direct_deps (en_storage direct_sample)" by (simp add: direct_inv_def)
  have wf: "al_wf [(''a'', Null)]" by (simp add: al_wf_def)
  obtain d where d: "fst (node_find_one direct_deps sample_text sample_serde sample_ids (direct_engine direct_deps) ''c''
      [char_of (Suc 0)] st) = map_sum id Some (rango_doc_to_json direct_deps sample_text sample_serde \<lparr>doc_data = d\<rparr>)"
    and user: "\<forall>k. k \<notin> reserved \<longrightarrow> al_get d k = al_get [(''a'', Null)] k"
    using bindings_find_by_returned_id [OF direct.storage_laws_axioms ok TrueI doc wf run, of sample_ids]
    unfolding same if_P [OF refl] by blast
  from user have "al_get d ''a'' = Some Null" by (simp add: reserved_def)
  with run d show ?thesis by blast
qed

end
