(* ===== verification/Rango_Smoke.thy ===== *)
theory Rango_Smoke
  imports Rango_Bindings
begin

text \<open>
  Two programs that run the library from end to end and check what it answers: the smoke run of the
  integration with OpenClaw (\<open>examples/openclaw-smoke/src/main.rs\<close>) and the run that exercises the stable
  operations of the SDK (\<open>examples/sdk-stability/src/main.rs\<close>). Both open a client on a fresh directory.
  The smoke run gives each call a context, which is the text of its error; the other run passes errors on
  and panics on a failed assertion. Printed progress is left out.
\<close>

section \<open>Contexts and checks\<close>

text \<open>\<open>Context::context\<close> and \<open>ensure!\<close> of \<open>anyhow\<close>.\<close>

definition context_r :: "string \<Rightarrow> ('e + 'a) \<Rightarrow> 'a cli_result" where
  "context_r ctx r = map_err (\<lambda>_. Anyhow ctx) r"

definition with_context :: "string \<Rightarrow> ('s, 'a) op \<Rightarrow> ('s, 'a) cli_op" where
  "with_context ctx m s = (case m s of (r, s') \<Rightarrow> (context_r ctx r, s'))"

definition ensure_r :: "bool \<Rightarrow> string \<Rightarrow> unit cli_result" where
  "ensure_r b msg = (if b then Inr () else Inl (Anyhow msg))"

definition lift_cli :: "'a cli_result \<Rightarrow> ('s, 'a) cli_op" where
  "lift_cli r s = (r, s)"

lemma context_simps [simp]:
  "context_r ctx (Inl err) = Inl (Anyhow ctx)" "context_r ctx (Inr y) = Inr y"
  "ensure_r True msg = Inr ()" "ensure_r False msg = Inl (Anyhow msg)"
  "lift_cli r s = (r, s)" "bind_cli (lift_cli (Inr x)) k s = k x s" "bind_cli (lift_cli (Inl e)) k s = (Inl e, s)"
  by (simp_all add: context_r_def ensure_r_def lift_cli_def bind_cli_def)

lemma bind_context:
  "bind_cli (with_context ctx m) k s = (case m s of (Inl e, t) \<Rightarrow> (Inl (Anyhow ctx), t) | (Inr x, t) \<Rightarrow> k x t)"
  by (simp add: bind_cli_def with_context_def split: prod.splits sum.splits)

section \<open>The contract of the OpenClaw integration\<close>

text \<open>
  The hash of the contract's file against the one kept beside the program; the hash function is that of
  the crate \<open>sha2\<close>, printed in hexadecimal.
\<close>

definition check_contract :: "(bytes \<Rightarrow> string) \<Rightarrow> string \<Rightarrow> string \<Rightarrow> string + bytes \<Rightarrow> string + string \<Rightarrow> unit cli_result" where
  "check_contract sha256_hex contract_path fixture_path contract fixture =
     try_r (context_r (''Failed to read contract from '' @ contract_path) contract) (\<lambda>contract_bytes.
     let computed_hash = sha256_hex contract_bytes
     in try_r (context_r (''Failed to read fixture from '' @ fixture_path) fixture) (\<lambda>fixture_text.
        let expected_hash = trim fixture_text
        in if computed_hash \<noteq> expected_hash
           then Inl (Anyhow (''Contract hash mismatch!'' @ [CHR 0x0A] @ ''  Expected: '' @ expected_hash @ [CHR 0x0A] @
             ''  Computed: '' @ computed_hash @ [CHR 0x0A] @ ''  Path: '' @ contract_path @ [CHR 0x0A] @
             ''  Action: contract drifted '' @ map char_of [0xE2 :: nat, 0x80, 0x94] @
             '' review and update fixture if intentional.'' @ [CHR 0x0A] @
             ''  Use: sha256sum '' @ contract_path @ '' | cut -d'' @ [CHR 0x27] @ '' '' @ [CHR 0x27] @ '' -f1 > '' @ fixture_path))
           else Inr ()))"

section \<open>The smoke run\<close>

definition agent_state_doc :: doc where
  "agent_state_doc =
     [(''tenant_id'', String ''default''), (''namespace'', String ''openclaw''), (''agent_id'', String ''test-agent-1''),
      (''status'', String ''idle''), (''active_task_id'', Null), (''updated_at'', String ''2026-04-24T00:00:00Z'')]"

definition task_state_doc :: doc where
  "task_state_doc =
     [(''tenant_id'', String ''default''), (''namespace'', String ''openclaw''), (''task_id'', String ''test-task-1''),
      (''agent_id'', String ''test-agent-1''), (''state'', String ''running''), (''summary'', String ''Test task''),
      (''updated_at'', String ''2026-04-24T00:00:00Z'')]"

definition episodes_doc :: doc where
  "episodes_doc =
     [(''tenant_id'', String ''default''), (''namespace'', String ''openclaw''), (''event_type'', String ''tool_call''),
      (''agent_id'', String ''test-agent-1''), (''task_id'', String ''test-task-1''),
      (''payload'', Document [(''tool'', String ''test_tool'')]), (''created_at'', String ''2026-04-24T00:00:00Z''),
      (''trust_score'', Double (round_f64 (95 / 100)))]"

definition facts_doc :: doc where
  "facts_doc =
     [(''tenant_id'', String ''default''), (''namespace'', String ''openclaw''), (''entity_key'', String ''test-entity''),
      (''fact'', String ''Test fact''), (''confidence'', Double (round_f64 (85 / 100))), (''source_event_ids'', Array []),
      (''verified'', Boolean False), (''updated_at'', String ''2026-04-24T00:00:00Z'')]"

definition derived_fact_doc :: "string \<Rightarrow> doc" where
  "derived_fact_doc episode =
     [(''tenant_id'', String ''default''), (''namespace'', String ''openclaw''), (''entity_key'', String ''derived-entity''),
      (''fact'', String ''Derived fact from episode''), (''confidence'', Double (round_f64 (92 / 100))),
      (''source_event_ids'', Array [String episode]), (''verified'', Boolean True),
      (''updated_at'', String ''2026-04-24T00:00:00Z'')]"

record smoke_ids =
  si_agent_state :: document_id
  si_task_state :: document_id
  si_episodes :: document_id
  si_facts :: document_id

definition write_records :: "deps \<Rightarrow> 's storage_engine \<Rightarrow> 'o oplog_vt \<Rightarrow> (('s, 'o) engine, smoke_ids) cli_op" where
  "write_records D E L =
     bind_cli (with_context ''Failed to insert into agent_state'' (collection_insert_one D E L ''agent_state'' agent_state_doc)) (\<lambda>a.
     bind_cli (with_context ''Failed to insert into task_state'' (collection_insert_one D E L ''task_state'' task_state_doc)) (\<lambda>t.
     bind_cli (with_context ''Failed to insert into episodes'' (collection_insert_one D E L ''episodes'' episodes_doc)) (\<lambda>e.
     bind_cli (with_context ''Failed to insert into facts'' (collection_insert_one D E L ''facts'' facts_doc)) (\<lambda>f.
     return_cli \<lparr>si_agent_state = a, si_task_state = t, si_episodes = e, si_facts = f\<rparr>))))"

text \<open>\<open>data.get(key) == Some(&Bson::String(s))\<close>.\<close>

definition field_is :: "deps \<Rightarrow> doc \<Rightarrow> string \<Rightarrow> string \<Rightarrow> bool" where
  "field_is D d k s = (case al_get d k of Some v \<Rightarrow> bson_eq D v (String s) | None \<Rightarrow> False)"

text \<open>A look-up by identifier and the check that it found a record, which the next line unwraps.\<close>

definition find_record :: "'s storage_engine \<Rightarrow> collection_name \<Rightarrow> string \<Rightarrow> string \<Rightarrow> document_id \<Rightarrow>
    (('s, 'o) engine, doc) cli_op" where
  "find_record E name ctx missing i =
     bind_cli (with_context ctx (collection_find_one E name i)) (\<lambda>found.
     lift_cli (case found of Some d \<Rightarrow> Inr (doc_data d) | None \<Rightarrow> Inl (Anyhow missing)))"

fun count_envelopes :: "deps \<Rightarrow> rango_document result list \<Rightarrow> nat \<Rightarrow> nat cli_result" where
  "count_envelopes D [] n = Inr n"
| "count_envelopes D (row # rows) n =
     try_r (context_r ''Failed to iterate cursor'' row) (\<lambda>d.
     try_r (ensure_r (field_is D (doc_data d) ''tenant_id'' ''default'') ''Episode missing envelope field: tenant_id'') (\<lambda>_.
     try_r (ensure_r (field_is D (doc_data d) ''namespace'' ''openclaw'') ''Episode missing envelope field: namespace'') (\<lambda>_.
     count_envelopes D rows (n + 1))))"

definition read_records :: "deps \<Rightarrow> 's storage_engine \<Rightarrow> smoke_ids \<Rightarrow> (('s, 'o) engine, unit) cli_op" where
  "read_records D E ids =
     bind_cli (find_record E ''agent_state'' ''Failed to find agent_state'' ''agent_state record not found by id''
         (si_agent_state ids)) (\<lambda>a.
     bind_cli (lift_cli (ensure_r (field_is D a ''tenant_id'' ''default'') ''agent_state missing or invalid tenant_id'')) (\<lambda>_.
     bind_cli (lift_cli (ensure_r (field_is D a ''namespace'' ''openclaw'') ''agent_state missing or invalid namespace'')) (\<lambda>_.
     bind_cli (find_record E ''task_state'' ''Failed to find task_state'' ''task_state record not found by id''
         (si_task_state ids)) (\<lambda>t.
     bind_cli (lift_cli (ensure_r (field_is D t ''tenant_id'' ''default'') ''task_state missing or invalid tenant_id'')) (\<lambda>_.
     bind_cli (find_record E ''episodes'' ''Failed to find episodes'' ''episodes record not found by id''
         (si_episodes ids)) (\<lambda>_.
     bind_cli (find_record E ''facts'' ''Failed to find facts'' ''facts record not found by id'' (si_facts ids)) (\<lambda>_ st.
       (try_r (context_r ''Failed to find_many episodes'' (collection_find_many D E ''episodes'' st)) (\<lambda>cursor.
        try_r (count_envelopes D cursor 0) (\<lambda>n.
        ensure_r (1 \<le> n) ''Expected at least 1 episode from find_many'')), st))))))))"

definition promote_fact :: "deps \<Rightarrow> 's storage_engine \<Rightarrow> 'o oplog_vt \<Rightarrow> document_id \<Rightarrow> (('s, 'o) engine, unit) cli_op" where
  "promote_fact D E L episode =
     bind_cli (with_context ''Failed to insert derived fact''
         (collection_insert_one D E L ''facts'' (derived_fact_doc (document_id_to_string D episode)))) (\<lambda>i.
     bind_cli (find_record E ''facts'' ''Failed to find derived fact'' ''Derived fact not found by id'' i) (\<lambda>d.
     bind_cli (lift_cli (ok_or (al_get d ''source_event_ids'')
         (Anyhow ''source_event_ids field missing from derived fact''))) (\<lambda>v.
     bind_cli (lift_cli (ensure_r (unwrap_or (as_array v) [] \<noteq> []) ''source_event_ids array is empty'')) (\<lambda>_.
     bind_cli (lift_cli (ok_or (as_array v) (Anyhow ''source_event_ids is not an array''))) (\<lambda>event_ids.
     lift_cli (ensure_r (\<exists>x\<in>set event_ids. as_str x = Some (document_id_to_string D episode))
       ''source_event_ids does not contain the episode id''))))))"

definition smoke_paths :: "deps \<Rightarrow> 's storage_engine \<Rightarrow> 'o oplog_vt \<Rightarrow> (('s, 'o) engine, unit) cli_op" where
  "smoke_paths D E L =
     bind_cli (write_records D E L) (\<lambda>ids.
     bind_cli (read_records D E ids) (\<lambda>_.
     promote_fact D E L (si_episodes ids)))"

text \<open>The directory is the error of creating it or a fresh workspace.\<close>

definition smoke_main :: "('db, 't, 'c) cli_api \<Rightarrow> (bytes \<Rightarrow> string) \<Rightarrow> string \<Rightarrow> string \<Rightarrow> string + bytes \<Rightarrow>
    string + string \<Rightarrow> string + workspace \<Rightarrow> world \<Rightarrow> unit cli_result" where
  "smoke_main P sha256_hex contract_path fixture_path contract fixture temp rw =
     try_r (check_contract sha256_hex contract_path fixture_path contract fixture) (\<lambda>_.
     try_r (context_r ''Failed to create temp directory'' temp) (\<lambda>w.
     try_r (context_r ''Failed to open RedbStorage'' (redb_open (ca_redb P) (wk_path w @ ''/data.redb''))) (\<lambda>storage.
     try_r (context_r ''Failed to create FileOplog'' (fst (open_oplog P None w))) (\<lambda>oplog.
     try_r (context_r ''Failed to open RangoClient'' (client_open storage oplog ''openclaw-smoke'' rw)) (\<lambda>client.
     fst (smoke_paths (ca_deps P) (cli_storage P) (cli_log P) client))))))"

section \<open>A record that stays\<close>

lemma bson_eq_String: "bson_eq_ok D \<Longrightarrow> bson_eq D (String s) (String s)"
  by (rule bson_eq_okD [THEN iffD2]) simp_all

definition record_at :: "'s storage_engine \<Rightarrow> 's \<Rightarrow> collection_name \<Rightarrow> document_id \<Rightarrow> doc \<Rightarrow> bool" where
  "record_at E s c i d0 \<longleftrightarrow> (\<exists>d. se_get E s c i = Inr (Some d) \<and> engine_stamped d0 d)"

text \<open>A look-up that finds its record changes nothing but a counter.\<close>

lemma find_record_ok:
  assumes "record_at E (en_storage st) c i d0"
  shows "\<exists>d t. find_record E c ctx missing i st = (Inr d, t) \<and> en_storage t = en_storage st \<and> engine_stamped d0 d"
proof -
  obtain r t where find: "find_one E c i st = (r, t)" by fastforce
  obtain d where "se_get E (en_storage st) c i = Inr (Some d)" "engine_stamped d0 d"
    using assms by (auto simp: record_at_def)
  then show ?thesis
    using find find_one_steps [OF find]
    by (simp add: find_record_def collection_find_one_def bind_context engine_stamped_def)
qed

lemma engine_stamped_field: "engine_stamped d0 d \<Longrightarrow> k \<notin> reserved \<Longrightarrow> al_get d k = al_get d0 k"
  by (simp add: engine_stamped_def)

lemma count_envelopes_ok:
  assumes "\<forall>d\<in>set ds. field_is D d ''tenant_id'' ''default'' \<and> field_is D d ''namespace'' ''openclaw''"
  shows "count_envelopes D (map (\<lambda>d. Inr \<lparr>doc_data = d\<rparr>) ds) n = Inr (n + length ds)"
  using assms by (induction ds arbitrary: n) simp_all

text \<open>The errors of a run on a storage that keeps its laws: those of its inserts.\<close>

definition insert_contexts :: "string set" where
  "insert_contexts = {''Failed to insert into agent_state'', ''Failed to insert into task_state'',
     ''Failed to insert into episodes'', ''Failed to insert into facts'', ''Failed to insert derived fact''}"

definition refused_insert :: "'a cli_result \<Rightarrow> bool" where
  "refused_insert r \<longleftrightarrow> (\<exists>ctx\<in>insert_contexts. r = Inl (Anyhow ctx))"

definition smoke_collections :: "string set" where
  "smoke_collections = {''agent_state'', ''task_state'', ''episodes'', ''facts''}"

lemma smoke_docs_wf [simp]:
  "al_wf agent_state_doc" "al_wf task_state_doc" "al_wf episodes_doc" "al_wf facts_doc" "al_wf (derived_fact_doc e)"
  by (simp_all add: al_wf_def agent_state_doc_def task_state_doc_def episodes_doc_def facts_doc_def derived_fact_doc_def)

definition refused_or :: "('x \<Rightarrow> 's \<Rightarrow> bool) \<Rightarrow> 'x cli_result \<times> 's \<Rightarrow> bool" where
  "refused_or Q p \<longleftrightarrow> refused_insert (fst p) \<or> (\<exists>x t. p = (Inr x, t) \<and> Q x t)"

lemma refused_or_bind:
  "refused_or Q (m s) \<Longrightarrow> (\<And>x t. Q x t \<Longrightarrow> refused_or R (k x t)) \<Longrightarrow> refused_or R (bind_cli m k s)"
  by (cases "m s") (fastforce simp: refused_or_def bind_cli_def refused_insert_def)

lemma find_step:
  assumes "record_at E (en_storage st) c i d0"
    and "\<And>d t. en_storage t = en_storage st \<Longrightarrow> engine_stamped d0 d \<Longrightarrow> refused_or Q (k d t)"
  shows "refused_or Q (bind_cli (find_record E c ctx missing i) k st)"
  using find_record_ok [OF assms(1), of ctx missing] assms(2) by (auto simp: bind_cli_def)

text \<open>What the writes leave: a record for each identifier, and nothing but the episode among the episodes.\<close>

definition smoke_written :: "'s storage_engine \<Rightarrow> 's \<Rightarrow> smoke_ids \<Rightarrow> bool" where
  "smoke_written E s ids \<longleftrightarrow>
     record_at E s ''agent_state'' (si_agent_state ids) agent_state_doc \<and>
     record_at E s ''task_state'' (si_task_state ids) task_state_doc \<and>
     record_at E s ''episodes'' (si_episodes ids) episodes_doc \<and>
     record_at E s ''facts'' (si_facts ids) facts_doc \<and>
     (\<forall>j d. se_get E s ''episodes'' j = Inr (Some d) \<longrightarrow> engine_stamped episodes_doc d)"

lemma record_at_cong: "se_get E s' c i = se_get E s c i \<Longrightarrow> record_at E s' c i d0 = record_at E s c i d0"
  by (simp add: record_at_def)

context storage_laws
begin

lemma insert_keeps_record:
  assumes "inv (en_storage st)" "name_ok c" "al_wf d0" "insert_one D E L c d0 st = (Inr i, st')"
  shows "inv (en_storage st') \<and> record_at E (en_storage st') c i d0 \<and>
    (\<forall>c' j. name_ok c' \<longrightarrow> c' \<noteq> c \<or> idtext j \<noteq> idtext i \<longrightarrow>
      se_get E (en_storage st') c' j = se_get E (en_storage st) c' j)"
proof -
  obtain d where d: "engine_stamped d0 d" "se_put E (en_storage st) c i d = (Inr (), en_storage st')"
    using insert_puts [OF assms(3,4)] by blast
  with put_inv [OF assms(1,2) d(2)] put_get [OF assms(1,2) _ d(2)] assms(2) show ?thesis
    by (auto simp: record_at_def)
qed

lemma find_many_live:
  assumes "inv (en_storage st)" "name_ok c"
  shows "\<exists>ds. find_many D E st c = Inr (map Inr ds) \<and>
    set ds = {d. (\<exists>i. se_get E (en_storage st) c i = Inr (Some d)) \<and> \<not> is_deleted d}"
proof -
  obtain ds where ds: "se_scan E (en_storage st) c = Inr (map Inr ds)"
    "set ds = {d. \<exists>i. se_get E (en_storage st) c i = Inr (Some d)}"
    using scan_get [OF assms] by blast
  have "\<forall>d\<in>set ds. \<not> is_deleted d \<longrightarrow> filter_ok D d []" by simp
  from find_docs_ok(1) [OF ds(1) this, of None None None] ds(2) show ?thesis
    by (intro exI [of _ "filter (live D []) ds"])
      (auto simp: find_many_def limited_def project_or_same_def live_def comp_def)
qed

lemma insert_step:
  assumes "inv (en_storage st)" "name_ok c" "al_wf d0" "ctx \<in> insert_contexts"
    and "\<And>i s'. inv (en_storage s') \<Longrightarrow> record_at E (en_storage s') c i d0 \<Longrightarrow>
      (\<And>c' j. name_ok c' \<Longrightarrow> c' \<noteq> c \<or> idtext j \<noteq> idtext i \<Longrightarrow>
        se_get E (en_storage s') c' j = se_get E (en_storage st) c' j) \<Longrightarrow> refused_or Q (k i s')"
  shows "refused_or Q (bind_cli (with_context ctx (collection_insert_one D E L c d0)) k st)"
proof -
  obtain r s' where ins: "insert_one D E L c d0 st = (r, s')" by fastforce
  show ?thesis
  proof (cases r)
    case (Inl e)
    with ins assms(4) show ?thesis
      by (auto simp: collection_insert_one_def bind_context refused_or_def refused_insert_def)
  next
    case (Inr i)
    with insert_keeps_record [OF assms(1-3)] ins assms(5) [of s' i] show ?thesis
      by (simp add: collection_insert_one_def bind_context)
  qed
qed

lemma write_records_ok:
  assumes inv: "inv (en_storage st)" and names: "\<forall>c\<in>smoke_collections. name_ok c"
    and fresh: "\<forall>i. se_get E (en_storage st) ''episodes'' i = Inr None"
  shows "refused_or (\<lambda>ids t. inv (en_storage t) \<and> smoke_written E (en_storage t) ids) (write_records D E L st)"
proof -
  have c [simp]: "name_ok ''agent_state''" "name_ok ''task_state''" "name_ok ''episodes''" "name_ok ''facts''"
    using names by (simp_all add: smoke_collections_def)
  have only: "engine_stamped episodes_doc d"
    if "inv s" "record_at E s ''episodes'' e episodes_doc" "se_get E s ''episodes'' j = Inr (Some d)"
      "\<And>j. idtext j \<noteq> idtext e \<Longrightarrow> se_get E s ''episodes'' j = Inr None" for s e j d
    using that get_idtext [of s "''episodes''" j e] by (cases "idtext j = idtext e") (auto simp: record_at_def)
  show ?thesis
    unfolding write_records_def
    apply (rule insert_step [OF inv c(1)], simp, simp add: insert_contexts_def)
    apply (rule insert_step [OF _ c(2)], assumption, simp, simp add: insert_contexts_def)
    apply (rule insert_step [OF _ c(3)], assumption, simp, simp add: insert_contexts_def)
    apply (rule insert_step [OF _ c(4)], assumption, simp, simp add: insert_contexts_def)
    subgoal premises p for a s1 b s2 e s3 f s4
    proof -
      have "se_get E (en_storage s4) ''episodes'' j = Inr None" if "idtext j \<noteq> idtext e" for j
        using that fresh p(3,6,9,12) by simp
      moreover have "record_at E (en_storage s4) ''episodes'' e episodes_doc"
        "record_at E (en_storage s4) ''agent_state'' a agent_state_doc"
        "record_at E (en_storage s4) ''task_state'' b task_state_doc"
        using p by (simp_all add: record_at_def)
      ultimately show ?thesis
        using p only [OF p(10)] by (auto simp: refused_or_def smoke_written_def)
    qed
    done
qed

lemma read_records_ok:
  assumes inv: "inv (en_storage st)" and names: "\<forall>c\<in>smoke_collections. name_ok c" and eq: "bson_eq_ok D"
    and written: "smoke_written E (en_storage st) ids"
  shows "refused_or (\<lambda>_ t. en_storage t = en_storage st) (read_records D E ids st)"
proof -
  have field: "field_is D d k s" if "engine_stamped d0 d" "k \<notin> reserved" "al_get d0 k = Some (String s)" for d0 d k s
    using that by (simp add: field_is_def engine_stamped_field bson_eq_String [OF eq])
  have envelope: "field_is D d ''tenant_id'' ''default''" "field_is D d ''namespace'' ''openclaw''"
    if "engine_stamped d0 d" "d0 \<in> {agent_state_doc, task_state_doc, episodes_doc}" for d0 d
    using that by (auto intro!: field simp: reserved_def agent_state_doc_def task_state_doc_def episodes_doc_def)
  have cursor: "\<exists>rows n. collection_find_many D E ''episodes'' t = Inr rows \<and> count_envelopes D rows 0 = Inr (Suc n)"
    if t: "en_storage t = en_storage st" for t :: "('s, 'o) engine"
  proof -
    obtain ds where ds: "find_many D E t ''episodes'' = Inr (map Inr ds)"
      "set ds = {d. (\<exists>i. se_get E (en_storage st) ''episodes'' i = Inr (Some d)) \<and> \<not> is_deleted d}"
      using find_many_live [of t "''episodes''" D] inv names unfolding t smoke_collections_def by blast
    have stamped: "\<forall>d\<in>set ds. engine_stamped episodes_doc d" using ds(2) written by (auto simp: smoke_written_def)
    have "ds \<noteq> []" using ds(2) written by (force simp: smoke_written_def record_at_def engine_stamped_def)
    moreover have "count_envelopes D (map (\<lambda>d. Inr \<lparr>doc_data = d\<rparr>) ds) 0 = Inr (length ds)"
      using count_envelopes_ok [of ds D 0] stamped envelope [of episodes_doc] by simp
    ultimately show ?thesis
      by (cases ds) (simp_all add: collection_find_many_def sdk_cursor_def comp_def ds(1))
  qed
  show ?thesis
    unfolding read_records_def
    apply (rule find_step [of E st, where ?d0.0 = agent_state_doc])
     apply (use written in \<open>simp add: smoke_written_def\<close>)
    apply (simp add: envelope [of agent_state_doc])
    apply (rule find_step [where ?d0.0 = task_state_doc])
     apply (use written in \<open>simp add: smoke_written_def\<close>)
    apply (simp add: envelope [of task_state_doc])
    apply (rule find_step [where ?d0.0 = episodes_doc])
     apply (use written in \<open>simp add: smoke_written_def\<close>)
    apply (rule find_step [where ?d0.0 = facts_doc])
     apply (use written in \<open>simp add: smoke_written_def\<close>)
    subgoal for a s1 t s2 e s3 f s4
      using cursor [of s4] by (auto simp: refused_or_def)
    done
qed

lemma promote_fact_ok:
  assumes "inv (en_storage st)" "\<forall>c\<in>smoke_collections. name_ok c"
  shows "refused_or (\<lambda>_ t. True) (promote_fact D E L episode st)"
proof -
  have lineage: "al_get d ''source_event_ids'' = Some (Array [String e])"
    if "engine_stamped (derived_fact_doc e) d" for d e
    using that by (simp add: engine_stamped_field reserved_def derived_fact_doc_def)
  show ?thesis
    unfolding promote_fact_def
    by (rule insert_step [OF assms(1)], use assms(2) in \<open>simp_all add: smoke_collections_def insert_contexts_def\<close>)
      (erule find_step, simp add: refused_or_def lineage)
qed

lemma smoke_paths_ok:
  assumes "inv (en_storage st)" "\<forall>c\<in>smoke_collections. name_ok c" "bson_eq_ok D"
    and "\<forall>i. se_get E (en_storage st) ''episodes'' i = Inr None"
  shows "refused_or (\<lambda>_ t. True) (smoke_paths D E L st)"
  unfolding smoke_paths_def
  apply (rule refused_or_bind, rule write_records_ok [OF assms(1,2,4)])
  apply (rule refused_or_bind, rule read_records_ok [OF _ assms(2,3)], simp, simp)
  apply (simp add: promote_fact_ok [OF _ assms(2)])
  done

end

section \<open>Properties\<close>

text \<open>
  C30: The smoke run passes: on any storage that keeps its laws and holds no episodes, the run ends well or
  with the error of one of its five inserts; no record it wrote is missing or lacks its envelope, the
  episodes are counted, and the derived fact names the episode.
\<close>

theorem smoke_checks_hold:
  assumes "storage_laws E ok name_ok idtext" "ok (en_storage st)" "\<forall>c\<in>smoke_collections. name_ok c" "bson_eq_ok D"
    and "\<forall>i. se_get E (en_storage st) ''episodes'' i = Inr None"
  shows "fst (smoke_paths D E L st) = Inr () \<or>
    (\<exists>ctx\<in>insert_contexts. fst (smoke_paths D E L st) = Inl (Anyhow ctx))"
  using storage_laws.smoke_paths_ok [OF assms, of L] by (auto simp: refused_or_def refused_insert_def)

text \<open>An engine on the storage without a codec refuses no insert.\<close>

definition ready :: "(direct_storage, null_oplog) engine \<Rightarrow> bool" where
  "ready st \<longleftrightarrow> (\<exists>n k. en_world st = sample_world_at n k) \<and> en_config st = default_config \<and> en_node_id st = ''n''"

definition never_refused :: "((direct_storage, null_oplog) engine, 'a) cli_op \<Rightarrow> bool" where
  "never_refused m \<longleftrightarrow> (\<forall>st. ready st \<longrightarrow> ready (snd (m st)) \<and> \<not> refused_insert (fst (m st)))"

lemma never_refused_bind:
  "never_refused m \<Longrightarrow> (\<And>x. never_refused (k x)) \<Longrightarrow> never_refused (bind_cli m k)"
  by (fastforce simp: never_refused_def bind_cli_def refused_insert_def split: prod.splits sum.splits)

lemma never_refused_insert:
  assumes "al_get d ''_id'' = None" "c \<noteq> []"
  shows "never_refused (with_context ctx (collection_insert_one direct_deps (direct_engine direct_deps) null_oplog_vt c d))"
proof -
  have "\<exists>i t. insert_one direct_deps (direct_engine direct_deps) null_oplog_vt c d st = (Inr i, t) \<and> ready t"
    if "ready st" for st
    using that assms unfolding ready_def by (auto simp: direct_steps) blast
  then show ?thesis
    by (fastforce simp: never_refused_def collection_insert_one_def with_context_def refused_insert_def)
qed

lemma never_refused_find:
  assumes "ctx \<notin> insert_contexts" "missing \<notin> insert_contexts"
  shows "never_refused (find_record (direct_engine direct_deps) c ctx missing i)"
  using assms
  by (auto simp: never_refused_def find_record_def with_context_def bind_cli_def collection_find_one_def find_one_def
      bind_op_def record_op_def storage_get_def return_op_def refused_insert_def ready_def split: option.splits)

lemma never_refused_lift: "\<not> refused_insert r \<Longrightarrow> never_refused (lift_cli r)"
  by (simp add: never_refused_def)

lemma unrefused_ensure: "msg \<notin> insert_contexts \<Longrightarrow> \<not> refused_insert (ensure_r b msg)"
  by (auto simp: ensure_r_def refused_insert_def)

lemma unrefused_try:
  "\<not> refused_insert r \<Longrightarrow> (\<And>x. \<not> refused_insert (f x)) \<Longrightarrow> \<not> refused_insert (try_r r f)"
  by (cases r) (auto simp: refused_insert_def)

lemma unrefused_rest:
  "ctx \<notin> insert_contexts \<Longrightarrow> \<not> refused_insert (context_r ctx q)"
  "msg \<notin> insert_contexts \<Longrightarrow> \<not> refused_insert (ok_or m (Anyhow msg))"
  by (cases q; auto simp: refused_insert_def) (cases m; auto simp: refused_insert_def)

lemma unrefused_Inr [simp]: "\<not> refused_insert (Inr x)"
  by (simp add: refused_insert_def)

lemmas unrefused = never_refused_bind never_refused_insert never_refused_find never_refused_lift unrefused_ensure
  unrefused_rest unrefused_try

lemma unrefused_count: "\<not> refused_insert (count_envelopes D rows n)"
proof (induction rows arbitrary: n)
  case (Cons row rows)
  then show ?case
    unfolding count_envelopes.simps by (intro unrefused) (simp_all add: insert_contexts_def)
qed simp

lemma never_refused_read: "(\<And>st. \<not> refused_insert (f st)) \<Longrightarrow> never_refused (\<lambda>st. (f st, st))"
  by (simp add: never_refused_def)

theorem smoke_checks_hold_witness:
  "fst (smoke_paths direct_deps (direct_engine direct_deps) null_oplog_vt direct_sample) = Inr ()"
proof -
  have "never_refused (smoke_paths direct_deps (direct_engine direct_deps) null_oplog_vt)"
    unfolding smoke_paths_def write_records_def promote_fact_def read_records_def
    by (intro unrefused never_refused_read)
      (simp_all add: agent_state_doc_def task_state_doc_def episodes_doc_def facts_doc_def derived_fact_doc_def
        insert_contexts_def unrefused_count, simp_all add: refused_insert_def return_cli_def never_refused_def)
  moreover have "ready direct_sample" by (auto simp: ready_def)
  ultimately have "\<not> refused_insert (fst (smoke_paths direct_deps (direct_engine direct_deps) null_oplog_vt direct_sample))"
    by (simp add: never_refused_def)
  then show ?thesis
    using smoke_checks_hold [OF direct.storage_laws_axioms [of direct_deps], of direct_sample direct_deps null_oplog_vt]
    by (auto simp: refused_insert_def bson_eq_ok_def direct_deps_def)
qed

end
