(* ===== verification/Rango_Stability.thy ===== *)
theory Rango_Stability
  imports Rango_Smoke
begin

text \<open>
  The run that exercises the stable operations of the SDK (\<open>examples/sdk-stability/src/main.rs\<close>): the
  operations of a collection, then export and import, on a fresh directory. An error is passed on, a failed
  assertion is a panic. The values the program only builds, to see that their types are exported, are left
  out, as is what it prints.
\<close>

section \<open>The operations of a collection\<close>

definition alice :: doc where
  "alice = [(''name'', String ''Alice''), (''score'', Int32 95), (''verified'', Boolean True)]"

definition bob :: doc where
  "bob = [(''name'', String ''Bob''), (''score'', Int32 87)]"

definition charlie :: doc where
  "charlie = [(''name'', String ''Charlie''), (''score'', Int32 92)]"

text \<open>The loop over a cursor that passes on the first error.\<close>

fun count_rows :: "rango_document result list \<Rightarrow> nat \<Rightarrow> nat result" where
  "count_rows [] n = Inr n"
| "count_rows (row # rows) n = try_r row (\<lambda>_. count_rows rows (n + 1))"

text \<open>What the collection handle of the program is asked, to the deletion.\<close>

definition stability_crud :: "deps \<Rightarrow> 's storage_engine \<Rightarrow> 'o oplog_vt \<Rightarrow> (('s, 'o) engine, unit) cli_op" where
  "stability_crud D E L =
     bind_cli (anyhow_op (collection_insert_one D E L ''documents'' alice)) (\<lambda>id1.
     bind_cli (anyhow_op (collection_find_one E ''documents'' id1)) (\<lambda>found.
     bind_cli (assert_cli (found \<noteq> None)) (\<lambda>_.
     bind_cli (anyhow_op (collection_update_one D E L ''documents'' id1
         [(''$set'', Document [(''score'', Int32 98)])])) (\<lambda>updated.
     bind_cli (assert_cli updated) (\<lambda>_.
     bind_cli (anyhow_op (collection_insert_one D E L ''documents'' bob)) (\<lambda>_.
     bind_cli (anyhow_op (collection_insert_one D E L ''documents'' charlie)) (\<lambda>_.
     bind_cli (\<lambda>st. (anyhow_r (collection_find_many D E ''documents'' st), st)) (\<lambda>cursor.
     bind_cli (assert_cli (length (oks cursor) = 3)) (\<lambda>_.
     bind_cli (\<lambda>st. (anyhow_r (collection_find_many D E ''documents'' st), st)) (\<lambda>cursor.
     bind_cli (lift_cli (anyhow_r (count_rows cursor 0))) (\<lambda>doc_count.
     bind_cli (assert_cli (doc_count = 3)) (\<lambda>_.
     bind_cli (anyhow_op (collection_delete_one D E L ''documents'' id1)) (\<lambda>deleted.
     assert_cli deleted)))))))))))))"

section \<open>Export, import and the program\<close>

text \<open>\<open>fs::write\<close> of an import file, and the import of what it wrote unless opening it fails.\<close>

definition write_and_import :: "deps \<Rightarrow> text_api \<Rightarrow> 's storage_engine \<Rightarrow> 'o oplog_vt \<Rightarrow> collection_name \<Rightarrow>
    string option \<Rightarrow> string option \<Rightarrow> string \<Rightarrow> (('s, 'o) engine, import_result) cli_op" where
  "write_and_import D T E L c write_fault open_fault contents st =
     (case write_fault of
        Some e \<Rightarrow> (Inl (Anyhow e), st)
      | None \<Rightarrow>
          (case import_json D T E L c (case open_fault of Some e \<Rightarrow> Inl e | None \<Rightarrow> Inr (str_bytes contents)) st of
             ((r, _), st) \<Rightarrow> (anyhow_r r, st)))"

definition two_lines :: string where
  "two_lines = [CHR 0x7B, CHR 0x22] @ ''name'' @ [CHR 0x22, CHR 0x3A, CHR 0x22] @ ''Diana'' @ [CHR 0x22, CHR 0x2C, CHR 0x22] @
     ''score'' @ [CHR 0x22, CHR 0x3A] @ ''88'' @ [CHR 0x7D, CHR 0x0A] @
     [CHR 0x7B, CHR 0x22] @ ''name'' @ [CHR 0x22, CHR 0x3A, CHR 0x22] @ ''Eve'' @ [CHR 0x22, CHR 0x2C, CHR 0x22] @
     ''score'' @ [CHR 0x22, CHR 0x3A] @ ''91'' @ [CHR 0x7D]"

definition one_line :: string where
  "one_line = [CHR 0x7B, CHR 0x22] @ ''name'' @ [CHR 0x22, CHR 0x3A, CHR 0x22] @ ''Frank'' @ [CHR 0x22, CHR 0x2C, CHR 0x22] @
     ''score'' @ [CHR 0x22, CHR 0x3A] @ ''89'' @ [CHR 0x7D]"

text \<open>The faults of the calls on the three files, the export's by their number.\<close>

record file_faults =
  ff_export :: "nat \<Rightarrow> string option"
  ff_write :: "string option"
  ff_open :: "string option"
  ff_write2 :: "string option"
  ff_open2 :: "string option"

definition stability_files :: "deps \<Rightarrow> text_api \<Rightarrow> 's storage_engine \<Rightarrow> 'o oplog_vt \<Rightarrow> file_faults \<Rightarrow>
    (('s, 'o) engine, unit) cli_op" where
  "stability_files D T E L F =
     bind_cli (\<lambda>st. (anyhow_r (export_json D T E (ff_export F) ''documents'' st), st)) (\<lambda>(contents, exported).
     bind_cli (assert_cli (0 < exported)) (\<lambda>_.
     bind_cli (write_and_import D T E L ''imported'' (ff_write F) (ff_open F) two_lines) (\<lambda>res.
     bind_cli (assert_cli (ir_imported res = 2)) (\<lambda>_.
     bind_cli (assert_cli (ir_errors res = 0)) (\<lambda>_.
     bind_cli (write_and_import D T E L ''imported2'' (ff_write2 F) (ff_open2 F) one_line) (\<lambda>res2.
     assert_cli (ir_imported res2 = 1)))))))"

definition stability_main :: "('db, 't, 'c) cli_api \<Rightarrow> file_faults \<Rightarrow> string + workspace \<Rightarrow> world \<Rightarrow> unit cli_result" where
  "stability_main P F temp rw =
     try_r (map_err Anyhow temp) (\<lambda>w.
     try_r (anyhow_r (redb_open (ca_redb P) (wk_path w @ ''/data.redb''))) (\<lambda>storage.
     try_r (anyhow_r (fst (open_oplog P None w))) (\<lambda>oplog.
     try_r (anyhow_r (client_open storage oplog ''stability-test-node'' rw)) (\<lambda>client.
     fst (bind_cli (stability_crud (ca_deps P) (cli_storage P) (cli_log P))
       (\<lambda>_. stability_files (ca_deps P) (ca_text P) (cli_storage P) (cli_log P) F) client)))))"

section \<open>Time and identifiers\<close>

text \<open>The outside world moves on and draws no identifier twice.\<close>

definition later :: "world \<Rightarrow> world \<Rightarrow> bool" where
  "later w w' \<longleftrightarrow> w_uuids w' = w_uuids w \<and> w_tick w \<le> w_tick w'"

lemma later_simps [simp]:
  "later w w" "later w (snd (instant_now w'))  \<longleftrightarrow> w_uuids w' = w_uuids w \<and> w_tick w \<le> Suc (w_tick w')"
  by (simp_all add: later_def instant_now_def)

lemma later_trans: "later w w' \<Longrightarrow> later w' w'' \<Longrightarrow> later w w''"
  by (simp add: later_def)

lemma preserves_world:
  assumes "\<And>v. later v (snd (f v))"
  shows "preserves (\<lambda>st. later w (en_world st)) (from_world f)"
  unfolding preserves_def from_world_eq using later_trans [OF _ assms] by simp

lemma later_draws:
  "later v (snd (instant_now v))" "later v (snd (datetime_now v))" "later v (snd (revision_now D n v))"
  "later v (snd (document_id_new_uuid_v7 v))"
  by (simp_all add: later_def instant_now_def datetime_now_def revision_now_def unix_now_def fetch_add_counter_def
      document_id_new_uuid_v7_def uuid_now_v7_def split: prod.splits)

lemma preserves_others:
  "preserves (\<lambda>st. later w (en_world st)) (storage_put E c i d)"
  "preserves (\<lambda>st. later w (en_world st)) (storage_get E c i)"
  "preserves (\<lambda>st. later w (en_world st)) (oplog_append L e)"
  "preserves (\<lambda>st. later w (en_world st)) (record_op g)"
  by (simp_all add: preserves_def storage_put_def storage_get_def oplog_append_def record_op_def split: prod.splits)

lemmas moves_on = preserves_bind preserves_get preserves_basic preserves_world later_draws preserves_others

lemma commit_local_later:
  "preserves (\<lambda>st. later w (en_world st)) (commit_local D E L oper c i d patch rv tally start x)"
  unfolding commit_local_def log_local_def record_latency_def Let_def by (intro moves_on)

lemma update_one_later: "preserves (\<lambda>st. later w (en_world st)) (update_one D E L c i u)"
  unfolding update_one_def Let_def
  by (intro moves_on commit_local_later) (auto intro!: moves_on commit_local_later split: option.split)

text \<open>An insert without an identifier takes the second draw.\<close>

lemma insert_one_draws:
  assumes "al_get d0 ''_id'' = None" "insert_one D E L c d0 st = (Inr i, st')"
  shows "i = Binary uuid_subtype (w_uuids (en_world st) (Suc (w_tick (en_world st)))) \<and>
    w_uuids (en_world st') = w_uuids (en_world st) \<and> Suc (Suc (w_tick (en_world st))) \<le> w_tick (en_world st')"
proof -
  let ?w = "snd (document_id_new_uuid_v7 (snd (instant_now (en_world st))))"
  let ?j = "fst (document_id_new_uuid_v7 (snd (instant_now (en_world st))))"
  from assms obtain d p r start w
    where commit: "commit_local D E L Insert c ?j d p r record_insert start ?j (st\<lparr>en_world := w\<rparr>) = (Inr i, st')"
      and w: "later ?w w"
    by (clarsimp simp: insert_one_def op_steps)
      (erule meta_allE, erule meta_allE, erule meta_allE, erule meta_allE, erule meta_allE, erule meta_mp [THEN meta_mp],
       rule later_trans [OF later_draws(3) later_draws(2)])
  have "i = ?j" using commit_local_ok [OF commit] by simp
  moreover have "later w (en_world (snd (Inr i :: document_id result, st')))"
    unfolding commit [symmetric] by (rule preservesD [OF commit_local_later]) simp
  ultimately show ?thesis
    using later_trans [OF w] by (auto simp: later_def document_id_new_uuid_v7_def uuid_now_v7_def instant_now_def)
qed

section \<open>The assertions hold\<close>

definition no_panic :: "('x \<Rightarrow> 's \<Rightarrow> bool) \<Rightarrow> 'x cli_result \<times> 's \<Rightarrow> bool" where
  "no_panic Q p \<longleftrightarrow> fst p \<noteq> Inl Panicked \<and> (\<forall>x t. p = (Inr x, t) \<longrightarrow> Q x t)"

lemma no_panic_op:
  assumes "\<And>x t. m st = (Inr x, t) \<Longrightarrow> no_panic Q (k x t)"
  shows "no_panic Q (bind_cli (anyhow_op m) k st)"
proof -
  obtain r t where m: "m st = (r, t)" by fastforce
  with assms show ?thesis by (cases r) (auto simp: no_panic_def bind_cli_def anyhow_op_def)
qed

lemma no_panic_assert: "b \<Longrightarrow> no_panic Q (k () st) \<Longrightarrow> no_panic Q (bind_cli (assert_cli b) k st)"
  by simp

lemma length_oks_Inr [simp]: "length (oks (map (\<lambda>d. Inr (f d)) ds)) = length ds"
  by (induction ds) simp_all

lemma count_rows_ok: "count_rows (map (\<lambda>d. Inr \<lparr>doc_data = d\<rparr>) ds) n = Inr (n + length ds)"
  by (induction ds arbitrary: n) simp_all

text \<open>The live documents of a collection are those of a set of identifiers.\<close>

definition holds_docs :: "'s storage_engine \<Rightarrow> (document_id \<Rightarrow> string) \<Rightarrow> collection_name \<Rightarrow> document_id set \<Rightarrow> 's \<Rightarrow> bool" where
  "holds_docs E idtext c ids s \<longleftrightarrow>
     (\<forall>i d. se_get E s c i = Inr (Some d) \<longrightarrow> \<not> is_deleted d \<and> idtext i \<in> idtext ` ids) \<and>
     (\<forall>i\<in>ids. \<exists>d. se_get E s c i = Inr (Some d))"

definition drawn :: "(nat \<Rightarrow> bytes) \<Rightarrow> nat \<Rightarrow> document_id" where
  "drawn U n = Binary uuid_subtype (U n)"

lemma stability_docs [simp]:
  "al_wf alice" "al_wf bob" "al_wf charlie"
  "al_get alice ''_id'' = None" "al_get bob ''_id'' = None" "al_get charlie ''_id'' = None"
  by (simp_all add: alice_def bob_def charlie_def al_wf_def)

context storage_scans
begin

lemma insert_holds_docs:
  assumes "inv (en_storage st)" "name_ok c" "al_wf d0" "holds_docs E idtext c ids (en_storage st)"
    and "insert_one D E L c d0 st = (Inr i, st')"
  shows "inv (en_storage st') \<and> holds_docs E idtext c (insert i ids) (en_storage st')"
proof -
  obtain d where d: "engine_stamped d0 d" "se_put E (en_storage st) c i d = (Inr (), en_storage st')"
    using insert_puts [OF assms(3,5)] by blast
  then show ?thesis
    using assms(4) put_inv [OF assms(1,2) d(2)] put_get [OF assms(1,2,2) d(2)]
    by (auto simp: holds_docs_def engine_stamped_def)
qed

lemma find_one_holds_docs:
  assumes "holds_docs E idtext c ids (en_storage st)" "i \<in> ids" "find_one E c i st = (Inr found, st')"
  shows "found \<noteq> None \<and> en_storage st' = en_storage st"
  using find_one_steps [OF assms(3)] assms(1,2) by (force simp: holds_docs_def split: if_splits)

lemma update_holds_docs:
  assumes "inv (en_storage st)" "name_ok c" "holds_docs E idtext c ids (en_storage st)" "i \<in> ids"
    and "update_one D E L c i [(''$set'', Document [(k, v)])] st = (Inr b, st')" "k \<noteq> ''_deleted''"
  shows "b \<and> inv (en_storage st') \<and> holds_docs E idtext c ids (en_storage st')"
proof -
  obtain d0 where d0: "se_get E (en_storage st) c i = Inr (Some d0)" "\<not> is_deleted d0"
    using assms(3,4) by (auto simp: holds_docs_def)
  with update_one_ok [OF assms(5)] obtain d r t where d: "b" "d = stamped (al_put d0 k v) r t (en_node_id st)"
    "se_put E (en_storage st) c i d = (Inr (), en_storage st')" by auto
  then have "\<not> is_deleted d" using d0(2) assms(6) by (simp add: is_deleted_iff stamped_get)
  then show ?thesis
    using assms(3,4) d(1) put_inv [OF assms(1,2) d(3)] put_get [OF assms(1,2,2) d(3)]
    by (auto simp: holds_docs_def)
qed

lemma delete_holds_docs:
  assumes "inv (en_storage st)" "name_ok c" "holds_docs E idtext c ids (en_storage st)" "i \<in> ids"
    and "delete_one D E L c i st = (Inr b, st')"
  shows "b"
  using delete_one_tombstones [OF assms(1,2,5)] assms(3,4) by (auto simp: holds_docs_def)

text \<open>The cursor has a row for each of them.\<close>

lemma cursor_holds_docs:
  assumes "inv (en_storage st)" "name_ok c" "holds_docs E idtext c ids (en_storage st)" "inj_on idtext ids"
  shows "\<exists>ds. collection_find_many D E c st = Inr (map (\<lambda>d. Inr \<lparr>doc_data = d\<rparr>) ds) \<and> length ds = card ids"
proof -
  let ?s = "en_storage st"
  obtain ds where scan: "se_scan E ?s c = Inr (map Inr ds)" using scan_get [OF assms(1,2)] by blast
  have once: "scanned_once (se_get E ?s c) idtext ds" by (rule scan_once [OF assms(1,2) scan])
  have live: "\<forall>d\<in>set ds. \<not> is_deleted d"
    using scanned_once_found [OF once] assms(3) by (auto simp: holds_docs_def)
  obtain js where js: "distinct (map idtext js)" "map (se_get E ?s c) js = map (\<lambda>d. Inr (Some d)) ds"
    "\<And>i d. se_get E ?s c i = Inr (Some d) \<Longrightarrow> idtext i \<in> set (map idtext js)"
    using once unfolding scanned_once_def by blast
  have "set (map idtext js) = idtext ` ids"
  proof (intro equalityI subsetI)
    fix x assume "x \<in> set (map idtext js)"
    then obtain i where i: "i \<in> set js" "x = idtext i" by auto
    then have "se_get E ?s c i \<in> set (map (\<lambda>d. Inr (Some d)) ds)" unfolding js(2) [symmetric] by simp
    then show "x \<in> idtext ` ids" using assms(3) i(2) by (auto simp: holds_docs_def)
  next
    fix x assume "x \<in> idtext ` ids"
    then show "x \<in> set (map idtext js)" using assms(3) js(3) by (auto simp: holds_docs_def)
  qed
  then have "length ds = card (idtext ` ids)"
    using distinct_card [OF js(1)] js(2) by (metis length_map)
  moreover have "card (idtext ` ids) = card ids" by (rule card_image [OF assms(4)])
  moreover have "filter (live D []) ds = ds" using live by (simp add: live_def)
  moreover have "\<forall>d\<in>set ds. \<not> is_deleted d \<longrightarrow> filter_ok D d []" by simp
  ultimately show ?thesis
    using find_docs_ok(1) [OF scan, of D "[]" None None None]
    by (intro exI [of _ ds])
      (simp add: collection_find_many_def sdk_cursor_def find_many_def limited_def project_or_same_def comp_def)
qed

text \<open>A collection of documents under identifiers drawn so far, which are told apart by their texts.\<close>

definition tracked :: "(nat \<Rightarrow> bytes) \<Rightarrow> collection_name \<Rightarrow> document_id set \<Rightarrow> ('a, 'o) engine \<Rightarrow> bool" where
  "tracked U c ids st \<longleftrightarrow> inv (en_storage st) \<and> name_ok c \<and> inj (\<lambda>n. idtext (drawn U n)) \<and>
     w_uuids (en_world st) = U \<and> ids \<subseteq> drawn U ` {..<w_tick (en_world st)} \<and>
     holds_docs E idtext c ids (en_storage st)"

lemma tracked_inj: "tracked U c ids st \<Longrightarrow> inj_on idtext ids"
proof (rule inj_onI)
  fix x y assume t: "tracked U c ids st" and xy: "x \<in> ids" "y \<in> ids" "idtext x = idtext y"
  then obtain m n where "x = drawn U m" "y = drawn U n" unfolding tracked_def by blast
  with t xy(3) show "x = y" by (auto simp: tracked_def dest: injD)
qed

lemma step_insert:
  assumes t: "tracked U c ids st" and d: "al_wf d0" "al_get d0 ''_id'' = None"
    and k: "\<And>i s'. i \<notin> ids \<Longrightarrow> tracked U c (insert i ids) s' \<Longrightarrow> no_panic Q (k i s')"
  shows "no_panic Q (bind_cli (anyhow_op (insert_one D E L c d0)) k st)"
proof (rule no_panic_op)
  fix i s' assume ins: "insert_one D E L c d0 st = (Inr i, s')"
  have i: "i = drawn U (Suc (w_tick (en_world st)))" "w_uuids (en_world s') = U"
    "Suc (Suc (w_tick (en_world st))) \<le> w_tick (en_world s')"
    using insert_one_draws [OF d(2) ins] t by (simp_all add: drawn_def tracked_def)
  have "i \<notin> ids"
  proof
    assume "i \<in> ids"
    then obtain n where n: "n < w_tick (en_world st)" "i = drawn U n" using t unfolding tracked_def by blast
    then have "idtext (drawn U n) = idtext (drawn U (Suc (w_tick (en_world st))))" using i(1) by simp
    with t have "n = Suc (w_tick (en_world st))" unfolding tracked_def by (auto dest: injD)
    with n(1) show False by simp
  qed
  moreover have "drawn U ` {..<w_tick (en_world st)} \<subseteq> drawn U ` {..<w_tick (en_world s')}"
    using i(3) by auto
  then have "tracked U c (insert i ids) s'"
    using t i insert_holds_docs [OF _ _ d(1) _ ins] by (auto simp: tracked_def)
  ultimately show "no_panic Q (k i s')" by (rule k)
qed

lemma step_find:
  assumes "tracked U c ids st" "i \<in> ids"
    and k: "\<And>found s'. found \<noteq> None \<Longrightarrow> tracked U c ids s' \<Longrightarrow> no_panic Q (k found s')"
  shows "no_panic Q (bind_cli (anyhow_op (find_one E c i)) k st)"
proof (rule no_panic_op)
  fix found s' assume f: "find_one E c i st = (Inr found, s')"
  have "en_world s' = en_world st"
    using f by (auto simp: find_one_def bind_op_Inr record_op_def storage_get_def)
  with find_one_holds_docs [OF _ assms(2) f] assms(1) show "no_panic Q (k found s')"
    by (intro k) (auto simp: tracked_def)
qed

lemma step_update:
  assumes t: "tracked U c ids st" "i \<in> ids" and k: "\<And>s'. tracked U c ids s' \<Longrightarrow> no_panic Q (k True s')"
  shows "no_panic Q (bind_cli (anyhow_op (update_one D E L c i [(''$set'', Document [(''score'', v)])])) k st)"
proof (rule no_panic_op)
  fix b s' assume u: "update_one D E L c i [(''$set'', Document [(''score'', v)])] st = (Inr b, s')"
  have "later (en_world st) (en_world (snd (Inr b :: bool result, s')))"
    unfolding u [symmetric] by (rule preservesD [OF update_one_later]) simp
  then have "w_uuids (en_world s') = U" "drawn U ` {..<w_tick (en_world st)} \<subseteq> drawn U ` {..<w_tick (en_world s')}"
    using t(1) by (auto simp: later_def tracked_def)
  with update_holds_docs [OF _ _ _ t(2) u] t(1) show "no_panic Q (k b s')"
    using k [of s'] by (auto simp: tracked_def)
qed

lemma step_cursor:
  assumes "tracked U c ids st"
    and k: "\<And>ds. length ds = card ids \<Longrightarrow> no_panic Q (k (map (\<lambda>d. Inr \<lparr>doc_data = d\<rparr>) ds) st)"
  shows "no_panic Q (bind_cli (\<lambda>st. (anyhow_r (collection_find_many D E c st), st)) k st)"
proof -
  obtain ds where "collection_find_many D E c st = Inr (map (\<lambda>d. Inr \<lparr>doc_data = d\<rparr>) ds)" "length ds = card ids"
    using cursor_holds_docs [OF _ _ _ tracked_inj [OF assms(1)]] assms(1) unfolding tracked_def by blast
  with k [of ds] show ?thesis by (simp add: bind_cli_def)
qed

lemma step_delete:
  assumes "tracked U c ids st" "i \<in> ids"
  shows "no_panic (\<lambda>_ _. True) (bind_cli (anyhow_op (delete_one D E L c i)) assert_cli st)"
  using delete_holds_docs [OF _ _ _ assms(2)] assms(1)
  by (intro no_panic_op) (auto simp: no_panic_def assert_cli_def tracked_def)

lemma stability_crud_ok:
  assumes "tracked U ''documents'' {} st"
  shows "no_panic (\<lambda>_ _. True) (stability_crud D E L st)"
  unfolding stability_crud_def collection_insert_one_def collection_find_one_def collection_update_one_def
    collection_delete_one_def
  apply (rule step_insert [OF assms], simp, simp)
  apply (rule step_find, assumption, simp)
  apply (rule no_panic_assert, assumption)
  apply (rule step_update, assumption, simp)
  apply (rule no_panic_assert, simp)
  apply (rule step_insert, assumption, simp, simp)
  apply (rule step_insert, assumption, simp, simp)
  apply (rule step_cursor, assumption)
  apply (rule no_panic_assert, simp)
  apply (rule step_cursor, assumption)
  apply (simp add: count_rows_ok)
  apply (rule step_delete, assumption, simp)
  done

end

section \<open>Properties\<close>

text \<open>
  The run of the SDK's operations never panics: on any storage that keeps its laws and scans each document
  once, with no document in the collection and identifiers whose texts differ, the inserted document is
  found, the update and the delete find it, and the cursor yields exactly three documents; what can
  still end the run is an error of an operation.
\<close>

theorem stability_checks_hold:
  assumes "storage_scans E ok name_ok idtext" "ok (en_storage st)" "name_ok ''documents''"
    and "\<forall>i. se_get E (en_storage st) ''documents'' i = Inr None"
    and "inj (\<lambda>n. idtext (Binary uuid_subtype (w_uuids (en_world st) n)))"
  shows "fst (stability_crud D E L st) \<noteq> Inl Panicked"
proof -
  have "storage_scans.tracked E ok name_ok idtext (w_uuids (en_world st)) ''documents'' {} st"
    using assms(2-5) by (simp add: storage_scans.tracked_def [OF assms(1)] holds_docs_def drawn_def)
  from storage_scans.stability_crud_ok [OF assms(1) this] show ?thesis by (simp add: no_panic_def)
qed

text \<open>An engine on the storage without a codec, with identifiers of growing length.\<close>

definition counting_engine :: "(direct_storage, null_oplog) engine" where
  "counting_engine = direct_sample\<lparr>en_world := sample_world\<lparr>w_uuids := \<lambda>n. replicate n 0\<rparr>\<rparr>"

theorem stability_checks_hold_witness:
  "fst (stability_crud direct_deps (direct_engine direct_deps) null_oplog_vt counting_engine) \<noteq> Inl Panicked"
proof (rule stability_checks_hold [OF direct_scans.storage_scans_axioms [of direct_deps]])
  have "document_id_to_string direct_deps (Binary uuid_subtype (replicate n 0)) = replicate n (char_of (0 :: nat))" for n
    by (simp add: document_id_to_string_def direct_deps_def)
  then show "inj (\<lambda>n. document_id_to_string direct_deps (Binary uuid_subtype (w_uuids (en_world counting_engine) n)))"
    by (auto simp: counting_engine_def inj_def dest: arg_cong [of _ _ length])
qed (simp_all add: counting_engine_def)

end
