(* ===== verification/Rango_Demos.thy ===== *)
theory Rango_Demos
  imports Rango_Stability Rango_Engine_Converge
begin

text \<open>
  Two demonstrations of the library on the back end in memory and the null log: the gateway
  (\<open>examples/gateway_demo.rs\<close>), which writes, reads, updates and deletes sensors, and the wedge
  (\<open>examples/stateful_agent_wedge.rs\<close>), in which an agent's writes are replayed on a second node. What they
  print is the result of the model where it is read from the engine. The wedge reaches into a private field of
  the client, so it does not compile as it stands; the model has the accessor in its place.
\<close>

section \<open>The gateway\<close>

abbreviation sensors :: collection_name where
  "sensors \<equiv> ''sensors''"

definition sensor_doc :: "nat \<Rightarrow> doc" where
  "sensor_doc i =
     [(''sensor_id'', String (''temp-'' @ show_nat i)), (''temperature'', Double (f64_add (Fin 20) (f64_of_int (int i)))),
      (''unit'', String ''celsius''), (''location'', String ''warehouse-a'')]"

fun insert_sensors :: "deps \<Rightarrow> 's storage_engine \<Rightarrow> 'o oplog_vt \<Rightarrow> nat list \<Rightarrow> (('s, 'o) engine, document_id list) cli_op" where
  "insert_sensors D E L [] = return_cli []"
| "insert_sensors D E L (i # ns) =
     bind_cli (anyhow_op (collection_insert_one D E L sensors (sensor_doc i))) (\<lambda>x.
     bind_cli (insert_sensors D E L ns) (\<lambda>xs. return_cli (x # xs)))"

text \<open>\<open>while let Some(Ok(doc)) = cursor.next()\<close>: up to the first error.\<close>

fun ok_prefix :: "('e + 'a) list \<Rightarrow> 'a list" where
  "ok_prefix (Inr x # rows) = x # ok_prefix rows"
| "ok_prefix _ = []"

definition sensor_line :: "doc \<Rightarrow> string \<times> f64" where
  "sensor_line d = (unwrap_or (get_as as_str d ''sensor_id'') ''unknown'', unwrap_or (get_as as_f64 d ''temperature'') (Fin 0))"

text \<open>The identifier of the first document of a cursor; nothing there, an error or no identifier is a panic.\<close>

fun first_id :: "rango_document result list \<Rightarrow> document_id cli_result" where
  "first_id (Inr d # rows) = (case al_get (doc_data d) ''_id'' of
     Some v \<Rightarrow> Inr (document_id_from_bson v) | None \<Rightarrow> Inl Panicked)"
| "first_id _ = Inl Panicked"

definition cursor_cli :: "deps \<Rightarrow> 's storage_engine \<Rightarrow> (('s, 'o) engine, rango_document result list) cli_op" where
  "cursor_cli D E st = (anyhow_r (collection_find_many D E sensors st), st)"

text \<open>What the demonstration prints of the engine's answers.\<close>

record gateway_report =
  gr_inserted :: "document_id list"
  gr_listed :: "(string \<times> f64) list"
  gr_updated :: document_id
  gr_hot :: "(string \<times> f64) list"
  gr_deleted :: document_id
  gr_found_after :: bool
  gr_metadata :: "(string \<times> millis \<times> string) option"

text \<open>The last section: the metadata of the first document, if there is one; the clock is read in any case.\<close>

fun document_metadata :: "rango_document result list \<Rightarrow> (('s, 'o) engine, (string \<times> millis \<times> string) option) cli_op" where
  "document_metadata (Inr d # rows) = bind_cli (anyhow_op (from_world datetime_now)) (\<lambda>now.
     return_cli (Some (unwrap_or (get_as as_str (doc_data d) ''_rev'') ''missing'',
       unwrap_or (get_as as_datetime (doc_data d) ''_updated_at'') now,
       unwrap_or (get_as as_str (doc_data d) ''_source_node'') ''missing'')))"
| "document_metadata _ = return_cli None"

text \<open>Sections 3 and 5 take the first document of a cursor for the sensor they name.\<close>

definition update_first_sensor :: "deps \<Rightarrow> 's storage_engine \<Rightarrow> 'o oplog_vt \<Rightarrow> (('s, 'o) engine, document_id) cli_op" where
  "update_first_sensor D E L =
     bind_cli (cursor_cli D E) (\<lambda>rows.
     bind_cli (lift_cli (first_id rows)) (\<lambda>i.
     bind_cli (anyhow_op (collection_update_one D E L sensors i
         [(''$set'', Document [(''temperature'', Double (round_f64 (999 / 10)))])])) (\<lambda>_. return_cli i)))"

definition delete_first_sensor :: "deps \<Rightarrow> 's storage_engine \<Rightarrow> 'o oplog_vt \<Rightarrow>
    (('s, 'o) engine, document_id \<times> rango_document option) cli_op" where
  "delete_first_sensor D E L =
     bind_cli (cursor_cli D E) (\<lambda>rows.
     bind_cli (lift_cli (first_id rows)) (\<lambda>i.
     bind_cli (anyhow_op (collection_delete_one D E L sensors i)) (\<lambda>_.
     bind_cli (anyhow_op (collection_find_one E sensors i)) (\<lambda>found. return_cli (i, found)))))"

definition gateway_run :: "deps \<Rightarrow> 's storage_engine \<Rightarrow> 'o oplog_vt \<Rightarrow> (('s, 'o) engine, gateway_report) cli_op" where
  "gateway_run D E L =
     bind_cli (insert_sensors D E L [0..<5]) (\<lambda>inserted.
     bind_cli (cursor_cli D E) (\<lambda>all_rows.
     bind_cli (update_first_sensor D E L) (\<lambda>updated.
     bind_cli (\<lambda>st. (anyhow_r (find_docs D E st sensors [(''temperature'', Document [(''$gt'', Double (Fin 22))])]
         None None None None), st)) (\<lambda>hot.
     bind_cli (delete_first_sensor D E L) (\<lambda>(deleted, found).
     bind_cli (cursor_cli D E) (\<lambda>rows.
     bind_cli (document_metadata rows) (\<lambda>meta.
     return_cli \<lparr>gr_inserted = inserted, gr_listed = map (\<lambda>d. sensor_line (doc_data d)) (ok_prefix all_rows),
       gr_updated = updated, gr_hot = map sensor_line (ok_prefix hot), gr_deleted = deleted,
       gr_found_after = (found \<noteq> None), gr_metadata = meta\<rparr>)))))))"

definition gateway_main :: "deps \<Rightarrow> world \<Rightarrow> gateway_report cli_result" where
  "gateway_main D w =
     try_r (anyhow_r (client_open memory_new null_new ''gateway-001'' w)) (\<lambda>client.
     fst (gateway_run D (memory_engine D) null_oplog_vt client))"

section \<open>The wedge\<close>

text \<open>\<open>metadata\<close>: the time, then a revision of the node.\<close>

definition agent_metadata :: "deps \<Rightarrow> string \<Rightarrow> string \<Rightarrow> string \<Rightarrow> string \<Rightarrow> string \<Rightarrow>
    (('s, 'o) engine, governance_metadata) op" where
  "agent_metadata D i namespace lineage kind node =
     bind_op (from_world datetime_now) (\<lambda>now.
     bind_op (from_world (revision_now D node)) (\<lambda>r.
     return_op \<lparr>gm_id = i, gm_namespace = namespace, gm_tenant_id = ''tenant-a'', gm_type = kind, gm_rev = r,
       gm_created_at = now, gm_updated_at = now, gm_source = node, gm_actor = node, gm_lineage = lineage,
       gm_schema_version = 1, gm_trust_score = Fin 1, gm_verified = Some True, gm_expires_at = None\<rparr>))"

definition mutation_from_doc :: "deps \<Rightarrow> u64 \<Rightarrow> doc \<Rightarrow> string \<Rightarrow> (('s, 'o) engine, mutation) cli_op" where
  "mutation_from_doc D seq d write_id =
     bind_cli (lift_cli (ok_or (get_as as_str d ''_rev'') (Anyhow ''missing _rev on replay document''))) (\<lambda>r.
     bind_cli (lift_cli (map_err Anyhow (revision_from_str r))) (\<lambda>parsed_rev.
     bind_cli (lift_cli (ok_or (al_get d ''_id'') (Anyhow ''missing _id on replay document''))) (\<lambda>v.
     let doc_id = document_id_from_bson v
     in bind_cli (anyhow_op (from_world datetime_now)) (\<lambda>timestamp.
        bind_cli (anyhow_op (from_world datetime_now)) (\<lambda>created_at.
        bind_cli (anyhow_op (from_world datetime_now)) (\<lambda>updated_at.
        return_cli \<lparr>mut_op = (if seq = 1 then Insert else Update), mut_collection = ''agent:memory'',
          mut_doc_id = doc_id, mut_patch = Some d, mut_seq = seq, mut_timestamp = timestamp, mut_rev = parsed_rev,
          mut_write_id = write_id,
          mut_metadata = \<lparr>md_id = doc_id, md_namespace = ''agent:memory'', md_tenant_id = ''tenant-a'',
            md_type = ''state'', md_rev = parsed_rev, md_created_at = created_at, md_updated_at = updated_at,
            md_source = ''agent-node-a'', md_actor = ''agent-node-a'', md_lineage = document_id_to_string D doc_id,
            md_schema_version = 1, md_trust_score = Fin 1, md_verified = Some True, md_expires_at = None\<rparr>\<rparr>))))))"

definition event_payload :: doc where
  "event_payload =
     [(''session'', String ''agent-001''), (''role'', String ''user''),
      (''content'', String (''Summarize yesterday'' @ [CHR 0x27] @ ''s field notes''))]"

definition agent_update :: doc where
  "agent_update = [(''$set'', Document [(''status'', String ''processed''), (''artifact_ref'', String ''artifact-001'')])]"

text \<open>What the agent does on its own node: event, record, artifact, update, and the batch to replay.\<close>

definition agent_batch :: "deps \<Rightarrow> 's storage_engine \<Rightarrow> 'o oplog_vt \<Rightarrow>
    (('s, 'o) engine, document_id \<times> mutation list) cli_op" where
  "agent_batch D E L =
     bind_cli (anyhow_op (agent_metadata D ''session-agent-001'' ''agent'' ''lineage-agent-001'' ''event'' ''agent-node-a'')) (\<lambda>md.
     let event = \<lparr>ev_metadata = md, ev_write_id = ''event-001'', ev_sequence = 1, ev_mutation_type = ''insert'',
           ev_mutation_data = Some event_payload, ev_is_tombstone = False\<rparr>
     in bind_cli (lift_cli (map_err (\<lambda>e. Anyhow (''event validation failed: '' @ e)) (validate_event_envelope event))) (\<lambda>_.
     bind_cli (anyhow_op (collection_insert_one D E L ''agent:memory'' event_payload)) (\<lambda>i.
     bind_cli (anyhow_op (collection_find_one E ''agent:memory'' i)) (\<lambda>found.
     bind_cli (lift_cli (ok_or found (Anyhow ''inserted document missing''))) (\<lambda>inserted.
     bind_cli (lift_cli (ok_or (get_as as_str (doc_data inserted) ''_rev'') (Anyhow ''missing _rev on inserted record''))) (\<lambda>r.
     bind_cli (anyhow_op (agent_metadata D (document_id_to_string D i) ''agent'' ''lineage-agent-001'' ''state'' ''agent-node-a'')) (\<lambda>md.
     let record_env = \<lparr>re_metadata = md, re_write_id = ''record-001'', re_sequence = 1, re_data = doc_data inserted,
           re_conflict_siblings = []\<rparr>
     in bind_cli (lift_cli (map_err (\<lambda>e. Anyhow (''record validation failed: '' @ e)) (validate_record_envelope record_env))) (\<lambda>_.
     bind_cli (anyhow_op (agent_metadata D (document_id_to_string D i) ''agent'' ''lineage-agent-001'' ''artifact'' ''agent-node-a'')) (\<lambda>md.
     let artifact = \<lparr>ar_metadata = md, ar_write_id = ''artifact-001'', ar_artifact_type = ''agent_summary'',
           ar_source_revision = r, ar_content = str_bytes ''summary: field notes acknowledged'',
           ar_parent_artifact_revision = None\<rparr>
     in bind_cli (lift_cli (map_err (\<lambda>e. Anyhow (''artifact validation failed: '' @ e)) (validate_artifact_envelope artifact))) (\<lambda>_.
     bind_cli (anyhow_op (collection_update_one D E L ''agent:memory'' i agent_update)) (\<lambda>_.
     bind_cli (anyhow_op (collection_find_one E ''agent:memory'' i)) (\<lambda>found.
     bind_cli (lift_cli (ok_or found (Anyhow ''updated document missing''))) (\<lambda>updated.
     bind_cli (mutation_from_doc D 1 (re_data record_env) ''write-offline-001'') (\<lambda>m1.
     bind_cli (mutation_from_doc D 2 (doc_data updated) ''write-offline-002'') (\<lambda>m2.
     return_cli (i, [m1, m2]))))))))))))))))"

text \<open>The replay on the other node, and the status read from it.\<close>

definition replay_agent :: "deps \<Rightarrow> 's storage_engine \<Rightarrow> document_id \<Rightarrow> mutation list \<Rightarrow> (('s, 'o) engine, string) cli_op" where
  "replay_agent D E i batch =
     bind_cli (anyhow_op (apply_mutations_deterministic D E ''agent:memory'' batch)) (\<lambda>_.
     bind_cli (anyhow_op (find_one E ''agent:memory'' i)) (\<lambda>found.
     bind_cli (lift_cli (ok_or found (Anyhow ''remote replay did not materialize record''))) (\<lambda>remote_view.
     return_cli (unwrap_or (get_as as_str (doc_data remote_view) ''status'') ''unknown''))))"

text \<open>Both clients live in one process, so the remote one goes on with the clock of the other.\<close>

definition wedge_run :: "deps \<Rightarrow> 's storage_engine \<Rightarrow> 'o oplog_vt \<Rightarrow> ('s, 'o) engine \<Rightarrow> ('s, 'o) engine \<Rightarrow> string cli_result" where
  "wedge_run D E L local_node remote_node =
     (case agent_batch D E L local_node of
        (Inl e, _) \<Rightarrow> Inl e
      | (Inr (i, batch), local_node) \<Rightarrow>
          fst (replay_agent D E i batch (remote_node\<lparr>en_world := en_world local_node\<rparr>)))"

definition wedge_main :: "deps \<Rightarrow> world \<Rightarrow> string cli_result" where
  "wedge_main D w =
     try_r (anyhow_r (client_open memory_new null_new ''agent-node-a'' w)) (\<lambda>local_node.
     try_r (anyhow_r (client_open memory_new null_new ''agent-node-b'' w)) (\<lambda>remote_node.
     wedge_run D (memory_engine D) null_oplog_vt local_node remote_node))"

section \<open>Revisions of successive writes\<close>

text \<open>A revision drawn between two states of the world, and the world without one drawn.\<close>

definition undrawn :: "world \<Rightarrow> world \<Rightarrow> bool" where
  "undrawn w w' \<longleftrightarrow> w_unix_millis w' = w_unix_millis w \<and> w_counter w' = w_counter w \<and> w_tick w \<le> w_tick w'"

definition drawn_rev :: "deps \<Rightarrow> world \<Rightarrow> world \<Rightarrow> string \<Rightarrow> revision \<Rightarrow> bool" where
  "drawn_rev D w w' node r \<longleftrightarrow> w_unix_millis w' = w_unix_millis w \<and> w_counter w' = w_counter w + 1 \<and>
     (\<exists>n. w_tick w \<le> n \<and> n < w_tick w' \<and> r = revision_new D (w_unix_millis w n) (w_counter w) node)"

lemma undrawn_refl [simp]: "undrawn w w"
  by (simp add: undrawn_def)

lemma undrawn_trans: "undrawn w w' \<Longrightarrow> undrawn w' w'' \<Longrightarrow> undrawn w w''"
  by (simp add: undrawn_def)

lemma undrawn_draws:
  "undrawn v (snd (instant_now v))" "undrawn v (snd (datetime_now v))" "undrawn v (snd (document_id_new_uuid_v7 v))"
  by (simp_all add: undrawn_def instant_now_def datetime_now_def document_id_new_uuid_v7_def uuid_now_v7_def)

lemma drawn_rev_now: "drawn_rev D v (snd (revision_now D node v)) node (fst (revision_now D node v))"
  by (auto simp: drawn_rev_def revision_now_def unix_now_def fetch_add_counter_def)

lemma drawn_rev_undrawn:
  "drawn_rev D w w' node r \<Longrightarrow> undrawn w' w'' \<Longrightarrow> drawn_rev D w w'' node r"
  "undrawn v w \<Longrightarrow> drawn_rev D w w' node r \<Longrightarrow> drawn_rev D v w' node r"
   apply (force simp: drawn_rev_def undrawn_def)
  apply (simp add: drawn_rev_def undrawn_def)
  apply (metis order_trans)
  done

lemma preserves_undrawn:
  assumes "\<And>v. undrawn v (snd (f v))"
  shows "preserves (\<lambda>st. undrawn w (en_world st)) (from_world f)"
  unfolding preserves_def from_world_eq using undrawn_trans [OF _ assms] by simp

lemma preserves_undrawn_others:
  "preserves (\<lambda>st. undrawn w (en_world st)) (storage_put E c i d)"
  "preserves (\<lambda>st. undrawn w (en_world st)) (storage_get E c i)"
  "preserves (\<lambda>st. undrawn w (en_world st)) (oplog_append L e)"
  "preserves (\<lambda>st. undrawn w (en_world st)) (record_op g)"
  by (simp_all add: preserves_def storage_put_def storage_get_def oplog_append_def record_op_def split: prod.splits)

lemma commit_local_undrawn:
  "preserves (\<lambda>st. undrawn w (en_world st)) (commit_local D E L oper c i d patch rv tally start x)"
  unfolding commit_local_def log_local_def record_latency_def Let_def
  by (intro preserves_bind preserves_get preserves_basic preserves_undrawn undrawn_draws preserves_undrawn_others)

lemma commit_local_world:
  fixes y :: 'x
  assumes "commit_local D E L oper c i d patch rv tally start x (st\<lparr>en_world := w\<rparr>) = (Inr y, st')"
  shows "undrawn w (en_world st')"
proof -
  have "undrawn w (en_world (snd (Inr y :: 'x result, st')))"
    unfolding assms [symmetric] by (rule preservesD [OF commit_local_undrawn]) simp
  then show ?thesis by simp
qed

lemma insert_one_rev:
  assumes "insert_one D E L c d0 st = (Inr i, st')" "al_get d0 ''_id'' = None" "al_wf d0"
  shows "\<exists>d r. se_put E (en_storage st) c i d = (Inr (), en_storage st') \<and> engine_stamped d0 d \<and>
    al_get d ''_id'' = Some i \<and> al_get d ''_rev'' = Some (String r) \<and>
    drawn_rev D (en_world st) (en_world st') (en_node_id st) r"
proof -
  let ?w = "snd (document_id_new_uuid_v7 (snd (instant_now (en_world st))))"
  let ?i = "fst (document_id_new_uuid_v7 (snd (instant_now (en_world st))))"
  let ?r = "fst (revision_now D (en_node_id st) ?w)"
  from assms(1,2) obtain t start w
    where commit: "commit_local D E L Insert c ?i (al_del (stamped (al_put d0 ''_id'' ?i) ?r t (en_node_id st)) ''_deleted'')
        (Some (al_del (stamped (al_put d0 ''_id'' ?i) ?r t (en_node_id st)) ''_deleted'')) ?r record_insert start ?i
        (st\<lparr>en_world := w\<rparr>) = (Inr i, st')"
      and w: "undrawn (snd (revision_now D (en_node_id st) ?w)) w"
    by (clarsimp simp: insert_one_def op_steps stamped_def) (erule meta_allE, erule meta_allE, erule meta_allE, erule meta_mp [THEN meta_mp], rule undrawn_draws)
  let ?d = "al_del (stamped (al_put d0 ''_id'' ?i) ?r t (en_node_id st)) ''_deleted''"
  have i: "?i = i" "se_put E (en_storage st) c i ?d = (Inr (), en_storage st')"
    using commit_local_ok [OF commit] by simp_all
  have get: "al_get ?d k = (if k = ''_deleted'' then None else al_get (stamped (al_put d0 ''_id'' ?i) ?r t (en_node_id st)) k)" for k
    using assms(3) by (simp add: al_get_del al_wf_put)
  have "drawn_rev D (en_world st) (en_world st') (en_node_id st) ?r"
    using undrawn_trans [OF undrawn_draws(1) undrawn_draws(3)] drawn_rev_now
      undrawn_trans [OF w commit_local_world [OF commit]] drawn_rev_undrawn by blast
  moreover have "engine_stamped d0 ?d"
    by (auto simp: engine_stamped_def is_deleted_iff get stamped_get reserved_def)
  ultimately show ?thesis
    using i by (intro exI [of _ ?d] exI [of _ ?r]) (simp add: get stamped_get)
qed

lemma update_one_rev:
  assumes "update_one D E L c i u st = (Inr b, st')" "se_get E (en_storage st) c i = Inr (Some d0)" "\<not> is_deleted d0"
    and "apply_update d0 u = Inr d1"
  shows "\<exists>t r. se_put E (en_storage st) c i (stamped d1 r t (en_node_id st)) = (Inr (), en_storage st') \<and>
    drawn_rev D (en_world st) (en_world st') (en_node_id st) r"
proof -
  let ?w = "snd (instant_now (en_world st))"
  let ?r = "fst (revision_now D (en_node_id st) ?w)"
  from assms obtain t start w
    where commit: "commit_local D E L Update c i (stamped d1 ?r t (en_node_id st))
        (Some (stamped d1 ?r t (en_node_id st))) ?r record_update start True (st\<lparr>en_world := w\<rparr>) = (Inr b, st')"
      and w: "undrawn (snd (revision_now D (en_node_id st) ?w)) w"
    by (clarsimp simp: update_one_def op_steps storage_get_eq stamped_def) (erule meta_allE, erule meta_allE, erule meta_allE, erule meta_mp [THEN meta_mp], rule undrawn_draws)
  have "drawn_rev D (en_world st) (en_world st') (en_node_id st) ?r"
    using undrawn_draws(1) drawn_rev_now undrawn_trans [OF w commit_local_world [OF commit]] drawn_rev_undrawn by blast
  with commit_local_ok [OF commit] show ?thesis by auto
qed

section \<open>What the agent sends\<close>

lemma bind_cli_eq_Inr: "bind_cli m k s = (Inr y, s'') \<longleftrightarrow> (\<exists>x s'. m s = (Inr x, s') \<and> k x s' = (Inr y, s''))"
  by (auto simp: bind_cli_def split: prod.splits sum.splits)

lemma anyhow_op_eq_Inr: "anyhow_op m s = (Inr x, s') \<longleftrightarrow> m s = (Inr x, s')"
proof -
  obtain r t where "m s = (r, t)" by fastforce
  then show ?thesis by (cases r) (auto simp: anyhow_op_def)
qed

lemma lift_cli_eq_Inr: "lift_cli r s = (Inr x, s') \<longleftrightarrow> r = Inr x \<and> s' = s"
  by auto

lemmas cli_steps = bind_cli_eq_Inr anyhow_op_eq_Inr lift_cli_eq_Inr

lemma agent_metadata_step:
  "agent_metadata D i namespace lineage kind node st = (Inr md, st') \<Longrightarrow>
     en_storage st' = en_storage st \<and> en_node_id st' = en_node_id st \<and>
     (\<exists>r. drawn_rev D (en_world st) (en_world st') node r)"
  using drawn_rev_undrawn(2) [OF undrawn_draws(2) drawn_rev_now]
  by (auto simp: agent_metadata_def bind_op_Inr from_world_Inr) blast

lemma find_one_frame: "find_one E c i st = (r, st') \<Longrightarrow> en_world st' = en_world st \<and> en_storage st' = en_storage st"
  by (auto simp: find_one_def bind_op_def record_op_def storage_get_def return_op_def split: sum.splits)

text \<open>The mutation of a document in the batch.\<close>

definition sends :: "string \<Rightarrow> doc \<Rightarrow> mutation \<Rightarrow> bool" where
  "sends write_id d m \<longleftrightarrow> mut_collection m = ''agent:memory'' \<and> mut_write_id m = write_id \<and> mut_patch m = Some d"

lemma mutation_from_doc_step:
  "mutation_from_doc D seq d write_id st = (Inr m, st') \<Longrightarrow> sends write_id d m"
  by (auto simp: mutation_from_doc_def cli_steps sends_def Let_def return_cli_def)

text \<open>Revisions of one clock: the second is drawn after the first, at least one draw later.\<close>

lemma drawn_rev_less:
  assumes "drawn_rev D w w1 node r" "drawn_rev D w2 w3 node' r'" "w_unix_millis w2 = w_unix_millis w1"
    and "w_tick w1 \<le> w_tick w2" "w_counter w < w_counter w2" "mono (w_unix_millis w)"
  shows "revision_order r' r = Greater"
proof -
  obtain m n where r: "r = revision_new D (w_unix_millis w m) (w_counter w) node" "m < w_tick w1"
    "r' = revision_new D (w_unix_millis w2 n) (w_counter w2) node'" "w_tick w2 \<le> n"
    using assms(1,2) by (auto simp: drawn_rev_def)
  have "w_unix_millis w m \<le> w_unix_millis w2 n"
    using assms(1,3,4,6) r(2,4) by (auto simp: drawn_rev_def mono_def)
  with assms(5) show ?thesis
    unfolding r by (auto simp: revision_order_key)
qed

lemma doc_rev_drawn:
  assumes "drawn_rev D w w' node r" "al_get d ''_rev'' = Some (String r)"
  shows "doc_rev D d = r"
proof -
  have "revision_ok r" using assms(1) by (auto simp: drawn_rev_def)
  with assms(2) show ?thesis by (simp add: doc_rev_def get_as_def revision_ok_def)
qed

text \<open>The steps of a run that gets as far as the batch.\<close>

lemma agent_batch_steps:
  assumes "agent_batch D E L st = (Inr (i, batch), st')"
  shows "\<exists>md s1 s2 e1 s3 md2 s4 md3 s5 b s6 e2 s7 m1 s8 m2.
    agent_metadata D ''session-agent-001'' ''agent'' ''lineage-agent-001'' ''event'' ''agent-node-a'' st = (Inr md, s1) \<and>
    insert_one D E L ''agent:memory'' event_payload s1 = (Inr i, s2) \<and>
    find_one E ''agent:memory'' i s2 = (Inr (Some e1), s3) \<and>
    agent_metadata D (document_id_to_string D i) ''agent'' ''lineage-agent-001'' ''state'' ''agent-node-a'' s3 = (Inr md2, s4) \<and>
    agent_metadata D (document_id_to_string D i) ''agent'' ''lineage-agent-001'' ''artifact'' ''agent-node-a'' s4 = (Inr md3, s5) \<and>
    update_one D E L ''agent:memory'' i agent_update s5 = (Inr b, s6) \<and>
    find_one E ''agent:memory'' i s6 = (Inr (Some e2), s7) \<and>
    mutation_from_doc D 1 (doc_data e1) ''write-offline-001'' s7 = (Inr m1, s8) \<and>
    mutation_from_doc D 2 (doc_data e2) ''write-offline-002'' s8 = (Inr m2, st') \<and> batch = [m1, m2]"
proof -
  have found: "ok_or m e = Inr x \<longleftrightarrow> m = Some x" for m :: "'x option" and e :: cli_error and x by (cases m) simp_all
  from assms show ?thesis
    unfolding agent_batch_def Let_def collection_insert_one_def collection_find_one_def collection_update_one_def
      cli_steps return_cli_def found
    by (clarsimp simp del: op_apply)
qed

context storage_laws
begin

lemma agent_batch_sends:
  assumes inv: "inv (en_storage st)" and c: "name_ok ''agent:memory''"
    and run: "agent_batch D E L st = (Inr (i, batch), st')"
    and clock: "mono (w_unix_millis (en_world st))" "unat (w_counter (en_world st)) + 4 < 2 ^ 16"
  shows "\<exists>m1 m2 d1 d2. batch = [m1, m2] \<and> sends ''write-offline-001'' d1 m1 \<and> sends ''write-offline-002'' d2 m2 \<and>
    \<not> is_deleted d1 \<and> \<not> is_deleted d2 \<and> al_get d1 ''_id'' = Some i \<and> al_get d2 ''_id'' = Some i \<and>
    revision_order (doc_rev D d2) (doc_rev D d1) = Greater \<and> al_get d2 ''status'' = Some (String ''processed'')"
proof -
  let ?c = "''agent:memory''"
  obtain md s1 s2 e1 s3 md2 s4 md3 s5 b s6 e2 s7 m1 s8 m2 where
    1: "agent_metadata D ''session-agent-001'' ''agent'' ''lineage-agent-001'' ''event'' ''agent-node-a'' st = (Inr md, s1)"
    and 2: "insert_one D E L ?c event_payload s1 = (Inr i, s2)"
    and 3: "find_one E ?c i s2 = (Inr (Some e1), s3)"
    and 4: "agent_metadata D (document_id_to_string D i) ''agent'' ''lineage-agent-001'' ''state'' ''agent-node-a'' s3 = (Inr md2, s4)"
    and 5: "agent_metadata D (document_id_to_string D i) ''agent'' ''lineage-agent-001'' ''artifact'' ''agent-node-a'' s4 = (Inr md3, s5)"
    and 6: "update_one D E L ?c i agent_update s5 = (Inr b, s6)"
    and 7: "find_one E ?c i s6 = (Inr (Some e2), s7)"
    and 8: "mutation_from_doc D 1 (doc_data e1) ''write-offline-001'' s7 = (Inr m1, s8)"
    and 9: "mutation_from_doc D 2 (doc_data e2) ''write-offline-002'' s8 = (Inr m2, st')" "batch = [m1, m2]"
    using agent_batch_steps [OF run] by blast
  have store: "en_storage s1 = en_storage st" "en_storage s3 = en_storage s2" "en_storage s5 = en_storage s2"
    using agent_metadata_step [OF 1] find_one_frame [OF 3] agent_metadata_step [OF 4] agent_metadata_step [OF 5] by auto
  obtain d1 r1 where d1: "se_put E (en_storage s1) ?c i d1 = (Inr (), en_storage s2)" "engine_stamped event_payload d1"
    "al_get d1 ''_id'' = Some i" "al_get d1 ''_rev'' = Some (String r1)" "drawn_rev D (en_world s1) (en_world s2) (en_node_id s1) r1"
    using insert_one_rev [OF 2] by (auto simp: event_payload_def al_wf_def)
  have inv2: "inv (en_storage s2)" and get1: "se_get E (en_storage s2) ?c i = Inr (Some d1)"
    using put_inv [OF _ c d1(1)] put_get [OF _ c c d1(1), of i] inv store(1) by simp_all
  have live1: "\<not> is_deleted d1" using d1(2) by (simp add: engine_stamped_def)
  let ?u = "al_put (al_put d1 ''status'' (String ''processed'')) ''artifact_ref'' (String ''artifact-001'')"
  have "apply_update d1 agent_update = Inr ?u" by (simp add: agent_update_def)
  with update_one_rev [OF 6 _ live1] get1 store(3) obtain t r2 where
    put2: "se_put E (en_storage s5) ?c i (stamped ?u r2 t (en_node_id s5)) = (Inr (), en_storage s6)"
    and r2: "drawn_rev D (en_world s5) (en_world s6) (en_node_id s5) r2" by auto
  let ?d2 = "stamped ?u r2 t (en_node_id s5)"
  have get2: "se_get E (en_storage s6) ?c i = Inr (Some ?d2)"
    using put_get [OF _ c c put2, of i] inv2 store(3) by simp
  have live2: "\<not> is_deleted ?d2" using live1 by (simp add: is_deleted_iff stamped_get)
  have e: "doc_data e1 = d1" "doc_data e2 = ?d2"
    using find_one_steps [OF 3] find_one_steps [OF 7] get1 get2 live1 live2 by auto
  have "revision_order r2 r1 = Greater"
  proof (rule drawn_rev_less [OF d1(5) r2])
    obtain q q' q'' where w: "drawn_rev D (en_world st) (en_world s1) ''agent-node-a'' q"
      "drawn_rev D (en_world s2) (en_world s4) ''agent-node-a'' q'" "drawn_rev D (en_world s4) (en_world s5) ''agent-node-a'' q''"
      using agent_metadata_step [OF 1] agent_metadata_step [OF 4] agent_metadata_step [OF 5] find_one_frame [OF 3] by auto
    show "w_unix_millis (en_world s5) = w_unix_millis (en_world s2)" "w_tick (en_world s2) \<le> w_tick (en_world s5)"
      using w by (auto simp: drawn_rev_def)
    show "mono (w_unix_millis (en_world s1))" using w(1) clock(1) by (simp add: drawn_rev_def)
    show "w_counter (en_world s1) < w_counter (en_world s5)"
    proof -
      let ?k = "w_counter (en_world st)"
      have "w_counter (en_world s1) = ?k + 1" "w_counter (en_world s5) = ?k + 4"
        using w d1(5) by (auto simp: drawn_rev_def)
      moreover have "unat (?k + 1) = unat ?k + 1" "unat (?k + 4) = unat ?k + 4"
        using clock(2) by (simp_all add: unat_word_ariths)
      ultimately show ?thesis by (simp add: word_less_nat_alt)
    qed
  qed
  moreover have "doc_rev D d1 = r1" "doc_rev D ?d2 = r2"
    using doc_rev_drawn [OF d1(5,4)] doc_rev_drawn [OF r2] by (simp_all add: stamped_get)
  ultimately show ?thesis
    using 9(2) mutation_from_doc_step [OF 8] mutation_from_doc_step [OF 9(1)] d1(3) live1 live2
    by (intro exI [of _ m1] exI [of _ m2] exI [of _ d1] exI [of _ ?d2]) (simp add: e stamped_get)
qed

text \<open>Replayed on a node without documents, the batch leaves the newer of its two documents.\<close>

lemma replay_leaves_newer:
  assumes inv: "inv (en_storage st)" and c: "name_ok ''agent:memory''"
    and empty: "\<forall>i. se_get E (en_storage st) ''agent:memory'' i = Inr None" "en_applied_write_ids st = {}"
    and sent: "sends w1 d1 m1" "sends w2 d2 m2" "w1 \<noteq> []" "w2 \<noteq> []" "w1 \<noteq> w2"
    and docs: "\<not> is_deleted d1" "\<not> is_deleted d2" "al_get d1 ''_id'' = Some i" "al_get d2 ''_id'' = Some i"
    and newer: "revision_order (doc_rev D d2) (doc_rev D d1) = Greater"
    and app: "apply_mutations_deterministic D E ''agent:memory'' [m1, m2] st = (Inr n, s1)"
  shows "\<exists>w. se_get E (en_storage s1) ''agent:memory'' i = Inr (Some w) \<and> same_fields w d2"
proof -
  let ?c = "''agent:memory''"
  have batch: "receive_batches D E ?c [[m1, m2]] st = (Inr (), s1)" using app by simp
  have "circulating ?c (set (concat [[m1, m2]]))"
    using sent docs by (auto simp: circulating_def sends_def)
  from receive_from_empty [OF batch this c _ inv empty]
  have "replica_of D E idtext ?c (docs_of {m1, m2}) (en_storage s1)" by simp
  moreover have "versions idtext i (docs_of {m1, m2}) = {d1, d2}"
    using sent docs by (auto simp: versions_def docs_of_def sends_def with_id_def)
  ultimately have held: "holds_newest D {d1, d2} (se_get E (en_storage s1) ?c i)"
    unfolding replica_of_def by metis
  then obtain w where w: "se_get E (en_storage s1) ?c i = Inr (Some w)" "newest D {d1, d2} w"
    by (cases "se_get E (en_storage s1) ?c i" rule: holds_newest_cases) auto
  have "\<not> rev_le D d2 d1" using newer by (simp add: rev_le_def)
  with w show ?thesis by (auto simp: newest_def)
qed

end

text \<open>What is read there when the replay returns.\<close>

lemma replay_agent_reads:
  assumes "apply_mutations_deterministic D E ''agent:memory'' batch st = (Inr n, s1)"
    and "se_get E (en_storage s1) ''agent:memory'' i = Inr (Some w)" "\<not> is_deleted w"
  shows "fst (replay_agent D E i batch st) = Inr (unwrap_or (get_as as_str w ''status'') ''unknown'')"
proof -
  obtain r s2 where find: "find_one E ''agent:memory'' i s1 = (r, s2)" by fastforce
  with find_one_steps [OF find] assms show ?thesis
    by (simp add: replay_agent_def bind_cli_def anyhow_op_def return_cli_def)
qed

section \<open>What the gateway does to its first sensor\<close>

text \<open>A put of a known identifier takes the place of its row in the scan.\<close>

locale storage_replaces = storage_scans E inv name_ok idtext
  for E :: "'s storage_engine" and inv :: "'s \<Rightarrow> bool" and name_ok :: "collection_name \<Rightarrow> bool"
    and idtext :: "document_id \<Rightarrow> string" +
  assumes put_replaces: "inv s \<Longrightarrow> name_ok c \<Longrightarrow> se_get E s c i = Inr (Some d0) \<Longrightarrow> se_put E s c i d = (Inr (), s') \<Longrightarrow>
    se_scan E s c = Inr (map Inr ds) \<Longrightarrow> \<exists>k<length ds. ds ! k = d0 \<and> se_scan E s' c = Inr (map Inr (ds[k := d]))"

text \<open>Documents that are live and carry the identifier they are stored under.\<close>

definition identified_docs :: "'s storage_engine \<Rightarrow> (document_id \<Rightarrow> string) \<Rightarrow> 's \<Rightarrow> bool" where
  "identified_docs E idtext s \<longleftrightarrow> (\<forall>i d. se_get E s sensors i = Inr (Some d) \<longrightarrow>
     \<not> is_deleted d \<and> (\<exists>j. al_get d ''_id'' = Some j \<and> idtext j = idtext i))"

lemma no_panic_read:
  assumes "\<And>x. f st = Inr x \<Longrightarrow> no_panic Q (k x st)"
  shows "no_panic Q (bind_cli (\<lambda>st. (anyhow_r (f st), st)) k st)"
  using assms by (cases "f st") (auto simp: no_panic_def bind_cli_def)

lemma no_panic_bind:
  assumes "no_panic P (m st)" "\<And>x t. P x t \<Longrightarrow> no_panic Q (k x t)"
  shows "no_panic Q (bind_cli m k st)"
proof -
  obtain r t where m: "m st = (r, t)" by fastforce
  with assms show ?thesis by (cases r) (auto simp: no_panic_def bind_cli_def)
qed

lemma first_id_map: "ds \<noteq> [] \<Longrightarrow> al_get (hd ds) ''_id'' = Some i \<Longrightarrow>
    first_id (map (\<lambda>d. Inr \<lparr>doc_data = d\<rparr>) ds) = Inr i"
  by (cases ds) (simp_all add: document_id_from_bson_def)

lemma sensor_doc_plain [simp]: "al_wf (sensor_doc i)" "al_get (sensor_doc i) ''_id'' = None"
  by (simp_all add: sensor_doc_def al_wf_def)

context storage_replaces
begin

definition holds_sensors :: "('s, 'o) engine \<Rightarrow> bool" where
  "holds_sensors st \<longleftrightarrow> inv (en_storage st) \<and> name_ok sensors \<and> identified_docs E idtext (en_storage st)"

lemma insert_sensor:
  assumes st: "holds_sensors st" and ins: "insert_one D E L sensors (sensor_doc n) st = (Inr i, st')"
  shows "holds_sensors st' \<and> se_get E (en_storage st') sensors i \<noteq> Inr None"
proof -
  obtain d r where d: "se_put E (en_storage st) sensors i d = (Inr (), en_storage st')" "engine_stamped (sensor_doc n) d"
    "al_get d ''_id'' = Some i"
    using insert_one_rev [OF ins] by auto
  then show ?thesis
    using st put_inv [OF _ _ d(1)] put_get [OF _ _ _ d(1)]
    by (auto simp: holds_sensors_def identified_docs_def engine_stamped_def)
qed

text \<open>The cursor has the documents of the scan.\<close>

lemma sensor_found:
  assumes "holds_sensors st" "se_scan E (en_storage st) sensors = Inr (map Inr ds)" "d \<in> set ds"
  shows "\<not> is_deleted d \<and> (\<exists>i. al_get d ''_id'' = Some i \<and> se_get E (en_storage st) sensors i = Inr (Some d))"
proof -
  have inv: "inv (en_storage st)" "name_ok sensors" using assms(1) by (simp_all add: holds_sensors_def)
  obtain i where i: "se_get E (en_storage st) sensors i = Inr (Some d)"
    using scanned_once_found [OF scan_once [OF inv assms(2)] assms(3)] by blast
  then obtain j where "\<not> is_deleted d" "al_get d ''_id'' = Some j" "idtext j = idtext i"
    using assms(1) unfolding holds_sensors_def identified_docs_def by blast
  with i get_idtext [OF inv, of j i] show ?thesis by auto
qed

lemma sensors_cursor:
  assumes "holds_sensors st" "se_scan E (en_storage st) sensors = Inr (map Inr ds)"
  shows "collection_find_many D E sensors st = Inr (map (\<lambda>d. Inr \<lparr>doc_data = d\<rparr>) ds)"
proof -
  have "filter (live D []) ds = ds" using sensor_found [OF assms] by (simp add: live_def)
  moreover have "\<forall>d\<in>set ds. \<not> is_deleted d \<longrightarrow> filter_ok D d []" by simp
  ultimately show ?thesis
    using find_docs_ok(1) [OF assms(2), of D "[]" None None None]
    by (simp add: collection_find_many_def sdk_cursor_def find_many_def limited_def project_or_same_def comp_def)
qed

lemma insert_sensors_ok:
  assumes "holds_sensors st"
  shows "no_panic (\<lambda>ids t. holds_sensors t \<and>
      (ns \<noteq> [] \<or> (\<exists>i. se_get E (en_storage st) sensors i \<noteq> Inr None) \<longrightarrow> (\<exists>i. se_get E (en_storage t) sensors i \<noteq> Inr None)))
    (insert_sensors D E L ns st)"
  using assms
proof (induction ns arbitrary: st)
  case (Cons n ns)
  show ?case
    unfolding insert_sensors.simps collection_insert_one_def
  proof (rule no_panic_op)
    fix i t assume "insert_one D E L sensors (sensor_doc n) st = (Inr i, t)"
    from insert_sensor [OF Cons.prems this] have t: "holds_sensors t" "se_get E (en_storage t) sensors i \<noteq> Inr None" by auto
    show "no_panic (\<lambda>ids t. holds_sensors t \<and>
        (n # ns \<noteq> [] \<or> (\<exists>i. se_get E (en_storage st) sensors i \<noteq> Inr None) \<longrightarrow> (\<exists>i. se_get E (en_storage t) sensors i \<noteq> Inr None)))
      (bind_cli (insert_sensors D E L ns) (\<lambda>xs. return_cli (i # xs)) t)"
      by (rule no_panic_bind, rule Cons.IH [OF t(1)]) (use t(2) in \<open>auto simp: no_panic_def return_cli_def\<close>)
  qed
qed (simp add: no_panic_def return_cli_def)

lemma document_metadata_ok: "no_panic (\<lambda>_ _. True) (document_metadata rows st)"
  by (cases rows rule: document_metadata.cases)
    (auto simp: no_panic_def bind_cli_def anyhow_op_def from_world_eq return_cli_def)

text \<open>The first row of a cursor.\<close>

definition first_sensor :: "document_id \<Rightarrow> ('s, 'o) engine \<Rightarrow> bool" where
  "first_sensor i st \<longleftrightarrow> holds_sensors st \<and>
     (\<exists>d ds. se_scan E (en_storage st) sensors = Inr (map Inr (d # ds)) \<and> al_get d ''_id'' = Some i)"

lemma first_sensor_exists:
  assumes "holds_sensors st" "se_get E (en_storage st) sensors j \<noteq> Inr None"
  shows "\<exists>i. first_sensor i st"
proof -
  have inv: "inv (en_storage st)" "name_ok sensors" using assms(1) by (simp_all add: holds_sensors_def)
  obtain ds where ds: "se_scan E (en_storage st) sensors = Inr (map Inr ds)"
    "set ds = {d. \<exists>i. se_get E (en_storage st) sensors i = Inr (Some d)}"
    using scan_get [OF inv] by blast
  obtain m where "se_get E (en_storage st) sensors j = Inr m" using get_ok [OF inv] by blast
  with assms(2) ds(2) have "ds \<noteq> []" by (cases m) auto
  then obtain d ds' where "ds = d # ds'" by (cases ds) auto
  with ds(1) sensor_found [OF assms(1) ds(1), of d] assms(1) show ?thesis by (auto simp: first_sensor_def)
qed

lemma step_first:
  assumes "first_sensor i st" "no_panic Q (k i st)"
  shows "no_panic Q (bind_cli (cursor_cli D E) (\<lambda>rows. bind_cli (lift_cli (first_id rows)) k) st)"
proof -
  obtain d ds where d: "se_scan E (en_storage st) sensors = Inr (map Inr (d # ds))" "al_get d ''_id'' = Some i"
    "holds_sensors st" using assms(1) by (auto simp: first_sensor_def)
  show ?thesis
    using sensors_cursor [OF d(3,1), of D] d(2) assms(2) by (simp add: cursor_cli_def bind_cli_def document_id_from_bson_def)
qed

text \<open>The update of the first document keeps it the first.\<close>

lemma update_first:
  assumes first: "first_sensor i st"
    and up: "update_one D E L sensors i [(''$set'', Document [(''temperature'', v)])] st = (Inr b, st')"
  shows "first_sensor i st'"
proof -
  obtain d ds where st: "holds_sensors st" and scan: "se_scan E (en_storage st) sensors = Inr (map Inr (d # ds))"
    and i: "al_get d ''_id'' = Some i" using first by (auto simp: first_sensor_def)
  have get: "se_get E (en_storage st) sensors i = Inr (Some d)" "\<not> is_deleted d"
    using sensor_found [OF st scan, of d] i by auto
  have inv: "inv (en_storage st)" "name_ok sensors" using st by (simp_all add: holds_sensors_def)
  from update_one_ok [OF up] get obtain r t where
    put: "se_put E (en_storage st) sensors i (stamped (al_put d ''temperature'' v) r t (en_node_id st)) = (Inr (), en_storage st')"
    by auto
  let ?d = "stamped (al_put d ''temperature'' v) r t (en_node_id st)"
  have id: "al_get ?d ''_id'' = Some i" "\<not> is_deleted ?d" using i get(2) by (simp_all add: stamped_get is_deleted_iff)
  have "holds_sensors st'"
    using st id put_inv [OF inv put] put_get [OF inv inv(2) put] by (auto simp: holds_sensors_def identified_docs_def)
  moreover obtain k where k: "se_scan E (en_storage st') sensors = Inr (map Inr ((d # ds)[k := ?d]))"
    using put_replaces [OF inv get(1) put scan] by blast
  ultimately show ?thesis using id(1) i by (cases k) (auto simp: first_sensor_def)
qed

lemma update_first_sensor_ok:
  assumes "first_sensor i st"
  shows "no_panic (\<lambda>u t. u = i \<and> first_sensor i t) (update_first_sensor D E L st)"
  unfolding update_first_sensor_def collection_update_one_def
  by (rule step_first [OF assms], rule no_panic_op) (simp add: no_panic_def update_first [OF assms])

lemma delete_first_sensor_ok:
  assumes "first_sensor i st"
  shows "no_panic (\<lambda>(u, found) t. u = i \<and> found = None) (delete_first_sensor D E L st)"
  unfolding delete_first_sensor_def collection_delete_one_def collection_find_one_def
proof (rule step_first [OF assms], rule no_panic_op, rule no_panic_op)
  fix b t found t'
  assume del: "delete_one D E L sensors i st = (Inr b, t)" and find: "find_one E sensors i t = (Inr found, t')"
  have "fst (find_one E sensors i t) = Inr None"
    using delete_one_tombstones [OF _ _ del] assms by (auto simp: first_sensor_def holds_sensors_def)
  with find show "no_panic (\<lambda>(u, found) t. u = i \<and> found = None) (return_cli (i, found) t')" by (simp add: no_panic_def)
qed

lemma gateway_ok:
  assumes st: "holds_sensors st"
  shows "no_panic (\<lambda>rep _. gr_updated rep = gr_deleted rep \<and> \<not> gr_found_after rep) (gateway_run D E L st)"
  unfolding gateway_run_def
  apply (rule no_panic_bind, rule insert_sensors_ok [OF st])
  apply (clarsimp simp: cursor_cli_def [abs_def])
  apply (drule (1) first_sensor_exists)
  apply (elim exE)
  apply (rule no_panic_read)
  apply (rule no_panic_bind, erule update_first_sensor_ok)
  apply (elim conjE)
  apply (rule no_panic_read)
  apply (rule no_panic_bind, erule delete_first_sensor_ok)
  apply clarsimp
  apply (rule no_panic_read)
  apply (rule no_panic_bind, rule document_metadata_ok)
  apply (simp add: no_panic_def)
  done

end

section \<open>Back ends that replace rows\<close>

lemma al_put_update:
  "al_get m k = Some v \<Longrightarrow> \<exists>j<length m. m ! j = (k, v) \<and> al_put m k v' = m[j := (k, v')]"
proof (induction m)
  case (Cons p m)
  show ?case
  proof (cases "fst p = k")
    case True
    with Cons.prems show ?thesis by (cases p) (auto intro!: exI [of _ 0])
  next
    case False
    with Cons obtain j where "j < length m" "m ! j = (k, v)" "al_put m k v' = m[j := (k, v')]" by (cases p) auto
    with False show ?thesis by (cases p) (auto intro!: exI [of _ "Suc j"])
  qed
qed simp

lemma filter_update:
  assumes "j < length xs" "P (xs ! j)" "P y"
  shows "\<exists>k<length (filter P xs). filter P xs ! k = xs ! j \<and> filter P (xs[j := y]) = (filter P xs)[k := y]"
proof -
  let ?k = "length (filter P (take j xs))"
  have xs: "xs = take j xs @ xs ! j # drop (Suc j) xs" by (rule id_take_nth_drop [OF assms(1)])
  have f: "filter P xs = filter P (take j xs) @ xs ! j # filter P (drop (Suc j) xs)"
    using assms(2) by (subst xs) (simp only: filter_append filter.simps if_True)
  have "filter P (xs[j := y]) = filter P (take j xs) @ y # filter P (drop (Suc j) xs)"
    using assms(1,3) by (simp add: upd_conv_take_nth_drop)
  with f show ?thesis by (intro exI [of _ ?k]) simp
qed

interpretation direct_replaces: storage_replaces "direct_engine D" "direct_inv D" "\<lambda>c. True" "document_id_to_string D" for D
proof unfold_locales
  fix s s' :: direct_storage and c i d0 d ds
  let ?key = "(c, document_id_to_string D i)" and ?P = "\<lambda>p :: (string \<times> string) \<times> doc. fst (fst p) = c"
  assume "se_get (direct_engine D) s c i = Inr (Some d0)" "se_put (direct_engine D) s c i d = (Inr (), s')"
    and scan: "se_scan (direct_engine D) s c = Inr (map Inr ds)"
  then have get: "al_get s ?key = Some d0" and s': "s' = al_put s ?key d" by simp_all
  obtain j where j: "j < length s" "s ! j = (?key, d0)" "al_put s ?key d = s[j := (?key, d)]"
    using al_put_update [OF get] by blast
  obtain k where k: "k < length (filter ?P s)" "filter ?P s ! k = (?key, d0)"
    "filter ?P (s[j := (?key, d)]) = (filter ?P s)[k := (?key, d)]"
    using filter_update [of j s ?P "(?key, d)"] j by auto
  have "map Inr ds = (map Inr (map snd (filter ?P s)) :: doc result list)" using scan by (simp add: comp_def)
  then have ds: "ds = map snd (filter ?P s)" by (simp add: inj_map_eq_map del: map_map)
  show "\<exists>k<length ds. ds ! k = d0 \<and> se_scan (direct_engine D) s' c = Inr (map Inr (ds[k := d]))"
    using k j(3) by (intro exI [of _ k]) (simp add: ds s' map_update comp_def)
qed

text \<open>The back end in memory, when the order of a hash map is that of its keys alone.\<close>

definition order_by_keys :: "deps \<Rightarrow> bool" where
  "order_by_keys D \<longleftrightarrow> (\<forall>m m'. map fst m' = map fst m \<longrightarrow> map fst (hash_order D m') = map fst (hash_order D m))"

context storage_scans
begin

lemma scans_restricted: "storage_scans E (\<lambda>s. inv s \<and> P) name_ok idtext"
  apply (intro storage_scans.intro storage_laws.intro storage_scans_axioms.intro; elim conjE)
            apply (erule (1) get_ok)
           apply (rule conjI, erule (2) put_inv, assumption)
          apply (erule (3) put_get)
         apply (erule (3) put_err)
        apply (rule conjI, erule (2) delete_inv, assumption)
       apply (erule (3) delete_get)
      apply (erule (2) delete_flag)
     apply (erule (3) delete_err)
    apply (erule (2) get_idtext)
   apply (erule (1) scan_get)
  apply (erule (2) scan_once)
  done

end

lemma al_put_keys: "al_get m k \<noteq> None \<Longrightarrow> map fst (al_put m k v) = map fst m"
  by (induction m k v rule: al_put.induct) (auto split: if_splits)

lemma keyed_values:
  assumes "mset ps = mset m" "al_wf m"
  shows "ps = map (\<lambda>k. (k, the (al_get m k))) (map fst ps)"
proof -
  have "p = (fst p, the (al_get m (fst p)))" if "p \<in> set ps" for p
  proof -
    have "(fst p, snd p) \<in> set m" using that mset_eq_setD [OF assms(1)] by simp
    then have "al_get m (fst p) = Some (snd p)" using assms(2) by (simp only: al_wf_get_iff)
    then show ?thesis by simp
  qed
  then show ?thesis by (simp add: list.map_ident_strong comp_def)
qed

interpretation mem_replaces: storage_replaces "memory_engine D" "\<lambda>s. memory_inv D s \<and> order_by_keys D" "\<lambda>c. True"
  "document_id_to_string D" for D
proof (intro storage_replaces.intro storage_replaces_axioms.intro mem_scans.scans_restricted, elim conjE, simp only: memory_engine_simps)
  fix s s' c i d0 d ds
  assume inv: "memory_inv D s" and order: "order_by_keys D" and get: "memory_get D s c i = Inr (Some d0)"
    and put: "memory_put D s c i d = (Inr (), s')" and scan: "memory_scan D s c = Inr (map Inr ds)"
  let ?m = "unwrap_or (al_get s c) []" and ?k = "encode_key D c i"
  let ?row = "\<lambda>m k. storage_err (from_reader D (the (al_get m k))) :: doc result"
  have perm: "\<And>m :: (bytes \<times> bytes) list. mset (hash_order D m) = mset m"
    using inv hash_order_okD by (simp add: memory_inv_def)
  have wf: "al_wf ?m" using memory_inv_coll [OF inv, of c] by (simp add: collection_ok_def)
  obtain bs where bs: "to_writer D d = Inr bs" and s': "s' = al_put s c (al_put ?m ?k bs)"
    using memory_put_result [OF put] by auto
  obtain b0 where b0: "al_get ?m ?k = Some b0" "from_reader D b0 = Inr d0" using get memory_get_Some by blast
  have fst_put: "map fst (al_put ?m ?k bs) = map fst ?m"
    by (rule al_put_keys) (simp add: b0(1))
  have wf': "al_wf (al_put ?m ?k bs)" using wf by (rule al_wf_put)
  define ks where "ks = map fst (hash_order D ?m)"
  have ks: "map fst (hash_order D (al_put ?m ?k bs)) = ks"
    using order fst_put unfolding ks_def order_by_keys_def by blast
  have scan_ks: "memory_scan D s c = Inr (map (?row ?m) ks)"
    unfolding memory_scan_def Let_def ks_def
    by (subst keyed_values [OF perm wf]) (simp add: comp_def)
  have scan_ks': "memory_scan D s' c = Inr (map (?row (al_put ?m ?k bs)) ks)"
  proof -
    have "hash_order D (al_put ?m ?k bs) = map (\<lambda>k. (k, the (al_get (al_put ?m ?k bs) k))) ks"
      using keyed_values [OF perm wf'] unfolding ks .
    then have "map (\<lambda>v. storage_err (from_reader D v)) (map snd (hash_order D (al_put ?m ?k bs))) =
        map (?row (al_put ?m ?k bs)) ks"
      by (simp add: comp_def del: al_get_put)
    moreover have "unwrap_or (al_get s' c) [] = al_put ?m ?k bs" by (simp add: s')
    ultimately show ?thesis by (simp only: memory_scan_def Let_def)
  qed
  have "set ks = set (map fst ?m)" unfolding ks_def using perm [of ?m] by (metis mset_map set_mset_mset)
  moreover have "?k \<in> set (map fst ?m)" using b0(1) wf by (force simp: al_wf_get_iff)
  ultimately obtain q where q: "q < length ks" "ks ! q = ?k" by (metis in_set_conv_nth)
  have "mset ks = mset (map fst ?m)" unfolding ks_def using perm [of ?m] by simp
  then have distinct: "distinct ks" using wf unfolding al_wf_def by (metis mset_eq_imp_distinct_iff)
  have rows: "map (?row ?m) ks = map Inr ds" using scan scan_ks by simp
  then have len: "length ds = length ks" by (metis length_map)
  have row: "?row ?m (ks ! n) = Inr (ds ! n)" if "n < length ks" for n
    using rows that len by (metis nth_map)
  have "map (?row (al_put ?m ?k bs)) ks = map Inr (ds[q := d])"
  proof (rule nth_equalityI)
    fix n assume n: "n < length (map (?row (al_put ?m ?k bs)) ks)"
    show "map (?row (al_put ?m ?k bs)) ks ! n = map Inr (ds[q := d]) ! n"
    proof (cases "n = q")
      case True
      have "from_reader D bs = Inr d" using inv bs codec_okD by (simp add: memory_inv_def)
      with True q len show ?thesis by simp
    next
      case False
      then have "ks ! n \<noteq> ?k" using q n distinct by (metis length_map nth_eq_iff_index_eq)
      with False n len row [of n] show ?thesis by simp
    qed
  qed (simp add: len)
  moreover have "ds ! q = d0" using row [OF q(1)] q(2) b0 by simp
  ultimately show "\<exists>k<length ds. ds ! k = d0 \<and> memory_scan D s' c = Inr (map Inr (ds[k := d]))"
    using scan_ks' q(1) len by auto
qed

section \<open>Properties\<close>

text \<open>
  The gateway deletes what it updated: on a storage without sensors in which a put replaces its row, the
  sensor the demonstration updates as temp-2 and the one it deletes as temp-0 are one and the same, the first
  document of the cursor; the deleted one is not found afterwards, and no unwrapping fails, so that only
  an error of an operation ends the run before.
\<close>

theorem gateway_deletes_what_it_updated:
  assumes "storage_replaces E ok name_ok idtext" "ok (en_storage st)" "name_ok ''sensors''"
    and "\<forall>i. se_get E (en_storage st) ''sensors'' i = Inr None"
  shows "(\<exists>rep. fst (gateway_run D E L st) = Inr rep \<and> gr_updated rep = gr_deleted rep \<and> \<not> gr_found_after rep) \<or>
    (\<exists>e. fst (gateway_run D E L st) = Inl (Anyhow e))"
proof -
  have "storage_replaces.holds_sensors E ok name_ok idtext st"
    using assms(2-4) by (simp add: storage_replaces.holds_sensors_def [OF assms(1)] identified_docs_def)
  from storage_replaces.gateway_ok [OF assms(1) this, of D L]
  have run: "fst (gateway_run D E L st) \<noteq> Inl Panicked"
    "\<And>rep t. gateway_run D E L st = (Inr rep, t) \<Longrightarrow> gr_updated rep = gr_deleted rep \<and> \<not> gr_found_after rep"
    by (simp_all add: no_panic_def)
  obtain r t where r: "gateway_run D E L st = (r, t)" by fastforce
  show ?thesis
  proof (cases r)
    case (Inl e)
    with run(1) r show ?thesis by (cases e) auto
  qed (use run(2) r in auto)
qed

lemma direct_find_many:
  "collection_find_many D (direct_engine D') c st =
     Inr (map (\<lambda>p. Inr \<lparr>doc_data = snd p\<rparr>) (filter (\<lambda>p. fst (fst p) = c \<and> \<not> is_deleted (snd p)) (en_storage st)))"
proof -
  have scan: "se_scan (direct_engine D') (en_storage st) c = Inr (map Inr (map snd (filter (\<lambda>p. fst (fst p) = c) (en_storage st))))"
    by (simp add: comp_def)
  have "\<forall>d\<in>set (map snd (filter (\<lambda>p. fst (fst p) = c) (en_storage st))). \<not> is_deleted d \<longrightarrow> filter_ok D d []" by simp
  from find_docs_ok(1) [OF scan this, of None None None] show ?thesis
    by (simp add: collection_find_many_def sdk_cursor_def find_many_def limited_def project_or_same_def comp_def
        live_def [abs_def] filter_map)
qed

definition direct_rows :: "deps \<Rightarrow> doc \<Rightarrow> (direct_storage, null_oplog) engine \<Rightarrow> doc result list" where
  "direct_rows D flt st = projr (find_docs D (direct_engine D) st sensors flt None None None None)"

lemma direct_find_docs: "find_docs D (direct_engine D) st sensors flt None None None None = Inr (direct_rows D flt st)"
  by (simp add: direct_rows_def find_docs_def)

theorem gateway_deletes_what_it_updated_witness:
  "\<exists>rep. fst (gateway_run direct_deps (direct_engine direct_deps) null_oplog_vt direct_sample) = Inr rep \<and>
     gr_updated rep = gr_deleted rep"
proof -
  have "\<exists>rep. fst (gateway_run direct_deps (direct_engine direct_deps) null_oplog_vt direct_sample) = Inr rep"
    by (simp add: gateway_run_def bind_cli_def anyhow_op_def cursor_cli_def update_first_sensor_def
      delete_first_sensor_def upt_rec sensor_doc_def direct_find_many direct_find_docs
      collection_insert_one_def collection_find_one_def collection_update_one_def collection_delete_one_def direct_steps)
  moreover have "direct_inv direct_deps (en_storage direct_sample)" by simp
  ultimately show ?thesis
    using gateway_deletes_what_it_updated [OF direct_replaces.storage_replaces_axioms, of direct_deps direct_sample direct_deps null_oplog_vt]
    by auto
qed

text \<open>
  C29: The wedge shows what the agent wrote: when the run of the two nodes gets to its end, on storages that keep
  their laws and hold no documents, the status it reads from the second node is the one the agent set
  on the first, provided the clock does not go back and the counter of revisions does not wrap on the way.
\<close>

theorem wedge_shows_update:
  assumes "storage_laws E ok name_ok idtext" "name_ok ''agent:memory''"
    and "ok (en_storage local_node)" "ok (en_storage remote_node)"
    and "\<forall>i. se_get E (en_storage remote_node) ''agent:memory'' i = Inr None" "en_applied_write_ids remote_node = {}"
    and "mono (w_unix_millis (en_world local_node))" "unat (w_counter (en_world local_node)) + 4 < 2 ^ 16"
    and "wedge_run D E L local_node remote_node = Inr status"
  shows "status = ''processed''"
proof -
  obtain i batch s where batch: "agent_batch D E L local_node = (Inr (i, batch), s)"
    and replay: "fst (replay_agent D E i batch (remote_node\<lparr>en_world := en_world s\<rparr>)) = Inr status"
    using assms(9) by (auto simp: wedge_run_def split: prod.splits sum.splits)
  obtain m1 m2 d1 d2 where sent: "batch = [m1, m2]" "sends ''write-offline-001'' d1 m1" "sends ''write-offline-002'' d2 m2"
    "\<not> is_deleted d1" "\<not> is_deleted d2" "al_get d1 ''_id'' = Some i" "al_get d2 ''_id'' = Some i"
    "revision_order (doc_rev D d2) (doc_rev D d1) = Greater" "al_get d2 ''status'' = Some (String ''processed'')"
    using storage_laws.agent_batch_sends [OF assms(1,3,2) batch assms(7,8)] by blast
  obtain n s1 where app: "apply_mutations_deterministic D E ''agent:memory'' [m1, m2] (remote_node\<lparr>en_world := en_world s\<rparr>) = (Inr n, s1)"
    using replay sent(1)
    by (cases "apply_mutations_deterministic D E ''agent:memory'' [m1, m2] (remote_node\<lparr>en_world := en_world s\<rparr>)"; cases "fst (apply_mutations_deterministic D E ''agent:memory'' [m1, m2] (remote_node\<lparr>en_world := en_world s\<rparr>))")
      (auto simp: replay_agent_def bind_cli_def anyhow_op_def)
  from storage_laws.replay_leaves_newer [OF assms(1) _ assms(2) _ _ sent(2,3) _ _ _ sent(4-8) app] assms(4-6)
  obtain w where w: "se_get E (en_storage s1) ''agent:memory'' i = Inr (Some w)" "same_fields w d2" by auto
  have "fst (replay_agent D E i batch (remote_node\<lparr>en_world := en_world s\<rparr>)) =
      Inr (unwrap_or (get_as as_str w ''status'') ''unknown'')"
    using replay_agent_reads [OF app w(1)] same_fields_deleted [OF w(2)] sent(1,5) by simp
  with replay sent(9) w(2) show ?thesis by (simp add: same_fields_def get_as_def)
qed

lemma validated:
  "governance_valid m \<Longrightarrow> w \<noteq> [] \<Longrightarrow> k \<noteq> [] \<Longrightarrow>
     validate_event_envelope \<lparr>ev_metadata = m, ev_write_id = w, ev_sequence = n, ev_mutation_type = k,
       ev_mutation_data = p, ev_is_tombstone = t\<rparr> = Inr ()"
  "governance_valid m \<Longrightarrow> w \<noteq> [] \<Longrightarrow>
     validate_record_envelope \<lparr>re_metadata = m, re_write_id = w, re_sequence = n, re_data = d, re_conflict_siblings = cs\<rparr> = Inr ()"
  "governance_valid m \<Longrightarrow> w \<noteq> [] \<Longrightarrow> k \<noteq> [] \<Longrightarrow> r \<noteq> [] \<Longrightarrow>
     validate_artifact_envelope \<lparr>ar_metadata = m, ar_write_id = w, ar_artifact_type = k, ar_source_revision = r,
       ar_content = bs, ar_parent_artifact_revision = q\<rparr> = Inr ()"
  by (simp_all add: validate_event_envelope_ok validate_artifact_envelope_ok validate_record_envelope_def validate_governance_ok [THEN iffD2])

lemma revision_new_parses: "revision_from_str (revision_new D t k n) = Inr (revision_new D t k n)"
  using revision_new_ok by (simp add: revision_ok_def)

lemma revision_new_nonempty: "revision_new D t k n \<noteq> []"
  by (simp add: revision_new_def)

text \<open>Two nodes whose clock stands still at a millisecond.\<close>

definition steady_world :: "nat \<Rightarrow> u16 \<Rightarrow> world" where
  "steady_world n k = (sample_world_at n k)\<lparr>w_unix_millis := \<lambda>_. 1000\<rparr>"

definition steady_engine :: "(direct_storage, null_oplog) engine" where
  "steady_engine = direct_sample\<lparr>en_world := steady_world 0 0\<rparr>"

lemma steady_steps:
  "instant_now (steady_world n k) = (n, steady_world (Suc n) k)"
  "datetime_now (steady_world n k) = (1000 + int n, steady_world (Suc n) k)"
  "revision_now D node (steady_world n k) = (revision_new D 1000 k node, steady_world (Suc n) (k + 1))"
  "document_id_new_uuid_v7 (steady_world n k) = (Binary uuid_subtype [of_nat n], steady_world (Suc n) k)"
  by (simp_all add: steady_world_def sample_world_at_def instant_now_def datetime_now_def revision_now_def unix_now_def
      fetch_add_counter_def sample_world_def document_id_new_uuid_v7_def uuid_now_v7_def)

lemma steady_engine_simps [simp]:
  "en_storage steady_engine = []" "en_oplog steady_engine = null_new" "en_node_id steady_engine = ''n''"
  "en_config steady_engine = default_config" "en_world steady_engine = steady_world 0 0"
  "en_applied_write_ids steady_engine = {}"
  by (simp_all add: steady_engine_def direct_sample_def)

lemma direct_batch:
  "\<exists>s i m1 m2. agent_batch direct_deps (direct_engine direct_deps) null_oplog_vt steady_engine = (Inr (i, [m1, m2]), s) \<and>
     validate_metadata m1 = Inr () \<and> validate_metadata m2 = Inr ()"
  by (simp add: agent_batch_def event_payload_def agent_metadata_def bind_cli_def anyhow_op_def
   collection_insert_one_def collection_find_one_def collection_update_one_def direct_steps steady_steps governance_valid_def
   validated revision_new_parses revision_new_nonempty agent_update_def mutation_from_doc_def get_as_def
   validate_metadata_ok metadata_valid_def)

theorem wedge_shows_update_witness:
  "wedge_run direct_deps (direct_engine direct_deps) null_oplog_vt steady_engine steady_engine = Inr ''processed''"
proof -
  let ?E = "direct_engine direct_deps" and ?c = "''agent:memory''"
  have start: "direct_inv direct_deps (en_storage steady_engine)" "\<forall>i. se_get ?E (en_storage steady_engine) ?c i = Inr None"
    "en_applied_write_ids steady_engine = {}"
    by simp_all
  have clock: "mono (w_unix_millis (en_world steady_engine))" "unat (w_counter (en_world steady_engine)) + 4 < 2 ^ 16"
    by (simp_all add: steady_world_def sample_world_at_def sample_world_def mono_def)
  obtain s i m1 m2 where batch: "agent_batch direct_deps ?E null_oplog_vt steady_engine = (Inr (i, [m1, m2]), s)"
    and valid: "validate_metadata m1 = Inr ()" "validate_metadata m2 = Inr ()"
    using direct_batch by blast
  let ?st = "steady_engine\<lparr>en_world := en_world s\<rparr>"
  obtain d1 d2 where sent: "sends ''write-offline-001'' d1 m1" "sends ''write-offline-002'' d2 m2"
    "\<not> is_deleted d1" "\<not> is_deleted d2" "al_get d1 ''_id'' = Some i" "al_get d2 ''_id'' = Some i"
    "revision_order (doc_rev direct_deps d2) (doc_rev direct_deps d1) = Greater"
    using direct.agent_batch_sends [OF start(1) TrueI batch clock] by auto
  have "\<exists>s1. receive_batches direct_deps ?E ?c [[m1, m2]] ?st = (Inr (), s1)"
    by (rule receive_runs) (use valid sent in \<open>auto simp: circulating_def sends_def\<close>)
  then obtain n s1 where app: "apply_mutations_deterministic direct_deps ?E ?c [m1, m2] ?st = (Inr n, s1)"
    by (auto simp: bind_op_Inr)
  obtain w where w: "se_get ?E (en_storage s1) ?c i = Inr (Some w)" "same_fields w d2"
    using direct.replay_leaves_newer [OF _ TrueI _ _ sent(1,2) _ _ _ sent(3-7) app] start by auto
  have "\<exists>status. wedge_run direct_deps ?E null_oplog_vt steady_engine steady_engine = Inr status"
    using replay_agent_reads [OF app w(1)] same_fields_deleted [OF w(2)] sent(4) batch by (simp add: wedge_run_def)
  then show ?thesis
    using wedge_shows_update [OF direct.storage_laws_axioms TrueI start(1,1,2,3) clock] by blast
qed

end
