(* ===== verification/Rango_Cli_Main.thy ===== *)
theory Rango_Cli_Main
  imports Rango_Doctor Rango_Cli_Sync
begin

text \<open>
  The dispatch of the command line tool (\<open>main\<close> of \<open>cli/src/main.rs\<close>): the commands with their
  arguments, the path each is given, made safe and resolved by the operating system, and the workspaces
  the commands work on, one after the other. What a command prints when it succeeds is its report. The
  database's contents stay with the database, which every command opens anew.
\<close>

section \<open>Commands\<close>

type_synonym path = "path_component list"

datatype import_format = ImportJson

datatype export_format = ExportJson

datatype command =
    Init path "nat option" "nat option" "string option"
  | Inspect path
  | Import path collection_name string import_format "string option"
  | Export path collection_name string export_format "string option"
  | Bench nat
  | Doctor path "string option"
  | Audit path audit_format "string option" "string option" nat
  | Sync_once path string string string "string option"

datatype report =
    Initialized
  | Inspected rango_config
  | Imported import_result
  | Exported string nat
  | Benched nat nat
  | Diagnosed doctor_report "queue_counts option"
  | Audit_lines "string list"
  | Synced sync_result

text \<open>
  The surroundings of a call: where the operating system leads a path, the directory \<open>bench\<close> makes for
  itself, the files to import, the faults of writing an export, the text of a JSON value, and the world.
\<close>

record cli_env =
  ce_resolve :: "path \<Rightarrow> path"
  ce_bench_dir :: path
  ce_import :: "string \<Rightarrow> (string + bytes) option"
  ce_export_faults :: "string \<Rightarrow> nat \<Rightarrow> string option"
  ce_show_value :: "json_value \<Rightarrow> string"
  ce_world :: world

record 'n machine =
  mc_dirs :: "path \<Rightarrow> workspace"
  mc_net :: 'n

text \<open>
  \<open>canonicalize\<close> succeeds on what exists; where the operating system leads a path, the directories on the
  way are taken to exist.
\<close>

definition canonical :: "cli_env \<Rightarrow> 'n machine \<Rightarrow> path \<Rightarrow> path option" where
  "canonical V mc p = (if wk_exists (mc_dirs mc (ce_resolve V p)) then Some (ce_resolve V p) else None)"

definition at_dir :: "path \<Rightarrow> (workspace, 'a) cli_op \<Rightarrow> ('n machine, 'a) cli_op" where
  "at_dir d m mc = (case m (mc_dirs mc d) of (r, w) \<Rightarrow> (r, mc\<lparr>mc_dirs := (mc_dirs mc)(d := w)\<rparr>))"

definition in_workspace :: "cli_env \<Rightarrow> path \<Rightarrow> (workspace, 'a) cli_op \<Rightarrow> ('n machine, 'a) cli_op" where
  "in_workspace V p m mc =
     (case sanitize_path (canonical V mc) p of
        Inl e \<Rightarrow> (Inl e, mc)
      | Inr p \<Rightarrow> at_dir (ce_resolve V p) m mc)"

definition reported :: "('a \<Rightarrow> report) \<Rightarrow> ('s, 'a) cli_op \<Rightarrow> ('s, report) cli_op" where
  "reported f m = bind_cli m (\<lambda>x. return_cli (f x))"

text \<open>\<open>sync\<close> may not return, so the tool may not.\<close>

definition sync_command :: "('db, 't, 'c) cli_api \<Rightarrow> queue_codec \<Rightarrow> json_api \<Rightarrow> 'n http_api \<Rightarrow> cli_env \<Rightarrow> path \<Rightarrow> string \<Rightarrow>
    string \<Rightarrow> string \<Rightarrow> string option \<Rightarrow> 'n machine \<Rightarrow> (report cli_result \<times> 'n machine) option" where
  "sync_command P K J H V path server token node_id passphrase mc =
     (case sanitize_path (canonical V mc) path of
        Inl e \<Rightarrow> Some (Inl e, mc)
      | Inr p \<Rightarrow>
          let d = ce_resolve V p
          in map_option (\<lambda>(r, w, net). (try_r r (\<lambda>s. Inr (Synced s)), mc\<lparr>mc_dirs := (mc_dirs mc)(d := w), mc_net := net\<rparr>))
               (run_sync P K J H server token node_id passphrase (mc_dirs mc d) (mc_net mc)))"

fun cli_main :: "('db, 't, 'c) cli_api \<Rightarrow> queue_codec \<Rightarrow> json_api \<Rightarrow> audit_api \<Rightarrow> 'n http_api \<Rightarrow> cli_env \<Rightarrow> command \<Rightarrow>
    'n machine \<Rightarrow> (report cli_result \<times> 'n machine) option" where
  "cli_main P K J U H V (Init path max_doc_size memory_budget passphrase) mc =
     Some (reported (\<lambda>_. Initialized)
       (in_workspace V path (init_command P (ce_show_value V) max_doc_size memory_budget passphrase)) mc)"
| "cli_main P K J U H V (Inspect path) mc =
     Some (reported Inspected (in_workspace V path (inspect_command P (ce_world V))) mc)"
| "cli_main P K J U H V (Import path collection file format passphrase) mc =
     Some (reported (\<lambda>x. Imported (fst x))
       (in_workspace V path (import_command P collection file (ce_import V file) passphrase (ce_world V))) mc)"
| "cli_main P K J U H V (Export path collection out format passphrase) mc =
     Some (reported (\<lambda>(text, n). Exported text n)
       (in_workspace V path (export_command P collection (ce_export_faults V out) passphrase (ce_world V))) mc)"
| "cli_main P K J U H V (Bench n) mc =
     Some (reported (\<lambda>(finds, queries). Benched finds queries)
       (at_dir (ce_bench_dir V) (run_benchmarks P n (ce_world V))) mc)"
| "cli_main P K J U H V (Doctor path passphrase) mc =
     Some (reported (\<lambda>(r, counts). Diagnosed r counts)
       (in_workspace V path (run_doctor P K J passphrase (ce_world V))) mc)"
| "cli_main P K J U H V (Sync_once path server token node_id passphrase) mc =
     sync_command P K J H V path server token node_id passphrase mc"
| "cli_main P K J U H V (Audit path format tenant_id namespace limit) mc =
     Some (reported Audit_lines (in_workspace V path (\<lambda>w. (run_audit P U format tenant_id namespace limit w, w))) mc)"

section \<open>Paths\<close>

text \<open>The operating system leads to canonical paths: resolved, they stay, and they have no parent reference.\<close>

definition resolves :: "cli_env \<Rightarrow> bool" where
  "resolves V \<longleftrightarrow> (\<forall>p. ce_resolve V (ce_resolve V p) = ce_resolve V p \<and> ParentDir \<notin> set (ce_resolve V p))"

fun command_path :: "command \<Rightarrow> path option" where
  "command_path (Init p m b w) = Some p"
| "command_path (Inspect p) = Some p"
| "command_path (Import p c f k w) = Some p"
| "command_path (Export p c f k w) = Some p"
| "command_path (Bench n) = None"
| "command_path (Doctor p w) = Some p"
| "command_path (Audit p f t ns l) = Some p"
| "command_path (Sync_once p s t n w) = Some p"

fun with_path :: "path \<Rightarrow> command \<Rightarrow> command" where
  "with_path p (Init q m b w) = Init p m b w"
| "with_path p (Inspect q) = Inspect p"
| "with_path p (Import q c f k w) = Import p c f k w"
| "with_path p (Export q c f k w) = Export p c f k w"
| "with_path p (Bench n) = Bench n"
| "with_path p (Doctor q w) = Doctor p w"
| "with_path p (Audit q f t ns l) = Audit p f t ns l"
| "with_path p (Sync_once q s t n w) = Sync_once p s t n w"

lemma sanitize_existing:
  assumes "resolves V" "wk_exists (mc_dirs mc (ce_resolve V p))"
  shows "sanitize_path (canonical V mc) p = Inr (ce_resolve V p)"
  using assms by (simp add: sanitize_path_def canonical_def resolves_def)

lemma sanitize_missing:
  assumes "\<not> wk_exists (mc_dirs mc (ce_resolve V p))"
  shows "sanitize_path (canonical V mc) p =
    (if ParentDir \<in> set p then Inl (Anyhow ''Path cannot contain parent directory references (..)'') else Inr p)"
  using assms by (simp add: sanitize_path_def canonical_def)

lemma sanitize_resolved:
  assumes "resolves V" "sanitize_path (canonical V mc) p = Inr q"
  shows "ce_resolve V q = ce_resolve V p"
  using assms by (auto simp: sanitize_path_def canonical_def resolves_def unwrap_or_def Let_def split: if_splits option.splits)

text \<open>A workspace that exists is reached by any path to it as by its canonical one.\<close>

lemma existing_by_canonical:
  assumes "resolves V" "command_path cmd = Some p" "wk_exists (mc_dirs mc (ce_resolve V p))"
  shows "cli_main P K J U H V cmd mc = cli_main P K J U H V (with_path (ce_resolve V p) cmd) mc"
proof -
  have "wk_exists (mc_dirs mc (ce_resolve V (ce_resolve V p)))" using assms(1,3) by (simp add: resolves_def)
  note same = sanitize_existing [OF assms(1,3)] sanitize_existing [OF assms(1) this]
  have "ce_resolve V (ce_resolve V p) = ce_resolve V p" using assms(1) by (simp add: resolves_def)
  then show ?thesis
    using assms(2) same
    by (cases cmd) (auto simp: reported_def bind_cli_def in_workspace_def sync_command_def)
qed

lemma missing_refused:
  assumes "command_path cmd = Some p" "\<not> wk_exists (mc_dirs mc (ce_resolve V p))" "ParentDir \<in> set p"
  shows "cli_main P K J U H V cmd mc = Some (Inl (Anyhow ''Path cannot contain parent directory references (..)''), mc)"
  using assms sanitize_missing [OF assms(2)]
  by (cases cmd) (simp_all add: reported_def bind_cli_def in_workspace_def sync_command_def)

section \<open>Passphrases\<close>

text \<open>The commands that need the passphrase of an encrypted workspace and are not given one.\<close>

fun without_passphrase :: "command \<Rightarrow> bool" where
  "without_passphrase (Inspect p) \<longleftrightarrow> True"
| "without_passphrase (Import p c f k w) \<longleftrightarrow> w = None"
| "without_passphrase (Export p c f k w) \<longleftrightarrow> w = None"
| "without_passphrase (Doctor p w) \<longleftrightarrow> w = None"
| "without_passphrase (Sync_once p s t n w) \<longleftrightarrow> w = None"
| "without_passphrase _ \<longleftrightarrow> False"

lemma locked_client:
  assumes "load_crypto P w None = Inl (Anyhow e)"
  shows "\<exists>e. open_persistent_client P node None rw w = (Inl (Anyhow e), w)"
  using assms by (auto simp: open_persistent_client_def anyhow_r_def map_err_def split: sum.splits)

lemma locked_command:
  assumes "without_passphrase cmd" "command_path cmd = Some p" "sanitize_path (canonical V mc) p = Inr q"
    and "wk_exists (mc_dirs mc (ce_resolve V q))" "load_crypto P (mc_dirs mc (ce_resolve V q)) None = Inl (Anyhow e)"
  shows "\<exists>e. cli_main P K J U H V cmd mc = Some (Inl (Anyhow e), mc)"
proof -
  let ?w = "mc_dirs mc (ce_resolve V q)"
  note locked = locked_client [OF assms(5)]
  show ?thesis
  proof (cases cmd)
    case (Inspect p')
    obtain x where "open_persistent_client P ''cli-node'' None (ce_world V) ?w = (Inl (Anyhow x), ?w)" using locked by blast
    then have "inspect_command P (ce_world V) ?w = (Inl (Anyhow x), ?w)"
      using assms(4) by (simp add: inspect_command_def bind_cli_def Let_def)
    with Inspect assms(2,3) show ?thesis by (auto simp: reported_def bind_cli_def in_workspace_def at_dir_def)
  next
    case (Import p' c f k w)
    obtain x where "open_persistent_client P ''cli-node'' None (ce_world V) ?w = (Inl (Anyhow x), ?w)" using locked by blast
    then have "\<exists>x. import_command P c f (ce_import V f) None (ce_world V) ?w = (Inl (Anyhow x), ?w)"
      by (simp add: import_command_def bind_cli_def split: option.split)
    then obtain x where "import_command P c f (ce_import V f) None (ce_world V) ?w = (Inl (Anyhow x), ?w)" by blast
    with Import assms(1-3) show ?thesis by (auto simp: reported_def bind_cli_def in_workspace_def at_dir_def)
  next
    case (Export p' c f k w)
    obtain x where "open_persistent_client P ''cli-node'' None (ce_world V) ?w = (Inl (Anyhow x), ?w)" using locked by blast
    then have "export_command P c (ce_export_faults V f) None (ce_world V) ?w = (Inl (Anyhow x), ?w)"
      by (simp add: export_command_def bind_cli_def)
    with Export assms(1-3) show ?thesis by (auto simp: reported_def bind_cli_def in_workspace_def at_dir_def)
  next
    case (Doctor p' w)
    have "run_doctor P K J None (ce_world V) ?w = (Inl (Anyhow e), ?w)" using assms(5) by (simp add: run_doctor_def Let_def)
    with Doctor assms(1-3) show ?thesis by (auto simp: reported_def bind_cli_def in_workspace_def at_dir_def)
  next
    case (Sync_once p' s t n w)
    then show ?thesis using assms by (simp add: sync_command_def run_sync_def Let_def)
  qed (use assms(1) in simp_all)
qed

text \<open>What a successful init with a passphrase leaves.\<close>

lemma init_logs:
  assumes "init_command P show_value m b (Some pass) w = (Inr (), w')"
  shows "wk_oplog w' \<noteq> None"
  using assms
  by (auto simp: init_command_def bind_cli_def create_dir_all_def write_file_def anyhow_op_def anyhow_r_def assert_cli_def
      open_oplog_def Let_def split: option.splits prod.splits sum.splits if_splits)

lemma init_locks:
  assumes "cli_main P K J U H V (Init p m b (Some pass)) mc = Some (Inr rep, mc')" "resolves V"
  shows "wk_exists (mc_dirs mc' (ce_resolve V p)) \<and> wk_oplog (mc_dirs mc' (ce_resolve V p)) \<noteq> None \<and> (\<exists>e. load_crypto P (mc_dirs mc' (ce_resolve V p)) None = Inl (Anyhow e)) \<and>
    (\<forall>d. d \<noteq> ce_resolve V p \<longrightarrow> mc_dirs mc' d = mc_dirs mc d)"
proof -
  obtain q where q: "sanitize_path (canonical V mc) p = Inr q"
    using assms(1) by (auto simp: reported_def bind_cli_def in_workspace_def split: sum.splits)
  note d = sanitize_resolved [OF assms(2) q]
  obtain r w where r: "init_command P (ce_show_value V) m b (Some pass) (mc_dirs mc (ce_resolve V p)) = (r, w)" by fastforce
  then have run: "r = Inr ()" "mc' = mc\<lparr>mc_dirs := (mc_dirs mc)(ce_resolve V p := w)\<rparr>"
    using assms(1) q d by (auto simp: reported_def bind_cli_def in_workspace_def at_dir_def split: sum.splits)
  from init_steps [OF r [unfolded run(1)]] init_logs [OF r [unfolded run(1)]] run(2) show ?thesis
    by (auto simp: load_crypto_def split: option.splits)
qed

section \<open>Commands one after the other\<close>

text \<open>The results of a list of commands, when each of them returns.\<close>

fun session :: "('db, 't, 'c) cli_api \<Rightarrow> queue_codec \<Rightarrow> json_api \<Rightarrow> audit_api \<Rightarrow> 'n http_api \<Rightarrow> cli_env \<Rightarrow> command list \<Rightarrow>
    'n machine \<Rightarrow> (report cli_result list \<times> 'n machine) option" where
  "session P K J U H V [] mc = Some ([], mc)"
| "session P K J U H V (cmd # cmds) mc =
     Option.bind (cli_main P K J U H V cmd mc) (\<lambda>(r, mc).
     map_option (map_prod ((#) r) id) (session P K J U H V cmds mc))"

text \<open>A command on a workspace, and one that is given no passphrase.\<close>

definition works_on :: "cli_env \<Rightarrow> path \<Rightarrow> command \<Rightarrow> bool" where
  "works_on V d cmd \<longleftrightarrow> (case command_path cmd of Some p \<Rightarrow> ce_resolve V p = d | None \<Rightarrow> ce_bench_dir V = d)"

fun no_passphrase :: "command \<Rightarrow> bool" where
  "no_passphrase (Init p m b w) \<longleftrightarrow> w = None"
| "no_passphrase (Bench n) \<longleftrightarrow> False"
| "no_passphrase (Audit p f t ns l) \<longleftrightarrow> True"
| "no_passphrase cmd \<longleftrightarrow> without_passphrase cmd"

lemma at_dir_frame: "at_dir d m mc = (r, mc') \<Longrightarrow> d' \<noteq> d \<Longrightarrow> mc_dirs mc' d' = mc_dirs mc d'"
  by (auto simp: at_dir_def split: prod.splits)

lemma in_workspace_frame:
  assumes "in_workspace V p m mc = (r, mc')" "resolves V" "d \<noteq> ce_resolve V p"
  shows "mc_dirs mc' d = mc_dirs mc d"
  using assms sanitize_resolved [OF assms(2), of mc p]
  by (auto simp: in_workspace_def split: sum.splits dest: at_dir_frame)

lemma reported_state: "reported f m s = (r, s') \<Longrightarrow> \<exists>x. m s = (x, s')"
  by (auto simp: reported_def bind_cli_def split: prod.splits sum.splits)

lemma elsewhere:
  assumes "cli_main P K J U H V cmd mc = Some (r, mc')" "resolves V" "\<not> works_on V d cmd"
  shows "mc_dirs mc' d = mc_dirs mc d"
proof (cases cmd)
  case (Sync_once p s t n w)
  with assms sanitize_resolved [OF assms(2), of mc p] show ?thesis
    by (auto simp: works_on_def sync_command_def Let_def split: sum.splits)
next
  case (Bench n)
  with assms obtain x where "at_dir (ce_bench_dir V) (run_benchmarks P n (ce_world V)) mc = (x, mc')"
    by (auto dest!: reported_state)
  moreover have "d \<noteq> ce_bench_dir V" using Bench assms(3) by (auto simp: works_on_def)
  ultimately show ?thesis by (rule at_dir_frame)
qed (use assms in \<open>auto simp: works_on_def dest!: reported_state dest: in_workspace_frame [OF _ _ not_sym]\<close>)

text \<open>A workspace as it was, except for its configuration.\<close>

definition reconfigured :: "workspace \<Rightarrow> workspace \<Rightarrow> bool" where
  "reconfigured w w' \<longleftrightarrow> (\<exists>text. w' = w\<lparr>wk_config := text\<rparr>)"

lemma reconfigured_refl [simp]: "reconfigured w w"
  unfolding reconfigured_def by (rule exI [of _ "wk_config w"]) simp

lemma reconfigured_trans: "reconfigured w w' \<Longrightarrow> reconfigured w' w'' \<Longrightarrow> reconfigured w w''"
  by (auto simp: reconfigured_def)

lemma reconfigured_same:
  assumes "reconfigured w w'"
  shows "wk_exists w' = wk_exists w" "wk_oplog w' = wk_oplog w" "load_crypto P w' k = load_crypto P w k"
  using assms by (auto simp: reconfigured_def load_crypto_def split: option.split)

lemma reopened_log:
  assumes "open_oplog P k w = (r, w')" "wk_oplog w \<noteq> None"
  shows "w' = w"
  using assms
  by (auto simp: open_oplog_def file_oplog_open_def bind_op_def get_op_def lift_op_def modify_op_def return_op_def unwrap_or_def
      split: prod.splits sum.splits)

lemma init_again:
  assumes "init_command P show_value m b None w = (r, w')" "wk_exists w" "wk_oplog w \<noteq> None"
  shows "reconfigured w w'"
proof -
  have w: "w\<lparr>wk_exists := True\<rparr> = w" using assms(2) by (cases w) simp
  have log: "open_oplog P None (w\<lparr>wk_config := config\<rparr>) = (q, w2) \<Longrightarrow> w2 = w\<lparr>wk_config := config\<rparr>" for config q w2
    using reopened_log [of P None "w\<lparr>wk_config := config\<rparr>" q w2] assms(3) by simp
  have "\<exists>config. w = w\<lparr>wk_config := config\<rparr>" by (rule exI [of _ "wk_config w"]) simp
  then show ?thesis
    using assms(1) log
    by (auto simp: init_command_def bind_cli_def create_dir_all_def w write_file_def anyhow_op_def Let_def reconfigured_def
        split: option.splits prod.splits sum.splits)
qed

text \<open>A step of a session on a workspace that is locked.\<close>

definition locked :: "('db, 't, 'c) cli_api \<Rightarrow> workspace \<Rightarrow> bool" where
  "locked P w \<longleftrightarrow> wk_exists w \<and> wk_oplog w \<noteq> None \<and> (\<exists>e. load_crypto P w None = Inl (Anyhow e))"

lemma locked_reconfigured: "locked P w \<Longrightarrow> reconfigured w w' \<Longrightarrow> locked P w'"
  using reconfigured_same(1,2) [of w w'] reconfigured_same(3) [of w w' P] by (auto simp: locked_def)

lemma locked_refuses:
  assumes "resolves V" "locked P (mc_dirs mc d)" "without_passphrase cmd" "works_on V d cmd"
  shows "\<exists>e. cli_main P K J U H V cmd mc = Some (Inl (Anyhow e), mc)"
proof -
  obtain p where p: "command_path cmd = Some p" "ce_resolve V p = d"
    using assms(3,4) by (cases cmd) (auto simp: works_on_def)
  have q: "sanitize_path (canonical V mc) p = Inr d"
    using sanitize_existing [OF assms(1), of mc p] assms(2) p(2) by (simp add: locked_def)
  have "ce_resolve V d = d" using assms(1) p(2) by (auto simp: resolves_def)
  with locked_command [OF assms(3) p(1) q] assms(2) show ?thesis by (auto simp: locked_def)
qed

lemma locked_step:
  assumes "resolves V" "locked P (mc_dirs mc d)" "works_on V d cmd \<longrightarrow> no_passphrase cmd"
    and "cli_main P K J U H V cmd mc = Some (r, mc')"
  shows "reconfigured (mc_dirs mc d) (mc_dirs mc' d) \<and>
    (works_on V d cmd \<and> without_passphrase cmd \<longrightarrow> (\<exists>e. r = Inl (Anyhow e)))"
proof (cases "works_on V d cmd")
  case False
  with elsewhere [OF assms(4,1)] show ?thesis by simp
next
  case here: True
  show ?thesis
  proof (cases "without_passphrase cmd")
    case True
    with locked_refuses [OF assms(1,2) True here, of K J U H] assms(4) show ?thesis by auto
  next
    case False
    with here assms(3) consider p m b where "cmd = Init p m b None" "ce_resolve V p = d"
      | p f t ns l where "cmd = Audit p f t ns l" "ce_resolve V p = d"
      by (cases cmd) (auto simp: works_on_def)
    then have "reconfigured (mc_dirs mc d) (mc_dirs mc' d)"
    proof cases
      case 1
      with sanitize_existing [OF assms(1), of mc p] assms(1,2,4) show ?thesis
        by (auto simp: locked_def in_workspace_def at_dir_def resolves_def dest!: reported_state intro!: init_again split: prod.splits)
    next
      case 2
      with sanitize_existing [OF assms(1), of mc p] assms(1,2,4) show ?thesis
        by (auto simp: locked_def in_workspace_def at_dir_def resolves_def dest!: reported_state)
    qed
    with False show ?thesis by simp
  qed
qed

lemma locked_session:
  assumes "resolves V" "locked P (mc_dirs mc d)" "\<forall>cmd\<in>set cmds. works_on V d cmd \<longrightarrow> no_passphrase cmd"
    and "session P K J U H V cmds mc = Some (rs, mc')"
  shows "reconfigured (mc_dirs mc d) (mc_dirs mc' d) \<and>
    list_all2 (\<lambda>cmd r. works_on V d cmd \<and> without_passphrase cmd \<longrightarrow> (\<exists>e. r = Inl (Anyhow e))) cmds rs"
  using assms(2-)
proof (induction cmds arbitrary: mc rs)
  case (Cons cmd cmds)
  obtain r mc1 rs1 where 1: "cli_main P K J U H V cmd mc = Some (r, mc1)" "session P K J U H V cmds mc1 = Some (rs1, mc')" "rs = r # rs1"
    using Cons.prems(3) by (auto simp: bind_eq_Some_conv)
  have step: "reconfigured (mc_dirs mc d) (mc_dirs mc1 d) \<and>
      (works_on V d cmd \<and> without_passphrase cmd \<longrightarrow> (\<exists>e. r = Inl (Anyhow e)))"
    by (rule locked_step [OF assms(1) Cons.prems(1) _ 1(1)]) (use Cons.prems(2) in simp)
  then have "locked P (mc_dirs mc1 d)" using locked_reconfigured [OF Cons.prems(1)] by blast
  from Cons.IH [OF this _ 1(2)] Cons.prems(2) step 1(3) show ?case
    by (auto intro: reconfigured_trans)
qed simp

section \<open>Properties\<close>

text \<open>
  C32: A workspace initialised with a passphrase stays guarded by it: after the initialisation, in every
  session of commands that gives no passphrase for this workspace, whatever the paths, each inspection,
  import, export, diagnosis and synchronisation of it ends with an error, and so does any after it, without an
  effect. The files of the workspace stay as they were, except for its configuration: an initialisation
  without a passphrase goes on and rewrites it, and an audit answers. The initialisation touched no other workspace.
\<close>

theorem passphrase_guards_workspace:
  assumes "resolves V" "cli_main P K J U H V (Init p m b (Some pass)) mc = Some (Inr rep, mc')"
    and "\<forall>cmd\<in>set cmds. works_on V (ce_resolve V p) cmd \<longrightarrow> no_passphrase cmd"
    and "session P K J U H V cmds mc' = Some (rs, mc'')"
  shows "list_all2 (\<lambda>cmd r. works_on V (ce_resolve V p) cmd \<and> without_passphrase cmd \<longrightarrow> (\<exists>e. r = Inl (Anyhow e))) cmds rs \<and>
    (\<forall>cmd. works_on V (ce_resolve V p) cmd \<longrightarrow> without_passphrase cmd \<longrightarrow>
      (\<exists>e. cli_main P K J U H V cmd mc'' = Some (Inl (Anyhow e), mc''))) \<and>
    (\<exists>text. mc_dirs mc'' (ce_resolve V p) = (mc_dirs mc' (ce_resolve V p))\<lparr>wk_config := text\<rparr>) \<and>
    (\<forall>d. d \<noteq> ce_resolve V p \<longrightarrow> mc_dirs mc' d = mc_dirs mc d)"
proof -
  note locks = init_locks [OF assms(2,1)]
  then have locked: "locked P (mc_dirs mc' (ce_resolve V p))" by (simp add: locked_def)
  note ran = locked_session [OF assms(1) locked assms(3,4)]
  then have "locked P (mc_dirs mc'' (ce_resolve V p))" using locked_reconfigured [OF locked] by blast
  note refused = locked_refuses [OF assms(1) this]
  show ?thesis using conjunct2 [OF ran] conjunct1 [OF ran] locks refused unfolding reconfigured_def by blast
qed

text \<open>
  C33: Parent references are refused only where there is nothing to reach: a command on a path with one is
  refused, without effect, when no workspace exists there, and when one exists the command does on it
  what it does on its canonical path.
\<close>

theorem parent_references_reach_what_exists:
  assumes "resolves V" "command_path cmd = Some p" "ParentDir \<in> set p"
  shows "cli_main P K J U H V cmd mc =
    (if wk_exists (mc_dirs mc (ce_resolve V p)) then cli_main P K J U H V (with_path (ce_resolve V p) cmd) mc
     else Some (Inl (Anyhow ''Path cannot contain parent directory references (..)''), mc))"
proof (cases "wk_exists (mc_dirs mc (ce_resolve V p))")
  case True
  with existing_by_canonical [OF assms(1,2) True] show ?thesis by (simp only: if_True)
next
  case False
  with missing_refused [OF assms(2) False assms(3)] show ?thesis by (simp only: if_False)
qed

text \<open>A file system without links, whose current directory is the root, with one directory in it.\<close>

fun descend :: "path \<Rightarrow> path \<Rightarrow> path" where
  "descend at_path [] = at_path"
| "descend at_path (Normal n # p) = descend (at_path @ [Normal n]) p"
| "descend at_path (ParentDir # p) = descend (butlast at_path) p"
| "descend at_path (c # p) = descend at_path p"

definition sample_env :: cli_env where
  "sample_env = \<lparr>ce_resolve = (\<lambda>p. RootDir # descend [] p), ce_bench_dir = [RootDir, Normal ''tmp''],
     ce_import = (\<lambda>f. None), ce_export_faults = (\<lambda>f n. None), ce_show_value = (\<lambda>v. ''{}''), ce_world = sample_world\<rparr>"

lemma descend_normal: "\<forall>c\<in>set at_path. \<exists>n. c = Normal n \<Longrightarrow> \<forall>c\<in>set (descend at_path p). \<exists>n. c = Normal n"
  by (induction at_path p rule: descend.induct) (auto dest: in_set_butlastD)

lemma descend_id: "\<forall>c\<in>set p. \<exists>n. c = Normal n \<Longrightarrow> descend at_path p = at_path @ p"
  by (induction at_path p rule: descend.induct) auto

lemma sample_env_resolves: "resolves sample_env"
proof -
  have "descend [] (descend [] p) = descend [] p" "ParentDir \<notin> set (descend [] p)" for p
    using descend_normal [of "[]" p] descend_id [of "descend [] p" "[]"] by auto
  then show ?thesis by (simp add: resolves_def sample_env_def)
qed

definition sample_machine :: "unit machine" where
  "sample_machine = \<lparr>mc_dirs = (\<lambda>d. fresh_workspace\<lparr>wk_exists := d = [RootDir] \<or> d = [RootDir, Normal ''s'']\<rparr>), mc_net = ()\<rparr>"

definition sample_audit :: audit_api where
  "sample_audit = \<lparr>au_debug_time = (\<lambda>t. ''?''), au_show_time = (\<lambda>t. ''?''), au_to_value = (\<lambda>d. Inl ''?''),
     au_pretty = (\<lambda>v. Inl ''?'')\<rparr>"

abbreviation sample_main :: "command \<Rightarrow> unit machine \<Rightarrow> (report cli_result \<times> unit machine) option" where
  "sample_main \<equiv> cli_main sample_api blank_codec number_json sample_audit offline sample_env"

lemma session_returns:
  "\<forall>cmd\<in>set cmds. \<forall>p s t n w. cmd \<noteq> Sync_once p s t n w \<Longrightarrow> \<exists>rs mc'. session P K J U H V cmds mc = Some (rs, mc')"
proof (induction cmds arbitrary: mc)
  case (Cons cmd cmds)
  then obtain r mc1 where "cli_main P K J U H V cmd mc = Some (r, mc1)" by (cases cmd) fastforce+
  moreover obtain rs mc2 where "session P K J U H V cmds mc1 = Some (rs, mc2)" using Cons by fastforce
  ultimately show ?case by simp
qed simp

abbreviation sample_session :: "command list" where
  "sample_session \<equiv> [Init [Normal ''w''] (Some 1) None None, Inspect [Normal ''s'', ParentDir, Normal ''w'']]"

theorem passphrase_guards_workspace_witness:
  "\<exists>mc r e f mc'. sample_main (Init [Normal ''w''] None None (Some ''p'')) sample_machine = Some (Inr Initialized, mc) \<and>
     session sample_api blank_codec number_json sample_audit offline sample_env sample_session mc = Some ([r, Inl (Anyhow e)], mc') \<and>
     sample_main (Doctor [Normal ''w''] None) mc' = Some (Inl (Anyhow f), mc')"
proof -
  have "ok_of (crypto_decrypt tag_cipher () (crypto_encrypt tag_cipher () (replicate 12 0) bs)) \<noteq> None" for bs
    using crypto_round_trip [OF tag_cipher_ok, of "replicate 12 0"] by simp
  then have "\<exists>mc. sample_main (Init [Normal ''w''] None None (Some ''p'')) sample_machine = Some (Inr Initialized, mc)"
    by (simp add: reported_def in_workspace_def at_dir_def sanitize_path_def canonical_def init_command_def bind_cli_def create_dir_all_def
        write_file_def anyhow_op_def assert_cli_def open_oplog_def file_oplog_open_def fs_call_def read_latest_seq_def
        read_applied_def Let_def bind_op_def get_op_def lift_op_def modify_op_def fresh_workspace_def sample_api_def
        redb_open_def table_redb_def sample_machine_def sample_env_def unwrap_or_def)
  then obtain mc where init: "sample_main (Init [Normal ''w''] None None (Some ''p'')) sample_machine = Some (Inr Initialized, mc)"
    by blast
  obtain rs mc' where ses: "session sample_api blank_codec number_json sample_audit offline sample_env sample_session mc = Some (rs, mc')"
    using session_returns [of sample_session] by fastforce
  have on: "works_on sample_env (ce_resolve sample_env [Normal ''w'']) cmd" if "cmd \<in> set sample_session \<or> cmd = Doctor [Normal ''w''] None" for cmd
    using that by (auto simp: works_on_def sample_env_def)
  note guarded = passphrase_guards_workspace [OF sample_env_resolves init _ ses]
  have "\<exists>r e. rs = [r, Inl (Anyhow e)]"
    using conjunct1 [OF guarded] on by (auto simp: list_all2_Cons1 simp del: cli_main.simps)
  moreover have "\<exists>f. sample_main (Doctor [Normal ''w''] None) mc' = Some (Inl (Anyhow f), mc')"
    using conjunct1 [OF conjunct2 [OF guarded]] on by (auto simp del: cli_main.simps)
  ultimately show ?thesis using init ses by blast
qed

theorem parent_references_reach_what_exists_witness:
  "sample_main (Inspect [Normal ''s'', ParentDir, Normal ''w'']) sample_machine =
   Some (Inl (Anyhow ''Path cannot contain parent directory references (..)''), sample_machine)"
  using parent_references_reach_what_exists [OF sample_env_resolves,
      of "Inspect [Normal ''s'', ParentDir, Normal ''w'']" "[Normal ''s'', ParentDir, Normal ''w'']" sample_api blank_codec
        number_json sample_audit offline sample_machine]
  by (simp add: sample_machine_def sample_env_def del: cli_main.simps)

end
