(* ===== verification/Rango_Adversarial.thy ===== *)
theory Rango_Adversarial
  imports Rango_Hub
begin

text \<open>
  The adversarial benchmarks (\<open>benches/adversarial.rs\<close>), which check claims on the server while they time
  it: that a poisoned write is rejected, that one tenant does not see the writes of another, and that the
  log replayed into a fresh file gives the same checkpoint. A benchmark is a set-up and a closure the
  harness runs as often as it likes; the number of runs is a parameter. A panic is an unwrapped error or a
  failed assertion, with its message. Times and the harness's reports are left out.
\<close>

datatype bench_panic = UnwrapFailed | AssertFailed string

type_synonym ('s, 'a) bench = "'s \<Rightarrow> (bench_panic + 'a) \<times> 's"

definition unwrap_bench :: "'e + 'a \<Rightarrow> bench_panic + 'a" where
  "unwrap_bench r = map_err (\<lambda>_. UnwrapFailed) r"

lemma unwrap_bench_simps [simp]: "unwrap_bench (Inl e) = Inl UnwrapFailed" "unwrap_bench (Inr x) = Inr x"
  by (simp_all add: unwrap_bench_def)

section \<open>Seeds and workspaces\<close>

record adversarial_seeds =
  as_poisoning :: u64
  as_cross_tenant_leak :: u64
  as_replay :: u64
  as_push_throughput :: u64
  as_pull_latency :: u64
  as_audit_persistence :: u64

text \<open>
  What a run of the suite finds: the file of seeds and its parser, the draws of the generator for a seed,
  the directory for temporary files with what is in it, the faults of creating a directory, of removing the
  replayed file before its nth use, and of the calls on a log file opened for the nth time.
\<close>

record bench_env =
  be_seeds_file :: "string + string"
  be_parse_seeds :: "string \<Rightarrow> string + adversarial_seeds"
  be_random :: "u64 \<Rightarrow> nat \<Rightarrow> u64"
  be_scores :: "u64 \<Rightarrow> nat \<Rightarrow> f64"
  be_temp_dir :: string
  be_pid :: nat
  be_create_dir :: "string \<Rightarrow> string option"
  be_files :: "string \<Rightarrow> bytes option"
  be_remove :: "nat \<Rightarrow> string option"
  be_faults :: "string \<Rightarrow> nat \<Rightarrow> nat \<Rightarrow> (string \<times> nat) option"

definition load_seeds :: "bench_env \<Rightarrow> bench_panic + adversarial_seeds" where
  "load_seeds B = try_r (unwrap_bench (be_seeds_file B)) (\<lambda>contents. unwrap_bench (be_parse_seeds B contents))"

text \<open>The workspace and the counter after it.\<close>

definition temp_workspace :: "bench_env \<Rightarrow> string \<Rightarrow> nat \<Rightarrow> (bench_panic + string) \<times> nat" where
  "temp_workspace B label n =
     (let path = be_temp_dir B @ ''/rango-adversarial-bench-'' @ label @ ''-'' @ show_nat (be_pid B) @ ''-'' @ show_nat n
      in (case be_create_dir B path of Some e \<Rightarrow> Inl UnwrapFailed | None \<Rightarrow> Inr path, Suc n))"

text \<open>\<open>FileOplog::new\<close> without a key; the nonces are never drawn.\<close>

definition bench_log :: "deps \<Rightarrow> entry_codec \<Rightarrow> 'c crypto_api \<Rightarrow> bench_env \<Rightarrow> string \<Rightarrow> bytes option \<Rightarrow> nat \<Rightarrow>
    bench_panic + 'c file_oplog" where
  "bench_log D K A B path disk n =
     (case file_oplog_open D K A None disk (be_files B (path @ ''.applied'')) (\<lambda>_. replicate 12 0) (be_faults B path n) of
        (Inl e, _) \<Rightarrow> Inl UnwrapFailed
      | (Inr _, lg) \<Rightarrow> Inr lg)"

section \<open>Mutations\<close>

definition make_mutation :: "deps \<Rightarrow> string \<Rightarrow> string \<Rightarrow> string \<Rightarrow> f64 \<Rightarrow> world \<Rightarrow> mutation \<times> world" where
  "make_mutation D tenant ns write_id trust_score w =
     (case document_id_new_uuid_v7 w of (doc_id, w) \<Rightarrow>
      case revision_now D ''bench'' w of (rv, w) \<Rightarrow>
      case datetime_now w of (timestamp, w) \<Rightarrow>
      case datetime_now w of (created_at, w) \<Rightarrow>
      case datetime_now w of (updated_at, w) \<Rightarrow>
        (\<lparr>mut_op = Insert, mut_collection = ''state'', mut_doc_id = doc_id,
          mut_patch = Some [(''payload'', String write_id)], mut_seq = 0, mut_timestamp = timestamp, mut_rev = rv,
          mut_write_id = write_id,
          mut_metadata = \<lparr>md_id = doc_id, md_namespace = ns, md_tenant_id = tenant, md_type = ''state'', md_rev = rv,
            md_created_at = created_at, md_updated_at = updated_at, md_source = ''bench'', md_actor = ''bench'',
            md_lineage = document_id_to_string D doc_id, md_schema_version = 1, md_trust_score = trust_score,
            md_verified = Some True, md_expires_at = None\<rparr>\<rparr>, w))"

definition bench_trust :: f64 where
  "bench_trust = f64_lit (95 / 100)"

definition seeded_write_id :: "string \<Rightarrow> nat \<Rightarrow> u64 \<Rightarrow> string" where
  "seeded_write_id label i r = label @ ''-'' @ show_nat i @ ''-'' @ show_nat (unat r)"

definition bench_principal :: "string \<Rightarrow> string \<Rightarrow> auth_principal" where
  "bench_principal node tenant = \<lparr>ap_node_id = node, ap_tenant_id = tenant\<rparr>"

definition bench_push_request :: "mutation \<Rightarrow> push_request" where
  "bench_push_request m = \<lparr>pq_node_id = ''node-a'', pq_tenant_id = ''tenant-a'', pq_namespace = ''ns'',
     pq_mutations = [m], pq_last_checkpoint = checkpoint_initial\<rparr>"

definition bench_pull_request :: "string \<Rightarrow> string \<Rightarrow> pull_request" where
  "bench_pull_request node tenant = \<lparr>lq_node_id = node, lq_tenant_id = tenant, lq_namespace = ''ns'',
     lq_since_checkpoint = checkpoint_initial\<rparr>"

text \<open>The pushes of a set-up, with the assertion that each is accepted where the source has it.\<close>

fun seeded_pushes :: "deps \<Rightarrow> 'o oplog_vt \<Rightarrow> string \<Rightarrow> bool \<Rightarrow> (nat \<Rightarrow> u64) \<Rightarrow> nat list \<Rightarrow> ('o server_state, unit) bench" where
  "seeded_pushes D L label check random [] s = (Inr (), s)"
| "seeded_pushes D L label check random (i # ns) s =
     (case server_world (make_mutation D ''tenant-a'' ''ns'' (seeded_write_id label i (random i)) bench_trust) s of (m, s) \<Rightarrow>
      case process_push D L (bench_push_request m) (bench_principal ''node-a'' ''tenant-a'') s of
        (Inl e, s) \<Rightarrow> (Inl UnwrapFailed, s)
      | (Inr resp, s) \<Rightarrow>
          if check \<and> ps_accepted_seqs resp = []
          then (Inl (AssertFailed (''mutation '' @ show_nat i @ '' should be accepted'')), s)
          else seeded_pushes D L label check random ns s)"

definition bench_server :: "'o oplog_vt \<Rightarrow> 'o \<Rightarrow> world \<Rightarrow> 'o server_state" where
  "bench_server L lg w = add_token_with_tenant ''token-a'' ''node-a'' ''tenant-a'' (server_new L lg w)"

section \<open>Poisoning\<close>

definition poisoning_context :: write_context where
  "poisoning_context = \<lparr>wc_tenant_id = ''tenant-a'', wc_namespace = ''ns'', wc_actor = ''bench'', wc_source = ''bench'',
     wc_tier = State\<rparr>"

definition poisoned_payload :: "f64 \<Rightarrow> write_payload" where
  "poisoned_payload trust_score = StateWithTrust [(''data'', String ''test'')] trust_score"

fun all_ok :: "('e + 'a) list \<Rightarrow> 'e + 'a list" where
  "all_ok [] = Inr []"
| "all_ok (r # rs) = try_r r (\<lambda>x. try_r (all_ok rs) (\<lambda>xs. Inr (x # xs)))"

text \<open>The decisions of the closures, each of which the harness runs so many times.\<close>

definition poisoning_rejection_latency :: "deps \<Rightarrow> bench_env \<Rightarrow> nat \<Rightarrow> bench_panic + governance_decision list" where
  "poisoning_rejection_latency D B runs =
     try_r (load_seeds B) (\<lambda>seeds.
     all_ok (concat (map (\<lambda>n.
       let payload = poisoned_payload (be_scores B (as_poisoning seeds) n)
       in replicate runs (unwrap_bench (fst (write_path D default_control_plane poisoning_context payload)))) [0..<5])))"

section \<open>Leaks between tenants\<close>

fun leak_pulls :: "deps \<Rightarrow> 'o oplog_vt \<Rightarrow> nat \<Rightarrow> ('o server_state, unit) bench" where
  "leak_pulls D L 0 s = (Inr (), s)"
| "leak_pulls D L (Suc runs) s =
     (case process_pull D L (bench_pull_request ''node-b'' ''tenant-b'') (bench_principal ''node-b'' ''tenant-b'') State s of
        (Inl e, s) \<Rightarrow> (Inl UnwrapFailed, s)
      | (Inr resp, s) \<Rightarrow>
          if length (ls_mutations resp) \<noteq> 0 then (Inl (AssertFailed ''tenant-b must observe 0 mutations''), s)
          else leak_pulls D L runs s)"

definition leak_run :: "deps \<Rightarrow> 'o oplog_vt \<Rightarrow> (nat \<Rightarrow> u64) \<Rightarrow> nat \<Rightarrow> ('o server_state, unit) bench" where
  "leak_run D L random runs s =
     (case seeded_pushes D L ''leak'' True random [0..<100]
         (add_token_with_tenant ''token-b'' ''node-b'' ''tenant-b'' s) of
        (Inl e, s) \<Rightarrow> (Inl e, s)
      | (Inr _, s) \<Rightarrow> leak_pulls D L runs s)"

definition cross_tenant_leak_check :: "deps \<Rightarrow> entry_codec \<Rightarrow> 'c crypto_api \<Rightarrow> bench_env \<Rightarrow> nat \<Rightarrow> world \<Rightarrow> nat \<Rightarrow>
    (bench_panic + unit) \<times> nat" where
  "cross_tenant_leak_check D K A B runs w n =
     (case load_seeds B of Inl e \<Rightarrow> (Inl e, n) | Inr seeds \<Rightarrow>
      case temp_workspace B ''leak'' n of (workspace, n) \<Rightarrow>
        (try_r workspace (\<lambda>path.
         let file = path @ ''/oplog.rgo''; L = file_oplog_vt D K A
         in try_r (bench_log D K A B file (be_files B file) 0) (\<lambda>lg.
            fst (leak_run D L (be_random B (as_cross_tenant_leak seeds)) runs (bench_server L lg w)))), n))"

section \<open>Replay\<close>

fun append_all :: "'o oplog_vt \<Rightarrow> oplog_entry list \<Rightarrow> ('o, unit) bench" where
  "append_all L [] lg = (Inr (), lg)"
| "append_all L (e # es) lg =
     (case op_append L e lg of (Inl err, lg) \<Rightarrow> (Inl UnwrapFailed, lg) | (Inr _, lg) \<Rightarrow> append_all L es lg)"

text \<open>One run of the closure on the log it has opened: replay, start a server, compare.\<close>

definition replay_once :: "'o oplog_vt \<Rightarrow> checkpoint \<Rightarrow> oplog_entry list \<Rightarrow> world \<Rightarrow> 'o \<Rightarrow> bench_panic + checkpoint" where
  "replay_once L checkpoint_a entries w oplog_b =
     (case append_all L entries oplog_b of
        (Inl e, _) \<Rightarrow> Inl e
      | (Inr _, oplog_b) \<Rightarrow>
          let checkpoint_b = scoped_latest_checkpoint (server_new L oplog_b w) ''tenant-a'' ''ns''
          in if checkpoint_a \<noteq> checkpoint_b then Inl (AssertFailed ''checkpoints must converge after replay'')
             else Inr checkpoint_b)"

text \<open>The runs, on the log each of them opens or its panic, and what the first server saw.\<close>

fun replay_runs :: "'o oplog_vt \<Rightarrow> checkpoint \<Rightarrow> oplog_entry list \<Rightarrow> world \<Rightarrow> (bench_panic + 'o) list \<Rightarrow> bench_panic + unit" where
  "replay_runs L checkpoint_a entries w [] = Inr ()"
| "replay_runs L checkpoint_a entries w (lg # lgs) =
     try_r lg (\<lambda>oplog_b. try_r (replay_once L checkpoint_a entries w oplog_b) (\<lambda>_. replay_runs L checkpoint_a entries w lgs))"

definition replay_run :: "deps \<Rightarrow> 'o oplog_vt \<Rightarrow> (nat \<Rightarrow> u64) \<Rightarrow> (bench_panic + 'o) list \<Rightarrow> 'o server_state \<Rightarrow> bench_panic + unit" where
  "replay_run D L random lgs s =
     (case seeded_pushes D L ''replay'' False random [0..<50] s of
        (Inl e, s) \<Rightarrow> Inl e
      | (Inr _, s) \<Rightarrow>
          try_r (unwrap_bench (op_read_since L (sv_oplog s) 1 1000)) (\<lambda>entries.
          replay_runs L (scoped_latest_checkpoint s ''tenant-a'' ''ns'') entries (sv_world s) lgs))"

text \<open>The file of the replay is removed where it exists: before the first run if it was there, and before every later one.\<close>

definition replay_log :: "deps \<Rightarrow> entry_codec \<Rightarrow> 'c crypto_api \<Rightarrow> bench_env \<Rightarrow> string \<Rightarrow> nat \<Rightarrow> bench_panic + 'c file_oplog" where
  "replay_log D K A B path n =
     (case (if 0 < n \<or> be_files B path \<noteq> None then be_remove B n else None) of
        Some e \<Rightarrow> Inl UnwrapFailed
      | None \<Rightarrow> bench_log D K A B path None n)"

definition replay_determinism :: "deps \<Rightarrow> entry_codec \<Rightarrow> 'c crypto_api \<Rightarrow> bench_env \<Rightarrow> nat \<Rightarrow> world \<Rightarrow> nat \<Rightarrow>
    (bench_panic + unit) \<times> nat" where
  "replay_determinism D K A B runs w n =
     (case load_seeds B of Inl e \<Rightarrow> (Inl e, n) | Inr seeds \<Rightarrow>
      case temp_workspace B ''replay'' n of (workspace, n) \<Rightarrow>
        (try_r workspace (\<lambda>path.
         let file = path @ ''/oplog-a.rgo''; L = file_oplog_vt D K A
         in try_r (bench_log D K A B file (be_files B file) 0) (\<lambda>lg.
            replay_run D L (be_random B (as_replay seeds))
              (map (replay_log D K A B (path @ ''/oplog-replay.rgo'')) [0..<runs]) (bench_server L lg w))), n))"

section \<open>Throughput, latency and audit\<close>

definition push_throughput :: "deps \<Rightarrow> entry_codec \<Rightarrow> 'c crypto_api \<Rightarrow> bench_env \<Rightarrow> nat \<Rightarrow> world \<Rightarrow> nat \<Rightarrow>
    (bench_panic + unit) \<times> nat" where
  "push_throughput D K A B runs w n =
     (case load_seeds B of Inl e \<Rightarrow> (Inl e, n) | Inr seeds \<Rightarrow>
      case temp_workspace B ''push'' n of (workspace, n) \<Rightarrow>
        (try_r workspace (\<lambda>path.
         let file = path @ ''/oplog.rgo''; L = file_oplog_vt D K A
         in try_r (bench_log D K A B file (be_files B file) 0) (\<lambda>lg.
            fst (seeded_pushes D L ''push'' False (\<lambda>i. be_random B (as_push_throughput seeds) (i - 1)) [1..<Suc runs]
              (bench_server L lg w)))), n))"

fun latency_pulls :: "deps \<Rightarrow> 'o oplog_vt \<Rightarrow> nat \<Rightarrow> ('o server_state, unit) bench" where
  "latency_pulls D L 0 s = (Inr (), s)"
| "latency_pulls D L (Suc runs) s =
     (case process_pull D L (bench_pull_request ''node-a'' ''tenant-a'') (bench_principal ''node-a'' ''tenant-a'') State s of
        (Inl e, s) \<Rightarrow> (Inl UnwrapFailed, s)
      | (Inr resp, s) \<Rightarrow> latency_pulls D L runs s)"

definition pull_latency :: "deps \<Rightarrow> entry_codec \<Rightarrow> 'c crypto_api \<Rightarrow> bench_env \<Rightarrow> nat \<Rightarrow> world \<Rightarrow> nat \<Rightarrow>
    (bench_panic + unit) \<times> nat" where
  "pull_latency D K A B runs w n =
     (case load_seeds B of Inl e \<Rightarrow> (Inl e, n) | Inr seeds \<Rightarrow>
      case temp_workspace B ''pull'' n of (workspace, n) \<Rightarrow>
        (try_r workspace (\<lambda>path.
         let file = path @ ''/oplog.rgo''; L = file_oplog_vt D K A
         in try_r (bench_log D K A B file (be_files B file) 0) (\<lambda>lg.
            case seeded_pushes D L ''pull'' False (be_random B (as_pull_latency seeds)) [0..<100] (bench_server L lg w) of
              (Inl e, s) \<Rightarrow> Inl e
            | (Inr _, s) \<Rightarrow> fst (latency_pulls D L runs s))), n))"

fun audit_runs :: "deps \<Rightarrow> 'o oplog_vt \<Rightarrow> nat \<Rightarrow> ('o server_state, unit) bench" where
  "audit_runs D L 0 s = (Inr (), s)"
| "audit_runs D L (Suc runs) s =
     (case persist_audit_evidence D L ''write'' ''tenant-a'' ''ns'' None \<lparr>gd_decision = Allow, gd_reason = ''benchmark''\<rparr> s of
        (Inl e, s) \<Rightarrow> (Inl UnwrapFailed, s)
      | (Inr seq, s) \<Rightarrow> audit_runs D L runs s)"

definition audit_persistence :: "deps \<Rightarrow> entry_codec \<Rightarrow> 'c crypto_api \<Rightarrow> bench_env \<Rightarrow> nat \<Rightarrow> world \<Rightarrow> nat \<Rightarrow>
    (bench_panic + unit) \<times> nat" where
  "audit_persistence D K A B runs w n =
     (case load_seeds B of Inl e \<Rightarrow> (Inl e, n) | Inr _ \<Rightarrow>
      case temp_workspace B ''audit'' n of (workspace, n) \<Rightarrow>
        (try_r workspace (\<lambda>path.
         let file = path @ ''/oplog.rgo''; L = file_oplog_vt D K A
         in try_r (bench_log D K A B file (be_files B file) 0) (\<lambda>lg. fst (audit_runs D L runs (server_new L lg w)))), n))"

section \<open>The mutations are admissible\<close>

lemma bench_trust_quotient: "quotient_of (19 / 20) = (19, 20)"
  by code_simp

lemma bench_trust_bitlens: "bitlen 19 = 5" "bitlen 20 = 5"
  by code_simp+

lemma bench_trust_ulp: "ulp_exp (19 / 20) = -53"
  by (simp add: ulp_exp_def bench_trust_quotient bench_trust_bitlens Let_def)

lemma bench_trust_is: "bench_trust = Fin (4278419646001971 / 4503599627370496)"
  by (simp add: bench_trust_def f64_lit_def round_f64_def bench_trust_ulp Let_def two_pow_def round_half_even_def
      floor_numeral_quotient f64_max_def)

lemma bench_trust_value: "in_unit bench_trust \<and> \<not> f64_lt bench_trust (Fin (1 / 4))"
  by (simp add: bench_trust_is f64_lt_def cmp_of_def)

text \<open>The dates of the world, and that no step of the server changes what they will be.\<close>

definition dates :: "'o server_state \<Rightarrow> nat \<Rightarrow> millis" where
  "dates s = w_datetimes (sv_world s)"

definition identifiers_shown :: "deps \<Rightarrow> bool" where
  "identifiers_shown D \<longleftrightarrow> (\<forall>bs. document_id_to_string D (Binary uuid_subtype bs) \<noteq> [])"

lemma make_mutation_admissible:
  assumes "server_world (make_mutation D ''tenant-a'' ''ns'' wid bench_trust) s = (m, s')" "mono (dates s)" "identifiers_shown D"
  shows "admissible ''tenant-a'' ''ns'' m" "mut_write_id m = wid" "dates s' = dates s" "server_same s s'"
    "sv_containment s' = sv_containment s" "md_tenant_id (mut_metadata m) = ''tenant-a''" "mut_collection m = ''state''"
proof -
  let ?w = "sv_world s"
  have up: "w_datetimes ?w k \<le> w_datetimes ?w (Suc k)" for k
    using assms(2) by (simp add: dates_def mono_iff_le_Suc)
  show "server_same s s'" "sv_containment s' = sv_containment s" using server_world_same [OF assms(1)] by simp_all
  show "admissible ''tenant-a'' ''ns'' m" "mut_write_id m = wid" "dates s' = dates s"
    "md_tenant_id (mut_metadata m) = ''tenant-a''" "mut_collection m = ''state''"
    using assms(1,3) bench_trust_value up
    by (auto simp: make_mutation_def server_world_def document_id_new_uuid_v7_def uuid_now_v7_def revision_now_def
        unix_now_def fetch_add_counter_def datetime_now_def admissible_def validate_metadata_ok metadata_valid_def
        scope_of_def dates_def identifiers_shown_def)
qed

section \<open>What a request leaves\<close>

lemma clock_steps:
  "server_world datetime_now s = (t, s') \<Longrightarrow> dates s' = dates s"
  "server_world document_id_new_uuid_v7 s = (i, s') \<Longrightarrow> dates s' = dates s"
  "server_world (revision_now D node) s = (r, s') \<Longrightarrow> dates s' = dates s"
  "server_world containment_default s = (c, s') \<Longrightarrow> dates s' = dates s"
  "server_world (maybe_reset_after_cooldown c) s = (c', s') \<Longrightarrow> dates s' = dates s"
  "server_world (observe_decision d c) s = (c', s') \<Longrightarrow> dates s' = dates s"
  by (auto simp: server_world_def dates_def datetime_now_def instant_now_def document_id_new_uuid_v7_def uuid_now_v7_def
      revision_now_def unix_now_def fetch_add_counter_def containment_default_def maybe_reset_after_cooldown_def
      observe_decision_def Let_def split: prod.splits)

lemma dates_simps [simp]:
  "dates (s\<lparr>sv_oplog := lg\<rparr>) = dates s" "dates (s\<lparr>sv_audit_counter := n\<rparr>) = dates s"
  "dates (s\<lparr>sv_containment := c\<rparr>) = dates s" "dates (s\<lparr>sv_latest := l\<rparr>) = dates s"
  "dates (s\<lparr>sv_write_ids := i\<rparr>) = dates s" "dates (signals tr s) = dates s" "dates (index_mutation n m s) = dates s"
  by (simp_all add: dates_def signals_def index_mutation_def)

lemma dates_entry: "containment_entry sc s = (c, s') \<Longrightarrow> dates s' = dates s"
  by (auto simp: containment_entry_def dest: clock_steps split: option.splits)

lemma dates_gate: "containment_gate t n s = (g, s') \<Longrightarrow> dates s' = dates s"
  by (auto simp: containment_gate_def dest!: dates_entry clock_steps split: prod.splits)

lemma dates_persist [simp]: "dates (snd (persist_audit_evidence D L stage t n w d s)) = dates s"
  by (auto simp: persist_audit_evidence_def bind_op_def lift_op_def server_append_def Let_def
      dest!: clock_steps split: prod.splits sum.splits)

lemma dates_note [simp]: "dates (note_decision D L stage t n w d s) = dates s"
  by (auto simp: note_decision_def register_decision_outcome_def dest!: dates_entry clock_steps split: prod.splits)

lemma dates_append: "append_mutation L m t n s = (r, s') \<Longrightarrow> dates s' = dates s"
  by (auto simp: append_mutation_def bind_op_def lift_op_def server_append_def Let_def
      dest!: clock_steps split: prod.splits sum.splits option.splits if_splits)

definition audit_typed :: "oplog_entry \<Rightarrow> bool" where
  "audit_typed e \<longleftrightarrow> md_type (mut_metadata (entry_mutation e)) = ''governance_audit''"

text \<open>A log that refuses an entry in some state it can be in.\<close>

definition refuses :: "'o oplog_vt \<Rightarrow> ('o \<Rightarrow> bool) \<Rightarrow> bool" where
  "refuses L ok \<longleftrightarrow> (\<exists>lg e x lg'. ok lg \<and> op_append L e lg = (Inl x, lg'))"

context oplog_keeps
begin

text \<open>Evidence is at most one entry, of the audit's type.\<close>

lemma persist_log:
  assumes "inv (sv_oplog s)"
  shows "\<exists>es. log_of (sv_oplog (snd (persist_audit_evidence D L stage t n w d s))) = log_of (sv_oplog s) @ es \<and>
    length es \<le> 1 \<and> (\<forall>e\<in>set es. audit_typed e)"
proof -
  obtain i s1 where 1: "server_world document_id_new_uuid_v7 s = (i, s1)" by fastforce
  obtain rv s2 where 2: "server_world (revision_now D ''governance-runtime'') s1 = (rv, s2)" by fastforce
  obtain t0 s3 where 3: "server_world datetime_now s2 = (t0, s3)" by fastforce
  let ?s3 = "s3\<lparr>sv_audit_counter := sv_audit_counter s3 + 1\<rparr>"
  obtain t1 s4 where 4: "server_world datetime_now ?s3 = (t1, s4)" by fastforce
  obtain t2 s5 where 5: "server_world datetime_now s4 = (t2, s5)" by fastforce
  obtain t3 s6 where 6: "server_world datetime_now s5 = (t3, s6)" by fastforce
  obtain t4 s7 where 7: "server_world datetime_now s6 = (t4, s7)" by fastforce
  let ?m = "audit_mutation D stage t n w d i rv (sv_audit_counter s3 + 1) t0 t1 t2 t3"
  let ?e = "\<lparr>entry_seq = 0, entry_timestamp = t4, entry_mutation = ?m, entry_origin = Local,
    entry_applied = True, entry_snapshot_anchor = None\<rparr>"
  note steps = 1 2 3 4 5 6 7
  have same: "sv_oplog s6 = sv_oplog s" "sv_oplog s7 = sv_oplog s"
    using steps by (auto dest!: server_world_same simp: server_same_def)
  obtain r lg where r: "op_append L ?e (sv_oplog s) = (r, lg)" by fastforce
  have m: "audit_typed (?e\<lparr>entry_seq := k\<rparr>)" for k by (simp add: audit_typed_def audit_mutation_def)
  show ?thesis
  proof (cases "validate_metadata ?m")
    case (Inl e)
    with steps same show ?thesis by (simp add: persist_audit_evidence_def Let_def)
  next
    case (Inr u)
    show ?thesis
    proof (cases r)
      case (Inl x)
      then show ?thesis
        using steps same r \<open>validate_metadata ?m = Inr u\<close> append_err_log [OF assms r [unfolded Inl]]
        by (simp add: persist_audit_evidence_def server_append_def Let_def)
    next
      case (Inr k)
      then show ?thesis
        using steps same r \<open>validate_metadata ?m = Inr u\<close> append_log [OF assms r [unfolded Inr]] m
        by (auto simp: persist_audit_evidence_def server_append_def index_mutation_def Let_def
            intro!: exI [of _ "[?e\<lparr>entry_seq := k\<rparr>]"])
    qed
  qed
qed

lemma note_log:
  assumes "inv (sv_oplog s)"
  shows "\<exists>es. log_of (sv_oplog (note_decision D L stage t n w d s)) = log_of (sv_oplog s) @ es \<and>
    length es \<le> 1 \<and> (\<forall>e\<in>set es. audit_typed e)"
proof -
  let ?s = "snd (persist_audit_evidence D L stage t n w d s)"
  have "sv_oplog (note_decision D L stage t n w d s) = sv_oplog ?s"
    using register_same [of ?s t n d] by (simp add: note_decision_def server_same_def)
  with persist_log [OF assms, of D stage t n w d] show ?thesis by simp
qed

lemma note_keeps:
  assumes "inv (sv_oplog s)"
  shows "inv (sv_oplog (note_decision D L stage t n w d s))"
proof -
  have "grows (push_entry [] []) s (note_decision D L stage t n w d s)"
    by (rule growth.R_note [OF growth.R_refl])
  with assms show ?thesis by (simp add: server_extends_def)
qed

lemma append_refused:
  assumes "append_mutation L m t n s = (Inl x, s')" "admissible t n m" "inv (sv_oplog s)"
  shows "refuses L inv"
proof -
  obtain time s1 where now: "server_world datetime_now s = (time, s1)" by fastforce
  then have "sv_oplog s1 = sv_oplog s" by (auto dest: server_world_same simp: server_same_def)
  with assms now show ?thesis
    by (auto simp: append_mutation_def admissible_def server_append_def refuses_def bind_op_def lift_op_def Let_def
        split: option.splits prod.splits sum.splits)
qed

text \<open>A push of one admissible mutation into a calm scope.\<close>

lemma push_one:
  assumes s: "calm_hub ''tenant-a'' ''ns'' s" "inv (sv_oplog s)" and m: "admissible ''tenant-a'' ''ns'' m"
    and push: "process_push D L (bench_push_request m) (bench_principal ''node-a'' ''tenant-a'') s = (r, s')"
  shows "calm_hub ''tenant-a'' ''ns'' s' \<and> inv (sv_oplog s') \<and> dates s' = dates s \<and>
    (\<exists>es. log_of (sv_oplog s') = log_of (sv_oplog s) @ es \<and> length es \<le> 2 \<and>
      (\<forall>e\<in>set es. audit_typed e \<or> entry_mutation e = m)) \<and>
    (r = Inl internal_server_error \<and> refuses L inv \<or> (\<exists>resp. r = Inr resp \<and> ps_accepted_seqs resp \<noteq> []))"
proof (rule push_loop_step [OF s(1) m, where D = D and L = L])
  fix s1 d tr
  let ?s2 = "note_decision D L ''write'' ''tenant-a'' ''ns'' (Some (mut_write_id m)) d (signals tr s1)"
  assume gate: "containment_gate ''tenant-a'' ''ns'' s = (None, s1)" and calm: "calm_hub ''tenant-a'' ''ns'' ?s2"
    and step: "\<And>ms acc cross audit. push_loop D L ''tenant-a'' ''ns'' (m # ms) acc cross audit s =
       (case append_mutation L m ''tenant-a'' ''ns'' ?s2 of
          (Inl e, s) \<Rightarrow> (Inl internal_server_error, s)
        | (Inr n, s) \<Rightarrow> push_loop D L ''tenant-a'' ''ns'' ms (acc @ [n]) cross (audit @ [d]) s)"
  obtain q s3 where q: "append_mutation L m ''tenant-a'' ''ns'' ?s2 = (q, s3)" by fastforce
  have r: "s' = s3" "r = Inl internal_server_error \<and> (\<exists>x. q = Inl x) \<or> (\<exists>resp. r = Inr resp \<and> ps_accepted_seqs resp \<noteq> [])"
    using push q by (auto simp: process_push_def bench_push_request_def bench_principal_def step Let_def
        simp del: push_loop.simps(2) split: sum.splits)
  have "sv_oplog (signals tr s1) = sv_oplog s"
    using containment_gate_same [OF gate] by (simp add: server_same_def signals_def)
  with s(2) note_log [of "signals tr s1" D "''write''" "''tenant-a''" "''ns''" "Some (mut_write_id m)" d]
  obtain es where inv2: "inv (sv_oplog ?s2)" and es: "log_of (sv_oplog ?s2) = log_of (sv_oplog s) @ es" "length es \<le> 1"
    "\<forall>e\<in>set es. audit_typed e"
    using note_keeps [of "signals tr s1"] by auto
  have "\<exists>fs. log_of (sv_oplog s3) = log_of (sv_oplog ?s2) @ fs \<and> length fs \<le> 1 \<and> (\<forall>e\<in>set fs. entry_mutation e = m)"
    by (rule append_mutation_log [OF q inv2]) auto
  then obtain fs where fs: "log_of (sv_oplog s3) = log_of (sv_oplog s) @ es @ fs" "length fs \<le> 1"
    "\<forall>e\<in>set fs. entry_mutation e = m" using es(1) by auto
  have "\<exists>es. log_of (sv_oplog s') = log_of (sv_oplog s) @ es \<and> length es \<le> 2 \<and>
      (\<forall>e\<in>set es. audit_typed e \<or> entry_mutation e = m)"
    using es fs r(1) by (intro exI [of _ "es @ fs"]) auto
  moreover have "inv (sv_oplog s')"
    using append_mutation_extends [OF q, of "\<lambda>e. True"] inv2 r(1) by (simp add: server_extends_def)
  moreover have "dates s' = dates s" using dates_append [OF q] dates_gate [OF gate] r(1) by simp
  moreover have "q = Inl x \<Longrightarrow> refuses L inv" for x using append_refused [OF _ m inv2] q by blast
  ultimately show ?thesis using calm_append [OF q calm] r by blast
qed

text \<open>The state the set-up keeps: the node's scope is calm, and what the log holds is evidence or the node's.\<close>

definition bench_ok :: "nat \<Rightarrow> 'o server_state \<Rightarrow> bool" where
  "bench_ok k s \<longleftrightarrow> calm_hub ''tenant-a'' ''ns'' s \<and> ok s \<and> mono (dates s) \<and> length (log_of (sv_oplog s)) \<le> k \<and>
     (\<forall>e\<in>set (log_of (sv_oplog s)). audit_typed e \<or> md_tenant_id (mut_metadata (entry_mutation e)) = ''tenant-a'')"

lemma seeded_pushes_ok:
  assumes "identifiers_shown D" "bench_ok k s" "seeded_pushes D L label check random ns s = (r, s')"
  shows "r = Inl UnwrapFailed \<and> refuses L inv \<or> r = Inr () \<and> bench_ok (k + 2 * length ns) s'"
  using assms(2,3)
proof (induction ns arbitrary: k s)
  case (Cons i ns)
  obtain m s1 where m: "server_world (make_mutation D ''tenant-a'' ''ns'' (seeded_write_id label i (random i)) bench_trust) s = (m, s1)"
    by fastforce
  have "mono (dates s)" using Cons.prems(1) by (simp add: bench_ok_def)
  note made = make_mutation_admissible [OF m this assms(1)]
  have s1: "calm_hub ''tenant-a'' ''ns'' s1" "ok s1" "sv_oplog s1 = sv_oplog s"
    using Cons.prems(1) made(4,5)
    by (simp_all add: bench_ok_def calm_hub_def calm_scope_def server_same_def server_ok_def indexed_def)
  obtain q s2 where q: "process_push D L (bench_push_request m) (bench_principal ''node-a'' ''tenant-a'') s1 = (q, s2)" by fastforce
  have "inv (sv_oplog s1)" using s1(2) by (simp add: server_ok_def)
  note one = push_one [OF s1(1) this made(1) q]
  have "ok s2"
    using safe.R_push [OF q, of "''tenant-a''" "''ns''"] s1(2) by (simp add: bench_principal_def bench_push_request_def)
  moreover obtain es where "log_of (sv_oplog s2) = log_of (sv_oplog s) @ es" "length es \<le> 2"
    "\<forall>e\<in>set es. audit_typed e \<or> entry_mutation e = m" using one s1(3) by auto
  ultimately have s2: "bench_ok (k + 2) s2"
    using Cons.prems(1) one made(3,6) by (auto simp: bench_ok_def)
  show ?case
  proof (cases q)
    case (Inl x)
    with one Cons.prems(2) m q show ?thesis by auto
  next
    case (Inr resp)
    then have "seeded_pushes D L label check random ns s2 = (r, s')"
      using one Cons.prems(2) m q by simp
    from Cons.IH [OF s2 this] show ?thesis by (simp add: add.commute add.left_commute)
  qed
qed simp

end

section \<open>What another tenant sees\<close>

context oplog_keeps
begin

definition leak_ok :: "'o server_state \<Rightarrow> bool" where
  "leak_ok s \<longleftrightarrow> inv (sv_oplog s) \<and> sv_control_plane s = default_control_plane \<and>
     (\<forall>e\<in>set (log_of (sv_oplog s)). audit_typed e \<or> md_tenant_id (mut_metadata (entry_mutation e)) = ''tenant-a'')"

lemma bench_leak_ok: "bench_ok k s \<Longrightarrow> leak_ok s"
  by (simp add: bench_ok_def leak_ok_def server_ok_def calm_hub_def)

lemma leak_note:
  assumes "leak_ok s"
  shows "leak_ok (note_decision D L stage t n w d s)"
proof -
  have "inv (sv_oplog s)" using assms by (simp add: leak_ok_def)
  with note_log [OF this, of D stage t n w d] note_keeps [OF this, of D stage t n w d] assms show ?thesis
    by (auto simp: leak_ok_def note_decision_def register_decision_outcome_def containment_entry_def server_world_def
        split: prod.splits option.splits)
qed

lemma leak_same: "leak_ok s \<Longrightarrow> server_same s t \<Longrightarrow> leak_ok t"
  by (simp add: leak_ok_def server_same_def)

lemma pull_one:
  assumes s: "leak_ok s"
    and pull: "process_pull D L (bench_pull_request ''node-b'' ''tenant-b'') (bench_principal ''node-b'' ''tenant-b'') State s = (r, s')"
  shows "leak_ok s' \<and> (\<exists>resp. r = Inr resp \<and> ls_mutations resp = [])"
proof -
  have inv: "inv (sv_oplog s)" and cp: "sv_control_plane s = default_control_plane"
    and log: "\<forall>e\<in>set (log_of (sv_oplog s)). audit_typed e \<or> md_tenant_id (mut_metadata (entry_mutation e)) = ''tenant-a''"
    using s by (simp_all add: leak_ok_def)
  let ?es = "take 1000 (filter (\<lambda>e. checkpoint_initial + 1 \<le> entry_seq e) (log_of (sv_oplog s)))"
  have read: "op_read_since L (sv_oplog s) (checkpoint_initial + 1) 1000 = Inr ?es"
    by (rule read_log [OF inv]) simp
  have none: "filter (in_scope ''tenant-b'' ''ns'' State) ?es = []"
    using log by (auto simp: filter_empty_conv in_scope_def audit_typed_def dest!: in_set_takeD)
  let ?req = "\<lparr>rr_tenant_id = ''tenant-b'', rr_namespace = ''ns'', rr_tier = State, rr_limit = 1000\<rparr>"
  obtain d tr where path: "read_path default_control_plane ?req [] = (Inr (d, []), tr)"
    by (auto simp: read_path_def validate_read_request_def default_control_plane_def noop_retrieval_allow_def
        noop_bounded_context_def Let_def)
  obtain g s1 where gate: "containment_gate ''tenant-b'' ''ns'' (signals tr s) = (g, s1)" by fastforce
  have "leak_ok s1"
    by (rule leak_same [OF leak_same [OF s] containment_gate_same [OF gate]]) simp
  with pull gate path read none cp show ?thesis
    by (auto simp: process_pull_def bench_pull_request_def bench_principal_def Let_def map_filter_simps
        intro: leak_note split: if_splits)
qed

lemma leak_pulls_ok: "leak_ok s \<Longrightarrow> fst (leak_pulls D L runs s) = Inr ()"
proof (induction runs arbitrary: s)
  case (Suc runs)
  obtain r s1 where pull: "process_pull D L (bench_pull_request ''node-b'' ''tenant-b'')
      (bench_principal ''node-b'' ''tenant-b'') State s = (r, s1)" by fastforce
  from pull_one [OF Suc.prems this] Suc.IH [of s1] pull show ?case by auto
qed simp

end

section \<open>Fresh logs and what is replayed into them\<close>

definition fresh_log :: "'o oplog_vt \<Rightarrow> ('o \<Rightarrow> bool) \<Rightarrow> ('o \<Rightarrow> oplog_entry list) \<Rightarrow> 'o \<Rightarrow> bool" where
  "fresh_log L ok log_of lg \<longleftrightarrow> ok lg \<and> log_of lg = [] \<and> op_latest_seq L lg = Inr 0"

fun renumber :: "u64 \<Rightarrow> oplog_entry list \<Rightarrow> oplog_entry list" where
  "renumber n [] = []"
| "renumber n (e # es) = e\<lparr>entry_seq := n + 1\<rparr> # renumber (n + 1) es"

text \<open>Entries numbered in a row stay what they are.\<close>

lemma renumber_consecutive:
  "map entry_seq es = map of_nat [Suc k..<Suc (k + length es)] \<Longrightarrow> renumber (of_nat k) es = es"
proof (induction es arbitrary: k)
  case (Cons e es)
  from Cons.prems have "entry_seq e = of_nat k + 1" "map entry_seq es = map of_nat [Suc (Suc k)..<Suc (Suc k + length es)]"
    by (simp_all add: upt_conv_Cons add.commute del: upt_Suc)
  with Cons.IH [of "Suc k"] show ?case by (simp add: add.commute)
qed simp

lemma consecutive_numbers:
  assumes "map entry_seq es = map of_nat [1..<Suc k]" "Suc k < 2 ^ 64"
  shows "length es = k" "sorted_wrt (<) (map entry_seq es)" "\<forall>e\<in>set es. 0 < entry_seq e \<and> entry_seq e \<le> of_nat k"
    "of_nat k + 1 \<noteq> (0 :: u64)"
proof -
  have small: "unat (of_nat i :: u64) = i" if "i \<le> Suc k" for i
    using that assms(2) by (simp add: unat_of_nat)
  have "length (map entry_seq es) = k" by (simp only: assms(1)) simp
  then show "length es = k" by simp
  have "(of_nat i :: u64) < of_nat j" if "i \<in> set [1..<Suc k]" "j \<in> set [1..<Suc k]" "i < j" for i j
  proof -
    have "i \<le> Suc k" "j \<le> Suc k" using that by auto
    with that(3) show ?thesis by (simp only: word_less_nat_alt small)
  qed
  then show "sorted_wrt (<) (map entry_seq es)"
    unfolding assms(1) sorted_wrt_map by (rule sorted_wrt_mono_rel [OF _ sorted_wrt_upt])
  show "\<forall>e\<in>set es. 0 < entry_seq e \<and> entry_seq e \<le> of_nat k"
  proof
    fix e assume "e \<in> set es"
    then have "entry_seq e \<in> set (map of_nat [1..<Suc k])" unfolding assms(1) [symmetric] by simp
    then obtain i where "entry_seq e = of_nat i" "1 \<le> i" "i \<le> k" by auto
    then show "0 < entry_seq e \<and> entry_seq e \<le> of_nat k" by (simp add: word_less_nat_alt word_le_nat_alt small)
  qed
  show "of_nat k + 1 \<noteq> (0 :: u64)" using small [of "Suc k"] by (metis Suc_neq_Zero le_refl of_nat_Suc unat_0 add.commute)
qed

lemma append_all_ends: "append_all L es lg = (r, lg') \<Longrightarrow> r = Inl UnwrapFailed \<or> r = Inr ()"
  by (induction es arbitrary: lg) (auto split: prod.splits sum.splits)

context oplog_keeps
begin

lemma append_all_log:
  assumes "inv lg" "op_latest_seq L lg = Inr n" "append_all L es lg = (Inr u, lg')"
  shows "inv lg' \<and> log_of lg' = log_of lg @ renumber n es \<and> op_latest_seq L lg' = Inr (n + of_nat (length es))"
  using assms
proof (induction es arbitrary: lg n)
  case (Cons e es)
  obtain r lg1 where app: "op_append L e lg = (r, lg1)" by fastforce
  with Cons.prems(3) obtain k where k: "r = Inr k" "append_all L es lg1 = (Inr u, lg')" by (cases r) auto
  have "op_latest_seq L lg = Inr (k - 1)" "op_latest_seq L lg1 = Inr k"
    using append_latest [OF Cons.prems(1) app [unfolded k(1)]] by simp_all
  then have "k = n + 1" "op_latest_seq L lg1 = Inr (n + 1)" using Cons.prems(2) by (simp_all add: algebra_simps)
  with Cons.IH [OF append_inv [OF Cons.prems(1) app], of "n + 1"] k(2) append_log [OF Cons.prems(1) app [unfolded k(1)]]
  show ?case by (simp add: algebra_simps)
qed simp

lemma bench_start:
  assumes "fresh_log L inv log_of lg" "clock_monotone w"
  shows "bench_ok 0 (bench_server L lg w)"
proof -
  have lg: "inv lg" "log_of lg = []" "numbered L log_of lg" using assms(1) by (simp_all add: fresh_log_def numbered_def)
  have "build_scoped_indexes L lg = ([], [])" using build_indexes [OF lg(1,3)] lg(2) by simp
  with lg assms(2) show ?thesis
    by (simp add: bench_ok_def bench_server_def add_token_with_tenant_def server_new_def server_with_control_plane_def
        calm_hub_def calm_scope_def server_ok_def indexed_def writes_once_def dates_def clock_monotone_def)
qed

text \<open>A server on the replayed log has the checkpoint of the first in every scope.\<close>

lemma replay_same_latest:
  assumes "ok s" "map entry_seq (log_of (sv_oplog s)) = map of_nat [1..<Suc k]" "Suc k < 2 ^ 64"
    and "fresh_log L inv log_of lg" "append_all L (log_of (sv_oplog s)) lg = (Inr u, lg')"
  shows "sv_latest (server_new L lg' w) = sv_latest s \<and> sv_write_ids (server_new L lg' w) = sv_write_ids s"
proof -
  let ?es = "log_of (sv_oplog s)"
  note num = consecutive_numbers [OF assms(2,3)]
  have "renumber 0 ?es = ?es" using renumber_consecutive [of ?es 0] assms(2) num(1) by simp
  then have lg': "inv lg'" "log_of lg' = ?es" "op_latest_seq L lg' = Inr (of_nat k)"
    using append_all_log [of lg 0, OF _ _ assms(5)] assms(4) num(1) by (simp_all add: fresh_log_def)
  then have "numbered L log_of lg'" using num by (simp add: numbered_def)
  then have "build_scoped_indexes L lg' = (sv_latest s, sv_write_ids s)"
    using build_indexes [OF lg'(1)] assms(1) lg'(2) by (simp add: server_ok_def indexed_def)
  then show ?thesis by (simp add: server_new_def server_with_control_plane_def)
qed

lemma replay_once_ok:
  assumes "ok s" "map entry_seq (log_of (sv_oplog s)) = map of_nat [1..<Suc k]" "Suc k < 2 ^ 64"
    and "fresh_log L inv log_of lg"
  shows "replay_once L (scoped_latest_checkpoint s ''tenant-a'' ''ns'') (log_of (sv_oplog s)) w lg \<in>
    {Inl UnwrapFailed, Inr (scoped_latest_checkpoint s ''tenant-a'' ''ns'')}"
proof -
  obtain r lg' where r: "append_all L (log_of (sv_oplog s)) lg = (r, lg')" by fastforce
  then show ?thesis
    using append_all_ends [OF r] replay_same_latest [OF assms, of _ lg' w]
    by (auto simp: replay_once_def scoped_latest_checkpoint_def scoped_latest_seq_def Let_def)
qed

end

section \<open>The benchmarks end\<close>

lemma leak_run_ends:
  assumes "oplog_keeps L ok log_of" "fresh_log L ok log_of lg" "identifiers_shown D" "clock_monotone w"
  shows "fst (leak_run D L random runs (bench_server L lg w)) = Inr () \<or>
    fst (leak_run D L random runs (bench_server L lg w)) = Inl UnwrapFailed \<and> refuses L ok"
proof -
  let ?s = "add_token_with_tenant ''token-b'' ''node-b'' ''tenant-b'' (bench_server L lg w)"
  have "oplog_keeps.bench_ok ok log_of 0 ?s"
    using oplog_keeps.bench_start [OF assms(1,2,4)]
    by (simp add: oplog_keeps.bench_ok_def [OF assms(1)] add_token_with_tenant_def calm_hub_def calm_scope_def
        server_ok_def indexed_def writes_once_def dates_def)
  moreover obtain r s where pushes: "seeded_pushes D L ''leak'' True random [0..<100] ?s = (r, s)" by fastforce
  ultimately have "r = Inl UnwrapFailed \<and> refuses L ok \<or> r = Inr () \<and> fst (leak_pulls D L runs s) = Inr ()"
    using oplog_keeps.seeded_pushes_ok [OF assms(1,3) _ pushes] oplog_keeps.leak_pulls_ok [OF assms(1)]
      oplog_keeps.bench_leak_ok [OF assms(1)] by blast
  then show ?thesis using pushes by (auto simp: leak_run_def)
qed

lemma replay_run_ends:
  assumes "oplog_keeps L ok log_of" "fresh_log L ok log_of lg" "identifiers_shown D" "clock_monotone w"
    and "\<forall>x\<in>set lgs. x = Inl UnwrapFailed \<or> (\<exists>lg'. x = Inr lg' \<and> fresh_log L ok log_of lg')"
    and "seeded_pushes D L ''replay'' False random [0..<50] (bench_server L lg w) = (Inr (), s)"
    and "map entry_seq (log_of (sv_oplog s)) = map of_nat [1..<Suc k]"
  shows "replay_run D L random lgs (bench_server L lg w) = Inr () \<or>
    replay_run D L random lgs (bench_server L lg w) = Inl UnwrapFailed"
proof -
  let ?es = "log_of (sv_oplog s)" and ?c = "scoped_latest_checkpoint s ''tenant-a'' ''ns''"
  have "oplog_keeps.bench_ok ok log_of 100 s"
    using oplog_keeps.seeded_pushes_ok [OF assms(1,3) oplog_keeps.bench_start [OF assms(1,2,4)] assms(6)] by simp
  then have s: "server_ok ok log_of s" "length ?es \<le> 100" by (simp_all add: oplog_keeps.bench_ok_def [OF assms(1)])
  have "k = length ?es" using arg_cong [OF assms(7), of length] by simp
  then have k: "Suc k < 2 ^ 64" "k \<le> 1000" using s(2) by simp_all
  note num = consecutive_numbers [OF assms(7) k(1)]
  have "filter (\<lambda>e. 1 \<le> entry_seq e) ?es = ?es"
    using num(3) by (simp add: filter_id_conv word_le_nat_alt word_less_nat_alt Suc_le_eq)
  then have read: "op_read_since L (sv_oplog s) 1 1000 = Inr ?es"
    using oplog_keeps.read_log [OF assms(1), of "sv_oplog s" 1000 1] s num(1) k(2) by (simp add: server_ok_def)
  have "replay_runs L ?c ?es (sv_world s) lgs = Inr () \<or> replay_runs L ?c ?es (sv_world s) lgs = Inl UnwrapFailed"
    using assms(5)
  proof (induction lgs)
    case (Cons x lgs)
    show ?case
    proof (cases x)
      case (Inr lg')
      then have "replay_once L ?c ?es (sv_world s) lg' \<in> {Inl UnwrapFailed, Inr ?c}"
        using Cons.prems by (intro oplog_keeps.replay_once_ok [OF assms(1) s(1) assms(7) k(1)]) simp
      with Cons Inr show ?thesis by auto
    qed (use Cons.prems in auto)
  qed simp
  then show ?thesis using assms(6) read by (simp add: replay_run_def)
qed

text \<open>The log of a benchmark on files that are not there and do not fail is fresh.\<close>

definition quiet_files :: "deps \<Rightarrow> entry_codec \<Rightarrow> 'c crypto_api \<Rightarrow> bench_env \<Rightarrow> bool" where
  "quiet_files D K A B \<longleftrightarrow> entry_codec_ok D K \<and> cipher_ok A \<and> (\<forall>path. be_files B path = None) \<and>
     (\<forall>path n k. be_faults B path n k = None)"

lemma bench_log_fresh:
  fixes A :: "'c crypto_api"
  assumes "quiet_files D K A B"
  shows "\<exists>lg. bench_log D K A B path None n = Inr lg \<and> fresh_log (file_oplog_vt D K A) (file_inv D K A) (file_log D K A) lg"
proof -
  define lg :: "'c file_oplog" where "lg = \<lparr>fo_file = [], fo_applied_file = None, fo_next_seq = 0, fo_applied = [], fo_crypto = None,
    fo_nonces = (\<lambda>_. replicate 12 0), fo_drawn = 0, fo_faults = be_faults B path n, fo_calls = Suc 0\<rparr>"
  have "bench_log D K A B path None n = Inr lg"
    using assms by (simp add: bench_log_def quiet_files_def file_oplog_open_def fs_call_def read_latest_seq_def read_applied_def
        bind_op_def get_op_def lift_op_def modify_op_def Let_def lg_def)
  moreover have "file_inv D K A lg"
    using assms by (auto simp: quiet_files_def file_inv_def file_env_ok_def lg_def frames_def intro!: exI [of _ "[]"])
  moreover have "file_log D K A lg = []" by (simp add: file_log_def lg_def map_filter_simps)
  ultimately show ?thesis by (auto simp: fresh_log_def file_latest_seq_def) (simp add: lg_def)
qed

corollary cross_tenant_leak_check_passes:
  assumes "quiet_files D K A B" "identifiers_shown D" "clock_monotone w"
  shows "fst (cross_tenant_leak_check D K A B runs w n) \<noteq> Inl (AssertFailed msg)"
proof -
  define lg where "lg path = projr (bench_log D K A B path None 0)" for path
  have lg: "bench_log D K A B path None 0 = Inr (lg path)"
    "fresh_log (file_oplog_vt D K A) (file_inv D K A) (file_log D K A) (lg path)" for path
    using bench_log_fresh [OF assms(1), of path 0] by (auto simp: lg_def)
  have "fst (leak_run D (file_oplog_vt D K A) random runs (bench_server (file_oplog_vt D K A) (lg path) w)) \<noteq> Inl (AssertFailed msg)"
    for random path
    using leak_run_ends [OF file_log.oplog_keeps_axioms lg(2) assms(2,3), of random runs path] by auto
  with assms(1) lg(1) show ?thesis
    by (auto simp: cross_tenant_leak_check_def load_seeds_def unwrap_bench_def temp_workspace_def quiet_files_def map_err_def
        try_r_def Let_def split: sum.splits option.splits)
qed

corollary replay_determinism_passes:
  assumes "quiet_files D K A B" "identifiers_shown D" "clock_monotone w"
    and "\<And>random path s. seeded_pushes D (file_oplog_vt D K A) ''replay'' False random [0..<50]
        (bench_server (file_oplog_vt D K A) (projr (bench_log D K A B path None 0)) w) = (Inr (), s) \<Longrightarrow>
      \<exists>k. map entry_seq (file_log D K A (sv_oplog s)) = map of_nat [1..<Suc k]"
  shows "fst (replay_determinism D K A B runs w n) \<noteq> Inl (AssertFailed msg)"
proof -
  let ?L = "file_oplog_vt D K A"
  define lg where "lg path = projr (bench_log D K A B path None 0)" for path
  have lg: "bench_log D K A B path None 0 = Inr (lg path)"
    "fresh_log ?L (file_inv D K A) (file_log D K A) (lg path)" for path
    using bench_log_fresh [OF assms(1), of path 0] by (auto simp: lg_def)
  have logs: "\<forall>x\<in>set (map (replay_log D K A B path) [0..<runs]).
      x = Inl UnwrapFailed \<or> (\<exists>lg'. x = Inr lg' \<and> fresh_log ?L (file_inv D K A) (file_log D K A) lg')" for path
  proof
    fix x assume "x \<in> set (map (replay_log D K A B path) [0..<runs])"
    then obtain i where "x = replay_log D K A B path i" by auto
    with bench_log_fresh [OF assms(1), of path i]
    show "x = Inl UnwrapFailed \<or> (\<exists>lg'. x = Inr lg' \<and> fresh_log ?L (file_inv D K A) (file_log D K A) lg')"
      by (auto simp: replay_log_def split: option.splits)
  qed
  have "replay_run D ?L random (map (replay_log D K A B path') [0..<runs]) (bench_server ?L (lg path) w) \<noteq> Inl (AssertFailed msg)"
    for random path path'
  proof -
    let ?s0 = "bench_server ?L (lg path) w"
    obtain r s where pushes: "seeded_pushes D ?L ''replay'' False random [0..<50] ?s0 = (r, s)" by fastforce
    show ?thesis
    proof (cases r)
      case (Inl e)
      with file_log.seeded_pushes_ok [OF assms(2) file_log.bench_start [OF lg(2) assms(3)] pushes]
      show ?thesis by (auto simp: replay_run_def pushes)
    next
      case (Inr u)
      then have run: "seeded_pushes D ?L ''replay'' False random [0..<50] ?s0 = (Inr (), s)" using pushes by simp
      obtain k where "map entry_seq (file_log D K A (sv_oplog s)) = map of_nat [1..<Suc k]"
        using assms(4) [of random path s] run lg(1) by auto
      from replay_run_ends [OF file_log.oplog_keeps_axioms lg(2) assms(2,3) logs [of path'] run this] show ?thesis by auto
    qed
  qed
  with assms(1) lg(1) show ?thesis
    by (auto simp: replay_determinism_def load_seeds_def unwrap_bench_def temp_workspace_def quiet_files_def map_err_def
        try_r_def Let_def split: sum.splits option.splits)
qed

section \<open>A log in memory\<close>

text \<open>A log that refuses nothing, for closed instances of the two benchmarks that end well.\<close>

definition list_append :: "oplog_entry \<Rightarrow> (oplog_entry list, u64) op" where
  "list_append e es = (let n = of_nat (Suc (length es)) in (Inr n, es @ [e\<lparr>entry_seq := n\<rparr>]))"

definition list_vt :: "oplog_entry list oplog_vt" where
  "list_vt = \<lparr>op_append = list_append,
     op_read_since = (\<lambda>es m k. Inr (take k (filter (\<lambda>e. m \<le> entry_seq e) es))),
     op_mark_applied = (\<lambda>n es. (Inr (), es)), op_latest_seq = (\<lambda>es. Inr (of_nat (length es)))\<rparr>"

definition in_a_row :: "oplog_entry list \<Rightarrow> bool" where
  "in_a_row es \<longleftrightarrow> map entry_seq es = map of_nat [1..<Suc (length es)]"

interpretation list_log: oplog_keeps list_vt in_a_row "\<lambda>es. es"
  by unfold_locales (auto simp: list_vt_def list_append_def in_a_row_def Let_def)

lemma list_log_accepts: "\<not> refuses list_vt in_a_row"
  by (simp add: refuses_def list_vt_def list_append_def Let_def)

lemma list_log_fresh: "fresh_log list_vt in_a_row (\<lambda>es. es) []"
  by (simp add: fresh_log_def list_vt_def in_a_row_def)

lemma list_append_all: "\<exists>lg'. append_all list_vt es lg = (Inr (), lg')"
  by (induction es arbitrary: lg) (auto simp: list_vt_def list_append_def Let_def)

lemma list_replay_runs: "replay_runs list_vt c es w (map Inr lgs) \<noteq> Inl UnwrapFailed"
proof (induction lgs)
  case (Cons lg lgs)
  obtain lg' where "append_all list_vt es lg = (Inr (), lg')" using list_append_all by blast
  with Cons show ?case by (auto simp: replay_once_def Let_def)
qed simp

text \<open>Dependencies with a text for every identifier.\<close>

definition shown_deps :: deps where
  "shown_deps = (sample_deps [])\<lparr>uuid_display := \<lambda>bs. Some (''u'' @ map (\<lambda>b. char_of (unat b)) bs)\<rparr>"

lemma shown_identifiers: "identifiers_shown shown_deps"
  by (simp add: identifiers_shown_def document_id_to_string_def shown_deps_def)

section \<open>Properties\<close>

text \<open>
  A poisoned write is rejected: for every draw of a trust score below a quarter, every run of the benchmark
  gets the decision to reject, and never an error.
\<close>

theorem poisoning_is_rejected:
  assumes "be_seeds_file B = Inr contents" "be_parse_seeds B contents = Inr seeds"
    and "\<forall>n. \<exists>q. be_scores B (as_poisoning seeds) n = Fin q \<and> 0 \<le> q \<and> q < 1 / 4"
  shows "\<exists>ds. poisoning_rejection_latency D B runs = Inr ds \<and> length ds = 5 * runs \<and> (\<forall>d\<in>set ds. is_reject d)"
proof -
  have ok: "\<exists>ds. all_ok rs = Inr ds \<and> length ds = length rs \<and> (\<forall>d\<in>set ds. is_reject d)"
    if "\<forall>r\<in>set rs. \<exists>d. r = Inr d \<and> is_reject d" for rs :: "(bench_panic + governance_decision) list"
    using that by (induction rs) auto
  have reject: "\<exists>d. unwrap_bench (fst (write_path D default_control_plane poisoning_context
      (poisoned_payload (be_scores B (as_poisoning seeds) n)))) = Inr d \<and> is_reject d" for n
  proof -
    obtain q where "be_scores B (as_poisoning seeds) n = Fin q" "0 \<le> q" "q < 1 / 4" using assms(3) by blast
    then show ?thesis
      by (simp add: write_path_def default_control_plane_def noop_validate_def noop_score_def poisoned_payload_def
          validate_write_payload_def is_finite_def f64_lt_def cmp_of_def is_reject_def Let_def)
  qed
  let ?rs = "concat (map (\<lambda>n. let payload = poisoned_payload (be_scores B (as_poisoning seeds) n)
    in replicate runs (unwrap_bench (fst (write_path D default_control_plane poisoning_context payload)))) [0..<5])"
  have "length ?rs = 5 * runs" by (simp add: length_concat comp_def Let_def sum_list_triv)
  moreover have "\<forall>r\<in>set ?rs. \<exists>d. r = Inr d \<and> is_reject d" using reject by (auto simp: Let_def)
  ultimately show ?thesis
    using ok [of ?rs] by (simp add: poisoning_rejection_latency_def load_seeds_def assms(1,2))
qed

text \<open>
  C31: One tenant does not see the writes of another: on a log that keeps its laws and is fresh, with a clock that
  does not go back, all hundred pushes of the benchmark are accepted and no pull of the other tenant, however
  often it is repeated, yields a mutation; the only panic is at an entry the log refuses.
\<close>

theorem tenants_do_not_leak:
  assumes "oplog_keeps L ok log_of" "fresh_log L ok log_of lg" "identifiers_shown D" "clock_monotone w"
  shows "fst (leak_run D L random runs (bench_server L lg w)) = Inr () \<or>
    fst (leak_run D L random runs (bench_server L lg w)) = Inl UnwrapFailed \<and> refuses L ok"
  by (rule leak_run_ends [OF assms])

text \<open>
  Replay is deterministic: when no append of the set-up was refused, so that the numbers of the log run from
  one on, every server started on a fresh log into which the entries read from the first log were replayed
  shows the checkpoint of the first server; no run of the benchmark fails its assertion.
\<close>

theorem replay_is_deterministic:
  assumes "oplog_keeps L ok log_of" "fresh_log L ok log_of lg" "identifiers_shown D" "clock_monotone w"
    and "\<forall>x\<in>set lgs. x = Inl UnwrapFailed \<or> (\<exists>lg'. x = Inr lg' \<and> fresh_log L ok log_of lg')"
    and "seeded_pushes D L ''replay'' False random [0..<50] (bench_server L lg w) = (Inr (), s)"
    and "map entry_seq (log_of (sv_oplog s)) = map of_nat [1..<Suc k]"
  shows "replay_run D L random lgs (bench_server L lg w) = Inr () \<or>
    replay_run D L random lgs (bench_server L lg w) = Inl UnwrapFailed"
  by (rule replay_run_ends [OF assms])

definition sample_seeds :: adversarial_seeds where
  "sample_seeds = \<lparr>as_poisoning = 42, as_cross_tenant_leak = 1337, as_replay = 9001,
     as_push_throughput = 12345, as_pull_latency = 54321, as_audit_persistence = 99999\<rparr>"

definition sample_bench_env :: bench_env where
  "sample_bench_env = \<lparr>be_seeds_file = Inr ''seeds'', be_parse_seeds = (\<lambda>t. Inr sample_seeds), be_random = (\<lambda>seed n. seed),
     be_scores = (\<lambda>seed n. Fin (of_nat (n mod 4) / 16)), be_temp_dir = ''/tmp'', be_pid = 1, be_create_dir = (\<lambda>p. None),
     be_files = (\<lambda>p. None), be_remove = (\<lambda>n. None), be_faults = (\<lambda>p n k. None)\<rparr>"

theorem poisoning_is_rejected_witness:
  "\<exists>ds. poisoning_rejection_latency shown_deps sample_bench_env 2 = Inr ds \<and> length ds = 10 \<and> (\<forall>d\<in>set ds. is_reject d)"
proof -
  have "\<exists>q. be_scores sample_bench_env seed n = Fin q \<and> 0 \<le> q \<and> q < 1 / 4" for seed n
  proof -
    have "(of_nat (n mod 4) :: rat) \<le> of_nat 3" by (subst of_nat_le_iff) (simp add: less_Suc_eq_le [symmetric])
    then show ?thesis by (intro exI [of _ "of_nat (n mod 4) / 16"]) (simp add: sample_bench_env_def)
  qed
  then show ?thesis
    using poisoning_is_rejected [of sample_bench_env "''seeds''" sample_seeds shown_deps 2]
    by (simp add: sample_bench_env_def)
qed

theorem tenants_do_not_leak_witness:
  "fst (leak_run shown_deps list_vt of_nat 3 (bench_server list_vt [] sample_world)) = Inr ()"
  using tenants_do_not_leak [OF list_log.oplog_keeps_axioms list_log_fresh shown_identifiers sample_clock_monotone, of of_nat 3]
    list_log_accepts by auto

theorem replay_is_deterministic_witness:
  "replay_run shown_deps list_vt of_nat [Inr [], Inr []] (bench_server list_vt [] sample_world) = Inr ()"
proof -
  let ?s0 = "bench_server list_vt [] sample_world"
  obtain r s where pushes: "seeded_pushes shown_deps list_vt ''replay'' False of_nat [0..<50] ?s0 = (r, s)" by fastforce
  have fin: "r = Inr ()" "list_log.bench_ok 100 s"
    using list_log.seeded_pushes_ok [OF shown_identifiers list_log.bench_start [OF list_log_fresh sample_clock_monotone] pushes]
      list_log_accepts by auto
  then have "map entry_seq (sv_oplog s) = map of_nat [1..<Suc (length (sv_oplog s))]"
    by (simp add: list_log.bench_ok_def server_ok_def in_a_row_def)
  from replay_is_deterministic [OF list_log.oplog_keeps_axioms list_log_fresh shown_identifiers sample_clock_monotone _
      pushes [unfolded fin(1)] this, of "[Inr [], Inr []]"] list_log_fresh
  have "replay_run shown_deps list_vt of_nat [Inr [], Inr []] ?s0 = Inr () \<or>
      replay_run shown_deps list_vt of_nat [Inr [], Inr []] ?s0 = Inl UnwrapFailed" by simp
  moreover have "replay_run shown_deps list_vt of_nat [Inr [], Inr []] ?s0 \<noteq> Inl UnwrapFailed"
    using list_replay_runs [of _ _ _ "[[], []]"] pushes fin(1) by (simp add: replay_run_def list_vt_def)
  ultimately show ?thesis by blast
qed

end
