(* ===== verification/Rango_Crud_Bench.thy ===== *)
theory Rango_Crud_Bench
  imports Rango_Stability
begin

text \<open>
  The benchmarks of the engine's operations (\<open>core/benches/crud_benchmark.rs\<close>) on an engine of their own: a
  set-up and a closure the harness runs so many times. Every error is unwrapped, so it is a panic. The
  result is what the closures pass to \<open>black_box\<close>; the times are left out.
\<close>

section \<open>The benchmarks\<close>

definition unwrapped :: "('s, 'a) cli_op \<Rightarrow> ('s, 'a) cli_op" where
  "unwrapped m s = (case m s of (r, s') \<Rightarrow> (map_err (\<lambda>_. Panicked) r, s'))"

text \<open>The closure runs on, and what it yields is collected.\<close>

fun bench_runs :: "nat \<Rightarrow> ('s, 'a) cli_op \<Rightarrow> ('s, 'a list) cli_op" where
  "bench_runs 0 m = return_cli []"
| "bench_runs (Suc n) m = bind_cli m (\<lambda>x. bind_cli (bench_runs n m) (\<lambda>xs. return_cli (x # xs)))"

text \<open>The engine on a fresh directory.\<close>

definition crud_engine :: "('db, 't, 'c) cli_api \<Rightarrow> world \<Rightarrow> (workspace, ('db, 'c file_oplog) engine) cli_op" where
  "crud_engine P rw = unwrapped (
     bind_cli create_dir_all (\<lambda>_.
     bind_cli (\<lambda>w. (anyhow_r (redb_open (ca_redb P) (wk_path w @ ''/data.redb'')), w)) (\<lambda>storage.
     bind_cli (anyhow_op (open_oplog P None)) (\<lambda>log w.
     (anyhow_r (engine_open storage log ''bench'' rw), w)))))"

definition bench_insert_one :: "deps \<Rightarrow> 's storage_engine \<Rightarrow> 'o oplog_vt \<Rightarrow> nat \<Rightarrow> (('s, 'o) engine, unit) cli_op" where
  "bench_insert_one D E L runs = unwrapped (bench_inserts D E L [1..<Suc runs])"

definition bench_find_one_by_id :: "deps \<Rightarrow> 's storage_engine \<Rightarrow> 'o oplog_vt \<Rightarrow> nat \<Rightarrow>
    (('s, 'o) engine, rango_document option list) cli_op" where
  "bench_find_one_by_id D E L runs = unwrapped (
     bind_cli (anyhow_op (insert_one D E L bench_collection [(''name'', String ''Alice'')])) (\<lambda>i.
     bench_runs runs (anyhow_op (find_one E bench_collection i))))"

text \<open>The rows are counted whether they are documents or errors.\<close>

definition bench_find_with_filter :: "deps \<Rightarrow> 's storage_engine \<Rightarrow> 'o oplog_vt \<Rightarrow> nat \<Rightarrow> (('s, 'o) engine, nat list) cli_op" where
  "bench_find_with_filter D E L runs = unwrapped (
     bind_cli (bench_inserts D E L [0..<1000]) (\<lambda>_.
     bench_runs runs (\<lambda>st. (map_err (\<lambda>e. Anyhow (error_text e))
       (try_r (find_docs D E st bench_collection [(''index'', Document [(''$gte'', Int64 500)])] None None None None)
         (\<lambda>cursor. Inr (length cursor))), st))))"

definition bench_update_one :: "deps \<Rightarrow> 's storage_engine \<Rightarrow> 'o oplog_vt \<Rightarrow> nat \<Rightarrow> (('s, 'o) engine, bool list) cli_op" where
  "bench_update_one D E L runs = unwrapped (
     bind_cli (anyhow_op (insert_one D E L bench_collection [(''name'', String ''Alice''), (''age'', Int32 30)])) (\<lambda>i.
     bench_runs runs (anyhow_op (update_one D E L bench_collection i [(''$set'', Document [(''age'', Int32 31)])]))))"

section \<open>What the closures yield\<close>

definition yields :: "('x \<Rightarrow> 's \<Rightarrow> bool) \<Rightarrow> 'x cli_result \<times> 's \<Rightarrow> bool" where
  "yields Q p \<longleftrightarrow> (\<forall>x t. p = (Inr x, t) \<longrightarrow> Q x t)"

lemma yields_bind:
  "yields Q (m s) \<Longrightarrow> (\<And>x t. Q x t \<Longrightarrow> yields R (k x t)) \<Longrightarrow> yields R (bind_cli m k s)"
  by (cases "m s") (fastforce simp: yields_def bind_cli_def split: sum.splits)

lemma yields_unwrapped: "yields Q (m s) \<Longrightarrow> yields Q (unwrapped m s)"
  by (cases "m s"; cases "fst (m s)") (auto simp: yields_def unwrapped_def map_err_def)

text \<open>A closure that keeps an invariant and yields what it should does so on every run.\<close>

lemma yields_runs:
  assumes "\<And>s. I s \<Longrightarrow> yields (\<lambda>x t. I t \<and> good x) (m s)" "I s"
  shows "yields (\<lambda>xs t. I t \<and> length xs = n \<and> (\<forall>x\<in>set xs. good x)) (bench_runs n m s)"
  using assms(2)
proof (induction n arbitrary: s)
  case (Suc n)
  show ?case
    unfolding bench_runs.simps
  proof (rule yields_bind, rule assms(1) [OF Suc.prems])
    fix x t assume t: "I t \<and> good x"
    show "yields (\<lambda>xs t. I t \<and> length xs = Suc n \<and> (\<forall>x\<in>set xs. good x))
        (bind_cli (bench_runs n m) (\<lambda>xs. return_cli (x # xs)) t)"
      by (rule yields_bind, rule Suc.IH) (use t in \<open>auto simp: yields_def\<close>)
  qed
qed (simp add: yields_def)

context storage_scans
begin

definition holds_one :: "document_id \<Rightarrow> ('a, 'o) engine \<Rightarrow> bool" where
  "holds_one i st \<longleftrightarrow> inv (en_storage st) \<and> holds_docs E idtext bench_collection {i} (en_storage st)"

lemma insert_yields_one:
  assumes "inv (en_storage st)" "name_ok bench_collection" "al_wf d0"
    and "\<forall>i. se_get E (en_storage st) bench_collection i = Inr None"
  shows "yields holds_one (anyhow_op (insert_one D E L bench_collection d0) st)"
proof -
  obtain r t where r: "insert_one D E L bench_collection d0 st = (r, t)" by fastforce
  show ?thesis
  proof (cases r)
    case (Inr i)
    have "holds_docs E idtext bench_collection {} (en_storage st)" using assms(4) by (simp add: holds_docs_def)
    from insert_holds_docs [OF assms(1-3) this r [unfolded Inr]] r Inr show ?thesis
      by (simp add: yields_def anyhow_op_def holds_one_def)
  qed (simp add: yields_def anyhow_op_def r)
qed

lemma find_yields_one:
  assumes "holds_one i st"
  shows "yields (\<lambda>found t. holds_one i t \<and> found \<noteq> None) (anyhow_op (find_one E bench_collection i) st)"
proof -
  obtain r t where r: "find_one E bench_collection i st = (r, t)" by fastforce
  show ?thesis
  proof (cases r)
    case (Inr found)
    have "holds_docs E idtext bench_collection {i} (en_storage st)" using assms by (simp add: holds_one_def)
    from find_one_holds_docs [OF this _ r [unfolded Inr]] assms r Inr show ?thesis
      by (simp add: yields_def anyhow_op_def holds_one_def)
  qed (simp add: yields_def anyhow_op_def r)
qed

lemma update_yields_one:
  assumes "name_ok bench_collection" "holds_one i st" "k \<noteq> ''_deleted''"
  shows "yields (\<lambda>b t. holds_one i t \<and> b)
    (anyhow_op (update_one D E L bench_collection i [(''$set'', Document [(k, v)])]) st)"
proof -
  obtain r t where r: "update_one D E L bench_collection i [(''$set'', Document [(k, v)])] st = (r, t)" by fastforce
  show ?thesis
  proof (cases r)
    case (Inr b)
    have "inv (en_storage st)" "holds_docs E idtext bench_collection {i} (en_storage st)" using assms(2) by (simp_all add: holds_one_def)
    from update_holds_docs [OF this(1) assms(1) this(2) _ r [unfolded Inr] assms(3)] r Inr show ?thesis
      by (simp add: yields_def anyhow_op_def holds_one_def)
  qed (simp add: yields_def anyhow_op_def r)
qed

end

text \<open>
  The benchmarks time hits: on a lawful storage whose collection is empty, every look-up of a run that ends
  finds the document and every update changes it.
\<close>

theorem crud_benchmarks_hit:
  fixes st :: "('s, 'o) engine"
  assumes "storage_scans E ok name_ok idtext" "ok (en_storage st)" "name_ok bench_collection"
    and "\<forall>i. se_get E (en_storage st) bench_collection i = Inr None"
  shows "(\<forall>found st'. bench_find_one_by_id D E L runs st = (Inr found, st') \<longrightarrow>
      length found = runs \<and> (\<forall>x\<in>set found. x \<noteq> None)) \<and>
    (\<forall>updated st'. bench_update_one D E L runs st = (Inr updated, st') \<longrightarrow> updated = replicate runs True)"
proof -
  have finds: "yields (\<lambda>xs t. length xs = runs \<and> (\<forall>x\<in>set xs. x \<noteq> None)) (bench_find_one_by_id D E L runs st)"
    unfolding bench_find_one_by_id_def
  proof (rule yields_unwrapped, rule yields_bind, rule storage_scans.insert_yields_one [OF assms(1-3) _ assms(4)],
      simp add: al_wf_def)
    fix i and t :: "('s, 'o) engine" assume "storage_scans.holds_one E ok idtext i t"
    from yields_runs [of "storage_scans.holds_one E ok idtext i" "\<lambda>x. x \<noteq> None", OF storage_scans.find_yields_one [OF assms(1)] this, where n = runs]
    show "yields (\<lambda>xs t. length xs = runs \<and> (\<forall>x\<in>set xs. x \<noteq> None)) (bench_runs runs (anyhow_op (find_one E bench_collection i)) t)"
      by (auto simp: yields_def)
  qed
  have updates: "yields (\<lambda>xs t. length xs = runs \<and> (\<forall>x\<in>set xs. x)) (bench_update_one D E L runs st)"
    unfolding bench_update_one_def
  proof (rule yields_unwrapped, rule yields_bind, rule storage_scans.insert_yields_one [OF assms(1-3) _ assms(4)],
      simp add: al_wf_def)
    fix i and t :: "('s, 'o) engine" assume "storage_scans.holds_one E ok idtext i t"
    have "yields (\<lambda>b t. storage_scans.holds_one E ok idtext i t \<and> b)
        (anyhow_op (update_one D E L bench_collection i [(''$set'', Document [(''age'', Int32 31)])]) s)"
      if "storage_scans.holds_one E ok idtext i s" for s :: "('s, 'o) engine"
      by (rule storage_scans.update_yields_one [OF assms(1,3) that]) simp
    from yields_runs [where n = runs, of "storage_scans.holds_one E ok idtext i" "\<lambda>x. x"
        "anyhow_op (update_one D E L bench_collection i [(''$set'', Document [(''age'', Int32 31)])])" t]
      this \<open>storage_scans.holds_one E ok idtext i t\<close>
    have "yields (\<lambda>xs t. storage_scans.holds_one E ok idtext i t \<and> length xs = runs \<and> (\<forall>x\<in>set xs. x))
        (bench_runs runs (anyhow_op (update_one D E L bench_collection i [(''$set'', Document [(''age'', Int32 31)])])) t)" by blast
    then show "yields (\<lambda>xs t. length xs = runs \<and> (\<forall>x\<in>set xs. x))
        (bench_runs runs (anyhow_op (update_one D E L bench_collection i [(''$set'', Document [(''age'', Int32 31)])])) t)"
      unfolding yields_def by blast
  qed
  have "xs = replicate runs True" if "length xs = runs" "\<forall>x\<in>set xs. x" for xs
    using that by (metis (full_types) replicate_eqI)
  with finds updates show ?thesis unfolding yields_def by blast
qed

theorem crud_benchmarks_hit_witness:
  "\<exists>st. bench_update_one direct_deps (direct_engine direct_deps) null_oplog_vt 2 direct_sample = (Inr [True, True], st)"
proof -
  have ready: "direct_inv direct_deps (en_storage direct_sample)"
    "\<forall>i. se_get (direct_engine direct_deps) (en_storage direct_sample) bench_collection i = Inr None"
    by simp_all
  obtain r st where r: "bench_update_one direct_deps (direct_engine direct_deps) null_oplog_vt 2 direct_sample = (r, st)" by fastforce
  have "\<exists>bs. r = Inr bs"
    using r by (simp add: bench_update_one_def unwrapped_def numeral_2_eq_2 bind_cli_def anyhow_op_def bench_collection_def direct_steps) blast
  with crud_benchmarks_hit [OF direct_scans.storage_scans_axioms ready(1) TrueI ready(2), where D = direct_deps and L = null_oplog_vt and runs = 2] r
  show ?thesis by (auto simp: numeral_2_eq_2)
qed

end
