(* ===== verification/Spec2Isabelle.thy ===== *)
theory Spec2Isabelle
  imports Rango_Envelope Rango_Query_Project Rango_Redb_Storage Rango_Degrading_Storage
    Rango_Log_Calls Rango_Engine_Snapshots Rango_Engine_Effects Rango_Engine_Types Rango_Engine_Race Rango_Engine_Converge
    Rango_Control_Plane Rango_Checkpoint Rango_Sync
    Rango_Retrieval Rango_Server_Limits Rango_Server_Main Rango_Server_Race Rango_Hub Rango_Index Rango_Import_Trip Rango_Doctor Rango_Cli_Sync Rango_Bindings
    Rango_Demos Rango_Cli_Main Rango_Adversarial Rango_Crud_Bench
begin

text \<open>
  Rango is a local-first memory store for agents, written in Rust: a document engine over an embedded
  storage and an operation log, a governance control plane, a queue that synchronises the log with a hub,
  the hub's HTTP server, a command line tool, an SDK and bindings for Node.js and Python. This
  development models its crates and proves what makes them correct, or what stands in the way.

  How the parts interact. The engine (\<open>crates/core\<close>) writes documents to a storage and a mutation for
  each write to a log; storage and log are trait objects. The storage is the database \<open>redb\<close>, a map in
  memory, or the wrapper that goes read-only on a full disk (\<open>crates/storage\<close>); the log is a pair of files
  (\<open>crates/oplog\<close>). Documents are filtered, sorted and projected by \<open>crates/query\<close>. The queue, the
  checkpoint file, the HTTP client and the scheduler of \<open>crates/sync\<close> send the log's mutations to the server
  (\<open>crates/server\<close>), which keeps a log of its own with indexes by tenant and namespace, asks the control
  plane (\<open>crates/core/src/control_plane.rs\<close>) for every decision, records audit evidence and contains scopes
  with rejected requests. The SDK (\<open>crates/sdk-rust\<close>), the tool (\<open>crates/cli\<close>) and the bindings
  (\<open>crates/node\<close>, \<open>crates/python\<close>) put these parts together on the files of a workspace.

  Conventions. A struct is a \<open>record\<close>, an enum a \<open>datatype\<close>, a \<open>Result\<close> a sum with the error on the left,
  and a method that changes its receiver an operation from a state to a result and a state
  (\<open>Rango_Ops\<close>). A trait object is a record of functions over the state of its implementation, and what
  its users rely on is a locale over that record: \<open>storage_laws\<close> with its extensions \<open>storage_scans\<close> (a scan
  yields each document once) and \<open>storage_replaces\<close> (a put replaces its row), \<open>oplog_numbers\<close> and its extension
  \<open>oplog_keeps\<close>, \<open>sync_queue_laws\<close>, \<open>server_relation\<close>; \<open>total_comparator\<close> and \<open>checkpoint_laws\<close> are the
  contracts of the comparators that sort and of the checkpoint file. Every implementation is an interpretation of
  its locale, and the properties rest on those. Iterators and cursors are the lists of what they yield.
  Machine integers are words and wrap as in a release build; \<open>f64\<close> is a rational with rounding, infinities,
  one zero and an undefined value. A Rust string is the list of its UTF-8 bytes. A hash map is an
  association list, and where the code iterates over one its order is a parameter. Time, fresh identifiers
  and the revision counter are a state, \<open>world\<close>; every file-system call takes its fault, with the bytes
  written before it, from a stream. Libraries the repository only calls (serde, the BSON codec, the cipher,
  redb, HTTP, the parsers of JSON, UUIDs and dates) are records of functions whose documented laws are
  hypotheses of the properties that need them; each such property has an instance with concrete functions.

  Theories, in the order they build on each other:
  \<^item> \<open>Rango_Prelude\<close>, \<open>Rango_Text\<close>, \<open>Rango_Float\<close>, \<open>Rango_Ops\<close>, \<open>Rango_Deps\<close>, \<open>Rango_Json\<close>: results, orderings and
    the stable sort, association lists, text and numbers as the standard library prints and parses them,
    floating point, operations, the libraries, JSON values.
  \<^item> \<open>Rango_Types\<close>, \<open>Rango_Revision\<close>, \<open>Rango_Envelope\<close> (\<open>crates/types\<close>): BSON, mutations and their validator, the
    hybrid logical clock with its order and its panics, envelopes.
  \<^item> \<open>Rango_Query_Filter\<close>, \<open>Rango_Query_Project\<close> (\<open>crates/query\<close>): the evaluator decides a denotational reading of
    filters; projections; sort keys.
  \<^item> \<open>Rango_Storage\<close> with \<open>Rango_Memory_Storage\<close>, \<open>Rango_Redb_Storage\<close>, \<open>Rango_Degrading_Storage\<close>, \<open>Rango_Crypto\<close>
    (\<open>crates/storage\<close>), and \<open>Rango_Direct_Storage\<close>, a storage without a codec for closed instances: each is
    a map from collection and identifier; writes are isolated; the degraded mode is read-only.
  \<^item> \<open>Rango_Oplog\<close>, \<open>Rango_File_Oplog\<close>, \<open>Rango_Log_Calls\<close> (\<open>crates/oplog\<close>): append and read, compaction, torn appends,
    and what any run of calls leaves for a process that opens the files again.
  \<^item> \<open>Rango_Engine\<close>, \<open>Rango_Engine_Local\<close>, \<open>Rango_Engine_Views\<close>, \<open>Rango_Engine_Sync\<close>, \<open>Rango_Engine_Replay\<close>,
    \<open>Rango_Engine_Snapshots\<close>, \<open>Rango_Engine_Types\<close>, \<open>Rango_Engine_Effects\<close> (\<open>crates/core\<close>): the operations with
    their effect on any storage, updates and deletes with every way they end; \<open>find\<close> refines filter, sort, skip, limit, project; the last writer wins over a live document; replay does not
    depend on order; snapshots; and the type every stored document keeps, whatever is called and fails, as long as no call brings an ill-typed one.
  \<^item> \<open>Rango_Engine_Converge\<close>, \<open>Rango_Engine_Race\<close> (\<open>crates/core\<close>): replicas that receive the same mutations in
    any batches, order and repetition hold the same documents; updates on several threads, interleaved by a
    schedule, which can undo each other.
  \<^item> \<open>Rango_Control_Plane\<close>: the write, read and promotion paths over arbitrary hooks.
  \<^item> \<open>Rango_File_Device\<close>, \<open>Rango_Sync_Queue\<close>, \<open>Rango_Checkpoint\<close>, \<open>Rango_Sync\<close> (\<open>crates/sync\<close>): the queue as a state
    machine over the bytes of its file, the checkpoint, the client and one run of the scheduler.
  \<^item> \<open>Rango_Retrieval\<close>, \<open>Rango_Server\<close>, \<open>Rango_Server_Requests\<close>, \<open>Rango_Server_Safety\<close>, \<open>Rango_Server_Log\<close>,
    \<open>Rango_Server_Limits\<close>, \<open>Rango_Server_Main\<close>, \<open>Rango_Server_Race\<close> (\<open>crates/server\<close>): ranking, the state and
    the handlers, what every request keeps, the log and its indexes, isolation and rate; the process: what
    survives a restart and whom a started server serves; and appends on several threads, interleaved by a
    schedule: what every schedule keeps, and how retries that overtake each other are written again.
  \<^item> \<open>Rango_Hub\<close> (\<open>crates/server\<close>, \<open>crates/sync\<close>): the routes and layers of the application, and a network that
    carries the client's requests to it and loses some: what a push acknowledges is logged once and for all.
  \<^item> \<open>Rango_Index\<close> (\<open>crates/index\<close>): the answers of the secondary indexes are read off the history of the calls.
  \<^item> \<open>Rango_Import\<close>, \<open>Rango_Import_Trip\<close>, \<open>Rango_Bindings\<close> (\<open>crates/sdk-rust\<close>, \<open>crates/node\<close>, \<open>crates/python\<close>): JSON
    lines in and out, what comes back of an exported document, the client, and the identifiers the bindings hand out and take back.
  \<^item> \<open>Rango_Cli\<close>, \<open>Rango_Doctor\<close>, \<open>Rango_Cli_Sync\<close>, \<open>Rango_Cli_Main\<close> (\<open>crates/cli\<close>): workspaces and the commands on
    them, the diagnostics, the one-shot synchronisation, and the dispatch of the commands: a passphrase
    guards its workspace from reading, writing and synchronising, by whatever path it is reached, and a path with parent references is refused only
    where nothing exists.
  \<^item> \<open>Rango_Smoke\<close>, \<open>Rango_Stability\<close>, \<open>Rango_Demos\<close> (\<open>examples\<close>): the programs that run the library from end to
    end. The checks of the smoke run and the assertions of the SDK run hold on any lawful storage; the wedge
    shows on the second node what the agent wrote on the first; the gateway deletes the sensor it updated.
  \<^item> \<open>Rango_Adversarial\<close>, \<open>Rango_Crud_Bench\<close> (\<open>benches\<close>, \<open>crates/core/benches\<close>): what the benchmarks run and
    assert. Poisoned writes are rejected, one tenant sees no write of another, a replayed log gives the same
    checkpoint, and the look-ups and updates that are timed are hits.

  Termination. No definition uses fuel: the recursions follow a list, a structure or a measure. The one
  loop that may run forever, in which the synchronisation enqueues the log, is a partial function, and
  that it returns on every log without the largest number is a theorem (\<open>sync_command_returns\<close>).

  Not modelled, and why: poisoned locks, as no thread of the model panics while it holds one; log output,
  printed progress and the parsing of arguments; the texts the HTTP framework adds to a refusal; the set-up
  of telemetry; read errors in the middle of an imported file; the times and reports of the benchmark harness, the listing of a skill, and the values the
  SDK run only builds. The theorems on the engine and on the server's handlers take calls one after the
  other, in any order; what runs between the accesses of one append or one update is the subject of
  \<open>Rango_Server_Race\<close> and \<open>Rango_Engine_Race\<close> alone. The database itself, with its crash recovery, is a
  parameter with the laws of transactions on tables.
\<close>

end
